(* ===== verification/Go_Prelude.thy ===== *)
theory Go_Prelude
  imports Complex_Main
begin

text \<open>
  The part of the Go language and its standard library that the modelled packages use:
  byte strings (\<open>strings\<close>, \<open>bytes\<close>), decimal numbers (\<open>strconv\<close>, \<open>fmt\<close>) and
  time stamps (\<open>time\<close>).  A Go string is a list of bytes, so a \<open>string\<close> here; letter case
  and white space are those of ASCII.  A Go \<open>int\<close> and \<open>int64\<close> is an unbounded \<open>int\<close> whose
  range is checked where the code checks it (\<open>strconv\<close>) or where it may wrap.  A
  \<open>time.Time\<close> is the \<open>int\<close> of its nanoseconds since the epoch and a \<open>time.Duration\<close> the
  \<open>int\<close> of its nanoseconds.  A finite \<open>float64\<close> is the rational it denotes; its rounding to
  53 bits, the infinities and NaN are not modelled.
\<close>

named_theorems go_str \<open>unfolding and simplification rules of the string helpers\<close>
named_theorems go_res \<open>case rules for fallible results\<close>

section \<open>Results\<close>

text \<open>A fallible Go call returns \<open>(value, error)\<close>: \<open>Inl\<close> the error text, \<open>Inr\<close> the value.\<close>

type_synonym 'a result = "string + 'a"

fun is_ok :: "'a result \<Rightarrow> bool" where
  "is_ok (Inl _) = False"
| "is_ok (Inr _) = True"

lemma is_ok_iff [go_res]: "is_ok r \<longleftrightarrow> (\<exists>v. r = Inr v)"
  by (cases r) auto

section \<open>Strings\<close>

definition has_prefix :: "string \<Rightarrow> string \<Rightarrow> bool" where
  "has_prefix s p \<longleftrightarrow> take (length p) s = p"

definition has_suffix :: "string \<Rightarrow> string \<Rightarrow> bool" where
  "has_suffix s p \<longleftrightarrow> length p \<le> length s \<and> drop (length s - length p) s = p"

definition trim_prefix :: "string \<Rightarrow> string \<Rightarrow> string" where
  "trim_prefix s p = (if has_prefix s p then drop (length p) s else s)"

definition trim_suffix :: "string \<Rightarrow> string \<Rightarrow> string" where
  "trim_suffix s p = (if has_suffix s p then take (length s - length p) s else s)"

text \<open>\<open>strings.Index\<close>: the position of the first occurrence, \<open>None\<close> for Go's \<open>-1\<close>.\<close>

fun str_index :: "string \<Rightarrow> string \<Rightarrow> nat option" where
  "str_index [] p = (if p = [] then Some 0 else None)"
| "str_index (c # cs) p =
     (if has_prefix (c # cs) p then Some 0 else map_option Suc (str_index cs p))"

definition str_contains :: "string \<Rightarrow> string \<Rightarrow> bool" where
  "str_contains s p \<longleftrightarrow> str_index s p \<noteq> None"

definition is_space :: "char \<Rightarrow> bool" where
  "is_space c \<longleftrightarrow>
     c = CHR '' '' \<or> (9 \<le> (of_char c :: nat) \<and> (of_char c :: nat) \<le> 13)"

definition trim_space :: "string \<Rightarrow> string" where
  "trim_space s = rev (dropWhile is_space (rev (dropWhile is_space s)))"

definition lower_char :: "char \<Rightarrow> char" where
  "lower_char c =
     (let n = of_char c :: nat in if 65 \<le> n \<and> n \<le> 90 then char_of (n + 32) else c)"

definition to_lower :: "string \<Rightarrow> string" where
  "to_lower s = map lower_char s"

text \<open>\<open>strings.Split\<close> with a one-byte separator.\<close>

fun split_on :: "char \<Rightarrow> string \<Rightarrow> string list" where
  "split_on d [] = [[]]"
| "split_on d (c # cs) =
     (if c = d then [] # split_on d cs
      else case split_on d cs of [] \<Rightarrow> [[c]] | f # fs \<Rightarrow> (c # f) # fs)"

text \<open>\<open>strings.Join\<close>.\<close>

fun join_with :: "string \<Rightarrow> string list \<Rightarrow> string" where
  "join_with d [] = []"
| "join_with d [x] = x"
| "join_with d (x # y # ys) = x @ d @ join_with d (y # ys)"

text \<open>\<open>strings.SplitN\<close>, \<open>n > 0\<close>: the last piece keeps the separators that remain.\<close>

fun split_n :: "char \<Rightarrow> nat \<Rightarrow> string \<Rightarrow> string list" where
  "split_n d 0 s = []"
| "split_n d (Suc 0) s = [s]"
| "split_n d (Suc (Suc n)) s =
     (case dropWhile (\<lambda>c. c \<noteq> d) s of
        [] \<Rightarrow> [s]
      | _ # rest \<Rightarrow> takeWhile (\<lambda>c. c \<noteq> d) s # split_n d (Suc n) rest)"

lemma has_prefix_append [simp]: "has_prefix (p @ s) p"
  by (simp add: has_prefix_def)

lemma has_prefix_iff: "has_prefix s p \<longleftrightarrow> (\<exists>t. s = p @ t)"
  by (auto simp: has_prefix_def) (metis append_take_drop_id)

lemma has_suffix_iff: "has_suffix s p \<longleftrightarrow> (\<exists>t. s = t @ p)"
proof
  assume "has_suffix s p"
  then have "s = take (length s - length p) s @ p"
    by (metis append_take_drop_id has_suffix_def)
  then show "\<exists>t. s = t @ p" by blast
qed (auto simp: has_suffix_def)

lemma trim_prefix_append [simp]: "trim_prefix (p @ s) p = s"
  by (simp add: trim_prefix_def)

lemma has_suffix_append [simp]: "has_suffix (s @ p) p"
  by (auto simp: has_suffix_iff)

lemma trim_suffix_append [simp]: "trim_suffix (s @ p) p = s"
  by (simp add: trim_suffix_def)

lemma split_n_field [simp]:
  assumes "d \<notin> set f"
  shows "split_n d (Suc (Suc n)) (f @ d # rest) = f # split_n d (Suc n) rest"
proof -
  have ne: "\<And>x. x \<in> set f \<Longrightarrow> x \<noteq> d" using assms by auto
  then have t: "takeWhile (\<lambda>c. c \<noteq> d) (f @ d # rest) = f"
    by (simp add: takeWhile_append2)
  from ne have u: "dropWhile (\<lambda>c. c \<noteq> d) (f @ d # rest) = d # rest"
    by (simp add: dropWhile_append2)
  show ?thesis by (simp only: split_n.simps t u list.case)
qed

lemma split_n_last: "d \<notin> set f \<Longrightarrow> split_n d (Suc n) f = [f]"
proof (cases n)
  case (Suc m)
  assume "d \<notin> set f"
  then have "dropWhile (\<lambda>c. c \<noteq> d) f = []" by (auto simp: dropWhile_eq_Nil_conv)
  then show ?thesis by (simp only: Suc split_n.simps list.case)
qed simp

section \<open>Decimal integers\<close>

definition digit_char :: "nat \<Rightarrow> char" where
  "digit_char d = char_of (48 + d)"

definition digit_val :: "char \<Rightarrow> nat option" where
  "digit_val c = (let n = of_char c :: nat in if 48 \<le> n \<and> n \<le> 57 then Some (n - 48) else None)"

fun nat_digits :: "nat \<Rightarrow> string" where
  "nat_digits n =
     (if n < 10 then [digit_char n] else nat_digits (n div 10) @ [digit_char (n mod 10)])"

declare nat_digits.simps [simp del]

text \<open>Reading digits, most significant first; \<open>None\<close> at the first byte that is no digit.\<close>

fun digits_val :: "nat \<Rightarrow> string \<Rightarrow> nat option" where
  "digits_val acc [] = Some acc"
| "digits_val acc (c # cs) =
     (case digit_val c of None \<Rightarrow> None | Some d \<Rightarrow> digits_val (acc * 10 + d) cs)"

definition itoa :: "int \<Rightarrow> string" where
  "itoa i = (if i < 0 then CHR ''-'' # nat_digits (nat (- i)) else nat_digits (nat i))"

definition in_int64 :: "int \<Rightarrow> bool" where
  "in_int64 i \<longleftrightarrow> - (2 ^ 63) \<le> i \<and> i < 2 ^ 63"

text \<open>
  \<open>strconv.Atoi\<close> and \<open>strconv.ParseInt(s, 10, 64)\<close>: an optional sign, at least one digit,
  nothing else, and a value in range; \<open>None\<close> is the error return.
\<close>

definition unsigned_val :: "string \<Rightarrow> nat option" where
  "unsigned_val s = (if s = [] then None else digits_val 0 s)"

definition signed_val :: "string \<Rightarrow> int option" where
  "signed_val s =
     (case s of
        [] \<Rightarrow> None
      | c # cs \<Rightarrow>
          if c = CHR ''-'' then map_option (\<lambda>n. - int n) (unsigned_val cs)
          else if c = CHR ''+'' then map_option int (unsigned_val cs)
          else map_option int (unsigned_val s))"

definition atoi :: "string \<Rightarrow> int option" where
  "atoi s =
     (case signed_val s of
        None \<Rightarrow> None
      | Some i \<Rightarrow> if in_int64 i then Some i else None)"

lemma of_char_digit_char [simp]: "d < 10 \<Longrightarrow> of_char (digit_char d) = 48 + d"
  by (simp add: digit_char_def)

lemma digit_val_digit_char [simp]: "d < 10 \<Longrightarrow> digit_val (digit_char d) = Some d"
  by (simp add: digit_val_def)

lemma digits_val_append:
  "digits_val acc (xs @ ys) =
     (case digits_val acc xs of None \<Rightarrow> None | Some a \<Rightarrow> digits_val a ys)"
  by (induction xs arbitrary: acc) (auto split: option.splits)

lemma nat_digits_nonempty [simp]: "nat_digits n \<noteq> []"
  by (subst nat_digits.simps) simp

lemma digits_val_nat_digits [simp]: "digits_val 0 (nat_digits n) = Some n"
proof (induction n rule: nat_digits.induct)
  case (1 n)
  show ?case
  proof (cases "n < 10")
    case True
    then show ?thesis by (subst nat_digits.simps) simp
  next
    case False
    then show ?thesis using 1
      by (subst nat_digits.simps) (simp add: digits_val_append)
  qed
qed

lemma set_nat_digits: "c \<in> set (nat_digits n) \<Longrightarrow> \<exists>d<10. c = digit_char d"
proof (induction n rule: nat_digits.induct)
  case (1 n)
  show ?case
  proof (cases "n < 10")
    case True
    with 1(2) show ?thesis by (subst (asm) nat_digits.simps) auto
  next
    case False
    with 1(2) have "c \<in> set (nat_digits (n div 10)) \<or> c = digit_char (n mod 10)"
      by (subst (asm) nat_digits.simps) auto
    with False 1(1) show ?thesis by (auto intro: exI [of _ "n mod 10"])
  qed
qed

lemma of_char_digit_range:
  "c \<in> set (nat_digits n) \<Longrightarrow> 48 \<le> (of_char c :: nat) \<and> (of_char c :: nat) \<le> 57"
  using set_nat_digits by fastforce

lemma nat_digits_no_char [simp]:
  assumes "(of_char c :: nat) < 48 \<or> 57 < (of_char c :: nat)"
  shows "c \<notin> set (nat_digits n)"
  using of_char_digit_range [of c n] assms by auto

lemma itoa_no_bar [simp]: "CHR ''|'' \<notin> set (itoa i)"
  by (auto simp: itoa_def)

lemma unsigned_val_nat_digits [simp]: "unsigned_val (nat_digits n) = Some n"
  by (simp add: unsigned_val_def)

lemma signed_val_nat_digits: "signed_val (nat_digits n) = Some (int n)"
proof -
  obtain c cs where c: "nat_digits n = c # cs" by (cases "nat_digits n") auto
  then have "c \<in> set (nat_digits n)" by simp
  then have "c \<noteq> CHR ''-''" and "c \<noteq> CHR ''+''"
    using nat_digits_no_char [of "CHR ''-''" n] nat_digits_no_char [of "CHR ''+''" n] by auto
  with c show ?thesis
    using unsigned_val_nat_digits [of n] by (simp add: signed_val_def)
qed

lemma signed_val_itoa: "signed_val (itoa i) = Some i"
proof (cases "i < 0")
  case True
  then show ?thesis by (simp add: itoa_def signed_val_def)
next
  case False
  then show ?thesis by (simp add: itoa_def signed_val_nat_digits)
qed

lemma atoi_itoa [simp]: "in_int64 i \<Longrightarrow> atoi (itoa i) = Some i"
  by (simp add: atoi_def signed_val_itoa)

lemma atoi_in_int64: "atoi s = Some i \<Longrightarrow> in_int64 i"
  by (auto simp: atoi_def split: option.splits if_splits)

lemma itoa_nonempty [simp]: "itoa i \<noteq> []"
  by (simp add: itoa_def)

section \<open>Decimal fractions\<close>

text \<open>\<open>fmt\<close> rounds half to even on the exact value.\<close>

definition round_half_even :: "rat \<Rightarrow> int" where
  "round_half_even x =
     (let f = \<lfloor>x\<rfloor>; d = x - of_int f
      in if d < 1 / 2 then f else if d > 1 / 2 then f + 1 else if even f then f else f + 1)"

definition pad4 :: "nat \<Rightarrow> string" where
  "pad4 n = [digit_char (n div 1000 mod 10), digit_char (n div 100 mod 10),
             digit_char (n div 10 mod 10), digit_char (n mod 10)]"

text \<open>The verb \<open>%.4f\<close>.\<close>

definition fmt_f4 :: "rat \<Rightarrow> string" where
  "fmt_f4 x =
     (let m = nat (round_half_even (\<bar>x\<bar> * 10000))
      in (if x < 0 then [CHR ''-''] else []) @
         nat_digits (m div 10000) @ CHR ''.'' # pad4 (m mod 10000))"

text \<open>
  \<open>strconv.ParseFloat\<close> on decimal input: sign, digits with an optional point, optional
  exponent.  The hexadecimal, \<open>inf\<close> and \<open>nan\<close> forms are rejected here.
\<close>

definition scale10 :: "rat \<Rightarrow> int \<Rightarrow> rat" where
  "scale10 x e = (if 0 \<le> e then x * 10 ^ nat e else x / 10 ^ nat (- e))"

definition parse_mantissa :: "string \<Rightarrow> rat option" where
  "parse_mantissa s =
     (let ip = takeWhile (\<lambda>c. c \<noteq> CHR ''.'') s;
          fp = drop 1 (dropWhile (\<lambda>c. c \<noteq> CHR ''.'') s)
      in if ip = [] \<and> fp = [] then None
         else map_option (\<lambda>n. of_nat n / 10 ^ length fp) (digits_val 0 (ip @ fp)))"

definition is_exp_char :: "char \<Rightarrow> bool" where
  "is_exp_char c \<longleftrightarrow> c = CHR ''e'' \<or> c = CHR ''E''"

definition parse_unsigned_float :: "string \<Rightarrow> rat option" where
  "parse_unsigned_float s =
     (case parse_mantissa (takeWhile (\<lambda>c. \<not> is_exp_char c) s) of
        None \<Rightarrow> None
      | Some x \<Rightarrow>
          (case dropWhile (\<lambda>c. \<not> is_exp_char c) s of
             [] \<Rightarrow> Some x
           | _ # e \<Rightarrow> map_option (scale10 x) (signed_val e)))"

definition parse_float :: "string \<Rightarrow> rat option" where
  "parse_float s =
     (case s of
        [] \<Rightarrow> None
      | c # cs \<Rightarrow>
          if c = CHR ''-'' then map_option uminus (parse_unsigned_float cs)
          else if c = CHR ''+'' then parse_unsigned_float cs
          else parse_unsigned_float s)"

lemma set_pad4: "c \<in> set (pad4 n) \<Longrightarrow> \<exists>d<10. c = digit_char d"
  unfolding pad4_def by (auto intro: exI [of _ "_ mod 10"])

lemma horner4:
  fixes n :: nat
  assumes "w = t" and "h = t * 10 + x" and "e = h * 10 + y" and "n = e * 10 + z"
  shows "(((a * 10 + w) * 10 + x) * 10 + y) * 10 + z = a * 10000 + n"
  using assms by simp

lemma digits_val_pad4: "n < 10000 \<Longrightarrow> digits_val a (pad4 n) = Some (a * 10000 + n)"
proof -
  assume n: "n < 10000"
  have "digits_val a (pad4 n) =
      Some ((((a * 10 + n div 1000 mod 10) * 10 + n div 100 mod 10) * 10 + n div 10 mod 10) * 10
        + n mod 10)"
    by (simp add: pad4_def)
  also have "(((a * 10 + n div 1000 mod 10) * 10 + n div 100 mod 10) * 10 + n div 10 mod 10) * 10
        + n mod 10 = a * 10000 + n"
  proof -
    have a: "n div 1000 mod 10 = n div 1000" using n by simp
    have b: "n div 100 = n div 1000 * 10 + n div 100 mod 10"
      using div_mult2_eq [of n 100 10] by simp
    have c: "n div 10 = n div 100 * 10 + n div 10 mod 10"
      using div_mult2_eq [of n 10 10] by simp
    have d: "n = n div 10 * 10 + n mod 10" by simp
    show ?thesis by (rule horner4 [OF a b c d])
  qed
  finally show ?thesis .
qed

text \<open>The text of \<open>%.4f\<close> for a non-negative number, and what reading it gives.\<close>

definition fixed4 :: "nat \<Rightarrow> string" where
  "fixed4 m = nat_digits (m div 10000) @ CHR ''.'' # pad4 (m mod 10000)"

lemma fixed4_no_char:
  assumes "(of_char c :: nat) < 46 \<or> 57 < (of_char c :: nat)"
  shows "c \<notin> set (fixed4 m)"
proof
  assume "c \<in> set (fixed4 m)"
  then have "c \<in> set (nat_digits (m div 10000)) \<or> c = CHR ''.'' \<or> c \<in> set (pad4 (m mod 10000))"
    by (auto simp: fixed4_def)
  then consider "c \<in> set (nat_digits (m div 10000))" | "c = CHR ''.''" | "c \<in> set (pad4 (m mod 10000))"
    by blast
  then show False
  proof cases
    case 1
    then show ?thesis using of_char_digit_range [of c] assms by fastforce
  next
    case 2
    then show ?thesis using assms by simp
  next
    case 3
    then obtain d where "d < 10" and "c = digit_char d" using set_pad4 by blast
    then show ?thesis using assms by simp
  qed
qed

lemma fmt_f4_nonneg:
  "0 \<le> x \<Longrightarrow> fmt_f4 x = fixed4 (nat (round_half_even (x * 10000)))"
  by (simp add: fmt_f4_def fixed4_def Let_def)

lemma parse_mantissa_fixed4: "parse_mantissa (fixed4 m) = Some (of_nat m / 10000)"
proof -
  let ?i = "nat_digits (m div 10000)" and ?p = "pad4 (m mod 10000)"
  have nd: "\<And>x. x \<in> set ?i \<Longrightarrow> x \<noteq> CHR ''.''"
    using nat_digits_no_char [of "CHR ''.''"] by fastforce
  have t: "takeWhile (\<lambda>c. c \<noteq> CHR ''.'') (?i @ CHR ''.'' # ?p) = ?i"
    using nd by (simp add: takeWhile_append2)
  have u: "dropWhile (\<lambda>c. c \<noteq> CHR ''.'') (?i @ CHR ''.'' # ?p) = CHR ''.'' # ?p"
    using nd by (simp add: dropWhile_append2)
  have l: "length ?p = 4" by (simp add: pad4_def)
  have v: "digits_val 0 (?i @ ?p) = Some (m div 10000 * 10000 + m mod 10000)"
    by (simp add: digits_val_append digits_val_pad4)
  show ?thesis
    unfolding fixed4_def parse_mantissa_def t u Let_def
    using v l by (simp add: div_mult_mod_eq)
qed

lemma parse_float_fixed4: "parse_float (fixed4 m) = Some (of_nat m / 10000)"
proof -
  have ne: "\<And>x. x \<in> set (fixed4 m) \<Longrightarrow> \<not> is_exp_char x"
    using fixed4_no_char [of "CHR ''e''" m] fixed4_no_char [of "CHR ''E''" m]
    by (auto simp: is_exp_char_def)
  have t: "takeWhile (\<lambda>c. \<not> is_exp_char c) (fixed4 m) = fixed4 m"
    and u: "dropWhile (\<lambda>c. \<not> is_exp_char c) (fixed4 m) = []"
    using ne by (simp_all add: takeWhile_eq_all_conv dropWhile_eq_Nil_conv)
  obtain c cs where c: "fixed4 m = c # cs" by (cases "fixed4 m") (auto simp: fixed4_def)
  then have "c \<noteq> CHR ''-''" and "c \<noteq> CHR ''+''"
    using fixed4_no_char [of "CHR ''-''" m] fixed4_no_char [of "CHR ''+''" m] by auto
  with c show ?thesis
    using t u parse_mantissa_fixed4 [of m]
    by (simp add: parse_float_def parse_unsigned_float_def)
qed

lemma round_half_even_int [simp]: "round_half_even (of_int i) = i"
  by (simp add: round_half_even_def)

lemma round_half_even_nat [simp]: "round_half_even (of_nat n) = int n"
  using round_half_even_int [of "int n"] by simp

lemma round_half_even_nonneg: "0 \<le> x \<Longrightarrow> 0 \<le> round_half_even x"
  by (simp add: round_half_even_def Let_def)

lemma round_half_even_close: "\<bar>of_int (round_half_even x) - x\<bar> \<le> 1 / 2"
proof -
  have "of_int \<lfloor>x\<rfloor> \<le> x" and "x < of_int \<lfloor>x\<rfloor> + 1" by linarith+
  then show ?thesis by (auto simp: round_half_even_def Let_def)
qed

text \<open>The number that \<open>%.4f\<close> writes.\<close>

definition round4 :: "rat \<Rightarrow> rat" where
  "round4 x = of_int (round_half_even (x * 10000)) / 10000"

lemma round4_nonneg: "0 \<le> x \<Longrightarrow> 0 \<le> round4 x"
  by (simp add: round4_def round_half_even_nonneg)

lemma round4_idem [simp]: "round4 (round4 x) = round4 x"
  by (simp add: round4_def)

lemma round4_close: "\<bar>round4 x - x\<bar> \<le> 1 / 20000"
  using round_half_even_close [of "x * 10000"] unfolding round4_def
  by (simp add: abs_le_iff field_simps)

lemma parse_float_fmt_f4 [simp]: "0 \<le> x \<Longrightarrow> parse_float (fmt_f4 x) = Some (round4 x)"
  using round_half_even_nonneg [of "x * 10000"]
  by (simp add: fmt_f4_nonneg parse_float_fixed4 round4_def of_nat_nat)

lemma fmt_f4_round4 [simp]: "0 \<le> x \<Longrightarrow> fmt_f4 (round4 x) = fmt_f4 x"
  by (simp add: fmt_f4_nonneg round4_nonneg) (simp add: round4_def)

lemma fmt_f4_no_bar [simp]: "CHR ''|'' \<notin> set (fmt_f4 x)"
  using fixed4_no_char [of "CHR ''|''"] by (auto simp: fmt_f4_def fixed4_def Let_def)

section \<open>Time\<close>

type_synonym time = int

definition millisecond :: int where
  "millisecond = 1000000"

definition second :: int where
  "second = 1000 * millisecond"

definition unix_milli :: "time \<Rightarrow> int" where
  "unix_milli t = t div millisecond"

end
