(* ===== verification/Redis_Model.thy ===== *)
theory Redis_Model
  imports Go_Prelude "HOL-Library.AList" "HOL-Library.Char_ord"
    "HOL-Library.List_Lexorder" "HOL-Library.Product_Lexorder"
begin

text \<open>
  The Redis server the broker talks to, as an interface.  Redis and the client library
  go-redis are no code of the repository: every broker definition takes a client
  \<open>R\<close> of type \<open>'w redis\<close> as an argument and threads the outside world \<open>'w\<close> through its calls.
  \<open>redis_exec\<close> writes down the documented effect of the commands the broker issues, on the
  data the server holds; it is only used to state what a client may be relied on for:
  the locale \<open>redis_server\<close> (every call may fail, a failed call may still have been applied,
  \<open>MULTI/EXEC\<close> and scripts are atomic, time may pass before any call) and its extension
  \<open>redis_reliable\<close> (no call fails).  Both are interpreted on the in-memory clients
  \<open>sim_redis\<close> and \<open>mem_redis\<close>.
\<close>

section \<open>Commands, replies and the data of the server\<close>

datatype cmd =
    ZAdd string int string
  | ZAddXX string int string
  | ZRem string string
  | ZRangeByScore string int int
  | ZCard string
  | Del "string list"
  | HIncrBy string string int
  | HGet string string
  | HMGet string "string list"
  | HSet string "(string \<times> string) list"
  | HSetNX string string string
  | HDel string "string list"
  | HGetAll string
  | HKeys string
  | Expire string int
  | SetNXPX string int
  | PTTL string
  | XAdd string "(string \<times> string) list"
  | XAck string string "string list"
  | XGroupCreateMkStream string string
  | XGroupDestroy string string
  | XLen string
  | XReadGroup string string string int
  | XAutoClaim string string string int string int
  | XPending string string
  | XPendingExt string string string string int

type_synonym message = "string \<times> (string \<times> string) list"

datatype reply =
    RNil
  | ROk
  | RInt int
  | RStr string
  | ROpts "string option list"
  | RPairs "(string \<times> string) list"
  | RScored "(int \<times> string) list"
  | RStrs "string list"
  | RInts "int list"
  | RMsgs "message list"
  | RClaimed "message list" string
  | RPend "(string \<times> int) list"
  | RErr string

fun is_err :: "reply \<Rightarrow> bool" where
  "is_err (RErr _) = True"
| "is_err _ = False"

text \<open>
  Sorted sets hold their members in the order of \<open>(score, member)\<close>; scores are the
  millisecond time stamps the broker stores.  A hash keeps its expiry in \<open>ttls\<close>, a
  string key of the rate gate in \<open>gates\<close>.  The broker never uses one key for two types.
  A group of a stream keeps how many entries it has delivered, and its pending entries
  list in the order of the ids; the broker never trims a stream.
\<close>

record pel_entry =
  pe_id :: string
  pe_consumer :: string
  pe_at :: int
  pe_count :: int

record rstore =
  clock_ms :: int
  zsets :: "string \<Rightarrow> (int \<times> string) list"
  hashes :: "string \<Rightarrow> (string \<times> string) list"
  ttls :: "string \<Rightarrow> int option"
  gates :: "string \<Rightarrow> int option"
  streams :: "string \<Rightarrow> message list"
  groups :: "string \<Rightarrow> (string \<times> nat) list"
  pels :: "string \<Rightarrow> string \<Rightarrow> pel_entry list"
  next_id :: nat

definition empty_store :: rstore where
  "empty_store = \<lparr>clock_ms = 0, zsets = (\<lambda>_. []), hashes = (\<lambda>_. []), ttls = (\<lambda>_. None),
     gates = (\<lambda>_. None), streams = (\<lambda>_. []), groups = (\<lambda>_. []), pels = (\<lambda>_ _. []), next_id = 1\<rparr>"

definition tick :: "nat \<Rightarrow> rstore \<Rightarrow> rstore" where
  "tick d s = s\<lparr>clock_ms := clock_ms s + int d\<rparr>"

definition expired :: "rstore \<Rightarrow> string \<Rightarrow> bool" where
  "expired s k = (case ttls s k of None \<Rightarrow> False | Some e \<Rightarrow> e \<le> clock_ms s)"

definition hash_at :: "rstore \<Rightarrow> string \<Rightarrow> (string \<times> string) list" where
  "hash_at s k = (if expired s k then [] else hashes s k)"

definition put_hash :: "string \<Rightarrow> (string \<times> string) list \<Rightarrow> rstore \<Rightarrow> rstore" where
  "put_hash k h s =
     s\<lparr>hashes := (hashes s)(k := h),
       ttls := (if expired s k \<or> h = [] then (ttls s)(k := None) else ttls s)\<rparr>"

definition gate_open :: "rstore \<Rightarrow> string \<Rightarrow> bool" where
  "gate_open s k = (case gates s k of None \<Rightarrow> True | Some e \<Rightarrow> e \<le> clock_ms s)"

definition zs_members :: "(int \<times> string) list \<Rightarrow> string set" where
  "zs_members z = snd ` set z"

definition zs_add :: "int \<Rightarrow> string \<Rightarrow> (int \<times> string) list \<Rightarrow> (int \<times> string) list" where
  "zs_add sc m z = insort (sc, m) (filter (\<lambda>p. snd p \<noteq> m) z)"

definition zs_rem :: "string \<Rightarrow> (int \<times> string) list \<Rightarrow> (int \<times> string) list" where
  "zs_rem m z = filter (\<lambda>p. snd p \<noteq> m) z"

definition zs_range :: "int \<Rightarrow> int \<Rightarrow> (int \<times> string) list \<Rightarrow> (int \<times> string) list" where
  "zs_range mx limit z =
     (let due = filter (\<lambda>p. fst p \<le> mx) z in if limit \<le> 0 then due else take (nat limit) due)"

definition del_key :: "string \<Rightarrow> rstore \<Rightarrow> rstore" where
  "del_key k s = s\<lparr>zsets := (zsets s)(k := []), hashes := (hashes s)(k := []),
     ttls := (ttls s)(k := None), gates := (gates s)(k := None),
     streams := (streams s)(k := []), groups := (groups s)(k := []),
     pels := (pels s)(k := (\<lambda>_. []))\<rparr>"

definition key_exists :: "rstore \<Rightarrow> string \<Rightarrow> bool" where
  "key_exists s k \<longleftrightarrow> zsets s k \<noteq> [] \<or> hash_at s k \<noteq> [] \<or> \<not> gate_open s k \<or>
     streams s k \<noteq> [] \<or> groups s k \<noteq> []"

definition hash_int :: "(string \<times> string) list \<Rightarrow> string \<Rightarrow> int option" where
  "hash_int h f = (case map_of h f of None \<Rightarrow> Some 0 | Some v \<Rightarrow> signed_val v)"

fun put_fields :: "(string \<times> string) list \<Rightarrow> (string \<times> string) list \<Rightarrow> (string \<times> string) list" where
  "put_fields [] h = h"
| "put_fields ((f, v) # fvs) h = put_fields fvs (AList.update f v h)"

definition put_pel :: "string \<Rightarrow> string \<Rightarrow> pel_entry list \<Rightarrow> rstore \<Rightarrow> rstore" where
  "put_pel k g ps s = s\<lparr>pels := (pels s)(k := (pels s k)(g := ps))\<rparr>"

text \<open>The number of a stream id \<open>ms-seq\<close>.\<close>

definition sid :: "string \<Rightarrow> int \<times> int" where
  "sid i = (let num = (\<lambda>v. case unsigned_val v of Some n \<Rightarrow> int n | None \<Rightarrow> 0) in
     (num (takeWhile (\<lambda>c. c \<noteq> CHR ''-'') i), num (tl (dropWhile (\<lambda>c. c \<noteq> CHR ''-'') i))))"

text \<open>
  \<open>XAUTOCLAIM\<close> looks at ten entries for each one it may return; an entry whose message is
  gone is dropped and counted, one that is not idle for long enough is passed over.  The
  result: the ids claimed, the list of pending entries, and the cursor.
\<close>

fun autoclaim :: "nat \<Rightarrow> nat \<Rightarrow> (string \<Rightarrow> bool) \<Rightarrow> string \<Rightarrow> int \<Rightarrow> int \<Rightarrow> pel_entry list \<Rightarrow>
    string list \<times> pel_entry list \<times> string" where
  "autoclaim a n live c now idle [] = ([], [], ''0-0'')"
| "autoclaim a n live c now idle (p # ps) =
     (if a = 0 \<or> n = 0 then ([], p # ps, pe_id p)
      else if \<not> live (pe_id p) then autoclaim (a - 1) (n - 1) live c now idle ps
      else if now - pe_at p < idle
      then (let (is, qs, nx) = autoclaim (a - 1) n live c now idle ps in (is, p # qs, nx))
      else (let (is, qs, nx) = autoclaim (a - 1) (n - 1) live c now idle ps
            in (pe_id p # is, p\<lparr>pe_consumer := c, pe_at := now, pe_count := pe_count p + 1\<rparr> # qs, nx)))"

definition no_group :: "string \<Rightarrow> string \<Rightarrow> reply" where
  "no_group k g = RErr (''NOGROUP No such key '' @ k @ '' or consumer group '' @ g)"

section \<open>Documented effect of the commands\<close>

fun redis_exec :: "cmd \<Rightarrow> rstore \<Rightarrow> reply \<times> rstore" where
  "redis_exec (ZAdd k sc m) s =
     (RInt (if m \<in> zs_members (zsets s k) then 0 else 1),
      s\<lparr>zsets := (zsets s)(k := zs_add sc m (zsets s k))\<rparr>)"
| "redis_exec (ZAddXX k sc m) s =
     (RInt 0,
      if m \<in> zs_members (zsets s k)
      then s\<lparr>zsets := (zsets s)(k := zs_add sc m (zsets s k))\<rparr> else s)"
| "redis_exec (ZRem k m) s =
     (RInt (if m \<in> zs_members (zsets s k) then 1 else 0),
      s\<lparr>zsets := (zsets s)(k := zs_rem m (zsets s k))\<rparr>)"
| "redis_exec (ZRangeByScore k mx limit) s = (RScored (zs_range mx limit (zsets s k)), s)"
| "redis_exec (ZCard k) s = (RInt (int (length (zsets s k))), s)"
| "redis_exec (Del ks) s =
     (RInt (int (length (filter (key_exists s) (remdups ks)))), fold del_key ks s)"
| "redis_exec (HIncrBy k f n) s =
     (case hash_int (hash_at s k) f of
        None \<Rightarrow> (RErr ''ERR hash value is not an integer'', s)
      | Some v \<Rightarrow> (RInt (v + n), put_hash k (AList.update f (itoa (v + n)) (hash_at s k)) s))"
| "redis_exec (HGet k f) s =
     (case map_of (hash_at s k) f of None \<Rightarrow> (RNil, s) | Some v \<Rightarrow> (RStr v, s))"
| "redis_exec (HMGet k fs) s = (ROpts (map (map_of (hash_at s k)) fs), s)"
| "redis_exec (HSet k fvs) s =
     (if fvs = [] then (RErr ''ERR wrong number of arguments'', s)
      else (ROk, put_hash k (put_fields fvs (hash_at s k)) s))"
| "redis_exec (HSetNX k f v) s =
     (case map_of (hash_at s k) f of
        None \<Rightarrow> (RInt 1, put_hash k (AList.update f v (hash_at s k)) s)
      | Some _ \<Rightarrow> (RInt 0, s))"
| "redis_exec (HDel k fs) s =
     (RInt (int (card (set fs \<inter> fst ` set (hash_at s k)))),
      put_hash k (filter (\<lambda>p. fst p \<notin> set fs) (hash_at s k)) s)"
| "redis_exec (HGetAll k) s = (RPairs (hash_at s k), s)"
| "redis_exec (HKeys k) s = (RStrs (map fst (hash_at s k)), s)"
| "redis_exec (Expire k secs) s =
     (if hash_at s k = [] then (RInt 0, s)
      else (RInt 1, s\<lparr>ttls := (ttls s)(k := Some (clock_ms s + 1000 * secs))\<rparr>))"
| "redis_exec (SetNXPX k ms) s =
     (if ms \<le> 0 then (RErr ''ERR invalid expire time'', s)
      else if gate_open s k then (ROk, s\<lparr>gates := (gates s)(k := Some (clock_ms s + ms))\<rparr>)
      else (RNil, s))"
| "redis_exec (PTTL k) s =
     (case gates s k of
        None \<Rightarrow> (RInt (-2), s)
      | Some e \<Rightarrow> (RInt (if e \<le> clock_ms s then -2 else e - clock_ms s), s))"
| "redis_exec (XAdd k fvs) s =
     (let i = itoa (int (next_id s)) @ ''-0''
      in (RStr i, s\<lparr>streams := (streams s)(k := streams s k @ [(i, fvs)]), next_id := Suc (next_id s)\<rparr>))"
| "redis_exec (XAck k g ids) s =
     (RInt (int (length (filter (\<lambda>p. pe_id p \<in> set ids) (pels s k g)))),
      put_pel k g (filter (\<lambda>p. pe_id p \<notin> set ids) (pels s k g)) s)"
| "redis_exec (XGroupCreateMkStream k g) s =
     (if map_of (groups s k) g \<noteq> None
      then (RErr ''BUSYGROUP Consumer Group name already exists'', s)
      else (ROk, s\<lparr>groups := (groups s)(k := (g, 0) # groups s k)\<rparr>))"
| "redis_exec (XGroupDestroy k g) s =
     (if streams s k = [] \<and> groups s k = []
      then (RErr ''ERR The XGROUP subcommand requires the key to exist'', s)
      else (RInt (if map_of (groups s k) g \<noteq> None then 1 else 0),
            put_pel k g [] (s\<lparr>groups := (groups s)(k := AList.delete g (groups s k))\<rparr>)))"
| "redis_exec (XLen k) s = (RInt (int (length (streams s k))), s)"
| "redis_exec (XReadGroup k g c count) s =
     (case map_of (groups s k) g of
        None \<Rightarrow> (no_group k g, s)
      | Some n \<Rightarrow>
          (let rest = drop n (streams s k);
               new = (if 0 < count then take (nat count) rest else rest)
           in if new = [] then (RNil, s)
              else (RMsgs new,
                put_pel k g (pels s k g @ map (\<lambda>(i, _). \<lparr>pe_id = i, pe_consumer = c,
                    pe_at = clock_ms s, pe_count = 1\<rparr>) new)
                  (s\<lparr>groups := (groups s)(k := AList.update g (n + length new) (groups s k))\<rparr>))))"
| "redis_exec (XAutoClaim k g c idle start count) s =
     (case map_of (groups s k) g of
        None \<Rightarrow> (no_group k g, s)
      | Some _ \<Rightarrow>
          (if count \<le> 0 then (RErr ''ERR COUNT must be > 0'', s)
           else let early = filter (\<lambda>p. sid (pe_id p) < sid start) (pels s k g);
                    late = filter (\<lambda>p. \<not> sid (pe_id p) < sid start) (pels s k g);
                    (ids, ps, nx) = autoclaim (10 * nat count) (nat count)
                      (\<lambda>i. i \<in> fst ` set (streams s k)) c (clock_ms s) idle late
                in (RClaimed (filter (\<lambda>m. fst m \<in> set ids) (streams s k)) nx,
                    put_pel k g (early @ ps) s)))"
| "redis_exec (XPending k g) s =
     (case map_of (groups s k) g of
        None \<Rightarrow> (no_group k g, s)
      | Some _ \<Rightarrow> (RInt (int (length (pels s k g))), s))"
| "redis_exec (XPendingExt k g start end count) s =
     (case map_of (groups s k) g of
        None \<Rightarrow> (no_group k g, s)
      | Some _ \<Rightarrow> (RPend (take (nat count) (map (\<lambda>p. (pe_id p, pe_count p))
          (filter (\<lambda>p. sid start \<le> sid (pe_id p) \<and> sid (pe_id p) \<le> sid end) (pels s k g)))), s))"

text \<open>Several commands sent together run in order; an error reply does not stop the rest.\<close>

fun redis_exec_all :: "cmd list \<Rightarrow> rstore \<Rightarrow> reply list \<times> rstore" where
  "redis_exec_all [] s = ([], s)"
| "redis_exec_all (c # cs) s =
     (let (r, s1) = redis_exec c s; (rs, s2) = redis_exec_all cs s1 in (r # rs, s2))"

section \<open>The client\<close>

text \<open>
  \<open>r_cmd\<close>: one command and its reply.  \<open>r_pipe\<close>, \<open>r_tx\<close>: \<open>Pipeline\<close> and \<open>TxPipeline\<close> with the
  replies and the error that \<open>Exec\<close> returns.  \<open>r_eval\<close>: \<open>Script.Run\<close>.  A network error is
  a reply \<open>RErr\<close> too.
\<close>

type_synonym script = "rstore \<Rightarrow> reply \<times> rstore"

record 'w redis =
  r_cmd :: "cmd \<Rightarrow> 'w \<Rightarrow> reply \<times> 'w"
  r_pipe :: "cmd list \<Rightarrow> 'w \<Rightarrow> (reply list \<times> string option) \<times> 'w"
  r_tx :: "cmd list \<Rightarrow> 'w \<Rightarrow> (reply list \<times> string option) \<times> 'w"
  r_eval :: "script \<Rightarrow> 'w \<Rightarrow> reply \<times> 'w"

text \<open>\<open>Exec\<close> returns the error of the first command that failed.\<close>

fun first_err :: "reply list \<Rightarrow> string option" where
  "first_err [] = None"
| "first_err (RErr e # rs) = Some e"
| "first_err (r # rs) = first_err rs"

named_theorems redis_frame \<open>what a command leaves unchanged\<close>
named_theorems redis_simps \<open>effect of commands on the observed component\<close>

lemma tick_simps [simp]:
  "zsets (tick d s) = zsets s" "hashes (tick d s) = hashes s" "ttls (tick d s) = ttls s"
  "gates (tick d s) = gates s" "streams (tick d s) = streams s" "groups (tick d s) = groups s"
  "pels (tick d s) = pels s" "clock_ms (tick d s) = clock_ms s + int d"
  "next_id (tick d s) = next_id s"
  by (simp_all add: tick_def)

lemma tick_tick [simp]: "tick a (tick b s) = tick (a + b) s"
  by (simp add: tick_def)

lemma tick_0 [simp]: "tick 0 s = s"
  by (simp add: tick_def)

lemma put_hash_simps [simp]:
  "zsets (put_hash k h s) = zsets s" "gates (put_hash k h s) = gates s"
  "streams (put_hash k h s) = streams s" "groups (put_hash k h s) = groups s"
  "pels (put_hash k h s) = pels s" "clock_ms (put_hash k h s) = clock_ms s"
  by (simp_all add: put_hash_def)

lemma put_pel_simps [simp]:
  "zsets (put_pel k g ps s) = zsets s" "hashes (put_pel k g ps s) = hashes s"
  "ttls (put_pel k g ps s) = ttls s" "gates (put_pel k g ps s) = gates s"
  "streams (put_pel k g ps s) = streams s" "groups (put_pel k g ps s) = groups s"
  "clock_ms (put_pel k g ps s) = clock_ms s" "next_id (put_pel k g ps s) = next_id s"
  "pels (put_pel k g ps s) = (pels s)(k := (pels s k)(g := ps))"
  by (simp_all add: put_pel_def)

lemma hash_at_put_pel [simp]: "hash_at (put_pel k g ps s) h = hash_at s h"
  by (simp add: hash_at_def expired_def split: option.splits)

lemma hash_at_put_hash [simp]:
  "hash_at (put_hash k h s) k' = (if k' = k then h else hash_at s k')"
  by (auto simp: hash_at_def put_hash_def expired_def split: option.splits)

lemma map_of_update [simp]: "map_of (AList.update k v al) = (map_of al)(k \<mapsto> v)"
  by (rule update_conv')

lemma map_of_put_fields: "map_of (put_fields fvs h) f =
    (case map_of (rev fvs) f of Some v \<Rightarrow> Some v | None \<Rightarrow> map_of h f)"
  by (induction fvs h rule: put_fields.induct)
    (auto simp: map_add_def split: option.splits)

lemma clock_mono: "clock_ms (snd (redis_exec c s)) = clock_ms s"
proof (cases c)
  case (Del ks)
  have "clock_ms (fold del_key ks s) = clock_ms s" for ks
    by (induction ks arbitrary: s) (simp_all add: del_key_def)
  with Del show ?thesis by simp
qed (auto split: option.splits simp: Let_def case_prod_beta)

lemma redis_exec_all_append:
  "snd (redis_exec_all (cs @ ds) s) = snd (redis_exec_all ds (snd (redis_exec_all cs s)))"
  by (induction cs arbitrary: s) (simp_all add: Let_def case_prod_beta)

lemma length_redis_exec_all [simp]: "length (fst (redis_exec_all cs s)) = length cs"
  by (induction cs arbitrary: s) (simp_all add: Let_def case_prod_beta)

lemma first_err_None: "first_err rs = None \<longleftrightarrow> (\<forall>r\<in>set rs. \<not> is_err r)"
  by (induction rs rule: first_err.induct) auto

section \<open>Sorted sets\<close>

definition zs_wf :: "(int \<times> string) list \<Rightarrow> bool" where
  "zs_wf z \<longleftrightarrow> sorted z \<and> distinct (map snd z)"

lemma zs_members_add [simp]: "zs_members (zs_add sc m z) = insert m (zs_members z)"
  by (auto simp: zs_members_def zs_add_def set_insort_key image_iff)

lemma zs_members_rem [simp]: "zs_members (zs_rem m z) = zs_members z - {m}"
  by (auto simp: zs_members_def zs_rem_def)

lemma distinct_snd_insort:
  "distinct (map snd (insort p z)) \<longleftrightarrow> snd p \<notin> snd ` set z \<and> distinct (map snd z)"
  by (induction z) (auto simp: set_insort_key)

lemma zs_wf_add: "zs_wf z \<Longrightarrow> zs_wf (zs_add sc m z)"
  by (auto simp: zs_wf_def zs_add_def sorted_insort sorted_wrt_filter distinct_snd_insort distinct_map_filter)

lemma zs_wf_rem: "zs_wf z \<Longrightarrow> zs_wf (zs_rem m z)"
  by (auto simp: zs_wf_def zs_rem_def sorted_wrt_filter distinct_map_filter)

lemma zs_range_due: "p \<in> set (zs_range mx l z) \<Longrightarrow> p \<in> set z \<and> fst p \<le> mx"
  by (auto simp: zs_range_def Let_def split: if_splits dest: in_set_takeD)

lemma zs_range_length: "0 < l \<Longrightarrow> length (zs_range mx l z) \<le> nat l"
  by (simp add: zs_range_def Let_def)

lemma zs_range_wf: "zs_wf z \<Longrightarrow> zs_wf (zs_range mx l z)"
  by (auto simp: zs_wf_def zs_range_def Let_def sorted_wrt_filter distinct_map_filter
      sorted_wrt_take take_map [symmetric])

lemma zs_rem_absent: "m \<notin> zs_members z \<Longrightarrow> zs_rem m z = z"
  by (force simp: zs_rem_def zs_members_def filter_id_conv)

section \<open>What a client may be relied on for\<close>

locale redis_server =
  fixes R :: "'w redis" and view :: "'w \<Rightarrow> rstore"
  assumes cmd_law: "\<exists>d. (fst (r_cmd R c w), view (snd (r_cmd R c w))) = redis_exec c (tick d (view w)) \<or>
      is_err (fst (r_cmd R c w)) \<and>
      view (snd (r_cmd R c w)) \<in> {tick d (view w), snd (redis_exec c (tick d (view w)))}"
    and pipe_law: "\<exists>d n. view (snd (r_pipe R cs w)) = snd (redis_exec_all (take n cs) (tick d (view w))) \<and>
      (snd (fst (r_pipe R cs w)) = None \<longrightarrow>
        length cs \<le> n \<and> fst (fst (r_pipe R cs w)) = fst (redis_exec_all cs (tick d (view w))))"
    and pipe_err: "snd (fst (r_pipe R cs w)) = first_err (fst (fst (r_pipe R cs w)))"
    and tx_law: "\<exists>d. (view (snd (r_tx R cs w)) = tick d (view w) \<and> snd (fst (r_tx R cs w)) \<noteq> None) \<or>
      (view (snd (r_tx R cs w)) = snd (redis_exec_all cs (tick d (view w))) \<and>
        (snd (fst (r_tx R cs w)) = None \<longrightarrow>
          fst (fst (r_tx R cs w)) = fst (redis_exec_all cs (tick d (view w)))))"
    and tx_err: "snd (fst (r_tx R cs w)) = first_err (fst (fst (r_tx R cs w)))"
    and eval_law: "\<exists>d. (fst (r_eval R p w), view (snd (r_eval R p w))) = p (tick d (view w)) \<or>
      is_err (fst (r_eval R p w)) \<and>
      view (snd (r_eval R p w)) \<in> {tick d (view w), snd (p (tick d (view w)))}"
begin

text \<open>A command whose reply is no error has had its documented effect.\<close>

lemma cmd_applied:
  assumes "r_cmd R c w = (r, w')" and "\<not> is_err r"
  obtains d where "(r, view w') = redis_exec c (tick d (view w))"
  using cmd_law [of c w] assms by auto

lemma cmd_cases:
  assumes "r_cmd R c w = (r, w')"
  obtains d where "view w' = snd (redis_exec c (tick d (view w)))"
    and "\<not> is_err r \<Longrightarrow> r = fst (redis_exec c (tick d (view w)))"
  | d where "view w' = tick d (view w)" and "is_err r"
  using cmd_law [of c w] assms by (metis fst_conv insertE singletonD snd_conv)

lemma tx_cases:
  assumes "r_tx R cs w = ((rs, e), w')"
  obtains d where "view w' = tick d (view w)" and "e \<noteq> None"
  | d where "view w' = snd (redis_exec_all cs (tick d (view w)))"
  using tx_law [of cs w] assms by auto

lemma tx_ok:
  assumes "r_tx R cs w = ((rs, None), w')"
  obtains d where "view w' = snd (redis_exec_all cs (tick d (view w)))"
  using tx_law [of cs w] assms by auto

lemma eval_cases:
  assumes "r_eval R p w = (r, w')"
  obtains d where "view w' = snd (p (tick d (view w)))"
    and "\<not> is_err r \<Longrightarrow> r = fst (p (tick d (view w)))"
  | d where "view w' = tick d (view w)" and "is_err r"
  using eval_law [of p w] assms by (metis fst_conv insertE singletonD snd_conv)

end

text \<open>The same client when nothing fails on the way.\<close>

locale redis_reliable = redis_server +
  assumes cmd_exact: "\<exists>d. (fst (r_cmd R c w), view (snd (r_cmd R c w))) = redis_exec c (tick d (view w))"
    and tx_exact: "\<exists>d. (fst (fst (r_tx R cs w)), view (snd (r_tx R cs w))) = redis_exec_all cs (tick d (view w))"
    and pipe_exact: "\<exists>d. (fst (fst (r_pipe R cs w)), view (snd (r_pipe R cs w))) = redis_exec_all cs (tick d (view w))"
    and eval_exact: "\<exists>d. (fst (r_eval R p w), view (snd (r_eval R p w))) = p (tick d (view w))"
begin

lemma cmd_now:
  assumes "r_cmd R c w = (r, w')"
  obtains d where "(r, view w') = redis_exec c (tick d (view w))"
  using cmd_exact [of c w] assms by auto

lemma tx_now:
  assumes "r_tx R cs w = ((rs, e), w')"
  obtains d where "(rs, view w') = redis_exec_all cs (tick d (view w))" and "e = first_err rs"
  using tx_exact [of cs w] tx_err [of cs w] assms by auto

lemma pipe_now:
  assumes "r_pipe R cs w = ((rs, e), w')"
  obtains d where "(rs, view w') = redis_exec_all cs (tick d (view w))" and "e = first_err rs"
  using pipe_exact [of cs w] pipe_err [of cs w] assms by auto

lemma eval_now:
  assumes "r_eval R p w = (r, w')"
  obtains d where "(r, view w') = p (tick d (view w))"
  using eval_exact [of p w] assms by auto

end

section \<open>In-memory clients\<close>

text \<open>
  \<open>sim_redis\<close>: a store and a plan that says, call by call, how much time passes before the
  call and whether it fails (0: it works; 1: it fails before any effect; more: it fails
  after its effect, for a pipeline after that many commands less one).
\<close>

record sim =
  sim_store :: rstore
  sim_plan :: "(nat \<times> nat) list"

definition sim_pop :: "sim \<Rightarrow> (nat \<times> nat) \<times> sim" where
  "sim_pop w = (case sim_plan w of [] \<Rightarrow> ((0, 0), w) | p # ps \<Rightarrow> (p, w\<lparr>sim_plan := ps\<rparr>))"

definition sim_run :: "script \<Rightarrow> sim \<Rightarrow> reply \<times> sim" where
  "sim_run p w =
     (let ((d, f), w1) = sim_pop w; s = tick d (sim_store w1); (r, s1) = p s
      in if f = 0 then (r, w1\<lparr>sim_store := s1\<rparr>)
         else (RErr ''i/o timeout'', w1\<lparr>sim_store := (if f = 1 then s else s1)\<rparr>))"

definition sim_run_all :: "bool \<Rightarrow> cmd list \<Rightarrow> sim \<Rightarrow> (reply list \<times> string option) \<times> sim" where
  "sim_run_all atomic cs w =
     (let ((d, f), w1) = sim_pop w; s = tick d (sim_store w1);
          (rs, s1) = redis_exec_all cs s; fs = map (\<lambda>_. RErr ''i/o timeout'') cs
      in if f = 0 then ((rs, first_err rs), w1\<lparr>sim_store := s1\<rparr>)
         else if atomic
         then ((fs, first_err fs), w1\<lparr>sim_store := (if f = 1 then s else s1)\<rparr>)
         else ((fs, first_err fs), w1\<lparr>sim_store := snd (redis_exec_all (take (f - 1) cs) s)\<rparr>))"

definition sim_redis :: "sim redis" where
  "sim_redis = \<lparr>r_cmd = (\<lambda>c. sim_run (redis_exec c)), r_pipe = sim_run_all False,
     r_tx = sim_run_all True, r_eval = sim_run\<rparr>"

definition mem_redis :: "rstore redis" where
  "mem_redis = \<lparr>r_cmd = redis_exec,
     r_pipe = (\<lambda>cs s. let (rs, s1) = redis_exec_all cs s in ((rs, first_err rs), s1)),
     r_tx = (\<lambda>cs s. let (rs, s1) = redis_exec_all cs s in ((rs, first_err rs), s1)),
     r_eval = (\<lambda>p. p)\<rparr>"

lemma mem_redis_sel [simp]:
  "r_cmd mem_redis = redis_exec" "r_eval mem_redis p = p"
  "r_tx mem_redis cs s = ((fst (redis_exec_all cs s), first_err (fst (redis_exec_all cs s))),
     snd (redis_exec_all cs s))"
  "r_pipe mem_redis cs s = ((fst (redis_exec_all cs s), first_err (fst (redis_exec_all cs s))),
     snd (redis_exec_all cs s))"
  by (simp_all add: mem_redis_def Let_def case_prod_beta)

lemma first_err_all: "first_err (map (\<lambda>_. RErr e) cs) = (if cs = [] then None else Some e)"
  by (cases cs) auto

lemma sim_pop_store [simp]: "sim_store (snd (sim_pop w)) = sim_store w"
  by (simp add: sim_pop_def split: list.splits)

lemma sim_run_law:
  "\<exists>d. (fst (sim_run p w), sim_store (snd (sim_run p w))) = p (tick d (sim_store w)) \<or>
     is_err (fst (sim_run p w)) \<and>
     sim_store (snd (sim_run p w)) \<in> {tick d (sim_store w), snd (p (tick d (sim_store w)))}"
  by (rule exI [of _ "fst (fst (sim_pop w))"])
    (simp add: sim_run_def Let_def case_prod_beta)

lemma sim_tx_law:
  "\<exists>d. (sim_store (snd (sim_run_all True cs w)) = tick d (sim_store w) \<and>
        snd (fst (sim_run_all True cs w)) \<noteq> None) \<or>
      (sim_store (snd (sim_run_all True cs w)) = snd (redis_exec_all cs (tick d (sim_store w))) \<and>
        (snd (fst (sim_run_all True cs w)) = None \<longrightarrow>
          fst (fst (sim_run_all True cs w)) = fst (redis_exec_all cs (tick d (sim_store w)))))"
  by (rule exI [of _ "fst (fst (sim_pop w))"])
    (simp add: sim_run_all_def Let_def case_prod_beta first_err_all)

lemma sim_pipe_law:
  "\<exists>d n. sim_store (snd (sim_run_all False cs w)) =
        snd (redis_exec_all (take n cs) (tick d (sim_store w))) \<and>
      (snd (fst (sim_run_all False cs w)) = None \<longrightarrow> length cs \<le> n \<and>
        fst (fst (sim_run_all False cs w)) = fst (redis_exec_all cs (tick d (sim_store w))))"
  by (rule exI [of _ "fst (fst (sim_pop w))"],
      rule exI [of _ "if snd (fst (sim_pop w)) = 0 then length cs else snd (fst (sim_pop w)) - 1"])
    (simp add: sim_run_all_def Let_def case_prod_beta first_err_all)

lemma sim_run_all_err:
  "snd (fst (sim_run_all b cs w)) = first_err (fst (fst (sim_run_all b cs w)))"
  by (simp add: sim_run_all_def Let_def case_prod_beta)

interpretation sim: redis_server sim_redis sim_store
proof (unfold_locales, goal_cases)
  case (1 c w)
  show ?case using sim_run_law [of "redis_exec c" w] by (simp add: sim_redis_def)
next
  case (2 cs w)
  show ?case using sim_pipe_law [of cs w] by (simp add: sim_redis_def)
next
  case (3 cs w)
  show ?case using sim_run_all_err by (simp add: sim_redis_def)
next
  case (4 cs w)
  show ?case using sim_tx_law [of cs w] by (simp add: sim_redis_def)
next
  case (5 cs w)
  show ?case using sim_run_all_err by (simp add: sim_redis_def)
next
  case (6 p w)
  show ?case using sim_run_law [of p w] by (simp add: sim_redis_def)
qed

interpretation mem: redis_reliable mem_redis "\<lambda>s. s"
proof (unfold_locales, goal_cases)
  case (1 c w)
  show ?case by (auto simp: mem_redis_def intro: exI [of _ 0])
next
  case (2 cs w)
  show ?case
    by (rule exI [of _ 0], rule exI [of _ "length cs"])
      (simp add: mem_redis_def Let_def case_prod_beta)
next
  case (3 cs w)
  show ?case by (simp add: mem_redis_def Let_def case_prod_beta)
next
  case (4 cs w)
  show ?case by (rule exI [of _ 0]) (simp add: mem_redis_def Let_def case_prod_beta)
next
  case (5 cs w)
  show ?case by (simp add: mem_redis_def Let_def case_prod_beta)
next
  case (6 p w)
  show ?case by (rule exI [of _ 0]) (auto simp: mem_redis_def)
next
  case (7 c w)
  show ?case by (rule exI [of _ 0]) (auto simp: mem_redis_def)
next
  case (8 cs w)
  show ?case by (rule exI [of _ 0]) (simp add: mem_redis_def Let_def case_prod_beta)
next
  case (9 cs w)
  show ?case by (rule exI [of _ 0]) (simp add: mem_redis_def Let_def case_prod_beta)
next
  case (10 p w)
  show ?case by (rule exI [of _ 0]) (auto simp: mem_redis_def)
qed

end
