(* ===== verification/Broker_Scheduler.thy ===== *)
theory Broker_Scheduler
  imports Redis_Model
begin

text \<open>
  \<open>internal/broker/keys.go\<close> and \<open>internal/broker/scheduler.go\<close>: the names of the Redis keys,
  the pipe-delimited member of the per-job sorted set, and the scheduler that adds, reads,
  moves and removes members.  The lemmas show that the codec is a round trip on entries
  whose fields hold no bar, that a member read back is written as the same bytes (what
  \<open>ZREM\<close> and \<open>ZADD XX\<close> need), and what each operation does to the sorted set.
\<close>

section \<open>Keys\<close>

definition keyPrefix :: string where
  "keyPrefix = ''hover:''"

definition ScheduleKey :: "string \<Rightarrow> string" where
  "ScheduleKey jobID = keyPrefix @ ''sched:'' @ jobID"

definition StreamKey :: "string \<Rightarrow> string" where
  "StreamKey jobID = keyPrefix @ ''stream:'' @ jobID"

definition LighthouseStreamKey :: "string \<Rightarrow> string" where
  "LighthouseStreamKey jobID = keyPrefix @ ''stream:'' @ jobID @ '':lh''"

definition ConsumerGroup :: "string \<Rightarrow> string" where
  "ConsumerGroup jobID = keyPrefix @ ''cg:'' @ jobID"

definition LighthouseConsumerGroup :: "string \<Rightarrow> string" where
  "LighthouseConsumerGroup jobID = keyPrefix @ ''cg:'' @ jobID @ '':lh''"

definition RunningCountersKey :: string where
  "RunningCountersKey = keyPrefix @ ''running''"

definition DomainGateKey :: "string \<Rightarrow> string" where
  "DomainGateKey domain = keyPrefix @ ''dom:gate:'' @ domain"

definition DomainConfigKey :: "string \<Rightarrow> string" where
  "DomainConfigKey domain = keyPrefix @ ''dom:cfg:'' @ domain"

definition DomainInflightKey :: "string \<Rightarrow> string" where
  "DomainInflightKey domain = keyPrefix @ ''dom:flight:'' @ domain"

lemmas key_defs = ScheduleKey_def StreamKey_def LighthouseStreamKey_def ConsumerGroup_def
  LighthouseConsumerGroup_def RunningCountersKey_def DomainGateKey_def DomainConfigKey_def
  DomainInflightKey_def keyPrefix_def

lemma key_inj [simp]:
  "ScheduleKey a = ScheduleKey b \<longleftrightarrow> a = b" "StreamKey a = StreamKey b \<longleftrightarrow> a = b"
  "DomainGateKey a = DomainGateKey b \<longleftrightarrow> a = b" "DomainConfigKey a = DomainConfigKey b \<longleftrightarrow> a = b"
  "DomainInflightKey a = DomainInflightKey b \<longleftrightarrow> a = b"
  by (simp_all add: key_defs)

lemma key_distinct [simp]:
  "RunningCountersKey \<noteq> DomainConfigKey d" "DomainConfigKey d \<noteq> RunningCountersKey"
  "RunningCountersKey \<noteq> DomainInflightKey d" "DomainInflightKey d \<noteq> RunningCountersKey"
  "DomainConfigKey d \<noteq> DomainInflightKey e" "DomainInflightKey e \<noteq> DomainConfigKey d"
  by (simp_all add: key_defs)

section \<open>Schedule entries\<close>

record schedule_entry =
  se_TaskID :: string
  se_JobID :: string
  se_PageID :: int
  se_Host :: string
  se_Path :: string
  se_Priority :: rat
  se_RetryCount :: int
  se_SourceType :: string
  se_SourceURL :: string
  se_RunAt :: time
  se_TaskType :: string
  se_LighthouseRunID :: int

definition FormatScheduleEntry ::
  "string \<Rightarrow> string \<Rightarrow> int \<Rightarrow> string \<Rightarrow> string \<Rightarrow> rat \<Rightarrow> int \<Rightarrow> string \<Rightarrow> string \<Rightarrow> string \<Rightarrow> int \<Rightarrow> string" where
  "FormatScheduleEntry taskID jobID pageID host path priority retryCount sourceType sourceURL taskType
     lighthouseRunID =
     taskID @ CHR ''|'' # jobID @ CHR ''|'' # itoa pageID @ CHR ''|'' # host @ CHR ''|'' # path @
     CHR ''|'' # fmt_f4 priority @ CHR ''|'' # itoa retryCount @ CHR ''|'' # sourceType @ CHR ''|'' #
     sourceURL @ CHR ''|'' # taskType @ CHR ''|'' # itoa lighthouseRunID"

definition Member :: "schedule_entry \<Rightarrow> string" where
  "Member e =
     (let taskType = (if se_TaskType e = [] then ''crawl'' else se_TaskType e)
      in FormatScheduleEntry (se_TaskID e) (se_JobID e) (se_PageID e) (se_Host e) (se_Path e)
           (se_Priority e) (se_RetryCount e) (se_SourceType e) (se_SourceURL e) taskType
           (se_LighthouseRunID e))"

definition Score :: "schedule_entry \<Rightarrow> int" where
  "Score e = unix_milli (se_RunAt e)"

datatype parse_error =
    MalformedEntry | BadPageID | BadPriority | BadRetryCount | BadLighthouseRunID

definition ParseScheduleEntry :: "string \<Rightarrow> int \<Rightarrow> parse_error + schedule_entry" where
  "ParseScheduleEntry member score =
     (let parts = split_n (CHR ''|'') 11 member in
      if length parts \<noteq> 9 \<and> length parts \<noteq> 11 then Inl MalformedEntry
      else case atoi (parts ! 2) of None \<Rightarrow> Inl BadPageID | Some pageID \<Rightarrow>
      case parse_float (parts ! 5) of None \<Rightarrow> Inl BadPriority | Some priority \<Rightarrow>
      case atoi (parts ! 6) of None \<Rightarrow> Inl BadRetryCount | Some retryCount \<Rightarrow>
      case (if length parts = 11 \<and> parts ! 10 \<noteq> [] then atoi (parts ! 10) else Some 0) of
        None \<Rightarrow> Inl BadLighthouseRunID
      | Some lighthouseRunID \<Rightarrow>
          Inr \<lparr>se_TaskID = parts ! 0, se_JobID = parts ! 1, se_PageID = pageID,
               se_Host = parts ! 3, se_Path = parts ! 4, se_Priority = priority,
               se_RetryCount = retryCount, se_SourceType = parts ! 7,
               se_SourceURL = parts ! 8, se_RunAt = score * millisecond,
               se_TaskType =
                 (if length parts = 11 \<and> parts ! 9 \<noteq> [] then parts ! 9 else ''crawl''),
               se_LighthouseRunID = lighthouseRunID\<rparr>)"

text \<open>The entries the codec is made for: no bar in a text field, numbers in range.\<close>

definition no_bar :: "string \<Rightarrow> bool" where
  "no_bar s \<longleftrightarrow> CHR ''|'' \<notin> set s"

definition entry_ok :: "schedule_entry \<Rightarrow> bool" where
  "entry_ok e \<longleftrightarrow>
     list_all no_bar [se_TaskID e, se_JobID e, se_Host e, se_Path e, se_SourceType e,
       se_SourceURL e, se_TaskType e] \<and>
     in_int64 (se_PageID e) \<and> in_int64 (se_RetryCount e) \<and> in_int64 (se_LighthouseRunID e) \<and>
     0 \<le> se_Priority e"

text \<open>
  What reading back a written entry gives: the defaulted task type, the priority to four
  decimals and the run time to the millisecond.
\<close>

definition stored_entry :: "schedule_entry \<Rightarrow> schedule_entry" where
  "stored_entry e =
     e\<lparr>se_TaskType := (if se_TaskType e = [] then ''crawl'' else se_TaskType e),
       se_Priority := round4 (se_Priority e),
       se_RunAt := Score e * millisecond\<rparr>"

section \<open>The codec\<close>

lemma member_parts:
  assumes "entry_ok e"
  shows "split_n (CHR ''|'') 11 (Member e) =
    [se_TaskID e, se_JobID e, itoa (se_PageID e), se_Host e, se_Path e, fmt_f4 (se_Priority e),
     itoa (se_RetryCount e), se_SourceType e, se_SourceURL e,
     (if se_TaskType e = [] then ''crawl'' else se_TaskType e), itoa (se_LighthouseRunID e)]"
proof -
  have eleven: "(11::nat) = Suc (Suc (Suc (Suc (Suc (Suc (Suc (Suc (Suc (Suc (Suc 0))))))))))" by simp
  let ?t = "if se_TaskType e = [] then ''crawl'' else se_TaskType e"
  have "CHR ''|'' \<notin> set ?t" using assms by (simp add: entry_ok_def no_bar_def)
  moreover have "CHR ''|'' \<notin> set (se_TaskID e)" "CHR ''|'' \<notin> set (se_JobID e)"
    "CHR ''|'' \<notin> set (se_Host e)" "CHR ''|'' \<notin> set (se_Path e)"
    "CHR ''|'' \<notin> set (se_SourceType e)" "CHR ''|'' \<notin> set (se_SourceURL e)"
    using assms by (simp_all add: entry_ok_def no_bar_def)
  ultimately show ?thesis
    unfolding Member_def FormatScheduleEntry_def Let_def eleven
    by (simp only: split_n_field split_n_last itoa_no_bar fmt_f4_no_bar not_False_eq_True)
qed

lemma parse_member:
  assumes "entry_ok e"
  shows "ParseScheduleEntry (Member e) (Score e) = Inr (stored_entry e)"
  using assms
  by (simp add: ParseScheduleEntry_def member_parts stored_entry_def entry_ok_def)

lemma stored_entry_ok: "entry_ok e \<Longrightarrow> entry_ok (stored_entry e)"
  by (simp add: entry_ok_def stored_entry_def round4_nonneg no_bar_def)

lemma member_stored [simp]: "0 \<le> se_Priority e \<Longrightarrow> Member (stored_entry e) = Member e"
  by (simp add: Member_def stored_entry_def Let_def FormatScheduleEntry_def)

lemma score_stored [simp]: "Score (stored_entry e) = Score e"
  by (simp add: Score_def stored_entry_def unix_milli_def millisecond_def)

lemma count_split_n:
  "length (split_n d (Suc n) s) = Suc (min n (count_list s d))"
proof (induction n arbitrary: s)
  case (Suc n)
  show ?case
  proof (cases "dropWhile (\<lambda>c. c \<noteq> d) s")
    case Nil
    then have "d \<notin> set s" by (auto simp: dropWhile_eq_Nil_conv)
    then have "count_list s d = 0" by (simp add: count_list_0_iff)
    with Nil show ?thesis by (simp only: split_n.simps list.case) simp
  next
    case (Cons c rest)
    then have "c = d" by (metis (mono_tags, lifting) hd_dropWhile list.distinct(1) list.sel(1))
    have "count_list s d =
        count_list (takeWhile (\<lambda>c. c \<noteq> d) s @ dropWhile (\<lambda>c. c \<noteq> d) s) d" by simp
    also have "\<dots> = count_list (takeWhile (\<lambda>c. c \<noteq> d) s) d + Suc (count_list rest d)"
      unfolding Cons count_list_append using \<open>c = d\<close> by simp
    also have "count_list (takeWhile (\<lambda>c. c \<noteq> d) s) d = 0"
      by (auto simp: count_list_0_iff dest: set_takeWhileD)
    finally have n: "count_list s d = Suc (count_list rest d)" by simp
    have "split_n d (Suc (Suc n)) s = takeWhile (\<lambda>c. c \<noteq> d) s # split_n d (Suc n) rest"
      by (simp only: split_n.simps Cons list.case)
    with n Suc.IH [of rest] show ?thesis by simp
  qed
qed simp

lemma count_bars_member: "10 \<le> count_list (Member e) (CHR ''|'')"
  by (simp add: Member_def FormatScheduleEntry_def Let_def)

section \<open>The scheduler\<close>

datatype sched_error =
    ScheduleFailed string string
  | PipelineFailed nat string
  | BatchError "nat list" nat string
  | DueItemsFailed string string
  | AckFailed string string
  | PersistFailed string string
  | RedisFailed string

definition err_of :: "reply \<Rightarrow> string option" where
  "err_of r = (case r of RErr e \<Rightarrow> Some e | _ \<Rightarrow> None)"

definition zadd_entry :: "schedule_entry \<Rightarrow> cmd" where
  "zadd_entry e = ZAdd (ScheduleKey (se_JobID e)) (Score e) (Member e)"

definition Schedule ::
  "'w redis \<Rightarrow> schedule_entry \<Rightarrow> 'w \<Rightarrow> sched_error option \<times> 'w" where
  "Schedule R entry w =
     (case r_cmd R (zadd_entry entry) w of
        (r, w1) \<Rightarrow> (map_option (ScheduleFailed (se_TaskID entry)) (err_of r), w1))"

text \<open>The positions of the commands that failed, and the first error among them.\<close>

fun failed_indices :: "nat \<Rightarrow> reply list \<Rightarrow> nat list" where
  "failed_indices i [] = []"
| "failed_indices i (r # rs) =
     (if is_err r then i # failed_indices (Suc i) rs else failed_indices (Suc i) rs)"

definition ScheduleBatch ::
  "'w redis \<Rightarrow> schedule_entry list \<Rightarrow> 'w \<Rightarrow> sched_error option \<times> 'w" where
  "ScheduleBatch R entries w =
     (if entries = [] then (None, w)
      else case r_pipe R (map zadd_entry entries) w of
        ((cmds, err), w1) \<Rightarrow>
          (case err of
             Some e \<Rightarrow> (Some (PipelineFailed (length entries) e), w1)
           | None \<Rightarrow>
               (case (failed_indices 0 cmds, first_err cmds) of
                  ([], _) \<Rightarrow> (None, w1)
                | (failed, None) \<Rightarrow> (Some (BatchError failed (length entries) []), w1)
                | (failed, Some e) \<Rightarrow> (Some (BatchError failed (length entries) e), w1))))"

definition Remove :: "'w redis \<Rightarrow> string \<Rightarrow> string \<Rightarrow> 'w \<Rightarrow> sched_error option \<times> 'w" where
  "Remove R jobID member w =
     (case r_cmd R (ZRem (ScheduleKey jobID) member) w of
        (r, w1) \<Rightarrow> (map_option RedisFailed (err_of r), w1))"

definition ScheduleAndAck ::
  "'w redis \<Rightarrow> schedule_entry \<Rightarrow> string \<Rightarrow> string \<Rightarrow> 'w \<Rightarrow> sched_error option \<times> 'w" where
  "ScheduleAndAck R entry ackJobID messageID w =
     (case r_tx R [zadd_entry entry,
                   XAck (StreamKey ackJobID) (ConsumerGroup ackJobID) [messageID]] w of
        ((cmds, err), w1) \<Rightarrow>
          (case err of
             Some e \<Rightarrow> (Some (AckFailed (se_TaskID entry) e), w1)
           | None \<Rightarrow>
               (case cmds of
                  [zadd, xack] \<Rightarrow>
                    (case err_of zadd of
                       Some e \<Rightarrow> (Some (AckFailed (se_TaskID entry) e), w1)
                     | None \<Rightarrow> (map_option (AckFailed messageID) (err_of xack), w1))
                | _ \<Rightarrow> (Some (AckFailed messageID []), w1))))"

text \<open>
  \<open>DueItems\<close>: the members are strings, so the branch for other types of the client
  library does not arise.  A member that does not parse is removed and skipped.
\<close>

fun due_parse ::
  "'w redis \<Rightarrow> string \<Rightarrow> (int \<times> string) list \<Rightarrow> 'w \<Rightarrow> schedule_entry list \<times> 'w" where
  "due_parse R key [] w = ([], w)"
| "due_parse R key ((sc, member) # zs) w =
     (case ParseScheduleEntry member sc of
        Inl _ \<Rightarrow> due_parse R key zs (snd (r_cmd R (ZRem key member) w))
      | Inr entry \<Rightarrow>
          (case due_parse R key zs w of (es, w1) \<Rightarrow> (entry # es, w1)))"

definition DueItems ::
  "'w redis \<Rightarrow> string \<Rightarrow> time \<Rightarrow> int \<Rightarrow> 'w \<Rightarrow> (sched_error + schedule_entry list) \<times> 'w" where
  "DueItems R jobID now limit w =
     (let key = ScheduleKey jobID in
      case r_cmd R (ZRangeByScore key (unix_milli now) limit) w of
        (RScored results, w1) \<Rightarrow>
          (case due_parse R key results w1 of (entries, w2) \<Rightarrow> (Inr entries, w2))
      | (RErr e, w1) \<Rightarrow> (Inl (DueItemsFailed jobID e), w1)
      | (_, w1) \<Rightarrow> (Inl (DueItemsFailed jobID []), w1))"

definition rescheduleZSet ::
  "'w redis \<Rightarrow> schedule_entry \<Rightarrow> time \<Rightarrow> 'w \<Rightarrow> sched_error option \<times> 'w" where
  "rescheduleZSet R entry newRunAt w =
     (case r_cmd R (ZAddXX (ScheduleKey (se_JobID entry)) (unix_milli newRunAt) (Member entry)) w of
        (r, w1) \<Rightarrow> (map_option RedisFailed (err_of r), w1))"

definition RescheduleZSet ::
  "'w redis \<Rightarrow> schedule_entry \<Rightarrow> time \<Rightarrow> 'w \<Rightarrow> sched_error option \<times> 'w" where
  "RescheduleZSet R entry newRunAt w = rescheduleZSet R entry newRunAt w"

text \<open>
  \<open>Reschedule\<close>: \<open>db\<close> is the statement that writes \<open>tasks.run_at\<close> of one task, absent
  when the scheduler was built without a database.
\<close>

type_synonym 'w run_at_execer = "string \<Rightarrow> time \<Rightarrow> 'w \<Rightarrow> string option \<times> 'w"

definition Reschedule ::
  "'w redis \<Rightarrow> 'w run_at_execer option \<Rightarrow> schedule_entry \<Rightarrow> time \<Rightarrow> 'w \<Rightarrow>
     sched_error option \<times> 'w" where
  "Reschedule R db entry newRunAt w =
     (case db of
        None \<Rightarrow> rescheduleZSet R entry newRunAt w
      | Some exec \<Rightarrow>
          (case exec (se_TaskID entry) newRunAt w of
             (Some e, w1) \<Rightarrow> (Some (PersistFailed (se_TaskID entry) e), w1)
           | (None, w1) \<Rightarrow> rescheduleZSet R entry newRunAt w1))"

definition PendingCount :: "'w redis \<Rightarrow> string \<Rightarrow> 'w \<Rightarrow> (string + int) \<times> 'w" where
  "PendingCount R jobID w =
     (case r_cmd R (ZCard (ScheduleKey jobID)) w of
        (RInt n, w1) \<Rightarrow> (Inr n, w1)
      | (RErr e, w1) \<Rightarrow> (Inl e, w1)
      | (_, w1) \<Rightarrow> (Inl [], w1))"

definition RemoveJobSchedule :: "'w redis \<Rightarrow> string \<Rightarrow> 'w \<Rightarrow> sched_error option \<times> 'w" where
  "RemoveJobSchedule R jobID w =
     (case r_cmd R (Del [ScheduleKey jobID]) w of
        (r, w1) \<Rightarrow> (map_option RedisFailed (err_of r), w1))"

section \<open>What the operations do to the sorted set\<close>

lemma err_of_None: "err_of r = None \<longleftrightarrow> \<not> is_err r"
  by (cases r) (simp_all add: err_of_def)

lemma err_of_RErr [simp]: "err_of (RErr e) = Some e"
  by (simp add: err_of_def)

lemma failed_indices_Nil: "failed_indices i rs = [] \<longleftrightarrow> first_err rs = None"
  by (induction rs arbitrary: i) (auto simp: first_err_None)

definition malformed :: "string \<Rightarrow> bool" where
  "malformed m \<longleftrightarrow> (case ParseScheduleEntry m 0 of Inl _ \<Rightarrow> True | Inr _ \<Rightarrow> False)"

lemma parse_score_irrelevant:
  "ParseScheduleEntry m sc =
     map_sum id (\<lambda>e. e\<lparr>se_RunAt := sc * millisecond\<rparr>) (ParseScheduleEntry m 0)"
  by (simp add: ParseScheduleEntry_def Let_def split: option.splits)

lemma parse_error_malformed: "ParseScheduleEntry m sc = Inl e \<Longrightarrow> malformed m"
  by (subst (asm) parse_score_irrelevant) (auto simp: malformed_def split: sum.splits)

lemma parse_ok_not_malformed: "ParseScheduleEntry m sc = Inr e \<Longrightarrow> \<not> malformed m"
  by (subst (asm) parse_score_irrelevant) (auto simp: malformed_def split: sum.splits)

lemma parse_run_at: "ParseScheduleEntry m sc = Inr e \<Longrightarrow> se_RunAt e = sc * millisecond"
  by (subst (asm) parse_score_irrelevant) (auto simp: map_sum_def split: sum.splits)

text \<open>The entries among what the range query returned.\<close>

fun due_entries :: "(int \<times> string) list \<Rightarrow> schedule_entry list" where
  "due_entries [] = []"
| "due_entries ((sc, m) # zs) =
     (case ParseScheduleEntry m sc of Inl _ \<Rightarrow> due_entries zs | Inr e \<Rightarrow> e # due_entries zs)"

lemma due_entries_length: "length (due_entries zs) \<le> length zs"
  by (induction zs rule: due_entries.induct) (auto split: sum.splits)

lemma due_entries_mem:
  "e \<in> set (due_entries zs) \<Longrightarrow> \<exists>sc m. (sc, m) \<in> set zs \<and> ParseScheduleEntry m sc = Inr e"
proof (induction zs rule: due_entries.induct)
  case (2 sc m zs)
  then show ?case by (cases "ParseScheduleEntry m sc") auto
qed simp

lemma due_entries_sorted:
  "sorted zs \<Longrightarrow> sorted (map se_RunAt (due_entries zs))"
proof (induction zs rule: due_entries.induct)
  case (2 sc m zs)
  show ?case
  proof (cases "ParseScheduleEntry m sc")
    case (Inl x)
    with "2.IH"(1) [OF Inl] "2.prems" show ?thesis by simp
  next
    case (Inr e)
    have "se_RunAt e \<le> se_RunAt e'" if e': "e' \<in> set (due_entries zs)" for e'
    proof -
      obtain sc' m' where m: "(sc', m') \<in> set zs" and p: "ParseScheduleEntry m' sc' = Inr e'"
        using due_entries_mem [OF e'] by blast
      from m "2.prems" have "sc \<le> sc'" by (auto simp: less_eq_prod_def)
      then show ?thesis using parse_run_at [OF Inr] parse_run_at [OF p] by (simp add: millisecond_def)
    qed
    with "2.IH"(2) [OF Inr] "2.prems" Inr show ?thesis by simp
  qed
qed simp

lemma fst_due_parse: "fst (due_parse R key zs w) = due_entries zs"
  by (induction R key zs w rule: due_parse.induct) (auto split: sum.splits prod.splits)

lemma unix_milli_le: "sc \<le> unix_milli t \<Longrightarrow> sc * millisecond \<le> t"
  unfolding unix_milli_def millisecond_def by linarith

context redis_server
begin

text \<open>Reading removes malformed members only, and only from the sorted set read.\<close>

lemma zrem_zsets:
  assumes "r_cmd R (ZRem k m) w = (r, w')"
  shows "\<exists>X \<subseteq> {m}. \<forall>k'. zsets (view w') k' =
    (if k' = k then filter (\<lambda>p. snd p \<notin> X) (zsets (view w) k) else zsets (view w) k')"
proof (rule cmd_cases [OF assms])
  fix d assume "view w' = snd (redis_exec (ZRem k m) (tick d (view w)))"
  then show ?thesis by (intro exI [of _ "{m}"]) (auto simp: zs_rem_def)
next
  fix d assume "view w' = tick d (view w)"
  then show ?thesis by (intro exI [of _ "{}"]) auto
qed

lemma due_parse_zsets:
  "\<exists>X. (\<forall>m\<in>X. malformed m) \<and> (\<forall>k. zsets (view (snd (due_parse R key zs w))) k =
     (if k = key then filter (\<lambda>p. snd p \<notin> X) (zsets (view w) key) else zsets (view w) k))"
proof (induction R \<equiv> R key zs w rule: due_parse.induct)
  case (1 key w)
  show ?case by (intro exI [of _ "{}"]) auto
next
  case (2 key sc m zs w)
  show ?case
  proof (cases "ParseScheduleEntry m sc")
    case (Inl e)
    let ?w1 = "snd (r_cmd R (ZRem key m) w)"
    obtain X where X: "X \<subseteq> {m}" and w1: "\<forall>k'. zsets (view ?w1) k' =
        (if k' = key then filter (\<lambda>p. snd p \<notin> X) (zsets (view w) key) else zsets (view w) k')"
      using zrem_zsets [of key m w "fst (r_cmd R (ZRem key m) w)" ?w1] by auto
    obtain Y where Y: "\<forall>m\<in>Y. malformed m" and w2: "\<forall>k. zsets (view (snd (due_parse R key zs ?w1))) k =
        (if k = key then filter (\<lambda>p. snd p \<notin> Y) (zsets (view ?w1) key) else zsets (view ?w1) k)"
      using "2.hyps"(1) [OF Inl] by auto
    have "\<forall>m\<in>X \<union> Y. malformed m" using X Y parse_error_malformed [OF Inl] by auto
    then show ?thesis using Inl w1 w2
      by (intro exI [of _ "X \<union> Y"]) (auto intro: arg_cong [where f = "\<lambda>P. filter P _"])
  next
    case (Inr e)
    then show ?thesis using "2.hyps"(2) [OF Inr] by (auto split: prod.splits)
  qed
qed

lemma due_items_zsets:
  assumes "DueItems R jobID now limit w = (Inr es, w')"
  shows "es = due_entries (zs_range (unix_milli now) limit (zsets (view w) (ScheduleKey jobID)))"
    and "\<exists>X. (\<forall>m\<in>X. malformed m) \<and> (\<forall>k. zsets (view w') k =
      (if k = ScheduleKey jobID then filter (\<lambda>p. snd p \<notin> X) (zsets (view w) k)
       else zsets (view w) k))"
proof -
  let ?c = "ZRangeByScore (ScheduleKey jobID) (unix_milli now) limit"
  obtain zs w1 where c: "r_cmd R ?c w = (RScored zs, w1)"
    and p: "due_parse R (ScheduleKey jobID) zs w1 = (es, w')"
    using assms by (auto simp: DueItems_def Let_def split: prod.splits reply.splits)
  obtain d where d: "(RScored zs, view w1) = redis_exec ?c (tick d (view w))"
    by (rule cmd_applied [OF c]) simp_all
  then have zs: "zs = zs_range (unix_milli now) limit (zsets (view w) (ScheduleKey jobID))"
    and z1: "zsets (view w1) = zsets (view w)" by simp_all
  show "es = due_entries (zs_range (unix_milli now) limit (zsets (view w) (ScheduleKey jobID)))"
    using fst_due_parse [of R "ScheduleKey jobID" zs w1] p zs by simp
  show "\<exists>X. (\<forall>m\<in>X. malformed m) \<and> (\<forall>k. zsets (view w') k =
      (if k = ScheduleKey jobID then filter (\<lambda>p. snd p \<notin> X) (zsets (view w) k)
       else zsets (view w) k))"
    using due_parse_zsets [of "ScheduleKey jobID" zs w1] p z1 by auto
qed

end

section \<open>Properties\<close>

text \<open>C30: A schedule entry whose text fields hold no bar, whose integers fit 64 bits and whose
  priority is not negative survives the trip through its sorted-set member: parsing the
  member gives the entry back, with its task type defaulted to crawl, its priority within
  half of the fourth decimal and its run time cut to the millisecond; and the parsed entry
  is written as the same member and score again, so that it can be found for removal.\<close>

theorem schedule_codec_roundtrip:
  assumes "entry_ok e"
  shows "\<exists>e'. ParseScheduleEntry (Member e) (Score e) = Inr e' \<and>
    Member e' = Member e \<and> Score e' = Score e \<and>
    se_TaskID e' = se_TaskID e \<and> se_JobID e' = se_JobID e \<and> se_PageID e' = se_PageID e \<and>
    se_Host e' = se_Host e \<and> se_Path e' = se_Path e \<and> se_RetryCount e' = se_RetryCount e \<and>
    se_SourceType e' = se_SourceType e \<and> se_SourceURL e' = se_SourceURL e \<and>
    se_LighthouseRunID e' = se_LighthouseRunID e \<and>
    se_TaskType e' = (if se_TaskType e = [] then ''crawl'' else se_TaskType e) \<and>
    \<bar>se_Priority e' - se_Priority e\<bar> \<le> 1 / 20000 \<and>
    se_RunAt e' \<le> se_RunAt e \<and> se_RunAt e < se_RunAt e' + millisecond"
proof (intro exI [of _ "stored_entry e"] conjI)
  have run: "se_RunAt (stored_entry e) = se_RunAt e div 1000000 * 1000000"
    by (simp add: stored_entry_def Score_def unix_milli_def millisecond_def)
  show "se_RunAt (stored_entry e) \<le> se_RunAt e" "se_RunAt e < se_RunAt (stored_entry e) + millisecond"
    unfolding run millisecond_def by linarith+
  show "\<bar>se_Priority (stored_entry e) - se_Priority e\<bar> \<le> 1 / 20000"
    using round4_close [of "se_Priority e"] by (simp add: stored_entry_def)
  show "Member (stored_entry e) = Member e" using assms by (simp add: entry_ok_def)
  show "Score (stored_entry e) = Score e" by simp
qed (use parse_member [OF assms] in \<open>simp_all add: stored_entry_def [of e]\<close>)

theorem schedule_codec_roundtrip_witness:
  "\<exists>e'. ParseScheduleEntry (Member \<lparr>se_TaskID = ''t1'', se_JobID = ''j1'', se_PageID = 7,
      se_Host = ''a.com'', se_Path = ''/p'', se_Priority = 1 / 2, se_RetryCount = 0,
      se_SourceType = ''link'', se_SourceURL = ''https://a.com/'', se_RunAt = 1500000,
      se_TaskType = [], se_LighthouseRunID = 0\<rparr>) 1 = Inr e' \<and> se_TaskType e' = ''crawl'' \<and>
      se_RunAt e' = 1000000 \<and> se_PageID e' = 7"
proof -
  let ?e = "\<lparr>se_TaskID = ''t1'', se_JobID = ''j1'', se_PageID = 7,
      se_Host = ''a.com'', se_Path = ''/p'', se_Priority = 1 / 2, se_RetryCount = 0,
      se_SourceType = ''link'', se_SourceURL = ''https://a.com/'', se_RunAt = 1500000,
      se_TaskType = [], se_LighthouseRunID = 0\<rparr>"
  have ok: "entry_ok ?e" by (simp add: entry_ok_def no_bar_def in_int64_def)
  have sc: "Score ?e = 1" by (simp add: Score_def unix_milli_def millisecond_def)
  show ?thesis using schedule_codec_roundtrip [OF ok] parse_run_at unfolding sc
    by (fastforce simp: millisecond_def)
qed

text \<open>\<open>DueItems\<close> returns exactly the well-formed entries among the first \<open>limit\<close> members whose
  score is not after now: each is due, they come in order of their run time, and there are
  at most \<open>limit\<close> of them.  It takes nothing away but malformed members of this job's set,
  whether or not calls to Redis fail on the way.\<close>

theorem due_items_sound:
  assumes "redis_server R view" and "zs_wf (zsets (view w) (ScheduleKey jobID))"
    and "DueItems R jobID now limit w = (Inr es, w')" and "0 < limit"
  shows "es = due_entries (zs_range (unix_milli now) limit (zsets (view w) (ScheduleKey jobID)))
    \<and> (\<forall>e\<in>set es. se_RunAt e \<le> now) \<and> sorted (map se_RunAt es) \<and> length es \<le> nat limit
    \<and> (\<exists>X. (\<forall>m\<in>X. malformed m) \<and> (\<forall>k. zsets (view w') k =
        (if k = ScheduleKey jobID then filter (\<lambda>p. snd p \<notin> X) (zsets (view w) k)
         else zsets (view w) k)))"
proof (intro conjI)
  let ?z = "zs_range (unix_milli now) limit (zsets (view w) (ScheduleKey jobID))"
  show es: "es = due_entries ?z" by (rule redis_server.due_items_zsets(1) [OF assms(1,3)])
  show "\<forall>e\<in>set es. se_RunAt e \<le> now"
  proof
    fix e assume "e \<in> set es"
    then obtain sc m where "(sc, m) \<in> set ?z" and "ParseScheduleEntry m sc = Inr e"
      using es due_entries_mem by blast
    then show "se_RunAt e \<le> now"
      using zs_range_due [of "(sc, m)"] parse_run_at unix_milli_le by fastforce
  qed
  show "sorted (map se_RunAt es)"
    using zs_range_wf [OF assms(2)] by (simp add: es due_entries_sorted zs_wf_def)
  show "length es \<le> nat limit"
    using due_entries_length [of ?z] zs_range_length [OF assms(4)] unfolding es
    by (metis order_trans)
  show "\<exists>X. (\<forall>m\<in>X. malformed m) \<and> (\<forall>k. zsets (view w') k =
        (if k = ScheduleKey jobID then filter (\<lambda>p. snd p \<notin> X) (zsets (view w) k)
         else zsets (view w) k))"
    by (rule redis_server.due_items_zsets(2) [OF assms(1,3)])
qed

lemma schedule_and_ack_step:
  assumes "redis_server R view" and "ScheduleAndAck R e ackJob msgID w = (err, w')"
  shows "(zsets (view w') = (zsets (view w))
            (ScheduleKey (se_JobID e) := zs_add (Score e) (Member e) (zsets (view w) (ScheduleKey (se_JobID e))))
          \<and> msgID \<notin> pe_id ` set (pels (view w') (StreamKey ackJob) (ConsumerGroup ackJob)))
    \<or> (zsets (view w') = zsets (view w) \<and> pels (view w') = pels (view w) \<and> err \<noteq> None)"
proof -
  let ?cs = "[zadd_entry e, XAck (StreamKey ackJob) (ConsumerGroup ackJob) [msgID]]"
  obtain rs x where t: "r_tx R ?cs w = ((rs, x), w')"
    using assms(2) by (auto simp: ScheduleAndAck_def split: prod.splits option.splits list.splits)
  show ?thesis
  proof (rule redis_server.tx_cases [OF assms(1) t], goal_cases)
    case (1 d)
    then have "err \<noteq> None" using assms(2) t by (auto simp: ScheduleAndAck_def)
    with 1 show ?thesis by simp
  next
    case (2 d)
    then show ?thesis by (auto simp: zadd_entry_def)
  qed
qed

text \<open>C22: \<open>ScheduleAndAck\<close> is one step: whatever fails, either the retry entry is in the
  sorted set and the message is acknowledged, or neither has happened; it reports success
  only in the first case.\<close>

theorem schedule_and_ack_atomic:
  assumes "redis_server R view" and "ScheduleAndAck R e ackJob msgID w = (err, w')"
  shows "(zsets (view w') = (zsets (view w))
            (ScheduleKey (se_JobID e) := zs_add (Score e) (Member e) (zsets (view w) (ScheduleKey (se_JobID e))))
          \<and> msgID \<notin> pe_id ` set (pels (view w') (StreamKey ackJob) (ConsumerGroup ackJob)))
    \<or> (zsets (view w') = zsets (view w) \<and> pels (view w') = pels (view w) \<and> err \<noteq> None)"
  by (rule schedule_and_ack_step [OF assms])

theorem schedule_and_ack_atomic_witness:
  "redis_server sim_redis sim_store \<and>
   zsets (sim_store (snd (ScheduleAndAck sim_redis
     \<lparr>se_TaskID = ''t'', se_JobID = ''j'', se_PageID = 7, se_Host = ''h'', se_Path = ''/'',
      se_Priority = 1, se_RetryCount = 1, se_SourceType = [], se_SourceURL = [],
      se_RunAt = 0, se_TaskType = [], se_LighthouseRunID = 0\<rparr> ''j'' ''5-0''
     \<lparr>sim_store = empty_store, sim_plan = [(3, 1)]\<rparr>))) = zsets empty_store"
proof -
  let ?e = "\<lparr>se_TaskID = ''t'', se_JobID = ''j'', se_PageID = 7, se_Host = ''h'', se_Path = ''/'',
      se_Priority = 1, se_RetryCount = 1, se_SourceType = [], se_SourceURL = [],
      se_RunAt = 0, se_TaskType = [], se_LighthouseRunID = 0\<rparr>"
  let ?w = "\<lparr>sim_store = empty_store, sim_plan = [(3, 1)]\<rparr>"
  let ?r = "ScheduleAndAck sim_redis ?e ''j'' ''5-0'' ?w"
  have "zsets (sim_store (snd ?r)) (ScheduleKey ''j'') = []"
    by (simp add: ScheduleAndAck_def sim_redis_def sim_run_all_def sim_pop_def empty_store_def
        zadd_entry_def Let_def case_prod_beta)
  then have "zsets (sim_store (snd ?r)) = zsets empty_store"
    using schedule_and_ack_atomic [OF sim.redis_server_axioms, of ?e "''j''" "''5-0''" ?w "fst ?r" "snd ?r"]
    by (auto simp: zs_add_def empty_store_def)
  then show ?thesis using sim.redis_server_axioms by blast
qed

text \<open>A store with one malformed, one due and one later member, for the witnesses.\<close>

definition due_entry :: schedule_entry where
  "due_entry = \<lparr>se_TaskID = ''t'', se_JobID = ''j'', se_PageID = 7, se_Host = ''h'', se_Path = ''/p'',
      se_Priority = 1, se_RetryCount = 0, se_SourceType = ''link'', se_SourceURL = ''u'',
      se_RunAt = 4000000, se_TaskType = ''crawl'', se_LighthouseRunID = 0\<rparr>"

definition due_example :: rstore where
  "due_example = empty_store\<lparr>zsets := (\<lambda>_. [])(ScheduleKey ''j'' :=
     [(3, ''junk''), (4, Member due_entry), (9, ''late'')])\<rparr>"

lemma due_example_z: "zsets due_example (ScheduleKey ''j'') =
    [(3, ''junk''), (4, Member due_entry), (9, ''late'')]"
  by (simp add: due_example_def)

lemma due_entry_ok: "entry_ok due_entry"
  by (simp add: entry_ok_def due_entry_def no_bar_def in_int64_def)

lemma parse_due_entry: "ParseScheduleEntry (Member due_entry) 4 = Inr (stored_entry due_entry)"
  using parse_member [OF due_entry_ok]
  by (simp add: Score_def due_entry_def unix_milli_def millisecond_def)

lemma parse_junk: "ParseScheduleEntry ''junk'' n = Inl MalformedEntry"
  using count_split_n [of "CHR ''|''" 10 "''junk''"] by (simp add: ParseScheduleEntry_def Let_def)

theorem due_items_sound_witness:
  "\<exists>es w'. DueItems mem_redis ''j'' 5000000 50 due_example = (Inr es, w') \<and>
     (\<forall>e\<in>set es. se_RunAt e \<le> 5000000) \<and> es = [stored_entry due_entry]"
proof -
  obtain es w' where d: "DueItems mem_redis ''j'' 5000000 50 due_example = (Inr es, w')"
    by (auto simp: DueItems_def Let_def case_prod_beta)
  have "Member due_entry \<noteq> ''junk''" and "Member due_entry \<noteq> ''late''"
    using count_bars_member [of due_entry] by auto
  then have wf: "zs_wf (zsets due_example (ScheduleKey ''j''))"
    by (auto simp: due_example_z zs_wf_def less_eq_prod_def)
  have "zs_range (unix_milli 5000000) 50 (zsets due_example (ScheduleKey ''j'')) =
      [(3, ''junk''), (4, Member due_entry)]"
    by (simp add: due_example_z zs_range_def unix_milli_def millisecond_def)
  then show ?thesis
    using d due_items_sound [OF mem.redis_server_axioms wf d] by (auto simp: parse_junk parse_due_entry)
qed

end
