(* ===== verification/Broker_Pacer.thy ===== *)
theory Broker_Pacer
  imports Broker_Scheduler
begin

text \<open>
  \<open>internal/broker/pacer.go\<close> and \<open>internal/broker/pacer_lua.go\<close>: the adaptive per-domain
  rate gate.  The three Lua scripts are programs over the data of the server, the Go
  methods run them through the client.  \<open>pace\<close> is the abstract state of one domain, and the
  scripts are shown to implement its transitions; the gate is shown to space the
  acquisitions of a domain by the delay in force.
\<close>

section \<open>The scripts\<close>

text \<open>\<open>tonumber(x or '0') or 0\<close> and \<open>tonumber(x or '0')\<close>, for the integers the broker stores.\<close>

definition lua_num :: "string option \<Rightarrow> int" where
  "lua_num x = (case x of None \<Rightarrow> 0 | Some v \<Rightarrow> (case signed_val v of Some n \<Rightarrow> n | None \<Rightarrow> 0))"

definition lua_tonumber :: "string option \<Rightarrow> int option" where
  "lua_tonumber x = (case x of None \<Rightarrow> Some 0 | Some v \<Rightarrow> signed_val v)"

text \<open>
  \<open>adaptiveDelayOnSuccessScript\<close>.  An error of \<open>redis.call\<close> ends the script; what was written
  before stays.
\<close>

definition adaptiveDelayOnSuccessScript :: "string \<Rightarrow> int \<Rightarrow> int \<Rightarrow> script" where
  "adaptiveDelayOnSuccessScript key threshold step s =
     (case redis_exec (HIncrBy key ''success_streak'' 1) s of
        (RErr e, s1) \<Rightarrow> (RErr e, s1)
      | (_, s1) \<Rightarrow>
          (case redis_exec (HMGet key [''success_streak'', ''adaptive_delay_ms'', ''floor_ms'']) s1 of
             (ROpts flds, s2) \<Rightarrow>
               (let streak = lua_num (flds ! 0); delay = lua_num (flds ! 1);
                    flr = lua_num (flds ! 2) in
                if threshold \<le> streak \<and> flr < delay
                then (let delay' = max flr (delay - step);
                          s3 = snd (redis_exec (HSet key [(''error_streak'', ''0''),
                                 (''adaptive_delay_ms'', itoa delay'), (''success_streak'', ''0'')]) s2);
                          s4 = snd (redis_exec (Expire key 86400) s3)
                      in (RInt delay', s4))
                else (let s3 = snd (redis_exec (HSet key [(''error_streak'', ''0'')]) s2);
                          s4 = snd (redis_exec (Expire key 86400) s3)
                      in (RInt delay, s4)))
           | (_, s2) \<Rightarrow> (RErr ''ERR script'', s2)))"

definition tryAcquireScript :: "string \<Rightarrow> string \<Rightarrow> script" where
  "tryAcquireScript cfgKey gateKey s =
     (case redis_exec (HMGet cfgKey [''base_delay_ms'', ''adaptive_delay_ms'']) s of
        (ROpts cfg, s1) \<Rightarrow>
          (let base = lua_num (cfg ! 0); adaptive = lua_num (cfg ! 1);
               delay = (if base < adaptive then adaptive else base) in
           if delay \<le> 0 then (RInts [1, 0, 0], s1)
           else case redis_exec (SetNXPX gateKey delay) s1 of
             (ROk, s2) \<Rightarrow> (RInts [1, delay, 0], s2)
           | (RErr e, s2) \<Rightarrow> (RErr e, s2)
           | (_, s2) \<Rightarrow>
               (case redis_exec (PTTL gateKey) s2 of
                  (RInt ttl, s3) \<Rightarrow> (RInts [0, delay, if ttl < 0 then 0 else ttl], s3)
                | (_, s3) \<Rightarrow> (RErr ''ERR script'', s3)))
      | (_, s1) \<Rightarrow> (RErr ''ERR script'', s1))"

definition adaptiveDelayOnErrorScript :: "string \<Rightarrow> int \<Rightarrow> int \<Rightarrow> script" where
  "adaptiveDelayOnErrorScript key step maxDelay s =
     (case redis_exec (HIncrBy key ''error_streak'' 1) s of
        (RErr e, s1) \<Rightarrow> (RErr e, s1)
      | (_, s1) \<Rightarrow>
          (case lua_tonumber (map_of (hash_at s1 key) ''adaptive_delay_ms'') of
             None \<Rightarrow> (RErr ''ERR attempt to perform arithmetic on a nil value'', s1)
           | Some delay \<Rightarrow>
               (let delay' = min maxDelay (delay + step);
                    s2 = snd (redis_exec (HSet key [(''success_streak'', ''0''),
                           (''adaptive_delay_ms'', itoa delay')]) s1);
                    s3 = snd (redis_exec (Expire key 86400) s2)
                in (RInt delay', s3))))"

section \<open>The Go methods\<close>

record pacer_config =
  pc_SuccessThreshold :: int
  pc_DelayStepMS :: int
  pc_DelayStepDownMS :: int
  pc_MaxDelayMS :: int
  pc_MinPushbackMS :: int

text \<open>\<open>DefaultPacerConfig\<close>: \<open>env key def\<close> is \<open>envInt\<close> on the environment of the process.\<close>

definition DefaultPacerConfig :: "(string \<Rightarrow> int \<Rightarrow> int) \<Rightarrow> pacer_config" where
  "DefaultPacerConfig env =
     (let stepUp = env ''GNH_RATE_LIMIT_DELAY_STEP_MS'' 500;
          stepDown = env ''GNH_RATE_LIMIT_DELAY_STEP_DOWN_MS'' stepUp
      in \<lparr>pc_SuccessThreshold = env ''GNH_RATE_LIMIT_SUCCESS_THRESHOLD'' 5,
          pc_DelayStepMS = stepUp, pc_DelayStepDownMS = stepDown,
          pc_MaxDelayMS = env ''GNH_RATE_LIMIT_MAX_DELAY_MS'' 60000,
          pc_MinPushbackMS = env ''GNH_DOMAIN_DELAY_PAUSE_MS'' 100\<rparr>)"

record pace_result =
  pr_Acquired :: bool
  pr_RetryAfter :: int

definition seed_cmds :: "string \<Rightarrow> int \<Rightarrow> int \<Rightarrow> int \<Rightarrow> cmd list" where
  "seed_cmds key baseDelayMS adaptiveDelayMS floorMS =
     [HSetNX key ''base_delay_ms'' (itoa baseDelayMS),
      HSetNX key ''adaptive_delay_ms'' (itoa adaptiveDelayMS),
      HSetNX key ''floor_ms'' (itoa floorMS),
      HSetNX key ''success_streak'' ''0'',
      HSetNX key ''error_streak'' ''0'',
      Expire key (24 * 3600)]"

definition Seed :: "'w redis \<Rightarrow> string \<Rightarrow> int \<Rightarrow> int \<Rightarrow> int \<Rightarrow> 'w \<Rightarrow> string option \<times> 'w" where
  "Seed R domain baseDelayMS adaptiveDelayMS floorMS w =
     (case r_pipe R (seed_cmds (DomainConfigKey domain) baseDelayMS adaptiveDelayMS floorMS) w of
        ((_, err), w1) \<Rightarrow> (err, w1))"

text \<open>\<open>parseTryAcquireResult\<close>: the script must have returned three integers.\<close>

definition parseTryAcquireResult :: "reply \<Rightarrow> string + (bool \<times> int \<times> int)" where
  "parseTryAcquireResult raw =
     (case raw of
        RInts [ok0, d, t] \<Rightarrow> Inr (ok0 = 1, d, t)
      | RErr e \<Rightarrow> Inl e
      | _ \<Rightarrow> Inl ''unexpected script result shape'')"

definition pushbackFloor :: "pacer_config \<Rightarrow> int \<Rightarrow> int" where
  "pushbackFloor cfg d =
     (let flr = pc_MinPushbackMS cfg * millisecond in if d < flr then flr else d)"

definition TryAcquire ::
  "'w redis \<Rightarrow> pacer_config \<Rightarrow> string \<Rightarrow> 'w \<Rightarrow> (string + pace_result) \<times> 'w" where
  "TryAcquire R cfg domain w =
     (case r_eval R (tryAcquireScript (DomainConfigKey domain) (DomainGateKey domain)) w of
        (raw, w1) \<Rightarrow>
          (case parseTryAcquireResult raw of
             Inl e \<Rightarrow> (Inl e, w1)
           | Inr (acquired, delayMS, ttlMS) \<Rightarrow>
               if acquired then (Inr \<lparr>pr_Acquired = True, pr_RetryAfter = 0\<rparr>, w1)
               else (let ttl = ttlMS * millisecond;
                         ttl' = (if ttl \<le> 0 then delayMS * millisecond else ttl)
                     in (Inr \<lparr>pr_Acquired = False, pr_RetryAfter = pushbackFloor cfg ttl'\<rparr>, w1))))"

definition IncrementInflight :: "'w redis \<Rightarrow> string \<Rightarrow> string \<Rightarrow> 'w \<Rightarrow> string option \<times> 'w" where
  "IncrementInflight R domain jobID w =
     (case r_cmd R (HIncrBy (DomainInflightKey domain) jobID 1) w of (r, w1) \<Rightarrow> (err_of r, w1))"

definition DecrementInflight :: "'w redis \<Rightarrow> string \<Rightarrow> string \<Rightarrow> 'w \<Rightarrow> string option \<times> 'w" where
  "DecrementInflight R domain jobID w =
     (let key = DomainInflightKey domain in
      case r_cmd R (HIncrBy key jobID (-1)) w of
        (RErr e, w1) \<Rightarrow> (Some e, w1)
      | (RInt val, w1) \<Rightarrow>
          (if val \<le> 0 then (None, snd (r_cmd R (HDel key [jobID]) w1)) else (None, w1))
      | (_, w1) \<Rightarrow> (Some [], w1))"

definition GetInflight :: "'w redis \<Rightarrow> string \<Rightarrow> string \<Rightarrow> 'w \<Rightarrow> (string + int) \<times> 'w" where
  "GetInflight R domain jobID w =
     (case r_cmd R (HGet (DomainInflightKey domain) jobID) w of
        (RNil, w1) \<Rightarrow> (Inr 0, w1)
      | (RStr v, w1) \<Rightarrow>
          (case atoi v of Some n \<Rightarrow> (Inr n, w1) | None \<Rightarrow> (Inl ''invalid syntax'', w1))
      | (RErr e, w1) \<Rightarrow> (Inl e, w1)
      | (_, w1) \<Rightarrow> (Inl [], w1))"

definition Release ::
  "'w redis \<Rightarrow> pacer_config \<Rightarrow> string \<Rightarrow> string \<Rightarrow> bool \<Rightarrow> bool \<Rightarrow> 'w \<Rightarrow> string option \<times> 'w" where
  "Release R cfg domain jobID success rateLimited w =
     (let cfgKey = DomainConfigKey domain in
      if success then
        (let stepDown = (if pc_DelayStepDownMS cfg \<le> 0 then pc_DelayStepMS cfg else pc_DelayStepDownMS cfg) in
         case r_eval R (adaptiveDelayOnSuccessScript cfgKey (pc_SuccessThreshold cfg) stepDown) w of
           (r, w1) \<Rightarrow>
             (case err_of r of Some e \<Rightarrow> (Some e, w1) | None \<Rightarrow> DecrementInflight R domain jobID w1))
      else if rateLimited then
        (case r_eval R (adaptiveDelayOnErrorScript cfgKey (pc_DelayStepMS cfg) (pc_MaxDelayMS cfg)) w of
           (r, w1) \<Rightarrow>
             (case err_of r of Some e \<Rightarrow> (Some e, w1) | None \<Rightarrow> DecrementInflight R domain jobID w1))
      else DecrementInflight R domain jobID w)"

section \<open>The abstract pace of a domain\<close>

record pace =
  p_base :: int
  p_adaptive :: int
  p_floor :: int
  p_succ :: int
  p_err :: int

definition pace_at :: "rstore \<Rightarrow> string \<Rightarrow> pace" where
  "pace_at s domain =
     (let get = (\<lambda>f. lua_num (map_of (hash_at s (DomainConfigKey domain)) f))
      in \<lparr>p_base = get ''base_delay_ms'', p_adaptive = get ''adaptive_delay_ms'',
          p_floor = get ''floor_ms'', p_succ = get ''success_streak'', p_err = get ''error_streak''\<rparr>)"

definition pace_success :: "int \<Rightarrow> int \<Rightarrow> pace \<Rightarrow> pace" where
  "pace_success threshold step p =
     (if threshold \<le> p_succ p + 1 \<and> p_floor p < p_adaptive p
      then p\<lparr>p_adaptive := max (p_floor p) (p_adaptive p - step), p_succ := 0, p_err := 0\<rparr>
      else p\<lparr>p_succ := p_succ p + 1, p_err := 0\<rparr>)"

definition pace_limited :: "int \<Rightarrow> int \<Rightarrow> pace \<Rightarrow> pace" where
  "pace_limited step maxDelay p =
     p\<lparr>p_adaptive := min maxDelay (p_adaptive p + step), p_succ := 0, p_err := p_err p + 1\<rparr>"

text \<open>The delay that \<open>TryAcquire\<close> enforces.\<close>

definition pace_delay :: "pace \<Rightarrow> int" where
  "pace_delay p = max (p_base p) (p_adaptive p)"

text \<open>The fields the scripts count with hold integers, as everything the broker writes does.\<close>

definition broker_counters_ok :: "rstore \<Rightarrow> string \<Rightarrow> bool" where
  "broker_counters_ok s domain =
     (let h = map_of (hash_at s (DomainConfigKey domain))
      in list_all (\<lambda>f. lua_tonumber (h f) \<noteq> None)
           [''success_streak'', ''error_streak'', ''adaptive_delay_ms''])"

lemma lua_num_itoa [simp]: "lua_num (Some (itoa n)) = n"
  by (simp add: lua_num_def signed_val_itoa)

lemma lua_tonumber_itoa [simp]: "lua_tonumber (Some (itoa n)) = Some n"
  by (simp add: lua_tonumber_def signed_val_itoa)

lemma itoa_0: "itoa 0 = ''0''"
  by code_simp

lemma lua_num_0 [simp]: "lua_num (Some ''0'') = 0"
  using lua_num_itoa [of 0] by (simp add: itoa_0)

lemma lua_tonumber_0 [simp]: "lua_tonumber (Some ''0'') = Some 0"
  using lua_tonumber_itoa [of 0] by (simp add: itoa_0)

lemma hash_int_lua: "hash_int h f = lua_tonumber (map_of h f)"
  by (simp add: hash_int_def lua_tonumber_def)

lemma lua_num_tonumber: "lua_tonumber x = Some n \<Longrightarrow> lua_num x = n"
  by (auto simp: lua_num_def lua_tonumber_def split: option.splits)

lemma hash_at_expire [simp]:
  "0 < n \<Longrightarrow> hash_at (snd (redis_exec (Expire k n) s)) k' = hash_at s k'"
  by (auto simp: hash_at_def expired_def split: option.splits if_splits)

lemma gates_expire [simp]: "gates (snd (redis_exec (Expire k n) s)) = gates s"
  by simp

lemma clock_expire [simp]: "clock_ms (snd (redis_exec (Expire k n) s)) = clock_ms s"
  by simp

lemmas script_defs = adaptiveDelayOnSuccessScript_def adaptiveDelayOnErrorScript_def Let_def
  hash_int_lua

text \<open>The scripts refine the abstract transitions and leave the other domains alone.\<close>

lemma success_script_hash:
  assumes "lua_tonumber (map_of (hash_at s key) ''success_streak'') = Some n"
  defines "h \<equiv> hash_at s key"
  defines "delay \<equiv> lua_num (map_of h ''adaptive_delay_ms'')" and "flr \<equiv> lua_num (map_of h ''floor_ms'')"
  shows "map_of (hash_at (snd (adaptiveDelayOnSuccessScript key threshold step s)) key) =
    (if threshold \<le> n + 1 \<and> flr < delay
     then (map_of h)(''success_streak'' \<mapsto> ''0'', ''error_streak'' \<mapsto> ''0'',
            ''adaptive_delay_ms'' \<mapsto> itoa (max flr (delay - step)))
     else (map_of h)(''success_streak'' \<mapsto> itoa (n + 1), ''error_streak'' \<mapsto> ''0''))"
    and "k' \<noteq> key \<Longrightarrow>
      hash_at (snd (adaptiveDelayOnSuccessScript key threshold step s)) k' = hash_at s k'"
    and "gates (snd (adaptiveDelayOnSuccessScript key threshold step s)) = gates s"
    and "clock_ms (snd (adaptiveDelayOnSuccessScript key threshold step s)) = clock_ms s"
  using assms
  by (simp_all add: script_defs del: redis_exec.simps(15)) (auto simp: fun_eq_iff)

lemma error_script_hash:
  assumes "lua_tonumber (map_of (hash_at s key) ''error_streak'') = Some n"
    and "lua_tonumber (map_of (hash_at s key) ''adaptive_delay_ms'') = Some delay"
  shows "map_of (hash_at (snd (adaptiveDelayOnErrorScript key step mx s)) key) =
     (map_of (hash_at s key))(''error_streak'' \<mapsto> itoa (n + 1), ''success_streak'' \<mapsto> ''0'',
            ''adaptive_delay_ms'' \<mapsto> itoa (min mx (delay + step)))"
    and "k' \<noteq> key \<Longrightarrow> hash_at (snd (adaptiveDelayOnErrorScript key step mx s)) k' = hash_at s k'"
    and "gates (snd (adaptiveDelayOnErrorScript key step mx s)) = gates s"
    and "clock_ms (snd (adaptiveDelayOnErrorScript key step mx s)) = clock_ms s"
  using assms
  by (simp_all add: script_defs del: redis_exec.simps(15))

lemma counters_okD:
  assumes "broker_counters_ok s d"
  obtains a b c where
    "lua_tonumber (map_of (hash_at s (DomainConfigKey d)) ''success_streak'') = Some a"
    "lua_tonumber (map_of (hash_at s (DomainConfigKey d)) ''error_streak'') = Some b"
    "lua_tonumber (map_of (hash_at s (DomainConfigKey d)) ''adaptive_delay_ms'') = Some c"
  using assms by (auto simp: broker_counters_ok_def Let_def)

lemma success_script_refines:
  fixes threshold step :: int
  assumes "broker_counters_ok s d"
  defines "s' \<equiv> snd (adaptiveDelayOnSuccessScript (DomainConfigKey d) threshold step s)"
  shows "pace_at s' d = pace_success threshold step (pace_at s d)"
    and "broker_counters_ok s' d" and "e \<noteq> d \<Longrightarrow> pace_at s' e = pace_at s e"
    and "e \<noteq> d \<Longrightarrow> broker_counters_ok s' e = broker_counters_ok s e"
    and "gates s' = gates s" and "clock_ms s' = clock_ms s"
proof -
  obtain a b c where n:
    "lua_tonumber (map_of (hash_at s (DomainConfigKey d)) ''success_streak'') = Some a"
    "lua_tonumber (map_of (hash_at s (DomainConfigKey d)) ''error_streak'') = Some b"
    "lua_tonumber (map_of (hash_at s (DomainConfigKey d)) ''adaptive_delay_ms'') = Some c"
    using assms(1) by (rule counters_okD)
  note h = success_script_hash [OF n(1), where threshold = threshold and step = step, folded s'_def]
  note num = lua_num_tonumber [OF n(1)] lua_num_tonumber [OF n(2)] lua_num_tonumber [OF n(3)]
  show "pace_at s' d = pace_success threshold step (pace_at s d)"
    by (simp add: pace_at_def pace_success_def h(1) num)
  show "broker_counters_ok s' d" using n by (simp add: broker_counters_ok_def h(1))
  show "e \<noteq> d \<Longrightarrow> pace_at s' e = pace_at s e"
    by (simp add: pace_at_def h(2) [of "DomainConfigKey e"])
  show "e \<noteq> d \<Longrightarrow> broker_counters_ok s' e = broker_counters_ok s e"
    by (simp add: broker_counters_ok_def h(2) [of "DomainConfigKey e"])
  show "gates s' = gates s" and "clock_ms s' = clock_ms s" by (rule h(3), rule h(4))
qed

lemma error_script_refines:
  fixes mx step :: int
  assumes "broker_counters_ok s d"
  defines "s' \<equiv> snd (adaptiveDelayOnErrorScript (DomainConfigKey d) step mx s)"
  shows "pace_at s' d = pace_limited step mx (pace_at s d)"
    and "broker_counters_ok s' d" and "e \<noteq> d \<Longrightarrow> pace_at s' e = pace_at s e"
    and "e \<noteq> d \<Longrightarrow> broker_counters_ok s' e = broker_counters_ok s e"
    and "gates s' = gates s" and "clock_ms s' = clock_ms s"
proof -
  obtain a b c where n:
    "lua_tonumber (map_of (hash_at s (DomainConfigKey d)) ''success_streak'') = Some a"
    "lua_tonumber (map_of (hash_at s (DomainConfigKey d)) ''error_streak'') = Some b"
    "lua_tonumber (map_of (hash_at s (DomainConfigKey d)) ''adaptive_delay_ms'') = Some c"
    using assms(1) by (rule counters_okD)
  note h = error_script_hash [OF n(2,3), where step = step and mx = mx, folded s'_def]
  note num = lua_num_tonumber [OF n(1)] lua_num_tonumber [OF n(2)] lua_num_tonumber [OF n(3)]
  show "pace_at s' d = pace_limited step mx (pace_at s d)"
    by (simp add: pace_at_def pace_limited_def h(1) num)
  show "broker_counters_ok s' d" by (simp add: broker_counters_ok_def h(1))
  show "e \<noteq> d \<Longrightarrow> pace_at s' e = pace_at s e"
    by (simp add: pace_at_def h(2) [of "DomainConfigKey e"])
  show "e \<noteq> d \<Longrightarrow> broker_counters_ok s' e = broker_counters_ok s e"
    by (simp add: broker_counters_ok_def h(2) [of "DomainConfigKey e"])
  show "gates s' = gates s" and "clock_ms s' = clock_ms s" by (rule h(3), rule h(4))
qed

section \<open>The bounds of the adaptive delay, and recovery\<close>

definition pace_bounded :: "int \<Rightarrow> pace \<Rightarrow> bool" where
  "pace_bounded mx p \<longleftrightarrow> p_floor p \<le> p_adaptive p \<and> p_adaptive p \<le> mx"

lemma pace_success_bounded: "pace_bounded mx p \<Longrightarrow> 0 \<le> step \<Longrightarrow> pace_bounded mx (pace_success t step p)"
  by (auto simp: pace_bounded_def pace_success_def)

lemma pace_limited_bounded: "pace_bounded mx p \<Longrightarrow> 0 \<le> step \<Longrightarrow> pace_bounded mx (pace_limited step mx p)"
  by (auto simp: pace_bounded_def pace_limited_def)

lemma pace_success_floor [simp]: "p_floor (pace_success t step p) = p_floor p"
  by (simp add: pace_success_def)

text \<open>A streak of successes: below the threshold only the streak grows.\<close>

lemma pace_success_streak:
  assumes "p_succ p + int k < t"
  shows "(pace_success t step ^^ k) p = p\<lparr>p_succ := p_succ p + int k,
    p_err := (if k = 0 then p_err p else 0)\<rparr>"
  using assms
proof (induction k)
  case (Suc k)
  then show ?case by (simp add: pace_success_def)
qed simp

lemma pace_success_round:
  assumes "0 < t" and "p_succ p = 0" and "p_floor p < p_adaptive p"
  shows "(pace_success (int t) step ^^ t) p =
    p\<lparr>p_adaptive := max (p_floor p) (p_adaptive p - step), p_succ := 0, p_err := 0\<rparr>"
proof -
  obtain k where t: "t = Suc k" using assms(1) gr0_implies_Suc by blast
  show ?thesis unfolding t using assms
    by (simp add: pace_success_streak t) (simp add: pace_success_def)
qed

lemma pace_success_low:
  assumes "p_adaptive p \<le> p_floor p"
  shows "p_adaptive ((pace_success t step ^^ n) p) = p_adaptive p \<and>
    p_floor ((pace_success t step ^^ n) p) = p_floor p"
  using assms by (induction n) (auto simp: pace_success_def)

lemma pace_recovery:
  assumes "0 < t" and "0 < step" and "p_succ p = 0" and "p_floor p \<le> p_adaptive p"
  shows "p_adaptive ((pace_success (int t) step ^^ (n * t)) p) =
    max (p_floor p) (p_adaptive p - int n * step)"
  using assms(3,4)
proof (induction n arbitrary: p)
  case (Suc n)
  show ?case
  proof (cases "p_floor p < p_adaptive p")
    case True
    let ?q = "p\<lparr>p_adaptive := max (p_floor p) (p_adaptive p - step), p_succ := 0, p_err := 0\<rparr>"
    have "(pace_success (int t) step ^^ (Suc n * t)) p =
        (pace_success (int t) step ^^ (n * t)) ((pace_success (int t) step ^^ t) p)"
      by (simp add: add.commute [of t] funpow_add)
    also have "(pace_success (int t) step ^^ t) p = ?q"
      using assms(1) Suc.prems True by (intro pace_success_round)
    finally have "p_adaptive ((pace_success (int t) step ^^ (Suc n * t)) p) =
        max (p_floor ?q) (p_adaptive ?q - int n * step)"
      using Suc.IH [of ?q] by simp
    moreover have "0 \<le> int n * step" and "int (Suc n) * step = step + int n * step"
      using assms(2) by (simp_all add: distrib_right)
    ultimately show ?thesis by (simp only: max_def) (auto split: if_splits)
  next
    case False
    moreover have "0 \<le> int (Suc n) * step" using assms(2) by simp
    ultimately show ?thesis
      using pace_success_low [of p "Suc n * t" "int t" step] Suc.prems
      by (simp only: max_def) (auto split: if_splits)
  qed
qed simp

section \<open>Spacing of the acquisitions\<close>

text \<open>
  What the workers and the passing of time do to the server, one atomic script at a time,
  in any order and for any domain.
\<close>

datatype pacer_event =
    Acquired string int
  | Refused string int
  | Succeeded string
  | RateLimited string
  | Seeded string
  | Waited nat

inductive pacer_step :: "pacer_config \<Rightarrow> rstore \<Rightarrow> pacer_event \<Rightarrow> rstore \<Rightarrow> bool" for cfg where
  acquired: "tryAcquireScript (DomainConfigKey d) (DomainGateKey d) s = (RInts [1, delay, ttl], s')
     \<Longrightarrow> pacer_step cfg s (Acquired d delay) s'"
| refused: "tryAcquireScript (DomainConfigKey d) (DomainGateKey d) s = (RInts [0, delay, ttl], s')
     \<Longrightarrow> pacer_step cfg s (Refused d ttl) s'"
| succeeded: "pacer_step cfg s (Succeeded d) (snd (adaptiveDelayOnSuccessScript (DomainConfigKey d)
     (pc_SuccessThreshold cfg) (pc_DelayStepDownMS cfg) s))"
| rate_limited: "pacer_step cfg s (RateLimited d) (snd (adaptiveDelayOnErrorScript (DomainConfigKey d)
     (pc_DelayStepMS cfg) (pc_MaxDelayMS cfg) s))"
| seeded: "pacer_step cfg s (Seeded d) (snd (redis_exec_all (seed_cmds (DomainConfigKey d) b a f) s))"
| waited: "pacer_step cfg s (Waited n) (tick n s)"

inductive pacer_run :: "pacer_config \<Rightarrow> rstore \<Rightarrow> pacer_event list \<Rightarrow> rstore \<Rightarrow> bool" for cfg where
  run_nil: "pacer_run cfg s [] s"
| run_cons: "pacer_step cfg s e s1 \<Longrightarrow> pacer_run cfg s1 es s2 \<Longrightarrow> pacer_run cfg s (e # es) s2"

lemma try_acquire_cases:
  assumes "tryAcquireScript ck gk s = (r, s')"
  defines "delay \<equiv> max (lua_num (map_of (hash_at s ck) ''base_delay_ms''))
                        (lua_num (map_of (hash_at s ck) ''adaptive_delay_ms''))"
  obtains (free) "delay \<le> 0" "r = RInts [1, 0, 0]" "s' = s"
  | (taken) "0 < delay" "r = RInts [1, delay, 0]" "gate_open s gk"
      "s' = s\<lparr>gates := (gates s)(gk \<mapsto> clock_ms s + delay)\<rparr>"
  | (shut) e where "0 < delay" "gates s gk = Some e" "clock_ms s < e"
      "r = RInts [0, delay, e - clock_ms s]" "s' = s"
proof (cases "delay \<le> 0")
  case True
  then show ?thesis using assms by (intro free) (auto simp: tryAcquireScript_def Let_def max_def split: if_splits)
next
  case False
  have d: "(if lua_num (map_of (hash_at s ck) ''base_delay_ms'')
      < lua_num (map_of (hash_at s ck) ''adaptive_delay_ms'')
     then lua_num (map_of (hash_at s ck) ''adaptive_delay_ms'')
     else lua_num (map_of (hash_at s ck) ''base_delay_ms'')) = delay"
    unfolding delay_def max_def by auto
  show ?thesis
  proof (cases "gate_open s gk")
    case True
    with False d assms(1) show ?thesis by (intro taken) (auto simp: tryAcquireScript_def Let_def)
  next
    case gk: False
    then obtain e where e: "gates s gk = Some e" "clock_ms s < e"
      by (auto simp: gate_open_def split: option.splits)
    with False d assms(1) gk show ?thesis
      by (intro shut [of e]) (auto simp: tryAcquireScript_def Let_def)
  qed
qed

lemma success_script_frame:
  "gates (snd (adaptiveDelayOnSuccessScript key t step s)) = gates s \<and>
   clock_ms (snd (adaptiveDelayOnSuccessScript key t step s)) = clock_ms s"
  by (auto simp: script_defs split: option.splits)

lemma error_script_frame:
  "gates (snd (adaptiveDelayOnErrorScript key step mx s)) = gates s \<and>
   clock_ms (snd (adaptiveDelayOnErrorScript key step mx s)) = clock_ms s"
  by (auto simp: script_defs split: option.splits)

lemma gates_seed: "gates (snd (redis_exec_all (seed_cmds k b a f) s)) = gates s \<and>
    clock_ms (snd (redis_exec_all (seed_cmds k b a f) s)) = clock_ms s"
proof -
  have 1: "gates (snd (redis_exec (HSetNX k g v) s)) = gates s" for g v s
    by (auto split: option.splits)
  have 2: "clock_ms (snd (redis_exec_all cs s)) = clock_ms s" for cs s
    by (induction cs arbitrary: s) (simp_all add: Let_def case_prod_beta clock_mono)
  show ?thesis
    by (simp add: 2 seed_cmds_def Let_def case_prod_beta 1 clock_mono del: redis_exec.simps)
qed

text \<open>
  The gate of a domain is shut until a given time, or that time has come.
\<close>

definition gate_until :: "string \<Rightarrow> int \<Rightarrow> rstore \<Rightarrow> bool" where
  "gate_until d t s \<longleftrightarrow>
     (\<exists>e. gates s (DomainGateKey d) = Some e \<and> t \<le> e) \<or> t \<le> clock_ms s"

lemma gate_until_step: "pacer_step cfg s e s' \<Longrightarrow> gate_until d t s \<Longrightarrow> gate_until d t s'"
proof (induction rule: pacer_step.induct)
  case (acquired d' s delay ttl s')
  show ?case
    using try_acquire_cases [OF acquired(1)] acquired(2)
    by cases (auto simp: gate_until_def gate_open_def)
next
  case (refused d' s delay ttl s')
  show ?case using try_acquire_cases [OF refused(1)] refused(2) by cases auto
next
  case (waited s n)
  then show ?case by (auto simp: gate_until_def)
qed (auto simp: gate_until_def success_script_frame error_script_frame gates_seed)

text \<open>Commands that neither delete the key of the gate nor change its expiry.\<close>

definition spares_gate :: "string \<Rightarrow> cmd \<Rightarrow> bool" where
  "spares_gate d c =
     (case c of Del ks \<Rightarrow> DomainGateKey d \<notin> set ks | Expire k secs \<Rightarrow> k \<noteq> DomainGateKey d | _ \<Rightarrow> True)"

text \<open>Anything that may happen between two acquisitions: steps of the pacer for any domain and with any
  configuration, the passing of time among them, and single commands of any client that spare the gate.\<close>

inductive meanwhile :: "string \<Rightarrow> rstore \<Rightarrow> rstore \<Rightarrow> bool" for d where
  nothing: "meanwhile d s s"
| pacing: "meanwhile d s s1 \<Longrightarrow> pacer_step cfg s1 e s2 \<Longrightarrow> meanwhile d s s2"
| command: "meanwhile d s s1 \<Longrightarrow> spares_gate d c \<Longrightarrow> meanwhile d s (snd (redis_exec c s1))"

lemma del_key_gate: "k \<noteq> g \<Longrightarrow> gates (del_key k s) g = gates s g"
  by (simp add: del_key_def)

lemma del_keys_gate: "g \<notin> set ks \<Longrightarrow> gates (fold del_key ks s) g = gates s g"
  by (induction ks arbitrary: s) (auto simp: del_key_gate)

lemma command_gate:
  assumes "spares_gate d c"
  shows "gates (snd (redis_exec c s)) (DomainGateKey d) = gates s (DomainGateKey d) \<or>
    gate_open s (DomainGateKey d)"
  using assms
proof (cases c)
  case (Del ks)
  then show ?thesis using assms by (auto simp: spares_gate_def del_keys_gate)
qed (auto simp: Let_def split: option.split prod.split)

lemma gate_until_meanwhile: "meanwhile d s s' \<Longrightarrow> gate_until d t s \<Longrightarrow> gate_until d t s'"
proof (induction rule: meanwhile.induct)
  case (pacing s s1 cfg e s2)
  then show ?case using gate_until_step by blast
next
  case (command s s1 c)
  then have "gate_until d t s1" by simp
  then show ?case using command_gate [OF command(2), of s1]
    by (auto simp: gate_until_def gate_open_def clock_mono split: option.splits)
qed simp

section \<open>The methods through a client\<close>

lemma parse_result_ok:
  "parseTryAcquireResult raw = Inr (a, d, t) \<Longrightarrow> \<exists>n. raw = RInts [n, d, t] \<and> (a \<longleftrightarrow> n = 1)"
  by (auto simp: parseTryAcquireResult_def split: reply.splits list.splits)

context redis_server
begin

text \<open>A result of \<open>TryAcquire\<close> comes from one atomic run of the script.\<close>

lemma try_acquire_step:
  assumes "TryAcquire R cfg dm w = (Inr r, w')"
  obtains n where "pr_Acquired r" and
      "\<exists>delay. pacer_step cfg (tick n (view w)) (Acquired dm delay) (view w')"
  | n ttl where "\<not> pr_Acquired r" and "pacer_step cfg (tick n (view w)) (Refused dm ttl) (view w')"
      and "0 < ttl" and "pr_RetryAfter r = pushbackFloor cfg (ttl * millisecond)"
      and "gates (view w') (DomainGateKey dm) = Some (clock_ms (view w') + ttl)"
proof -
  let ?p = "tryAcquireScript (DomainConfigKey dm) (DomainGateKey dm)"
  obtain raw where e: "r_eval R ?p w = (raw, w')"
    using assms by (auto simp: TryAcquire_def Let_def split: prod.splits sum.splits if_splits)
  obtain a dl t where p: "parseTryAcquireResult raw = Inr (a, dl, t)"
    using assms e by (auto simp: TryAcquire_def split: sum.splits if_splits)
  from p have "\<not> is_err raw" by (auto dest!: parse_result_ok)
  then obtain n where n: "(raw, view w') = ?p (tick n (view w))"
    using eval_law [of ?p w] e by auto
  then have run: "?p (tick n (view w)) = (raw, view w')" by simp
  show ?thesis
    using run
  proof (cases rule: try_acquire_cases)
    case free
    with p run have "a" by (auto dest!: parse_result_ok)
    then have "pr_Acquired r" using assms e p by (auto simp: TryAcquire_def split: prod.splits)
    with free run show ?thesis by (metis that(1) acquired)
  next
    case taken
    with p run have "a" by (auto dest!: parse_result_ok)
    then have "pr_Acquired r" using assms e p by (auto simp: TryAcquire_def split: prod.splits)
    with taken run show ?thesis by (metis that(1) acquired)
  next
    case (shut x)
    with p have na: "\<not> a" and t: "t = x - clock_ms (view w')" by (auto dest!: parse_result_ok)
    then have r: "r = \<lparr>pr_Acquired = False, pr_RetryAfter = pushbackFloor cfg (t * millisecond)\<rparr>"
      using assms e p shut by (auto simp: TryAcquire_def millisecond_def)
    have "pacer_step cfg (tick n (view w)) (Refused dm t) (view w')"
      using run shut t by (metis refused)
    moreover have "0 < t" using shut t by simp
    moreover have "gates (view w') (DomainGateKey dm) = Some (clock_ms (view w') + t)"
      using shut t by simp
    ultimately show ?thesis using that(2) [of n t] r by simp
  qed
qed

end

lemma hash_at_gates [simp]: "hash_at (s\<lparr>gates := g\<rparr>) k = hash_at s k"
  by (simp add: hash_at_def expired_def split: option.splits)

lemma pace_at_gates [simp]: "pace_at (s\<lparr>gates := g\<rparr>) d = pace_at s d"
  by (simp add: pace_at_def)

lemma counters_ok_gates [simp]: "broker_counters_ok (s\<lparr>gates := g\<rparr>) d = broker_counters_ok s d"
  by (simp add: broker_counters_ok_def)

lemma hash_at_tick: "hash_at (tick n s) k = [] \<or> hash_at (tick n s) k = hash_at s k"
  by (auto simp: hash_at_def expired_def split: option.splits)

lemma pace_at_empty: "hash_at s (DomainConfigKey d) = [] \<Longrightarrow>
    pace_at s d = \<lparr>p_base = 0, p_adaptive = 0, p_floor = 0, p_succ = 0, p_err = 0\<rparr> \<and> broker_counters_ok s d"
  by (simp add: pace_at_def broker_counters_ok_def lua_num_def lua_tonumber_def)

lemma pace_at_cong: "hash_at s (DomainConfigKey d) = hash_at t (DomainConfigKey d) \<Longrightarrow>
    pace_at s d = pace_at t d \<and> broker_counters_ok s d = broker_counters_ok t d"
  by (simp add: pace_at_def broker_counters_ok_def)

definition pace_inv :: "int \<Rightarrow> string \<Rightarrow> rstore \<Rightarrow> bool" where
  "pace_inv mx d s \<longleftrightarrow> broker_counters_ok s d \<and> pace_bounded mx (pace_at s d)"

lemma script_other_domain:
  assumes "e \<noteq> d"
  shows "hash_at (snd (adaptiveDelayOnSuccessScript (DomainConfigKey e) t step s)) (DomainConfigKey d) =
      hash_at s (DomainConfigKey d)"
    and "hash_at (snd (adaptiveDelayOnErrorScript (DomainConfigKey e) step mx s)) (DomainConfigKey d) =
      hash_at s (DomainConfigKey d)"
  using assms by (auto simp: script_defs simp del: redis_exec.simps(15) split: option.splits)

lemma pace_inv_step:
  assumes "pacer_step cfg s ev s'" and "pace_inv (pc_MaxDelayMS cfg) d s"
    and "\<forall>e. ev \<noteq> Seeded e" and "0 \<le> pc_DelayStepMS cfg" and "0 \<le> pc_DelayStepDownMS cfg"
    and "0 \<le> pc_MaxDelayMS cfg"
  shows "pace_inv (pc_MaxDelayMS cfg) d s'"
  using assms
proof (induction rule: pacer_step.induct)
  case (acquired d' s delay ttl s')
  from try_acquire_cases [OF acquired(1)] acquired(2) show ?case
    by cases (auto simp: pace_inv_def)
next
  case (refused d' s delay ttl s')
  from try_acquire_cases [OF refused(1)] refused(2) show ?case by cases auto
next
  case (succeeded s d')
  show ?case
  proof (cases "d' = d")
    case True
    with succeeded show ?thesis
      by (auto simp: pace_inv_def success_script_refines pace_success_bounded)
  next
    case False
    with succeeded show ?thesis
      using pace_at_cong [OF script_other_domain(1) [OF False]] by (simp add: pace_inv_def)
  qed
next
  case (rate_limited s d')
  show ?case
  proof (cases "d' = d")
    case True
    with rate_limited show ?thesis
      by (auto simp: pace_inv_def error_script_refines pace_limited_bounded)
  next
    case False
    with rate_limited show ?thesis
      using pace_at_cong [OF script_other_domain(2) [OF False]] by (simp add: pace_inv_def)
  qed
next
  case (waited s n)
  show ?case
    using hash_at_tick [of n s "DomainConfigKey d"] waited
    by (auto simp: pace_inv_def pace_bounded_def dest: pace_at_empty pace_at_cong)
qed simp

section \<open>Properties\<close>

context redis_server
begin

text \<open>An acquisition under a positive delay found the gate open and has shut it for that delay.\<close>

lemma acquire_spaces:
  assumes "TryAcquire R cfg d w = (Inr r, w')" and "pr_Acquired r" and "0 < pace_delay (pace_at (view w') d)"
  shows "gate_until d (clock_ms (view w') + pace_delay (pace_at (view w') d)) (view w')"
    and "gate_until d t (view w) \<Longrightarrow> t \<le> clock_ms (view w')"
proof -
  let ?p = "tryAcquireScript (DomainConfigKey d) (DomainGateKey d)"
  obtain raw where e: "r_eval R ?p w = (raw, w')"
    using assms(1) by (auto simp: TryAcquire_def Let_def split: prod.splits sum.splits if_splits)
  obtain a dl t where p: "parseTryAcquireResult raw = Inr (a, dl, t)"
    using assms(1) e by (auto simp: TryAcquire_def split: sum.splits if_splits)
  have a using assms(1,2) e p by (auto simp: TryAcquire_def Let_def split: if_splits)
  have "\<not> is_err raw" using p by (auto dest!: parse_result_ok)
  then obtain n where "(raw, view w') = ?p (tick n (view w))" using eval_law [of ?p w] e by auto
  then have run: "?p (tick n (view w)) = (raw, view w')" by simp
  have "gate_open (tick n (view w)) (DomainGateKey d) \<and>
      view w' = (tick n (view w))\<lparr>gates := (gates (tick n (view w)))(DomainGateKey d \<mapsto>
        clock_ms (tick n (view w)) + pace_delay (pace_at (tick n (view w)) d))\<rparr>"
    using run
  proof (cases rule: try_acquire_cases)
    case free
    then show ?thesis using assms(3) by (auto simp: pace_delay_def pace_at_def Let_def)
  next
    case taken
    then show ?thesis by (simp add: pace_delay_def pace_at_def)
  next
    case (shut x)
    then show ?thesis using p \<open>a\<close> by (auto dest!: parse_result_ok)
  qed
  then have o: "gate_open (tick n (view w)) (DomainGateKey d)"
    and w': "view w' = (tick n (view w))\<lparr>gates := (gates (tick n (view w)))(DomainGateKey d \<mapsto>
        clock_ms (tick n (view w)) + pace_delay (pace_at (tick n (view w)) d))\<rparr>" by simp_all
  show "gate_until d (clock_ms (view w') + pace_delay (pace_at (view w') d)) (view w')"
    unfolding w' by (simp add: gate_until_def)
  show "t \<le> clock_ms (view w')" if "gate_until d t (view w)" for t
    using that o unfolding w' by (auto simp: gate_until_def gate_open_def)
qed

end

text \<open>C24: Two calls of \<open>TryAcquire\<close> that let a task of one domain pass while its delay is positive are
  apart, on the clock of the server, by at least the delay that was in force at the first.  In between
  anything may run on the server, from any client: acquisitions, releases and seedings of this and
  other domains, the passing of time, and arbitrary commands, as long as none of them deletes the key
  of the gate or changes its expiry.\<close>

theorem pacer_spacing:
  assumes "redis_server R view"
    and "TryAcquire R cfg d w0 = (Inr r1, w1)" and "pr_Acquired r1" and "0 < pace_delay (pace_at (view w1) d)"
    and "meanwhile d (view w1) (view w2)"
    and "TryAcquire R cfg' d w2 = (Inr r2, w3)" and "pr_Acquired r2" and "0 < pace_delay (pace_at (view w3) d)"
  shows "clock_ms (view w1) + pace_delay (pace_at (view w1) d) \<le> clock_ms (view w3)"
proof -
  note shut = redis_server.acquire_spaces(1) [OF assms(1-4)]
  show ?thesis
    by (rule redis_server.acquire_spaces(2) [OF assms(1,6-8) gate_until_meanwhile [OF assms(5) shut]])
qed

text \<open>A domain with a base delay of 500 ms, for the witnesses.\<close>

definition pacer_example :: rstore where
  "pacer_example = snd (redis_exec_all (seed_cmds (DomainConfigKey ''a.com'') 500 0 0) empty_store)"

lemma pacer_example_hash:
  "map_of (hash_at pacer_example (DomainConfigKey ''a.com'')) =
     [''base_delay_ms'' \<mapsto> itoa 500, ''adaptive_delay_ms'' \<mapsto> itoa 0, ''floor_ms'' \<mapsto> itoa 0,
      ''success_streak'' \<mapsto> ''0'', ''error_streak'' \<mapsto> ''0'']"
  by (auto simp: pacer_example_def seed_cmds_def Let_def hash_at_def expired_def put_hash_def
      empty_store_def fun_eq_iff)

lemma pacer_example_store: "gates pacer_example = (\<lambda>_. None)" "clock_ms pacer_example = 0"
  using gates_seed [of "DomainConfigKey ''a.com''" 500 0 0 empty_store]
  by (simp_all add: pacer_example_def empty_store_def)

lemma pacer_example_ttl:
  "ttls pacer_example = (\<lambda>_. None)(DomainConfigKey ''a.com'' := Some 86400000)"
  by (auto simp: pacer_example_def seed_cmds_def Let_def hash_at_def expired_def put_hash_def
      empty_store_def fun_eq_iff)

lemma pacer_example_tick:
  "n < 86400000 \<Longrightarrow> hash_at (tick n (pacer_example\<lparr>gates := g\<rparr>)) k = hash_at pacer_example k"
  by (simp add: hash_at_def expired_def pacer_example_ttl pacer_example_store)

theorem pacer_spacing_witness:
  "\<exists>r1 r2 w1 w3. TryAcquire mem_redis (DefaultPacerConfig (\<lambda>_ d. d)) ''a.com'' pacer_example = (Inr r1, w1) \<and> pr_Acquired r1 \<and>
     TryAcquire mem_redis (DefaultPacerConfig (\<lambda>_ d. d)) ''a.com'' (tick 700 (snd (redis_exec (XLen ''q'') w1))) = (Inr r2, w3) \<and>
     pr_Acquired r2 \<and> 500 \<le> clock_ms w3"
proof -
  let ?cfg = "DefaultPacerConfig (\<lambda>_ d. d)"
  let ?ck = "DomainConfigKey ''a.com''" and ?gk = "DomainGateKey ''a.com''"
  let ?s1 = "pacer_example\<lparr>gates := (gates pacer_example)(?gk \<mapsto> 500)\<rparr>"
  let ?s2 = "tick 700 (snd (redis_exec (XLen ''q'') ?s1))" let ?s3 = "?s2\<lparr>gates := (gates ?s2)(?gk \<mapsto> 1200)\<rparr>"
  let ?r = "\<lparr>pr_Acquired = True, pr_RetryAfter = 0\<rparr>"
  have a: "TryAcquire mem_redis ?cfg ''a.com'' pacer_example = (Inr ?r, ?s1)"
    by (simp add: TryAcquire_def tryAcquireScript_def Let_def pacer_example_hash gate_open_def pacer_example_store parseTryAcquireResult_def)
  have b: "TryAcquire mem_redis ?cfg ''a.com'' ?s2 = (Inr ?r, ?s3)"
    by (simp add: TryAcquire_def tryAcquireScript_def Let_def pacer_example_hash pacer_example_tick gate_open_def
        pacer_example_store parseTryAcquireResult_def)
  have "spares_gate ''a.com'' (XLen ''q'')" by (simp add: spares_gate_def)
  then have "meanwhile ''a.com'' ?s1 (snd (redis_exec (XLen ''q'') ?s1))" by (rule meanwhile.command [OF meanwhile.nothing])
  then have m: "meanwhile ''a.com'' ?s1 ?s2" by (rule meanwhile.pacing [OF _ waited])
  have p: "pace_delay (pace_at ?s1 ''a.com'') = 500" "pace_delay (pace_at ?s3 ''a.com'') = 500"
    by (simp_all add: pace_delay_def pace_at_def pacer_example_hash pacer_example_tick)
  have "clock_ms ?s1 + pace_delay (pace_at ?s1 ''a.com'') \<le> clock_ms ?s3"
    by (rule pacer_spacing [OF mem.redis_server_axioms a _ _ m b]) (simp_all only: p, simp_all)
  then have "500 \<le> clock_ms ?s3" unfolding p by (simp add: pacer_example_store)
  then show ?thesis using a b by auto
qed

text \<open>When the gate of the domain is shut, \<open>TryAcquire\<close> answers with a delay that is at least
  the configured minimum push-back and long enough: once it has passed on the clock of the
  server the gate is open.\<close>

theorem try_acquire_retry_after:
  assumes "redis_server R view"
    and "TryAcquire R cfg d w = (Inr r, w')" and "\<not> pr_Acquired r"
  shows "pc_MinPushbackMS cfg * millisecond \<le> pr_RetryAfter r \<and>
    (\<forall>n. pr_RetryAfter r \<le> int n * millisecond \<longrightarrow> gate_open (tick n (view w')) (DomainGateKey d))"
proof (rule redis_server.try_acquire_step [OF assms(1,2)], goal_cases)
  case (1 n)
  with assms(3) show ?case by simp
next
  case (2 n ttl)
  have "ttl * millisecond \<le> pr_RetryAfter r"
    using 2(4) by (simp add: pushbackFloor_def Let_def)
  then have "ttl \<le> int m" if "pr_RetryAfter r \<le> int m * millisecond" for m
    using that by (simp add: millisecond_def)
  with 2 show ?case by (auto simp: pushbackFloor_def Let_def gate_open_def)
qed

theorem try_acquire_retry_after_witness:
  "\<exists>r w'. TryAcquire mem_redis \<lparr>pc_SuccessThreshold = 5, pc_DelayStepMS = 500,
       pc_DelayStepDownMS = 500, pc_MaxDelayMS = 60000, pc_MinPushbackMS = 100\<rparr> ''a.com''
       (pacer_example\<lparr>gates := [DomainGateKey ''a.com'' \<mapsto> 30]\<rparr>) = (Inr r, w') \<and>
     \<not> pr_Acquired r \<and> 100 * millisecond \<le> pr_RetryAfter r"
proof -
  let ?cfg = "\<lparr>pc_SuccessThreshold = 5, pc_DelayStepMS = 500,
       pc_DelayStepDownMS = 500, pc_MaxDelayMS = 60000, pc_MinPushbackMS = 100\<rparr>"
  let ?s = "pacer_example\<lparr>gates := [DomainGateKey ''a.com'' \<mapsto> 30]\<rparr>"
  have t: "TryAcquire mem_redis ?cfg ''a.com'' ?s =
      (Inr \<lparr>pr_Acquired = False, pr_RetryAfter = pushbackFloor ?cfg (30 * millisecond)\<rparr>, ?s)"
    by (simp add: TryAcquire_def tryAcquireScript_def Let_def pacer_example_hash gate_open_def
        pacer_example_store parseTryAcquireResult_def millisecond_def)
  show ?thesis using t try_acquire_retry_after [OF mem.redis_server_axioms t] by simp
qed

text \<open>The adaptive delay of a domain stays between its floor and the configured maximum.
  As long as nobody seeds the domain again, no sequence of acquisitions, successes, rate
  limit signals, waiting and expiry, on this domain or others, takes it out of these
  bounds.\<close>

theorem adaptive_delay_bounded:
  assumes "pacer_run cfg s es s'" and "pace_inv (pc_MaxDelayMS cfg) d s"
    and "\<forall>e. Seeded e \<notin> set es" and "0 \<le> pc_DelayStepMS cfg" and "0 \<le> pc_DelayStepDownMS cfg"
    and "0 \<le> pc_MaxDelayMS cfg"
  shows "p_floor (pace_at s' d) \<le> p_adaptive (pace_at s' d) \<and>
    p_adaptive (pace_at s' d) \<le> pc_MaxDelayMS cfg"
proof -
  have "pace_inv (pc_MaxDelayMS cfg) d s'"
    using assms by (induction rule: pacer_run.induct) (auto dest: pace_inv_step)
  then show ?thesis by (simp add: pace_inv_def pace_bounded_def)
qed

theorem adaptive_delay_bounded_witness:
  "\<exists>s'. pacer_run \<lparr>pc_SuccessThreshold = 5, pc_DelayStepMS = 500, pc_DelayStepDownMS = 500,
       pc_MaxDelayMS = 700, pc_MinPushbackMS = 100\<rparr> pacer_example
       [RateLimited ''a.com'', RateLimited ''a.com'', Waited 10, Succeeded ''a.com''] s' \<and>
     p_adaptive (pace_at s' ''a.com'') \<le> 700"
proof -
  let ?cfg = "\<lparr>pc_SuccessThreshold = 5, pc_DelayStepMS = 500, pc_DelayStepDownMS = 500,
       pc_MaxDelayMS = 700, pc_MinPushbackMS = 100\<rparr>"
  obtain s' where run: "pacer_run ?cfg pacer_example
       [RateLimited ''a.com'', RateLimited ''a.com'', Waited 10, Succeeded ''a.com''] s'"
    using run_cons rate_limited waited succeeded run_nil by meson
  have "pace_inv 700 ''a.com'' pacer_example"
    by (simp add: pace_inv_def broker_counters_ok_def pace_bounded_def pace_at_def pacer_example_hash)
  then show ?thesis using run adaptive_delay_bounded [OF run, of "''a.com''"] by auto
qed

text \<open>A domain recovers.  Starting with no streak, \<open>n\<close> times the threshold successes in a
  row lower its adaptive delay by \<open>n\<close> steps, and never below the floor; so every delay is
  brought back to the floor by finitely many successes.\<close>

theorem adaptive_delay_recovers:
  fixes t n :: nat and step :: int
  assumes "broker_counters_ok s d" and "0 < t" and "0 < step"
    and "p_succ (pace_at s d) = 0" and "p_floor (pace_at s d) \<le> p_adaptive (pace_at s d)"
  shows "p_adaptive (pace_at (((\<lambda>u. snd (adaptiveDelayOnSuccessScript (DomainConfigKey d) (int t) step u))
      ^^ (n * t)) s) d) = max (p_floor (pace_at s d)) (p_adaptive (pace_at s d) - int n * step)"
proof -
  let ?f = "\<lambda>u. snd (adaptiveDelayOnSuccessScript (DomainConfigKey d) (int t) step u)"
  have "broker_counters_ok ((?f ^^ k) s) d \<and>
      pace_at ((?f ^^ k) s) d = (pace_success (int t) step ^^ k) (pace_at s d)" for k
    by (induction k) (simp_all add: assms(1) success_script_refines)
  then show ?thesis using pace_recovery [OF assms(2-5)] by simp
qed

theorem adaptive_delay_recovers_witness:
  "p_adaptive (pace_at (((\<lambda>u. snd (adaptiveDelayOnSuccessScript (DomainConfigKey ''a.com'') (int 2) 500 u))
      ^^ (3 * 2)) (snd (adaptiveDelayOnErrorScript (DomainConfigKey ''a.com'') 1200 60000 pacer_example)))
      ''a.com'') = 0"
proof -
  let ?s = "snd (adaptiveDelayOnErrorScript (DomainConfigKey ''a.com'') 1200 60000 pacer_example)"
  have ok: "broker_counters_ok pacer_example ''a.com''"
    by (simp add: broker_counters_ok_def pacer_example_hash)
  have p: "pace_at ?s ''a.com'' = pace_limited 1200 60000 (pace_at pacer_example ''a.com'')"
    by (rule error_script_refines(1) [OF ok])
  have q: "p_succ (pace_at ?s ''a.com'') = 0" "p_floor (pace_at ?s ''a.com'') = 0"
    "p_adaptive (pace_at ?s ''a.com'') = 1200"
    unfolding p by (simp_all add: pace_limited_def pace_at_def pacer_example_hash)
  show ?thesis
    using adaptive_delay_recovers [OF error_script_refines(2) [OF ok], of 2 500 1200 60000 3] q by simp
qed

end
