(* ===== verification/Broker_Counters.thy ===== *)
theory Broker_Counters
  imports Broker_Pacer
begin

text \<open>
  \<open>internal/broker/counters.go\<close>: the Redis hash of running tasks per job and its copy in the
  \<open>jobs\<close> table.  A Go map of counts is an association list in the order the iteration
  takes.  The lemmas give the value every operation leaves, the exactness of the
  reconciliation and the copy, and the interleaving of the two commands of \<open>Decrement\<close>
  with an \<open>Increment\<close> that loses a task.
\<close>

section \<open>Operations\<close>

definition Increment :: "'w redis \<Rightarrow> string \<Rightarrow> 'w \<Rightarrow> (string + int) \<times> 'w" where
  "Increment R jobID w =
     (case r_cmd R (HIncrBy RunningCountersKey jobID 1) w of
        (RInt n, w1) \<Rightarrow> (Inr n, w1)
      | (RErr e, w1) \<Rightarrow> (Inl e, w1)
      | (_, w1) \<Rightarrow> (Inl [], w1))"

definition Decrement :: "'w redis \<Rightarrow> string \<Rightarrow> 'w \<Rightarrow> (string + int) \<times> 'w" where
  "Decrement R jobID w =
     (case r_cmd R (HIncrBy RunningCountersKey jobID (-1)) w of
        (RErr e, w1) \<Rightarrow> (Inl e, w1)
      | (RInt val, w1) \<Rightarrow>
          (if val \<le> 0 then (Inr 0, snd (r_cmd R (HDel RunningCountersKey [jobID]) w1))
           else (Inr val, w1))
      | (_, w1) \<Rightarrow> (Inl [], w1))"

definition Get :: "'w redis \<Rightarrow> string \<Rightarrow> 'w \<Rightarrow> (string + int) \<times> 'w" where
  "Get R jobID w =
     (case r_cmd R (HGet RunningCountersKey jobID) w of
        (RNil, w1) \<Rightarrow> (Inr 0, w1)
      | (RStr v, w1) \<Rightarrow>
          (case atoi v of Some n \<Rightarrow> (Inr n, w1) | None \<Rightarrow> (Inl ''invalid syntax'', w1))
      | (RErr e, w1) \<Rightarrow> (Inl e, w1)
      | (_, w1) \<Rightarrow> (Inl [], w1))"

fun numeric_fields :: "(string \<times> string) list \<Rightarrow> (string \<times> int) list" where
  "numeric_fields [] = []"
| "numeric_fields ((jobID, v) # kvs) =
     (case atoi v of
        None \<Rightarrow> numeric_fields kvs
      | Some n \<Rightarrow> (jobID, n) # numeric_fields kvs)"

definition GetAll :: "'w redis \<Rightarrow> 'w \<Rightarrow> (string + (string \<times> int) list) \<times> 'w" where
  "GetAll R w =
     (case r_cmd R (HGetAll RunningCountersKey) w of
        (RPairs kvs, w1) \<Rightarrow> (Inr (numeric_fields kvs), w1)
      | (RErr e, w1) \<Rightarrow> (Inl e, w1)
      | (_, w1) \<Rightarrow> (Inl [], w1))"

definition reconcileScript :: "string \<Rightarrow> (string \<times> string) list \<Rightarrow> script" where
  "reconcileScript key args s =
     (let s1 = snd (redis_exec (Del [key]) s);
          s2 = (if args = [] then s1 else snd (redis_exec (HSet key args) s1))
      in (RInt 1, s2))"

definition reconcile_args :: "(string \<times> int) list \<Rightarrow> (string \<times> string) list" where
  "reconcile_args counts =
     map (\<lambda>(jobID, count). (jobID, itoa count)) (filter (\<lambda>(jobID, count). 0 < count) counts)"

definition Reconcile :: "'w redis \<Rightarrow> (string \<times> int) list \<Rightarrow> 'w \<Rightarrow> string option \<times> 'w" where
  "Reconcile R counts w =
     (if counts = []
      then (case r_cmd R (Del [RunningCountersKey]) w of (r, w1) \<Rightarrow> (err_of r, w1))
      else (let args = reconcile_args counts in
            if args = []
            then (case r_cmd R (Del [RunningCountersKey]) w of (r, w1) \<Rightarrow> (err_of r, w1))
            else (case r_eval R (reconcileScript RunningCountersKey args) w of
                    (r, w1) \<Rightarrow> (err_of r, w1))))"

definition RemoveJob :: "'w redis \<Rightarrow> string \<Rightarrow> 'w \<Rightarrow> string option \<times> 'w" where
  "RemoveJob R jobID w =
     (case r_cmd R (HDel RunningCountersKey [jobID]) w of (r, w1) \<Rightarrow> (err_of r, w1))"

section \<open>The copy in the jobs table\<close>

text \<open>
  The columns of \<open>jobs\<close> the statements use.  \<open>fails\<close> says which statements the database
  rejects: the statement for one job, or \<open>None\<close> for the statement over all jobs.
\<close>

record running_row =
  jr_status :: string
  jr_running :: int

type_synonym jobs_table = "string \<Rightarrow> running_row option"

definition active_status :: "string \<Rightarrow> bool" where
  "active_status st \<longleftrightarrow> st = ''running'' \<or> st = ''pending''"

definition update_running :: "string \<Rightarrow> int \<Rightarrow> jobs_table \<Rightarrow> jobs_table" where
  "update_running jobID count tbl =
     (case tbl jobID of
        None \<Rightarrow> tbl
      | Some row \<Rightarrow>
          if active_status (jr_status row) then tbl(jobID \<mapsto> row\<lparr>jr_running := max 0 count\<rparr>) else tbl)"

fun sync_each ::
  "(string option \<Rightarrow> string option) \<Rightarrow> (string \<times> int) list \<Rightarrow> jobs_table \<Rightarrow> string option \<times> jobs_table" where
  "sync_each fails [] tbl = (None, tbl)"
| "sync_each fails ((jobID, count) # cs) tbl =
     (case fails (Some jobID) of
        Some e \<Rightarrow> (Some e, tbl)
      | None \<Rightarrow> sync_each fails cs (update_running jobID count tbl))"

definition DefaultDBSyncFunc ::
  "(string option \<Rightarrow> string option) \<Rightarrow> (string \<times> int) list \<Rightarrow> jobs_table \<Rightarrow> string option \<times> jobs_table" where
  "DefaultDBSyncFunc fails counts tbl =
     (if counts = []
      then (case fails None of
              Some e \<Rightarrow> (Some e, tbl)
            | None \<Rightarrow> (None, \<lambda>j. map_option (\<lambda>row.
                if 0 < jr_running row \<and> active_status (jr_status row) then row\<lparr>jr_running := 0\<rparr> else row)
                (tbl j)))
      else sync_each fails counts tbl)"

text \<open>One tick of \<open>StartDBSync\<close>: read all counters, then write the table.\<close>

definition db_sync_tick ::
  "'w redis \<Rightarrow> (string option \<Rightarrow> string option) \<Rightarrow> 'w \<times> jobs_table \<Rightarrow> 'w \<times> jobs_table" where
  "db_sync_tick R fails st =
     (case st of (w, tbl) \<Rightarrow>
        (case GetAll R w of
           (Inl _, w1) \<Rightarrow> (w1, tbl)
         | (Inr counts, w1) \<Rightarrow> (w1, snd (DefaultDBSyncFunc fails counts tbl))))"

section \<open>What the operations leave\<close>

definition counter_at :: "rstore \<Rightarrow> string \<Rightarrow> int" where
  "counter_at s jobID = lua_num (map_of (hash_at s RunningCountersKey) jobID)"

text \<open>
  The counters hash holds decimal integers of 64 bits, and never expires; it is clean
  when they are positive, so that no finished job leaves an entry behind.
\<close>

definition counters_inv :: "rstore \<Rightarrow> bool" where
  "counters_inv s \<longleftrightarrow> ttls s RunningCountersKey = None \<and>
     (\<forall>j v. map_of (hash_at s RunningCountersKey) j = Some v \<longrightarrow> (\<exists>n. v = itoa n \<and> in_int64 n))"

definition counters_clean :: "rstore \<Rightarrow> bool" where
  "counters_clean s \<longleftrightarrow>
     (\<forall>j. map_of (hash_at s RunningCountersKey) j \<noteq> None \<longrightarrow> 0 < counter_at s j)"

lemma counters_inv_value:
  assumes "counters_inv s"
  shows "map_of (hash_at s RunningCountersKey) j = None \<and> counter_at s j = 0 \<or>
      map_of (hash_at s RunningCountersKey) j = Some (itoa (counter_at s j))"
    and "in_int64 (counter_at s j)"
proof -
  consider "map_of (hash_at s RunningCountersKey) j = None"
    | n where "map_of (hash_at s RunningCountersKey) j = Some (itoa n)" "in_int64 n"
    using assms by (cases "map_of (hash_at s RunningCountersKey) j") (auto simp: counters_inv_def)
  then show "map_of (hash_at s RunningCountersKey) j = None \<and> counter_at s j = 0 \<or>
      map_of (hash_at s RunningCountersKey) j = Some (itoa (counter_at s j))"
    and "in_int64 (counter_at s j)"
    by (cases; simp add: counter_at_def lua_num_def signed_val_itoa in_int64_def)+
qed

lemma counters_inv_hash_int:
  "counters_inv s \<Longrightarrow> hash_int (hash_at s RunningCountersKey) j = Some (counter_at s j)"
  using counters_inv_value(1) [of s j] by (auto simp: hash_int_def signed_val_itoa)

lemma hash_at_tick_no_ttl: "ttls s k = None \<Longrightarrow> hash_at (tick n s) k = hash_at s k"
  by (simp add: hash_at_def expired_def)

lemma counters_inv_tick [simp]: "counters_inv s \<Longrightarrow> counters_inv (tick n s)"
  by (simp add: counters_inv_def hash_at_tick_no_ttl)

lemma counter_at_tick [simp]: "counters_inv s \<Longrightarrow> counter_at (tick n s) j = counter_at s j"
  by (simp add: counters_inv_def counter_at_def hash_at_tick_no_ttl)

lemma put_hash_ttls: "ttls s k = None \<Longrightarrow> ttls (put_hash k h s) k = None"
  by (simp add: put_hash_def)

lemma counter_incr:
  assumes "counters_inv s"
  shows "redis_exec (HIncrBy RunningCountersKey j n) s =
    (RInt (counter_at s j + n), put_hash RunningCountersKey
       (AList.update j (itoa (counter_at s j + n)) (hash_at s RunningCountersKey)) s)"
  by (simp add: counters_inv_hash_int [OF assms])

lemma counter_at_put:
  "counter_at (put_hash RunningCountersKey (AList.update j (itoa n) (hash_at s RunningCountersKey)) s) i =
     (if i = j then n else counter_at s i)"
  by (simp add: counter_at_def)

lemma counters_inv_put:
  assumes "counters_inv s" and "in_int64 n"
  shows "counters_inv (put_hash RunningCountersKey
    (AList.update j (itoa n) (hash_at s RunningCountersKey)) s)"
  using assms by (auto simp: counters_inv_def put_hash_ttls)

lemma map_of_filter_key: "map_of (filter (\<lambda>p. fst p \<notin> X) h) i = (if i \<in> X then None else map_of h i)"
  by (induction h) auto

lemma map_of_filter_neq: "map_of (filter (\<lambda>p. fst p \<noteq> k) h) i = (if i = k then None else map_of h i)"
  by (induction h) auto

lemma counter_del:
  fixes j :: string
  assumes "counters_inv s"
  defines "s' \<equiv> snd (redis_exec (HDel RunningCountersKey [j]) s)"
  shows "counters_inv s'" and "counter_at s' i = (if i = j then 0 else counter_at s i)"
  using assms by (auto simp: counters_inv_def counter_at_def put_hash_ttls map_of_filter_neq lua_num_def)

lemma counters_clean_del:
  assumes "\<forall>i. i \<noteq> j \<longrightarrow> map_of (hash_at s RunningCountersKey) i \<noteq> None \<longrightarrow> 0 < counter_at s i"
  shows "counters_clean (snd (redis_exec (HDel RunningCountersKey [j]) s))"
  using assms by (auto simp: counters_clean_def counter_at_def map_of_filter_neq)

lemma get_value:
  assumes "counters_inv s"
  shows "fst (Get mem_redis j s) = Inr (counter_at s j)"
  using counters_inv_value [OF assms, of j] by (auto simp: Get_def)

context redis_reliable
begin

lemma get_now:
  assumes "counters_inv (view w)" and "Get R j w = (r, w')"
  shows "r = Inr (counter_at (view w) j)" and "counters_inv (view w')"
    and "counter_at (view w') = counter_at (view w)"
proof -
  obtain x w1 where c: "r_cmd R (HGet RunningCountersKey j) w = (x, w1)" by fastforce
  obtain d where d: "(x, view w1) = redis_exec (HGet RunningCountersKey j) (tick d (view w))"
    by (rule cmd_now [OF c])
  have "counters_inv (tick d (view w))" using assms(1) by simp
  note v = counters_inv_value [OF this, of j]
  from d have w1: "view w1 = tick d (view w)" by (auto split: option.splits)
  have "w' = w1" using assms(2) c by (auto simp: Get_def split: reply.splits option.splits)
  then show "counters_inv (view w')" and "counter_at (view w') = counter_at (view w)"
    using w1 assms(1) by auto
  show "r = Inr (counter_at (view w) j)"
    using assms c d v by (auto simp: Get_def)
qed

text \<open>\<open>Increment\<close> adds one; \<open>Decrement\<close> takes one away and drops the entry at zero.\<close>

lemma increment_now:
  assumes "counters_inv (view w)" and "in_int64 (counter_at (view w) j + 1)"
    and "Increment R j w = (r, w')"
  shows "r = Inr (counter_at (view w) j + 1)" and "counters_inv (view w')"
    and "counter_at (view w') i = (if i = j then counter_at (view w) j + 1 else counter_at (view w) i)"
proof -
  obtain x w1 where c: "r_cmd R (HIncrBy RunningCountersKey j 1) w = (x, w1)" by fastforce
  obtain d where "(x, view w1) = redis_exec (HIncrBy RunningCountersKey j 1) (tick d (view w))"
    by (rule cmd_now [OF c])
  with assms(1) have d: "x = RInt (counter_at (view w) j + 1)"
    "view w1 = put_hash RunningCountersKey (AList.update j (itoa (counter_at (view w) j + 1))
       (hash_at (tick d (view w)) RunningCountersKey)) (tick d (view w))"
    by (simp_all add: counter_incr del: redis_exec.simps)
  with c assms(3) have "r = Inr (counter_at (view w) j + 1)" and w1: "w' = w1"
    by (auto simp: Increment_def)
  then show "r = Inr (counter_at (view w) j + 1)" by simp
  show "counters_inv (view w')" unfolding w1 d(2) using assms by (intro counters_inv_put) simp_all
  show "counter_at (view w') i = (if i = j then counter_at (view w) j + 1 else counter_at (view w) i)"
    unfolding w1 d(2) using assms(1) by (simp add: counter_at_put)
qed

lemma decrement_now:
  assumes "counters_inv (view w)" and "in_int64 (counter_at (view w) j - 1)"
    and "Decrement R j w = (r, w')"
  shows "r = Inr (max 0 (counter_at (view w) j - 1))" and "counters_inv (view w')"
    and "counter_at (view w') i =
      (if i = j then max 0 (counter_at (view w) j - 1) else counter_at (view w) i)"
    and "counters_clean (view w) \<Longrightarrow> counters_clean (view w')"
proof -
  let ?n = "counter_at (view w) j - 1"
  obtain x w1 where c: "r_cmd R (HIncrBy RunningCountersKey j (-1)) w = (x, w1)" by fastforce
  obtain d where "(x, view w1) = redis_exec (HIncrBy RunningCountersKey j (-1)) (tick d (view w))"
    by (rule cmd_now [OF c])
  with assms(1) have x: "x = RInt ?n" and v1: "view w1 = put_hash RunningCountersKey
       (AList.update j (itoa ?n) (hash_at (tick d (view w)) RunningCountersKey)) (tick d (view w))"
    by (simp_all add: counter_incr del: redis_exec.simps)
  have inv1: "counters_inv (view w1)"
    unfolding v1 using assms by (intro counters_inv_put) simp_all
  have at1: "counter_at (view w1) i = (if i = j then ?n else counter_at (view w) i)" for i
    unfolding v1 using assms(1) by (simp add: counter_at_put)
  have map1: "i \<noteq> j \<Longrightarrow> map_of (hash_at (view w1) RunningCountersKey) i =
      map_of (hash_at (view w) RunningCountersKey) i" for i
    using assms(1) unfolding v1 by (simp add: hash_at_tick_no_ttl counters_inv_def)
  have "r = Inr (max 0 ?n) \<and> counters_inv (view w') \<and>
      counter_at (view w') i = (if i = j then max 0 ?n else counter_at (view w) i) \<and>
      (counters_clean (view w) \<longrightarrow> counters_clean (view w'))"
  proof (cases "?n \<le> 0")
    case True
    let ?w2 = "snd (r_cmd R (HDel RunningCountersKey [j]) w1)"
    obtain e where e: "view ?w2 = snd (redis_exec (HDel RunningCountersKey [j]) (tick e (view w1)))"
      using cmd_now [of "HDel RunningCountersKey [j]" w1 _ ?w2] by (metis prod.collapse snd_conv)
    have "Decrement R j w = (Inr 0, ?w2)" using c x True by (simp add: Decrement_def)
    then have rw: "r = Inr 0" "w' = ?w2" using assms(3) by auto
    have clean: "counters_clean (view w) \<Longrightarrow> counters_clean (view ?w2)"
      unfolding e using inv1 at1 map1
      by (intro counters_clean_del) (auto simp: counters_clean_def hash_at_tick_no_ttl counters_inv_def)
    show ?thesis
      using counter_del(1) [of "tick e (view w1)" j] counter_del(2) [of "tick e (view w1)" j i]
        inv1 at1 True clean
      unfolding rw e by (auto simp del: redis_exec.simps)
  next
    case False
    then have "r = Inr ?n" "w' = w1" using c x assms(3) by (auto simp: Decrement_def)
    moreover have "counters_clean (view w) \<Longrightarrow> counters_clean (view w1)"
      using False at1 map1 unfolding counters_clean_def by (metis not_le)
    ultimately show ?thesis using inv1 at1 False by simp
  qed
  then show "r = Inr (max 0 ?n)" and "counters_inv (view w')"
    and "counter_at (view w') i = (if i = j then max 0 ?n else counter_at (view w) i)"
    and "counters_clean (view w) \<Longrightarrow> counters_clean (view w')" by auto
qed

end

section \<open>Reconciliation and the copy\<close>

lemma map_of_rev_distinct: "distinct (map fst xs) \<Longrightarrow> map_of (rev xs) = map_of xs"
  by (rule map_of_eqI) (auto simp: rev_map [symmetric])

lemma reconcile_args_map:
  assumes "distinct (map fst counts)"
  shows "map_of (reconcile_args counts) j =
      (case map_of counts j of Some n \<Rightarrow> if 0 < n then Some (itoa n) else None | None \<Rightarrow> None)"
    and "distinct (map fst (reconcile_args counts))"
proof -
  show "map_of (reconcile_args counts) j =
      (case map_of counts j of Some n \<Rightarrow> if 0 < n then Some (itoa n) else None | None \<Rightarrow> None)"
    using assms
  proof (induction counts)
    case (Cons p counts)
    obtain i n where p: "p = (i, n)" by force
    have "map_of counts i = None" using Cons.prems p by (simp add: map_of_eq_None_iff)
    then show ?case using Cons p by (auto simp: reconcile_args_def)
  qed (simp add: reconcile_args_def)
  have "map fst (reconcile_args counts) = map fst (filter (\<lambda>(j, n). 0 < n) counts)"
    by (simp add: reconcile_args_def case_prod_beta comp_def)
  then show "distinct (map fst (reconcile_args counts))"
    using assms by (simp add: distinct_map_filter)
qed

definition counters_are :: "(string \<times> int) list \<Rightarrow> rstore \<Rightarrow> bool" where
  "counters_are counts s \<longleftrightarrow> counters_inv s \<and> counters_clean s \<and>
     (\<forall>j. counter_at s j = (case map_of counts j of Some n \<Rightarrow> max 0 n | None \<Rightarrow> 0))"

lemma counters_are_hash:
  assumes "ttls s RunningCountersKey = None" and "distinct (map fst counts)"
    and "\<forall>(j, n)\<in>set counts. in_int64 n"
    and "map_of (hash_at s RunningCountersKey) = map_of (reconcile_args counts)"
  shows "counters_are counts s"
  using assms(1,3)
  by (auto simp: counters_are_def counters_inv_def counters_clean_def counter_at_def assms(4)
      reconcile_args_map(1) [OF assms(2)] lua_num_def signed_val_itoa
      split: option.splits if_splits dest!: map_of_SomeD)

lemma del_hash [simp]:
  "hash_at (del_key k s) k = []" "ttls (del_key k s) k = None"
  by (simp_all add: del_key_def hash_at_def)

lemma reconcile_script_hash:
  assumes "args \<noteq> []" and "distinct (map fst args)"
  shows "map_of (hash_at (snd (reconcileScript k args s)) k) = map_of args"
    and "ttls (snd (reconcileScript k args s)) k = None"
proof -
  let ?s1 = "del_key k s"
  have e: "snd (reconcileScript k args s) = put_hash k (put_fields args []) ?s1"
    using assms(1) by (simp add: reconcileScript_def Let_def)
  show "map_of (hash_at (snd (reconcileScript k args s)) k) = map_of args"
    unfolding e using assms(2)
    by (auto simp: fun_eq_iff map_of_put_fields map_of_rev_distinct split: option.splits)
  show "ttls (snd (reconcileScript k args s)) k = None"
    unfolding e by (intro put_hash_ttls) simp
qed

context redis_reliable
begin

lemma reconcile_now:
  assumes "distinct (map fst counts)" and "\<forall>(j, n)\<in>set counts. in_int64 n"
    and "Reconcile R counts w = (err, w')"
  shows "counters_are counts (view w')"
proof (cases "reconcile_args counts = []")
  case True
  then have "Reconcile R counts w =
      (err_of (fst (r_cmd R (Del [RunningCountersKey]) w)), snd (r_cmd R (Del [RunningCountersKey]) w))"
    by (simp add: Reconcile_def Let_def case_prod_beta)
  then have w': "w' = snd (r_cmd R (Del [RunningCountersKey]) w)" using assms(3) by simp
  obtain d where "view w' = snd (redis_exec (Del [RunningCountersKey]) (tick d (view w)))"
    using cmd_now [of "Del [RunningCountersKey]" w _ w'] w' by (metis prod.collapse snd_conv)
  with True assms(1,2) show ?thesis by (intro counters_are_hash) simp_all
next
  case False
  then have "counts \<noteq> []" by (auto simp: reconcile_args_def)
  let ?p = "reconcileScript RunningCountersKey (reconcile_args counts)"
  have w': "w' = snd (r_eval R ?p w)"
    using assms(3) False \<open>counts \<noteq> []\<close> by (simp add: Reconcile_def Let_def case_prod_beta)
  obtain d where "view w' = snd (?p (tick d (view w)))"
    using eval_now [of ?p w _ w'] w' by (metis prod.collapse snd_conv)
  then show ?thesis
    using assms(1,2) reconcile_script_hash [OF False reconcile_args_map(2) [OF assms(1)]]
    by (intro counters_are_hash) simp_all
qed

end

lemma update_running_other: "i \<noteq> j \<Longrightarrow> update_running j n tbl i = tbl i"
  by (simp add: update_running_def split: option.splits)

lemma sync_each_value:
  assumes "distinct (map fst counts)"
  shows "sync_each (\<lambda>_. None) counts tbl = (None, \<lambda>j. case map_of counts j of
      None \<Rightarrow> tbl j | Some n \<Rightarrow> update_running j n tbl j)"
  using assms
proof (induction counts arbitrary: tbl)
  case (Cons p counts)
  obtain i n where p: "p = (i, n)" by force
  have "map_of counts i = None" using Cons.prems p by (simp add: map_of_eq_None_iff)
  then show ?case using Cons p
    by (auto simp: fun_eq_iff update_running_other update_running_def split: option.splits)
qed simp

lemma sync_each_nonneg:
  "\<forall>j row. tbl j = Some row \<longrightarrow> 0 \<le> jr_running row \<Longrightarrow>
   snd (sync_each fails counts tbl) j = Some row \<Longrightarrow> 0 \<le> jr_running row"
proof (induction fails counts tbl rule: sync_each.induct)
  case (2 fails i n cs tbl)
  then show ?case
    by (cases "fails (Some i)") (auto simp: update_running_def split: option.splits if_splits)
qed auto

section \<open>Properties\<close>

text \<open>On a server that answers, \<open>Increment\<close> and \<open>Decrement\<close> are the successor and the
  predecessor cut off at zero on the counter of the job, touch no other counter, and keep
  the hash free of zero and negative entries; \<open>Get\<close> then reads that value.\<close>

theorem running_counter_correct:
  assumes "redis_reliable R view" and "counters_inv (view w)" and "counters_clean (view w)"
    and "in_int64 (counter_at (view w) j + 1)" and "in_int64 (counter_at (view w) j - 1)"
  shows "fst (Increment R j w) = Inr (counter_at (view w) j + 1) \<and>
    counter_at (view (snd (Increment R j w))) =
      (counter_at (view w))(j := counter_at (view w) j + 1) \<and>
    fst (Decrement R j w) = Inr (max 0 (counter_at (view w) j - 1)) \<and>
    counter_at (view (snd (Decrement R j w))) =
      (counter_at (view w))(j := max 0 (counter_at (view w) j - 1)) \<and>
    counters_clean (view (snd (Decrement R j w))) \<and>
    fst (Get R i (snd (Decrement R j w))) =
      Inr (if i = j then max 0 (counter_at (view w) j - 1) else counter_at (view w) i)"
proof -
  note inc = redis_reliable.increment_now [OF assms(1,2,4) prod.collapse [symmetric]]
  note dec = redis_reliable.decrement_now [OF assms(1,2,5) prod.collapse [symmetric]]
  note get = redis_reliable.get_now(1) [OF assms(1) dec(2) prod.collapse [symmetric]]
  show ?thesis
    using inc(1) dec(1) dec(4) [OF assms(3)] get by (simp add: fun_eq_iff inc(3) dec(3))
qed

definition counters_example :: "int \<Rightarrow> rstore" where
  "counters_example n = put_hash RunningCountersKey [(''j'', itoa n)] empty_store"

lemma counters_example_ok:
  assumes "in_int64 n"
  shows "counters_inv (counters_example n)" and "counter_at (counters_example n) ''j'' = n"
    and "0 < n \<Longrightarrow> counters_clean (counters_example n)"
  using assms
  by (auto simp: counters_example_def counters_inv_def counters_clean_def counter_at_def
      put_hash_ttls empty_store_def lua_num_def signed_val_itoa split: if_splits)

lemma running_counter_correct_witness:
  "fst (Get mem_redis ''j'' (snd (Decrement mem_redis ''j'' (counters_example 3)))) = Inr 2"
  using running_counter_correct [OF mem.redis_reliable_axioms, of "counters_example 3" "''j''" "''j''"]
    counters_example_ok [of 3] by (simp add: in_int64_def)

text \<open>A reconciliation leaves exactly the counts it was given: afterwards the counter of a
  job is its count when that is positive and zero otherwise, whatever the hash held before,
  and no zero or negative entry remains.\<close>

theorem reconcile_exact:
  assumes "redis_reliable R view" and "distinct (map fst counts)"
    and "\<forall>(j, n)\<in>set counts. in_int64 n" and "Reconcile R counts w = (err, w')"
  shows "counters_are counts (view w')"
  by (rule redis_reliable.reconcile_now [OF assms])

lemma reconcile_exact_witness:
  "counters_are [(''a'', 4), (''b'', -1)] (snd (Reconcile mem_redis [(''a'', 4), (''b'', -1)] empty_store))"
  by (rule reconcile_exact [OF mem.redis_reliable_axioms _ _ prod.collapse [symmetric]])
    (simp_all add: in_int64_def)

text \<open>When the database accepts every statement, the copy of the counters gives every active
  job that has a counter that value, cut off at zero, and leaves the other rows alone; and no
  matter which statements fail, a table without negative values keeps having none.\<close>

theorem db_sync_correct:
  assumes "counts \<noteq> []" and "distinct (map fst counts)"
    and "\<forall>j row. tbl j = Some row \<longrightarrow> 0 \<le> jr_running row"
  shows "DefaultDBSyncFunc (\<lambda>_. None) counts tbl = (None, \<lambda>j.
      case (tbl j, map_of counts j) of
        (Some row, Some n) \<Rightarrow>
          Some (if active_status (jr_status row) then row\<lparr>jr_running := max 0 n\<rparr> else row)
      | _ \<Rightarrow> tbl j)
    \<and> (\<forall>fails j row. snd (DefaultDBSyncFunc fails counts tbl) j = Some row \<longrightarrow> 0 \<le> jr_running row)"
proof
  show "DefaultDBSyncFunc (\<lambda>_. None) counts tbl = (None, \<lambda>j.
      case (tbl j, map_of counts j) of
        (Some row, Some n) \<Rightarrow>
          Some (if active_status (jr_status row) then row\<lparr>jr_running := max 0 n\<rparr> else row)
      | _ \<Rightarrow> tbl j)"
    using assms(1) sync_each_value [OF assms(2), of tbl]
    by (auto simp: DefaultDBSyncFunc_def update_running_def fun_eq_iff split: option.splits)
  show "\<forall>fails j row. snd (DefaultDBSyncFunc fails counts tbl) j = Some row \<longrightarrow> 0 \<le> jr_running row"
    using assms(1,3) sync_each_nonneg by (auto simp: DefaultDBSyncFunc_def)
qed

lemma db_sync_correct_witness:
  "snd (DefaultDBSyncFunc (\<lambda>_. None) [(''j'', 5)]
     [''j'' \<mapsto> \<lparr>jr_status = ''running'', jr_running = 1\<rparr>]) ''j''
   = Some \<lparr>jr_status = ''running'', jr_running = 5\<rparr>"
proof -
  let ?t = "[''j'' \<mapsto> \<lparr>jr_status = ''running'', jr_running = 1\<rparr>]"
  have "\<forall>j row. ?t j = Some row \<longrightarrow> 0 \<le> jr_running row" by simp
  note c = conjunct1 [OF db_sync_correct [OF _ _ this, of "[(''j'', 5)]"]]
  show ?thesis by (subst c) (simp_all add: active_status_def)
qed

text \<open>
  \<open>Decrement\<close> is two commands: \<open>HINCRBY\<close>, and \<open>HDEL\<close> when the result was not positive.
  Other workers run between them: \<open>StepDecr\<close> and \<open>StepDrop\<close> are the two commands,
  \<open>StepIncr\<close> the single command of \<open>Increment\<close>.
\<close>

datatype counter_step = StepIncr | StepDecr | StepDrop

fun counter_cmd :: "string \<Rightarrow> counter_step \<Rightarrow> cmd" where
  "counter_cmd j StepIncr = HIncrBy RunningCountersKey j 1"
| "counter_cmd j StepDecr = HIncrBy RunningCountersKey j (-1)"
| "counter_cmd j StepDrop = HDel RunningCountersKey [j]"

definition counter_steps :: "string \<Rightarrow> counter_step list \<Rightarrow> rstore \<Rightarrow> rstore" where
  "counter_steps j xs s = fold (\<lambda>x s. snd (redis_exec (counter_cmd j x) s)) xs s"

lemma counter_steps_simps [simp]:
  "counter_steps j [] s = s"
  "counter_steps j (x # xs) s = counter_steps j xs (snd (redis_exec (counter_cmd j x) s))"
  by (simp_all add: counter_steps_def)

lemma increment_steps:
  assumes "counters_inv s"
  shows "snd (Increment mem_redis j s) = counter_steps j [StepIncr] s"
  using counter_incr [OF assms, of j 1] by (simp add: Increment_def del: redis_exec.simps)

lemma decrement_steps:
  assumes "counters_inv s"
  shows "snd (Decrement mem_redis j s) =
    counter_steps j (if counter_at s j \<le> 1 then [StepDecr, StepDrop] else [StepDecr]) s"
  using counter_incr [OF assms, of j "-1"] by (simp add: Decrement_def del: redis_exec.simps)

lemma counter_step_value:
  assumes "counters_inv s" and "in_int64 (counter_at s j + 1)" and "in_int64 (counter_at s j - 1)"
  shows "counter_at (snd (redis_exec (counter_cmd j x) s)) j = (case x of
      StepIncr \<Rightarrow> counter_at s j + 1 | StepDecr \<Rightarrow> counter_at s j - 1 | StepDrop \<Rightarrow> 0)"
    and "counters_inv (snd (redis_exec (counter_cmd j x) s))"
  using assms counter_incr [OF assms(1), of j 1] counter_incr [OF assms(1), of j "-1"]
    counter_del [OF assms(1), of j]
  by (cases x; simp add: counter_at_put counters_inv_put del: redis_exec.simps)+

lemma race:
  assumes "counters_inv s" and "counter_at s j = 1"
  shows "counter_at (counter_steps j [StepDecr, StepIncr, StepDrop] s) j = 0"
proof -
  let ?s1 = "snd (redis_exec (counter_cmd j StepDecr) s)"
  let ?s2 = "snd (redis_exec (counter_cmd j StepIncr) ?s1)"
  have 1: "counter_at ?s1 j = 0" "counters_inv ?s1"
    using counter_step_value [OF assms(1), of j StepDecr] assms(2) by (simp_all add: in_int64_def del: redis_exec.simps counter_cmd.simps)
  have 2: "counter_at ?s2 j = 1" "counters_inv ?s2"
    using counter_step_value [OF 1(2), of j StepIncr] 1(1) by (simp_all add: in_int64_def del: redis_exec.simps counter_cmd.simps)
  show ?thesis
    using counter_step_value(1) [OF 2(2), of j StepDrop] 2(1) by (simp add: in_int64_def del: redis_exec.simps counter_cmd.simps)
qed

text \<open>With one task of a job running, a second one starting while the first ends must leave
  one running, and does when \<open>Decrement\<close> and \<open>Increment\<close> run one after the other, in either order;
  but when the increment lands between the two commands of \<open>Decrement\<close>, the started task is
  dropped from the count, which reads zero.\<close>

theorem decrement_race_loses_task:
  assumes "counters_inv s" and "counter_at s j = 1"
  shows "counter_at (snd (Increment mem_redis j (snd (Decrement mem_redis j s)))) j = 1 \<and>
    counter_at (snd (Decrement mem_redis j (snd (Increment mem_redis j s)))) j = 1 \<and>
    counter_at (counter_steps j [StepDecr, StepIncr, StepDrop] s) j = 0"
proof -
  have dec: "counters_inv (snd (Decrement mem_redis j s))"
      "counter_at (snd (Decrement mem_redis j s)) j = 0"
    using mem.decrement_now(2,3) [OF assms(1) _ prod.collapse [symmetric], of j] assms(2)
    by (simp_all add: in_int64_def)
  have inc: "counters_inv (snd (Increment mem_redis j s))"
      "counter_at (snd (Increment mem_redis j s)) j = 2"
    using mem.increment_now(2,3) [OF assms(1) _ prod.collapse [symmetric], of j] assms(2)
    by (simp_all add: in_int64_def)
  have "counter_at (snd (Increment mem_redis j (snd (Decrement mem_redis j s)))) j = 1"
    using mem.increment_now(3) [OF dec(1) _ prod.collapse [symmetric], of j j] dec(2)
    by (simp add: in_int64_def)
  moreover have "counter_at (snd (Decrement mem_redis j (snd (Increment mem_redis j s)))) j = 1"
    using mem.decrement_now(3) [OF inc(1) _ prod.collapse [symmetric], of j j] inc(2)
    by (simp add: in_int64_def)
  moreover have "counter_at (counter_steps j [StepDecr, StepIncr, StepDrop] s) j = 0"
    by (rule race [OF assms])
  ultimately show ?thesis by simp
qed

lemma decrement_race_loses_task_witness:
  "counter_at (counter_steps ''j'' [StepDecr, StepIncr, StepDrop] (counters_example 1)) ''j'' = 0"
  using decrement_race_loses_task [of "counters_example 1" "''j''"] counters_example_ok [of 1]
  by (simp add: in_int64_def)

end
