(* ===== verification/Broker_Dispatcher.thy ===== *)
theory Broker_Dispatcher
  imports Broker_Counters
begin

text \<open>
  \<open>internal/broker/dispatcher.go\<close>: the loop that moves due entries from the sorted set of a job
  to its stream.  What the dispatcher calls through interfaces (\<open>ConcurrencyChecker\<close>,
  \<open>Reconciler\<close>, the hook of the first dispatch) is the record \<open>hooks\<close>; the locales
  \<open>dispatch_hooks\<close> and \<open>capacity_hooks\<close> say what the dispatcher relies on.  The lemmas show
  that a publication is one atomic move, that no task is lost whatever fails, that a batch
  never exceeds the free capacity, and how often the self-heal may fire.
\<close>

section \<open>State and interfaces\<close>

record dispatcher_opts =
  do_ScanInterval :: time
  do_BatchSize :: int
  do_ParallelJobs :: int
  do_StuckThreshold :: time

definition DefaultDispatcherOpts :: "(string \<Rightarrow> int \<Rightarrow> int) \<Rightarrow> dispatcher_opts" where
  "DefaultDispatcherOpts env =
     \<lparr>do_ScanInterval = env ''REDIS_DISPATCH_INTERVAL_MS'' 100 * millisecond,
      do_BatchSize = env ''REDIS_DISPATCH_BATCH_SIZE'' 50,
      do_ParallelJobs = env ''REDIS_DISPATCH_PARALLEL_JOBS'' 32,
      do_StuckThreshold = env ''REDIS_DISPATCH_STUCK_THRESHOLD_S'' 30 * second\<rparr>"

record dispatcher =
  d_groupEnsured :: "string set"
  d_firstDispatched :: "string set"
  d_stuckSince :: "string \<Rightarrow> time option"
  d_lastTrigger :: "string \<Rightarrow> time option"

definition new_dispatcher :: dispatcher where
  "new_dispatcher = \<lparr>d_groupEnsured = {}, d_firstDispatched = {},
     d_stuckSince = (\<lambda>_. None), d_lastTrigger = (\<lambda>_. None)\<rparr>"

record 'w hooks =
  h_CanDispatch :: "string \<Rightarrow> 'w \<Rightarrow> (string + bool) \<times> 'w"
  h_onFirstDispatch :: "(string \<Rightarrow> 'w \<Rightarrow> string option \<times> 'w) option"
  h_TriggerReconcile :: "('w \<Rightarrow> 'w) option"

section \<open>Self-heal\<close>

text \<open>Whether to fire, and the state afterwards.\<close>

definition stuck_decision :: "time \<Rightarrow> string \<Rightarrow> time \<Rightarrow> dispatcher \<Rightarrow> bool \<times> dispatcher" where
  "stuck_decision threshold jobID now d =
     (case d_stuckSince d jobID of
        None \<Rightarrow> (False, d\<lparr>d_stuckSince := (d_stuckSince d)(jobID \<mapsto> now)\<rparr>)
      | Some since \<Rightarrow>
          if now - since < threshold then (False, d)
          else (case d_lastTrigger d jobID of
                  Some prev \<Rightarrow>
                    if now - prev < 2 * threshold then (False, d)
                    else (True, d\<lparr>d_lastTrigger := (d_lastTrigger d)(jobID \<mapsto> now)\<rparr>)
                | None \<Rightarrow> (True, d\<lparr>d_lastTrigger := (d_lastTrigger d)(jobID \<mapsto> now)\<rparr>)))"

definition maybeTriggerReconcile ::
  "'w hooks \<Rightarrow> dispatcher_opts \<Rightarrow> string \<Rightarrow> time \<Rightarrow> dispatcher \<times> 'w \<Rightarrow> dispatcher \<times> 'w" where
  "maybeTriggerReconcile H opts jobID now dw =
     (case (h_TriggerReconcile H, dw) of
        (None, _) \<Rightarrow> dw
      | (Some trigger, (d, w)) \<Rightarrow>
          let threshold = do_StuckThreshold opts in
          if threshold \<le> 0 then (d, w)
          else (case stuck_decision threshold jobID now d of
                  (fire, d1) \<Rightarrow> (d1, if fire then trigger w else w)))"

definition clearStuck :: "string \<Rightarrow> dispatcher \<Rightarrow> dispatcher" where
  "clearStuck jobID d = d\<lparr>d_stuckSince := (d_stuckSince d)(jobID := None)\<rparr>"

section \<open>Publication\<close>

datatype publish_error =
    MissingRunID string
  | UnknownTaskType string string
  | EnsureGroupFailed string string
  | PublishFailed string

definition isGroupExistsErr :: "string option \<Rightarrow> bool" where
  "isGroupExistsErr err = (case err of None \<Rightarrow> False | Some e \<Rightarrow> str_contains e ''BUSYGROUP'')"

definition ensureConsumerGroup ::
  "'w redis \<Rightarrow> string \<Rightarrow> string \<Rightarrow> dispatcher \<times> 'w \<Rightarrow> string option \<times> dispatcher \<times> 'w" where
  "ensureConsumerGroup R streamKey groupName dw =
     (case dw of (d, w) \<Rightarrow>
        if groupName \<in> d_groupEnsured d then (None, d, w)
        else (case r_cmd R (XGroupCreateMkStream streamKey groupName) w of
                (r, w1) \<Rightarrow>
                  (case err_of r of
                     Some e \<Rightarrow>
                       if isGroupExistsErr (Some e)
                       then (None, d\<lparr>d_groupEnsured := insert groupName (d_groupEnsured d)\<rparr>, w1)
                       else (Some e, d, w1)
                   | None \<Rightarrow> (None, d\<lparr>d_groupEnsured := insert groupName (d_groupEnsured d)\<rparr>, w1))))"

definition publish_type :: "schedule_entry \<Rightarrow> string" where
  "publish_type entry = (if se_TaskType entry = [] then ''crawl'' else se_TaskType entry)"

definition publish_route :: "schedule_entry \<Rightarrow> publish_error + (string \<times> string)" where
  "publish_route entry =
     (let taskType = publish_type entry; jobID = se_JobID entry in
      if taskType = ''crawl'' then Inr (StreamKey jobID, ConsumerGroup jobID)
      else if taskType = ''lighthouse'' then
        (if se_LighthouseRunID entry \<le> 0 then Inl (MissingRunID (se_TaskID entry))
         else Inr (LighthouseStreamKey jobID, LighthouseConsumerGroup jobID))
      else Inl (UnknownTaskType taskType (se_TaskID entry)))"

definition publish_values :: "schedule_entry \<Rightarrow> (string \<times> string) list" where
  "publish_values entry =
     [(''task_id'', se_TaskID entry), (''job_id'', se_JobID entry),
      (''page_id'', itoa (se_PageID entry)), (''host'', se_Host entry), (''path'', se_Path entry),
      (''priority'', fmt_f4 (se_Priority entry)), (''retry_count'', itoa (se_RetryCount entry)),
      (''source_type'', se_SourceType entry), (''source_url'', se_SourceURL entry),
      (''task_type'', publish_type entry)] @
     (if publish_type entry = ''lighthouse''
      then [(''lighthouse_run_id'', itoa (se_LighthouseRunID entry))] else [])"

definition publishAndRemove ::
  "'w redis \<Rightarrow> schedule_entry \<Rightarrow> dispatcher \<times> 'w \<Rightarrow> publish_error option \<times> dispatcher \<times> 'w" where
  "publishAndRemove R entry dw =
     (case publish_route entry of
        Inl e \<Rightarrow> (Some e, dw)
      | Inr (streamKey, groupName) \<Rightarrow>
          (case ensureConsumerGroup R streamKey groupName dw of
             (Some e, d1, w1) \<Rightarrow> (Some (EnsureGroupFailed groupName e), d1, w1)
           | (None, d1, w1) \<Rightarrow>
               (case r_tx R [XAdd streamKey (publish_values entry),
                             ZRem (ScheduleKey (se_JobID entry)) (Member entry)] w1 of
                  ((_, err), w2) \<Rightarrow> (map_option PublishFailed err, d1, w2))))"

section \<open>Dispatch\<close>

definition after_publish ::
  "'w redis \<Rightarrow> 'w hooks \<Rightarrow> string \<Rightarrow> string \<Rightarrow> dispatcher \<times> 'w \<Rightarrow> dispatcher \<times> 'w" where
  "after_publish R H jobID host dw =
     (case dw of (d, w) \<Rightarrow>
        (let w1 = snd (Increment R jobID w);
             w2 = snd (IncrementInflight R host jobID w1)
         in case h_onFirstDispatch H of
              None \<Rightarrow> (d, w2)
            | Some hook \<Rightarrow>
                if jobID \<in> d_firstDispatched d then (d, w2)
                else (case hook jobID w2 of
                        (Some _, w3) \<Rightarrow> (d, w3)
                      | (None, w3) \<Rightarrow>
                          (d\<lparr>d_firstDispatched := insert jobID (d_firstDispatched d)\<rparr>, w3))))"

text \<open>One iteration after the capacity check: whether the entry was dispatched.\<close>

definition dispatch_entry ::
  "'w redis \<Rightarrow> pacer_config \<Rightarrow> 'w hooks \<Rightarrow> string \<Rightarrow> time \<Rightarrow> schedule_entry \<Rightarrow> dispatcher \<times> 'w \<Rightarrow>
     bool \<times> dispatcher \<times> 'w" where
  "dispatch_entry R cfg H jobID now entry dw =
     (case dw of (d, w) \<Rightarrow>
        (case TryAcquire R cfg (se_Host entry) w of
           (Inl _, w1) \<Rightarrow> (False, d, w1)
         | (Inr pace, w1) \<Rightarrow>
             if \<not> pr_Acquired pace
             then (False, d, snd (RescheduleZSet R entry (now + pr_RetryAfter pace) w1))
             else (case publishAndRemove R entry (d, w1) of
                     (Some _, dw2) \<Rightarrow> (False, dw2)
                   | (None, dw2) \<Rightarrow> (True, after_publish R H jobID (se_Host entry) dw2))))"

fun dispatch_loop ::
  "'w redis \<Rightarrow> pacer_config \<Rightarrow> 'w hooks \<Rightarrow> dispatcher_opts \<Rightarrow> string \<Rightarrow> time \<Rightarrow>
     schedule_entry list \<Rightarrow> nat \<Rightarrow> dispatcher \<times> 'w \<Rightarrow> nat \<times> dispatcher \<times> 'w" where
  "dispatch_loop R cfg H opts jobID now [] n dw = (n, dw)"
| "dispatch_loop R cfg H opts jobID now (entry # es) n (d, w) =
     (case h_CanDispatch H jobID w of
        (Inl _, w1) \<Rightarrow> (n, d, w1)
      | (Inr can, w1) \<Rightarrow>
          if \<not> can then (n, maybeTriggerReconcile H opts jobID now (d, w1))
          else (case dispatch_entry R cfg H jobID now entry (clearStuck jobID d, w1) of
                  (ok, dw2) \<Rightarrow>
                    dispatch_loop R cfg H opts jobID now es (if ok then Suc n else n) dw2))"

definition dispatchJob ::
  "'w redis \<Rightarrow> pacer_config \<Rightarrow> 'w hooks \<Rightarrow> dispatcher_opts \<Rightarrow> string \<Rightarrow> time \<Rightarrow> dispatcher \<times> 'w \<Rightarrow>
     (sched_error + nat) \<times> dispatcher \<times> 'w" where
  "dispatchJob R cfg H opts jobID now dw =
     (case dw of (d, w) \<Rightarrow>
        (case DueItems R jobID now (do_BatchSize opts) w of
           (Inl e, w1) \<Rightarrow> (Inl e, d, w1)
         | (Inr entries, w1) \<Rightarrow>
             if entries = [] then (Inr 0, clearStuck jobID d, w1)
             else (case dispatch_loop R cfg H opts jobID now entries 0 (d, w1) of
                     (n, dw2) \<Rightarrow> (Inr n, dw2))))"

text \<open>
  One scan over the active jobs.  The jobs run in parallel, at most \<open>ParallelJobs\<close> at a time,
  on keys of their own; the model takes the order of the list.
\<close>

fun dispatch_jobs ::
  "'w redis \<Rightarrow> pacer_config \<Rightarrow> 'w hooks \<Rightarrow> dispatcher_opts \<Rightarrow> string list \<Rightarrow> time \<Rightarrow> dispatcher \<times> 'w \<Rightarrow>
     dispatcher \<times> 'w" where
  "dispatch_jobs R cfg H opts [] now dw = dw"
| "dispatch_jobs R cfg H opts (jobID # ids) now dw =
     dispatch_jobs R cfg H opts ids now (snd (dispatchJob R cfg H opts jobID now dw))"

definition dispatch_tick ::
  "'w redis \<Rightarrow> pacer_config \<Rightarrow> 'w hooks \<Rightarrow> dispatcher_opts \<Rightarrow> (string + string list) \<Rightarrow> time \<Rightarrow>
     dispatcher \<times> 'w \<Rightarrow> dispatcher \<times> 'w" where
  "dispatch_tick R cfg H opts listed now dw =
     (case listed of Inl _ \<Rightarrow> dw | Inr jobIDs \<Rightarrow> dispatch_jobs R cfg H opts jobIDs now dw)"

section \<open>Publication is one atomic move\<close>

definition published :: "schedule_entry \<Rightarrow> rstore \<Rightarrow> bool" where
  "published e s \<longleftrightarrow> (\<exists>sk g i. publish_route e = Inr (sk, g) \<and> (i, publish_values e) \<in> set (streams s sk))"

text \<open>\<open>moved e s s'\<close>: the entry left its sorted set and went to the end of its stream.\<close>

definition moved :: "schedule_entry \<Rightarrow> rstore \<Rightarrow> rstore \<Rightarrow> bool" where
  "moved e s s' \<longleftrightarrow> (\<exists>sk g i. publish_route e = Inr (sk, g) \<and>
     streams s' = (streams s)(sk := streams s sk @ [(i, publish_values e)]) \<and>
     zsets s' = (zsets s)(ScheduleKey (se_JobID e) := zs_rem (Member e) (zsets s (ScheduleKey (se_JobID e)))))"

definition untouched :: "rstore \<Rightarrow> rstore \<Rightarrow> bool" where
  "untouched s s' \<longleftrightarrow> streams s' = streams s \<and> zsets s' = zsets s"

lemma untouched_refl [simp]: "untouched s s"
  by (simp add: untouched_def)

lemma untouched_trans: "untouched s t \<Longrightarrow> untouched t u \<Longrightarrow> untouched s u"
  by (simp add: untouched_def)

lemma moved_trans: "untouched s t \<Longrightarrow> moved e t u \<Longrightarrow> moved e s u"
  by (simp add: untouched_def moved_def)

lemma try_acquire_script_frame:
  "zsets (snd (tryAcquireScript ck gk s)) = zsets s"
  "streams (snd (tryAcquireScript ck gk s)) = streams s"
  "hashes (snd (tryAcquireScript ck gk s)) = hashes s"
  "ttls (snd (tryAcquireScript ck gk s)) = ttls s"
  by (cases rule: try_acquire_cases [OF prod.collapse [symmetric, of "tryAcquireScript ck gk s"]]; simp)+

text \<open>The commands that touch neither streams nor sorted sets.\<close>

fun quiet_cmd :: "cmd \<Rightarrow> bool" where
  "quiet_cmd (HIncrBy k f n) = True"
| "quiet_cmd (HDel k fs) = True"
| "quiet_cmd (HGet k f) = True"
| "quiet_cmd (HGetAll k) = True"
| "quiet_cmd (XGroupCreateMkStream k g) = True"
| "quiet_cmd (XPending k g) = True"
| "quiet_cmd _ = False"

lemma quiet_exec: "quiet_cmd c \<Longrightarrow> untouched s (snd (redis_exec c (tick n s)))"
  by (cases c) (auto simp: untouched_def split: option.splits)

context redis_server
begin

lemma quiet_untouched:
  assumes "quiet_cmd c"
  shows "untouched (view w) (view (snd (r_cmd R c w)))"
  using quiet_exec [OF assms]
  by (cases rule: cmd_cases [OF prod.collapse [symmetric, of "r_cmd R c w"]])
    (auto simp: untouched_def)

lemma try_acquire_untouched: "untouched (view w) (view (snd (TryAcquire R cfg host w)))"
proof -
  let ?p = "tryAcquireScript (DomainConfigKey host) (DomainGateKey host)"
  have "snd (TryAcquire R cfg host w) = snd (r_eval R ?p w)"
    by (simp add: TryAcquire_def Let_def case_prod_beta split: sum.splits)
  then show ?thesis
    by (cases rule: eval_cases [OF prod.collapse [symmetric, of "r_eval R ?p w"]])
      (auto simp: untouched_def try_acquire_script_frame)
qed

lemma increment_untouched: "untouched (view w) (view (snd (Increment R j w)))"
  using quiet_untouched [of "HIncrBy RunningCountersKey j 1" w]
  by (simp add: Increment_def case_prod_beta split: reply.splits)

lemma inflight_untouched: "untouched (view w) (view (snd (IncrementInflight R h j w)))"
  using quiet_untouched [of "HIncrBy (DomainInflightKey h) j 1" w]
  by (simp add: IncrementInflight_def case_prod_beta)

lemma ensure_group_untouched:
  "untouched (view (snd dw)) (view (snd (snd (ensureConsumerGroup R sk g dw))))"
  using quiet_untouched [of "XGroupCreateMkStream sk g" "snd dw"]
  by (simp add: ensureConsumerGroup_def case_prod_beta split: option.splits)

text \<open>A publication moves the entry or does nothing; without an error it has moved it.\<close>

lemma publish_cases:
  assumes "publishAndRemove R e (d, w) = (err, d', w')"
  obtains "moved e (view w) (view w')" | "untouched (view w) (view w')" and "err \<noteq> None"
proof (cases "publish_route e")
  case (Inl x)
  with assms show ?thesis by (intro that(2)) (auto simp: publishAndRemove_def)
next
  case (Inr r)
  obtain sk g where r: "publish_route e = Inr (sk, g)" using Inr by (cases r) simp
  obtain ge d1 w1 where ens: "ensureConsumerGroup R sk g (d, w) = (ge, d1, w1)"
    by (cases "ensureConsumerGroup R sk g (d, w)") auto
  have u: "untouched (view w) (view w1)" using ensure_group_untouched [of "(d, w)" sk g] ens by simp
  show ?thesis
  proof (cases ge)
    case (Some x)
    with assms ens r u show ?thesis by (intro that(2)) (auto simp: publishAndRemove_def)
  next
    case None
    let ?cs = "[XAdd sk (publish_values e), ZRem (ScheduleKey (se_JobID e)) (Member e)]"
    obtain rs x w2 where tx: "r_tx R ?cs w1 = ((rs, x), w2)"
      by (metis prod.collapse)
    have res: "err = map_option PublishFailed x" "w' = w2"
      using assms ens r None tx by (auto simp: publishAndRemove_def)
    show ?thesis
      using tx
    proof (cases rule: tx_cases)
      case (1 n)
      then have "untouched (view w1) (view w')" using res by (simp add: untouched_def)
      with 1 res u show ?thesis using untouched_trans by (intro that(2)) auto
    next
      case (2 n)
      then have "moved e (view w1) (view w')"
        using r res by (auto simp: moved_def Let_def)
      with u show ?thesis using moved_trans that(1) by blast
    qed
  qed
qed

end

section \<open>No task is lost\<close>

text \<open>
  \<open>progress s s'\<close>: streams only grow, and every well-formed member of a sorted set is still
  there or its entry is in its stream.  The key of the counters, a hash, is left out: the
  reconciliation deletes it.
\<close>

definition in_stream :: "string \<Rightarrow> rstore \<Rightarrow> bool" where
  "in_stream m s \<longleftrightarrow> (\<exists>e. Member e = m \<and> published e s)"

definition progress :: "rstore \<Rightarrow> rstore \<Rightarrow> bool" where
  "progress s s' \<longleftrightarrow>
     (\<forall>k. k \<noteq> RunningCountersKey \<longrightarrow> set (streams s k) \<subseteq> set (streams s' k)) \<and>
     (\<forall>k m. k \<noteq> RunningCountersKey \<and> m \<in> zs_members (zsets s k) \<longrightarrow>
        m \<in> zs_members (zsets s' k) \<or> malformed m \<or> in_stream m s')"

lemma route_key: "publish_route e = Inr (sk, g) \<Longrightarrow> sk \<noteq> RunningCountersKey"
  by (auto simp: publish_route_def Let_def key_defs split: if_splits)

lemma in_stream_mono:
  "in_stream m s \<Longrightarrow> \<forall>k. k \<noteq> RunningCountersKey \<longrightarrow> set (streams s k) \<subseteq> set (streams s' k) \<Longrightarrow> in_stream m s'"
  unfolding in_stream_def published_def using route_key by blast

lemma progress_refl [simp]: "progress s s"
  by (simp add: progress_def)

lemma progress_trans:
  assumes "progress s t" and "progress t u"
  shows "progress s u"
proof -
  have mono: "\<forall>k. k \<noteq> RunningCountersKey \<longrightarrow> set (streams t k) \<subseteq> set (streams u k)" using assms(2) by (simp add: progress_def)
  show ?thesis using assms in_stream_mono [OF _ mono] unfolding progress_def by blast
qed

lemma untouched_progress: "untouched s t \<Longrightarrow> progress s t"
  by (simp add: progress_def untouched_def)

lemma moved_progress:
  assumes "moved e s t"
  shows "progress s t"
proof -
  obtain sk g i where r: "publish_route e = Inr (sk, g)"
    and st: "streams t = (streams s)(sk := streams s sk @ [(i, publish_values e)])"
    and z: "zsets t = (zsets s)(ScheduleKey (se_JobID e) :=
      zs_rem (Member e) (zsets s (ScheduleKey (se_JobID e))))"
    using assms by (auto simp: moved_def)
  have "published e t" using r st by (auto simp: published_def)
  then have "in_stream (Member e) t" by (auto simp: in_stream_def)
  then show ?thesis using st z by (auto simp: progress_def)
qed

lemma reschedule_progress: "progress s (snd (redis_exec (ZAddXX k sc m) s))"
  by (auto simp: progress_def)

context redis_server
begin

lemma reschedule_zset_progress:
  "progress (view w) (view (snd (RescheduleZSet R e t w)))"
proof -
  let ?c = "ZAddXX (ScheduleKey (se_JobID e)) (unix_milli t) (Member e)"
  have w: "snd (RescheduleZSet R e t w) = snd (r_cmd R ?c w)"
    by (simp add: RescheduleZSet_def rescheduleZSet_def case_prod_beta)
  have tick: "progress s (tick n s)" for s n
    by (simp add: progress_def)
  show ?thesis unfolding w
    by (cases rule: cmd_cases [OF prod.collapse [symmetric, of "r_cmd R ?c w"]])
      (metis progress_trans reschedule_progress tick)+
qed

end

context redis_server
begin

lemma zsets_filtered_progress:
  assumes "\<forall>m\<in>X. malformed m" and "streams t = streams s"
    and "\<forall>k. zsets t k = (if k = k0 then filter (\<lambda>p. snd p \<notin> X) (zsets s k) else zsets s k)"
  shows "progress s t"
  using assms by (auto simp: progress_def zs_members_def)

lemma due_parse_streams: "streams (view (snd (due_parse R key zs w))) = streams (view w)"
proof (induction R \<equiv> R key zs w rule: due_parse.induct)
  case (2 key sc m zs w)
  have "streams (view (snd (r_cmd R (ZRem key m) w))) = streams (view w)" for m
    by (cases rule: cmd_cases [OF prod.collapse [symmetric, of "r_cmd R (ZRem key m) w"]]) auto
  with 2 show ?case by (auto simp: case_prod_beta split: sum.splits)
qed simp

lemma due_items_progress:
  assumes "DueItems R j now limit w = (r, w')"
  shows "progress (view w) (view w')"
proof -
  let ?c = "ZRangeByScore (ScheduleKey j) (unix_milli now) limit"
  obtain x w1 where c: "r_cmd R ?c w = (x, w1)" by fastforce
  have u: "untouched (view w) (view w1)"
    by (cases rule: cmd_cases [OF c]) (auto simp: untouched_def)
  show ?thesis
  proof (cases "\<exists>zs. x = RScored zs")
    case True
    then obtain zs where x: "x = RScored zs" by blast
    have w': "w' = snd (due_parse R (ScheduleKey j) zs w1)"
      using assms c x by (simp add: DueItems_def Let_def case_prod_beta)
    have "progress (view w1) (view w')"
      using due_parse_zsets [of "ScheduleKey j" zs w1] zsets_filtered_progress due_parse_streams
      unfolding w' by metis
    then show ?thesis using u untouched_progress progress_trans by blast
  next
    case False
    then have "w' = w1" using assms c by (auto simp: DueItems_def Let_def split: reply.splits)
    with u show ?thesis by (simp add: untouched_progress)
  qed
qed

end

text \<open>What the dispatcher relies on in its hooks: they leave the sorted sets and streams alone, or,
  for the reconciliation, make progress in the sense above.\<close>

locale dispatch_hooks = redis_server R view
  for R :: "'w redis" and view :: "'w \<Rightarrow> rstore" +
  fixes H :: "'w hooks"
  assumes can_frame: "untouched (view w) (view (snd (h_CanDispatch H j w)))"
    and first_frame: "h_onFirstDispatch H = Some f \<Longrightarrow> untouched (view w) (view (snd (f j w)))"
    and trigger_frame: "h_TriggerReconcile H = Some g \<Longrightarrow> progress (view w) (view (g w))"
begin

lemma after_publish_untouched:
  "untouched (view w) (view (snd (after_publish R H j host (d, w))))"
proof -
  let ?w2 = "snd (IncrementInflight R host j (snd (Increment R j w)))"
  have u: "untouched (view w) (view ?w2)"
    using increment_untouched inflight_untouched untouched_trans by blast
  show ?thesis
  proof (cases "h_onFirstDispatch H")
    case None
    with u show ?thesis by (simp add: after_publish_def Let_def)
  next
    case (Some f)
    from untouched_trans [OF u first_frame [OF Some, of ?w2 j]] u Some show ?thesis
      by (simp add: after_publish_def Let_def case_prod_beta split: option.splits)
  qed
qed

lemma dispatch_entry_progress:
  "progress (view w) (view (snd (snd (dispatch_entry R cfg H j now e (d, w)))))"
proof -
  obtain r w1 where t: "TryAcquire R cfg (se_Host e) w = (r, w1)" by fastforce
  have u: "progress (view w) (view w1)"
    using try_acquire_untouched [of w cfg "se_Host e"] t by (simp add: untouched_progress)
  show ?thesis
  proof (cases r)
    case (Inl x)
    with t u show ?thesis by (simp add: dispatch_entry_def)
  next
    case (Inr pace)
    show ?thesis
    proof (cases "pr_Acquired pace")
      case False
      with t Inr progress_trans [OF u reschedule_zset_progress] show ?thesis
        by (simp add: dispatch_entry_def)
    next
      case True
      obtain err d2 w2 where p: "publishAndRemove R e (d, w1) = (err, d2, w2)"
        by (cases "publishAndRemove R e (d, w1)") auto
      have "progress (view w1) (view w2)"
        using publish_cases [OF p] moved_progress untouched_progress by metis
      then have "progress (view w) (view w2)" by (rule progress_trans [OF u])
      moreover have "progress (view w2) (view (snd (after_publish R H j (se_Host e) (d2, w2))))"
        using after_publish_untouched untouched_progress by blast
      ultimately show ?thesis using t Inr True p progress_trans
        by (cases err) (auto simp: dispatch_entry_def)
    qed
  qed
qed

lemma trigger_progress:
  "progress (view (snd dw)) (view (snd (maybeTriggerReconcile H opts j now dw)))"
  using trigger_frame
  by (auto simp: maybeTriggerReconcile_def Let_def case_prod_beta split: option.splits)

lemma dispatch_loop_progress:
  "progress (view (snd dw)) (view (snd (snd (dispatch_loop R cfg H opts j now es n dw))))"
proof (induction es arbitrary: n dw)
  case (Cons e es)
  obtain d w where dw: "dw = (d, w)" by force
  obtain r w1 where c: "h_CanDispatch H j w = (r, w1)" by fastforce
  have p: "progress (view w) (view w1)" using can_frame [of w j] c by (simp add: untouched_progress)
  show ?case
  proof (cases "\<exists>b. r = Inr b \<and> b")
    case True
    then have r: "r = Inr True" by auto
    obtain sent d2 w2 where x: "dispatch_entry R cfg H j now e (clearStuck j d, w1) = (sent, d2, w2)"
      by (cases "dispatch_entry R cfg H j now e (clearStuck j d, w1)") auto
    have "progress (view w1) (view w2)"
      using dispatch_entry_progress [of w1 cfg j now e "clearStuck j d"] x by simp
    from progress_trans [OF progress_trans [OF p this]] show ?thesis
      using Cons.IH [of "(d2, w2)"] dw c r x by simp
  next
    case False
    then show ?thesis
      using dw c p progress_trans [OF p] trigger_progress [of "(d, w1)" opts j now]
      by (auto split: sum.splits)
  qed
qed simp

lemma dispatch_job_progress:
  "progress (view (snd dw)) (view (snd (snd (dispatchJob R cfg H opts j now dw))))"
proof -
  obtain d w where dw: "dw = (d, w)" by force
  obtain r w1 where c: "DueItems R j now (do_BatchSize opts) w = (r, w1)" by fastforce
  have p: "progress (view w) (view w1)"
    by (rule due_items_progress [OF c])
  show ?thesis
  proof (cases r)
    case (Inr es)
    then show ?thesis
      using dw c p progress_trans [OF p] dispatch_loop_progress [of "(d, w1)"]
      by (simp add: dispatchJob_def case_prod_beta)
  qed (use dw c p in \<open>simp add: dispatchJob_def\<close>)
qed

end

section \<open>Capacity\<close>

definition counters_kept :: "rstore \<Rightarrow> rstore \<Rightarrow> bool" where
  "counters_kept s t \<longleftrightarrow> (counters_inv s \<longrightarrow> counters_inv t \<and> counter_at t = counter_at s)"

lemma counters_kept_refl [simp]: "counters_kept s s"
  by (simp add: counters_kept_def)

lemma counters_kept_trans: "counters_kept s t \<Longrightarrow> counters_kept t u \<Longrightarrow> counters_kept s u"
  by (simp add: counters_kept_def)

lemma counters_kept_hash:
  assumes "hashes t RunningCountersKey = hashes s RunningCountersKey"
    and "ttls t RunningCountersKey = ttls s RunningCountersKey"
  shows "counters_kept s t"
proof -
  have "counters_inv s \<Longrightarrow> hash_at t RunningCountersKey = hash_at s RunningCountersKey"
    using assms by (simp add: counters_inv_def hash_at_def expired_def)
  then show ?thesis using assms by (auto simp: counters_kept_def counters_inv_def counter_at_def fun_eq_iff)
qed

text \<open>The commands that leave the hash of the counters alone.\<close>

fun counter_free :: "cmd \<Rightarrow> bool" where
  "counter_free (HIncrBy k f n) = (k \<noteq> RunningCountersKey)"
| "counter_free (ZAddXX k sc m) = True"
| "counter_free (ZRem k m) = True"
| "counter_free (ZRangeByScore k mx l) = True"
| "counter_free (XAdd k fvs) = True"
| "counter_free (XGroupCreateMkStream k g) = True"
| "counter_free (HGet k f) = True"
| "counter_free _ = False"

lemma counter_free_exec: "counter_free c \<Longrightarrow> counters_kept s (snd (redis_exec c s))"
  by (cases c) (auto intro!: counters_kept_hash simp: put_hash_def Let_def split: option.splits)

lemma counter_free_exec_all:
  "list_all counter_free cs \<Longrightarrow> counters_kept s (snd (redis_exec_all cs s))"
  by (induction cs arbitrary: s)
    (auto simp: Let_def case_prod_beta intro: counters_kept_trans counter_free_exec)

lemma counters_kept_tick [simp]: "counters_kept s (tick n s)"
  by (intro counters_kept_hash) simp_all

context redis_server
begin

lemma counter_free_cmd:
  assumes "counter_free c"
  shows "counters_kept (view w) (view (snd (r_cmd R c w)))"
  by (cases rule: cmd_cases [OF prod.collapse [symmetric, of "r_cmd R c w"]])
    (metis assms counter_free_exec counters_kept_tick counters_kept_trans)+

lemma counter_free_tx:
  assumes "list_all counter_free cs"
  shows "counters_kept (view w) (view (snd (r_tx R cs w)))"
proof -
  obtain rs e w' where t: "r_tx R cs w = ((rs, e), w')" by (metis prod.collapse)
  show ?thesis unfolding t snd_conv
    by (cases rule: tx_cases [OF t])
      (metis assms counter_free_exec_all counters_kept_tick counters_kept_trans)+
qed

lemma try_acquire_counters: "counters_kept (view w) (view (snd (TryAcquire R cfg host w)))"
proof -
  let ?p = "tryAcquireScript (DomainConfigKey host) (DomainGateKey host)"
  have "snd (TryAcquire R cfg host w) = snd (r_eval R ?p w)"
    by (simp add: TryAcquire_def Let_def case_prod_beta split: sum.splits)
  then show ?thesis
    by (cases rule: eval_cases [OF prod.collapse [symmetric, of "r_eval R ?p w"]])
      (auto intro!: counters_kept_hash simp: try_acquire_script_frame)
qed

lemma publish_counters: "counters_kept (view w) (view (snd (snd (publishAndRemove R e (d, w)))))"
proof (cases "publish_route e")
  case (Inr r)
  obtain sk g where r: "publish_route e = Inr (sk, g)" using Inr by (cases r) simp
  have 1: "counters_kept (view w) (view (snd (snd (ensureConsumerGroup R sk g (d, w)))))"
    using counter_free_cmd [of "XGroupCreateMkStream sk g" w]
    by (simp add: ensureConsumerGroup_def case_prod_beta split: option.splits)
  show ?thesis
    using r 1 counters_kept_trans [OF 1 counter_free_tx]
    by (simp add: publishAndRemove_def case_prod_beta split: option.splits)
qed (simp add: publishAndRemove_def)

lemma due_items_counters: "counters_kept (view w) (view (snd (DueItems R j now limit w)))"
proof -
  have p: "counters_kept (view w) (view (snd (due_parse R key zs w)))" for key zs w
  proof (induction R \<equiv> R key zs w rule: due_parse.induct)
    case (2 key sc m zs w)
    show ?case
      using 2 counters_kept_trans [OF counter_free_cmd [of "ZRem key m" w]]
      by (auto simp: case_prod_beta split: sum.splits)
  qed simp
  let ?c = "ZRangeByScore (ScheduleKey j) (unix_milli now) limit"
  show ?thesis
    using counter_free_cmd [of ?c w] counters_kept_trans [OF counter_free_cmd [of ?c w] p]
    by (simp add: DueItems_def Let_def case_prod_beta split: reply.splits)
qed

end

text \<open>The counter of a job at the end of a batch: counted up to \<open>c\<close>, and then perhaps set by the self-heal
  that a refusal triggers.\<close>

definition counted_then_healed :: "('w \<Rightarrow> rstore) \<Rightarrow> 'w hooks \<Rightarrow> dispatcher_opts \<Rightarrow> string \<Rightarrow> time \<Rightarrow> int \<Rightarrow> dispatcher \<times> 'w \<Rightarrow> bool" where
  "counted_then_healed view H opts j now c dw \<longleftrightarrow>
     (\<exists>d1 w1. counter_at (view w1) j = c \<and> (dw = (d1, w1) \<or> dw = maybeTriggerReconcile H opts j now (d1, w1)))"

text \<open>
  What \<open>ConcurrencyChecker\<close> promises: \<open>cap j\<close> bounds the concurrency of a job, and a job may
  dispatch only while its counter is below it.  It may rely on an invariant \<open>ok\<close> of its own
  state, which the calls to Redis leave alone.
\<close>

locale capacity_hooks = redis_reliable R view + dispatch_hooks R view H
  for R :: "'w redis" and view :: "'w \<Rightarrow> rstore" and H :: "'w hooks" +
  fixes cap :: "string \<Rightarrow> int" and ok :: "'w \<Rightarrow> bool"
  assumes cap_int64: "in_int64 (cap j)"
    and ok_redis: "ok w \<Longrightarrow> ok (snd (r_cmd R c w))" "ok w \<Longrightarrow> ok (snd (r_tx R cs w))" "ok w \<Longrightarrow> ok (snd (r_eval R p w))"
    and ok_hooks: "ok w \<Longrightarrow> ok (snd (h_CanDispatch H j w))"
      "h_onFirstDispatch H = Some f \<Longrightarrow> ok w \<Longrightarrow> ok (snd (f j w))"
    and can_counters: "counters_kept (view w) (view (snd (h_CanDispatch H j w)))"
    and first_counters: "h_onFirstDispatch H = Some f \<Longrightarrow> counters_kept (view w) (view (snd (f j w)))"
    and can_sound: "h_CanDispatch H j w = (Inr True, w') \<Longrightarrow> counters_inv (view w) \<Longrightarrow> ok w \<Longrightarrow>
      counter_at (view w) j < cap j"
begin

lemma ok_steps:
  assumes "ok w"
  shows "ok (snd (TryAcquire R cfg host w))" "ok (snd (RescheduleZSet R e t w))"
    "ok (snd (Increment R j w))" "ok (snd (IncrementInflight R host j w))"
    "ok (snd (snd (ensureConsumerGroup R sk g (d, w))))"
  using assms ok_redis
  by (simp_all add: TryAcquire_def Let_def RescheduleZSet_def rescheduleZSet_def Increment_def IncrementInflight_def
      ensureConsumerGroup_def case_prod_beta split: sum.splits reply.splits option.splits)

lemma ok_publish: "ok w \<Longrightarrow> ok (snd (snd (publishAndRemove R e (d, w))))"
  using ok_steps(5) ok_redis(2) by (simp add: publishAndRemove_def case_prod_beta split: sum.splits option.splits)

lemma ok_after_publish: "ok w \<Longrightarrow> ok (snd (after_publish R H j host (d, w)))"
  using ok_steps ok_hooks(2)
  by (simp add: after_publish_def Let_def case_prod_beta split: option.splits)

lemma ok_dispatch_entry: "ok w \<Longrightarrow> ok (snd (snd (dispatch_entry R cfg H j now e (d, w))))"
  using ok_steps ok_publish ok_after_publish
  by (simp add: dispatch_entry_def case_prod_beta split: sum.splits option.splits) (metis prod.collapse)

lemma ok_due_parse: "ok w \<Longrightarrow> ok (snd (due_parse R key zs w))"
proof (induction R \<equiv> R key zs w rule: due_parse.induct)
  case (2 key sc m zs w)
  then show ?case using ok_redis(1) by (auto simp: case_prod_beta split: sum.splits)
qed simp

lemma ok_due_items: "ok w \<Longrightarrow> ok (snd (DueItems R j now limit w))"
  using ok_redis(1) ok_due_parse by (simp add: DueItems_def Let_def case_prod_beta split: reply.splits)

lemma after_publish_counter:
  assumes "counters_inv (view w)" and "counter_at (view w) j < cap j"
    and "after_publish R H j host (d, w) = (d', w')"
  shows "counters_inv (view w') \<and> counter_at (view w') j = counter_at (view w) j + 1"
proof -
  have i: "in_int64 (counter_at (view w) j + 1)"
    using assms(2) cap_int64 [of j] counters_inv_value(2) [OF assms(1), of j]
    by (simp add: in_int64_def)
  let ?w1 = "snd (Increment R j w)" and ?w2 = "snd (IncrementInflight R host j (snd (Increment R j w)))"
  note inc = increment_now [OF assms(1) i prod.collapse [symmetric]]
  have "counters_kept (view ?w1) (view ?w2)"
    using counter_free_cmd [of "HIncrBy (DomainInflightKey host) j 1" ?w1]
    by (simp add: IncrementInflight_def case_prod_beta)
  then have 2: "counters_inv (view ?w2)" "counter_at (view ?w2) j = counter_at (view w) j + 1"
    using inc(2) inc(3) [of j] by (simp_all add: counters_kept_def)
  show ?thesis
  proof (cases "h_onFirstDispatch H")
    case None
    with 2 assms(3) show ?thesis by (auto simp: after_publish_def Let_def)
  next
    case (Some f)
    have "counters_inv (view (snd (f j ?w2)))" "counter_at (view (snd (f j ?w2))) j = counter_at (view w) j + 1"
      using first_counters [OF Some, of ?w2 j] 2 by (simp_all add: counters_kept_def)
    with 2 assms(3) Some show ?thesis
      by (auto simp: after_publish_def Let_def case_prod_beta split: if_splits option.splits)
  qed
qed

lemma dispatch_entry_counter:
  assumes "counters_inv (view w)" and "counter_at (view w) j < cap j"
    and "dispatch_entry R cfg H j now e (d, w) = (sent, d', w')"
  shows "counters_inv (view w') \<and> counter_at (view w') j = counter_at (view w) j + (if sent then 1 else 0)"
proof -
  obtain r w1 where t: "TryAcquire R cfg (se_Host e) w = (r, w1)" by fastforce
  have k: "counters_kept (view w) (view w1)" using try_acquire_counters [of w cfg "se_Host e"] t by simp
  then have 1: "counters_inv (view w1)" "counter_at (view w1) = counter_at (view w)"
    using assms(1) by (simp_all add: counters_kept_def)
  show ?thesis
  proof (cases r)
    case (Inl x)
    with t assms 1 show ?thesis by (simp add: dispatch_entry_def)
  next
    case (Inr pace)
    let ?c = "ZAddXX (ScheduleKey (se_JobID e)) (unix_milli (now + pr_RetryAfter pace)) (Member e)"
    show ?thesis
    proof (cases "pr_Acquired pace")
      case False
      have "counters_kept (view w1) (view (snd (r_cmd R ?c w1)))" by (rule counter_free_cmd) simp
      with False t Inr assms(3) 1 show ?thesis
        by (auto simp: dispatch_entry_def RescheduleZSet_def rescheduleZSet_def case_prod_beta counters_kept_def)
    next
      case True
      obtain err d2 w2 where p: "publishAndRemove R e (d, w1) = (err, d2, w2)"
        by (cases "publishAndRemove R e (d, w1)") auto
      have 2: "counters_inv (view w2)" "counter_at (view w2) = counter_at (view w)"
        using publish_counters [of w1 e d] p 1 by (simp_all add: counters_kept_def)
      show ?thesis
      proof (cases err)
        case None
        with after_publish_counter [OF 2(1), of j "se_Host e" d2] 2(2) assms(2,3) t Inr True p
        show ?thesis by (auto simp: dispatch_entry_def)
      qed (use 2 assms(3) t Inr True p in \<open>auto simp: dispatch_entry_def\<close>)
    qed
  qed
qed

lemma dispatch_loop_capacity:
  assumes "counters_inv (view w)" and "ok w" and "dispatch_loop R cfg H opts j now es n (d, w) = (n', dw')"
  shows "n \<le> n' \<and> int n' \<le> int n + max 0 (cap j - counter_at (view w) j) \<and>
    counted_then_healed view H opts j now (counter_at (view w) j + (int n' - int n)) dw'"
  using assms
proof (induction es arbitrary: n d w)
  case Nil
  then show ?case by (auto simp: counted_then_healed_def)
next
  case (Cons e es)
  obtain r w1 where c: "h_CanDispatch H j w = (r, w1)" by fastforce
  have 1: "counters_inv (view w1)" "counter_at (view w1) = counter_at (view w)" "ok w1"
    using can_counters [of w j] ok_hooks(1) [OF Cons.prems(2), of j] c Cons.prems(1) by (simp_all add: counters_kept_def)
  show ?case
  proof (cases "\<exists>b. r = Inr b \<and> b")
    case True
    then have r: "r = Inr True" by auto
    have below: "counter_at (view w) j < cap j"
      using can_sound [of j w w1] c r Cons.prems(1,2) by simp
    obtain sent d2 w2 where x: "dispatch_entry R cfg H j now e (clearStuck j d, w1) = (sent, d2, w2)"
      by (cases "dispatch_entry R cfg H j now e (clearStuck j d, w1)") auto
    have 2: "counters_inv (view w2)"
      "counter_at (view w2) j = counter_at (view w) j + (if sent then 1 else 0)" "ok w2"
      using dispatch_entry_counter [OF 1(1) _ x] ok_dispatch_entry [OF 1(3), of cfg j now e "clearStuck j d"] x 1(2) below
      by simp_all
    have "dispatch_loop R cfg H opts j now es (if sent then Suc n else n) (d2, w2) = (n', dw')"
      using Cons.prems(3) c r x by simp
    from Cons.IH [OF 2(1,3) this] show ?thesis using 2(2) below by (auto simp: algebra_simps split: if_splits)
  next
    case False
    then have "n' = n \<and> (dw' = (d, w1) \<or> dw' = maybeTriggerReconcile H opts j now (d, w1))"
      using Cons.prems(3) c by (auto split: sum.splits)
    moreover have "counter_at (view w1) j = counter_at (view w) j" using 1(2) by simp
    ultimately show ?thesis unfolding counted_then_healed_def by auto
  qed
qed

lemma dispatch_job_capacity:
  assumes "counters_inv (view w)" and "ok w" and "dispatchJob R cfg H opts j now (d, w) = (Inr n, dw')"
  shows "int n \<le> max 0 (cap j - counter_at (view w) j) \<and>
    counted_then_healed view H opts j now (counter_at (view w) j + int n) dw'"
proof -
  obtain r w1 where c: "DueItems R j now (do_BatchSize opts) w = (r, w1)" by fastforce
  have 1: "counters_inv (view w1)" "counter_at (view w1) = counter_at (view w)" "ok w1"
    using due_items_counters [of w j now "do_BatchSize opts"] ok_due_items [OF assms(2), of j now "do_BatchSize opts"] c assms(1) by (simp_all add: counters_kept_def)
  show ?thesis
  proof (cases r)
    case (Inr es)
    show ?thesis
    proof (cases "es = []")
      case True
      then have "n = 0" "dw' = (clearStuck j d, w1)" using assms(3) c Inr by (auto simp: dispatchJob_def)
      then show ?thesis using 1(2)
        by (simp add: counted_then_healed_def) (intro exI [of _ "clearStuck j d"] exI [of _ w1], simp)
    next
      case False
      obtain n' dw2 where l: "dispatch_loop R cfg H opts j now es 0 (d, w1) = (n', dw2)"
        by (rule prod.exhaust)
      have "n = n'" "dw2 = dw'" using assms(3) c Inr l False by (auto simp: dispatchJob_def)
      then show ?thesis using dispatch_loop_capacity [OF 1(1,3) l] 1(2) by auto
    qed
  qed (use assms(3) c in \<open>simp add: dispatchJob_def\<close>)
qed

end

section \<open>Firing the self-heal\<close>

text \<open>
  The capacity checks of all jobs in the order the mutex admits them: a job is refused at a
  time, or passes.  The result lists the triggers fired.
\<close>

datatype stuck_event = Refused_at string time | Passed string

fun stuck_run :: "time \<Rightarrow> stuck_event list \<Rightarrow> dispatcher \<Rightarrow> (string \<times> time) list" where
  "stuck_run th [] d = []"
| "stuck_run th (Refused_at j t # es) d =
     (case stuck_decision th j t d of
        (fire, d1) \<Rightarrow> (if fire then [(j, t)] else []) @ stuck_run th es d1)"
| "stuck_run th (Passed j # es) d = stuck_run th es (clearStuck j d)"

lemma stuck_decision_last:
  assumes "stuck_decision th j t d = (fire, d1)"
  shows "fire \<Longrightarrow> d_lastTrigger d j = Some p \<Longrightarrow> p + 2 * th \<le> t"
    and "d_lastTrigger d1 i = (if fire \<and> i = j then Some t else d_lastTrigger d i)"
  using assms by (auto simp: stuck_decision_def split: option.splits if_splits)

lemma stuck_decision_since:
  assumes "stuck_decision th j t d = (fire, d1)"
  shows "fire \<Longrightarrow> \<exists>t0. d_stuckSince d j = Some t0 \<and> t0 + th \<le> t"
    and "d_stuckSince d1 i = Some u \<Longrightarrow> d_stuckSince d i = Some u \<or> i = j \<and> u = t"
  using assms by (auto simp: stuck_decision_def split: option.splits if_splits)

lemma stuck_run_after:
  assumes "0 \<le> th" and "(j, t) \<in> set (stuck_run th es d)" and "d_lastTrigger d j = Some p"
  shows "p + 2 * th \<le> t"
  using assms(2,3)
proof (induction th \<equiv> th es d arbitrary: p rule: stuck_run.induct)
  case (2 i u es d)
  obtain fire d1 where x: "stuck_decision th i u d = (fire, d1)" by fastforce
  note l = stuck_decision_last [OF x]
  show ?case
  proof (cases "fire \<and> i = j")
    case True
    then have "(j, t) = (j, u) \<or> (j, t) \<in> set (stuck_run th es d1)" using 2(2) x by auto
    moreover have "p + 2 * th \<le> u" using l(1) 2(3) True by simp
    moreover have "(j, t) \<in> set (stuck_run th es d1) \<Longrightarrow> u + 2 * th \<le> t"
      using "2.hyps" [OF x [symmetric], of u] l(2) [of j] True by simp
    ultimately show ?thesis using assms(1) by (elim disjE) auto
  next
    case False
    then have "(j, t) \<in> set (stuck_run th es d1)" using 2(2) x by (auto split: if_splits)
    then show ?thesis using "2.hyps" [OF x [symmetric]] l(2) [of j] False 2(3) by auto
  qed
qed (auto simp: clearStuck_def)

lemma stuck_run_spaced:
  assumes "0 \<le> th"
  shows "sorted_wrt (\<lambda>a b. fst a = fst b \<longrightarrow> snd a + 2 * th \<le> snd b) (stuck_run th es d)"
proof (induction th \<equiv> th es d rule: stuck_run.induct)
  case (2 j t es d)
  obtain fire d1 where x: "stuck_decision th j t d = (fire, d1)" by fastforce
  have "fire \<Longrightarrow> (j, u) \<in> set (stuck_run th es d1) \<Longrightarrow> t + 2 * th \<le> u" for u
    using stuck_run_after [OF assms, of j u es d1 t] stuck_decision_last(2) [OF x, of j] by simp
  then show ?case using 2 [OF x [symmetric]] x by auto
qed auto

definition stuck_for :: "time \<Rightarrow> string \<Rightarrow> time \<Rightarrow> stuck_event list \<Rightarrow> bool" where
  "stuck_for th j t es \<longleftrightarrow> (\<exists>xs t0 ys zs. es = xs @ Refused_at j t0 # ys @ Refused_at j t # zs \<and>
     t0 + th \<le> t \<and> Passed j \<notin> set ys)"

lemma stuck_for_Cons: "stuck_for th j t es \<Longrightarrow> stuck_for th j t (e # es)"
  unfolding stuck_for_def by (metis append_Cons)

lemma stuck_run_since:
  assumes "(j, t) \<in> set (stuck_run th es d)"
  shows "stuck_for th j t es \<or> (\<exists>t0 ys zs. d_stuckSince d j = Some t0 \<and> t0 + th \<le> t \<and>
      es = ys @ Refused_at j t # zs \<and> Passed j \<notin> set ys)"
  using assms
proof (induction th es d rule: stuck_run.induct)
  case (2 th i u es d)
  obtain fire d1 where x: "stuck_decision th i u d = (fire, d1)" by fastforce
  consider "fire" "i = j" "u = t" | "(j, t) \<in> set (stuck_run th es d1)"
    using 2(2) x by (auto split: if_splits)
  then show ?case
  proof cases
    case 1
    then show ?thesis using stuck_decision_since(1) [OF x] by (metis append_Nil empty_iff list.set(1))
  next
    case 2
    from "2.IH" [OF x [symmetric] this] show ?thesis
    proof
      assume "stuck_for th j t es"
      then show ?thesis using stuck_for_Cons by blast
    next
      assume "\<exists>t0 ys zs. d_stuckSince d1 j = Some t0 \<and> t0 + th \<le> t \<and>
        es = ys @ Refused_at j t # zs \<and> Passed j \<notin> set ys"
      then obtain t0 ys zs where y: "d_stuckSince d1 j = Some t0" "t0 + th \<le> t"
        "es = ys @ Refused_at j t # zs" "Passed j \<notin> set ys" by blast
      from stuck_decision_since(2) [OF x y(1)] show ?thesis
      proof
        assume "d_stuckSince d j = Some t0"
        with y show ?thesis
          by (intro disjI2 exI [of _ t0] exI [of _ "Refused_at i u # ys"] exI [of _ zs]) auto
      next
        assume "j = i \<and> t0 = u"
        with y show ?thesis unfolding stuck_for_def by (metis append_Nil)
      qed
    qed
  qed
next
  case (3 th i es d)
  then have "(j, t) \<in> set (stuck_run th es (clearStuck i d))" by simp
  from "3.IH" [OF this] show ?case
  proof
    assume "stuck_for th j t es"
    then show ?thesis using stuck_for_Cons by blast
  next
    assume "\<exists>t0 ys zs. d_stuckSince (clearStuck i d) j = Some t0 \<and> t0 + th \<le> t \<and>
      es = ys @ Refused_at j t # zs \<and> Passed j \<notin> set ys"
    then obtain t0 ys zs where y: "d_stuckSince (clearStuck i d) j = Some t0" "t0 + th \<le> t"
        "es = ys @ Refused_at j t # zs" "Passed j \<notin> set ys" by blast
    then have "i \<noteq> j" and "d_stuckSince d j = Some t0" by (auto simp: clearStuck_def split: if_splits)
    with y show ?thesis
      by (intro disjI2 exI [of _ t0] exI [of _ "Passed i # ys"] exI [of _ zs]) auto
  qed
qed simp

section \<open>Properties\<close>

text \<open>A checker that always agrees, for the witnesses.\<close>

definition open_hooks :: "'w hooks" where
  "open_hooks = \<lparr>h_CanDispatch = (\<lambda>j w. (Inr True, w)), h_onFirstDispatch = None, h_TriggerReconcile = None\<rparr>"

lemma open_hooks: "redis_server R view \<Longrightarrow> dispatch_hooks R view open_hooks"
  by (simp add: dispatch_hooks_def dispatch_hooks_axioms_def open_hooks_def)

text \<open>C5: \<open>publishAndRemove\<close> is one atomic move.  An entry of an unknown type, or of a lighthouse
  audit without a run id, is refused before anything is sent and so stays in the sorted
  set; for any other entry, whatever call fails, either the message with the fields of the
  entry is at the end of the stream of its type and its member is out of the sorted set, or
  streams and sorted sets are as before and an error is returned.\<close>

theorem publish_atomic:
  assumes "redis_server R view" and "publishAndRemove R e (d, w) = (err, d', w')"
  shows "(\<forall>x. publish_route e = Inl x \<longrightarrow> err = Some x \<and> d' = d \<and> w' = w) \<and>
    (moved e (view w) (view w') \<or> untouched (view w) (view w') \<and> err \<noteq> None)"
proof
  show "\<forall>x. publish_route e = Inl x \<longrightarrow> err = Some x \<and> d' = d \<and> w' = w"
    using assms(2) by (auto simp: publishAndRemove_def)
  show "moved e (view w) (view w') \<or> untouched (view w) (view w') \<and> err \<noteq> None"
    using redis_server.publish_cases [OF assms] by blast
qed

theorem publish_atomic_witness:
  "\<exists>err d' w'. publishAndRemove sim_redis due_entry (new_dispatcher,
       \<lparr>sim_store = due_example, sim_plan = [(0, 0), (5, 2)]\<rparr>) = (err, d', w') \<and>
     (moved due_entry due_example (sim_store w') \<or> untouched due_example (sim_store w') \<and> err \<noteq> None)"
proof -
  let ?w = "\<lparr>sim_store = due_example, sim_plan = [(0, 0), (5, 2)]\<rparr>"
  obtain err d' w' where p: "publishAndRemove sim_redis due_entry (new_dispatcher, ?w) = (err, d', w')"
    by (rule prod_cases3)
  show ?thesis using publish_atomic [OF sim.redis_server_axioms p] p by auto
qed

text \<open>C2: No task is lost by the dispatcher.  Whatever calls to Redis fail, before or after
  their effect, every well-formed member of every sorted set is, after \<open>dispatchJob\<close>, still in
  its sorted set or the message of its entry is in the stream of its type; and no message
  leaves a stream.  The key of the running counters, a hash, is left out.\<close>

theorem dispatch_loses_no_task:
  assumes "dispatch_hooks R view H" and "dispatchJob R cfg H opts j now (d, w) = (r, d', w')"
  shows "(\<forall>k. k \<noteq> RunningCountersKey \<longrightarrow> set (streams (view w) k) \<subseteq> set (streams (view w') k)) \<and>
    (\<forall>k m. k \<noteq> RunningCountersKey \<and> m \<in> zs_members (zsets (view w) k) \<and> \<not> malformed m \<longrightarrow>
       m \<in> zs_members (zsets (view w') k) \<or>
       (\<exists>e sk g i. Member e = m \<and> publish_route e = Inr (sk, g) \<and>
          (i, publish_values e) \<in> set (streams (view w') sk)))"
  using dispatch_hooks.dispatch_job_progress [OF assms(1), of "(d, w)" cfg opts j now] assms(2)
  by (auto simp: progress_def in_stream_def published_def)

lemma due_entry_well_formed: "\<not> malformed (Member due_entry)"
  using parse_ok_not_malformed [OF parse_due_entry] .

theorem dispatch_loses_no_task_witness:
  "let w' = snd (snd (dispatchJob sim_redis (DefaultPacerConfig (\<lambda>_ d. d)) open_hooks
       (DefaultDispatcherOpts (\<lambda>_ d. d)) ''j'' 5000000
       (new_dispatcher, \<lparr>sim_store = due_example, sim_plan = [(0, 0), (5, 2), (0, 1)]\<rparr>)))
   in Member due_entry \<in> zs_members (zsets (sim_store w') (ScheduleKey ''j'')) \<or>
      (\<exists>e sk g i. Member e = Member due_entry \<and> publish_route e = Inr (sk, g) \<and>
          (i, publish_values e) \<in> set (streams (sim_store w') sk))"
proof -
  let ?w = "\<lparr>sim_store = due_example, sim_plan = [(0, 0), (5, 2), (0, 1)]\<rparr>"
  let ?run = "dispatchJob sim_redis (DefaultPacerConfig (\<lambda>_ d. d)) open_hooks
       (DefaultDispatcherOpts (\<lambda>_ d. d)) ''j'' 5000000 (new_dispatcher, ?w)"
  obtain r d' w' where run: "?run = (r, d', w')" by (rule prod_cases3)
  have "Member due_entry \<in> zs_members (zsets (sim_store ?w) (ScheduleKey ''j''))" "ScheduleKey ''j'' \<noteq> RunningCountersKey"
    by (simp add: due_example_z zs_members_def, simp add: key_defs)
  then show ?thesis
    using dispatch_loses_no_task [OF open_hooks [OF sim.redis_server_axioms] run] due_entry_well_formed
    unfolding run Let_def by simp
qed

text \<open>The dispatcher asks for a reconciliation of the counters only when a job was refused
  for at least the threshold with no check in between that let it pass, and never twice for
  one job within two thresholds, in whatever order and at whatever times the checks of all
  jobs come.\<close>

theorem self_heal_rate_limited:
  assumes "0 < th"
  shows "sorted_wrt (\<lambda>a b. fst a = fst b \<longrightarrow> snd a + 2 * th \<le> snd b) (stuck_run th es new_dispatcher) \<and>
    (\<forall>(j, t)\<in>set (stuck_run th es new_dispatcher). stuck_for th j t es)"
  using assms stuck_run_spaced [of th es new_dispatcher] stuck_run_since [of _ _ th es new_dispatcher]
  by (auto simp: new_dispatcher_def)

theorem self_heal_rate_limited_witness:
  "stuck_run 30 [Refused_at ''j'' 0, Refused_at ''j'' 40, Refused_at ''j'' 99, Refused_at ''j'' 100]
     new_dispatcher = [(''j'', 40), (''j'', 100)] \<and> (100::int) \<ge> 40 + 2 * 30"
proof -
  let ?es = "[Refused_at ''j'' 0, Refused_at ''j'' 40, Refused_at ''j'' 99, Refused_at ''j'' 100]"
  have "stuck_run 30 ?es new_dispatcher = [(''j'', 40), (''j'', 100)]"
    by (simp add: stuck_decision_def new_dispatcher_def)
  then show ?thesis using self_heal_rate_limited [of 30 ?es] by simp
qed

text \<open>A member in the legacy form of nine fields is published again and again.  The entry read
  from it is written back with eleven fields, so the removal that goes with the publication
  names a member that is not there: after a successful publication the legacy member is
  still due, and its message is in the stream.\<close>

theorem legacy_member_never_removed:
  assumes "redis_server R view" and "ParseScheduleEntry m sc = Inr e"
    and "length (split_n (CHR ''|'') 11 m) = 9" and "(sc, m) \<in> set (zsets (view w) k)"
    and "publishAndRemove R e (d, w) = (None, d', w')"
  shows "(sc, m) \<in> set (zsets (view w') k) \<and> published e (view w')"
proof -
  have mv: "moved e (view w) (view w')"
    using redis_server.publish_cases [OF assms(1,5)] by blast
  have "count_list m (CHR ''|'') < 10"
    using assms(3) count_split_n [of "CHR ''|''" 10 m] by simp
  then have "Member e \<noteq> m" using count_bars_member [of e] by auto
  then show ?thesis using mv assms(4) by (auto simp: moved_def zs_rem_def published_def)
qed

definition legacy_member :: string where
  "legacy_member = ''t'' @ CHR ''|'' # ''j'' @ CHR ''|'' # itoa 7 @ CHR ''|'' # ''h'' @ CHR ''|'' # ''/p'' @
     CHR ''|'' # fmt_f4 1 @ CHR ''|'' # itoa 0 @ CHR ''|'' # ''link'' @ CHR ''|'' # ''u''"

definition legacy_store :: rstore where
  "legacy_store = empty_store\<lparr>zsets := (\<lambda>_. [])(ScheduleKey ''j'' := [(4, legacy_member)])\<rparr>"

theorem legacy_member_never_removed_witness:
  "\<exists>e d' w'. ParseScheduleEntry legacy_member 4 = Inr e \<and>
     publishAndRemove mem_redis e (new_dispatcher, legacy_store) = (None, d', w') \<and>
     (4, legacy_member) \<in> set (zsets w' (ScheduleKey ''j'')) \<and> published e w'"
proof -
  have eleven: "(11::nat) = Suc (Suc (Suc (Suc (Suc (Suc (Suc (Suc (Suc (Suc (Suc 0))))))))))" by simp
  have nb: "CHR ''|'' \<notin> set ''t''" "CHR ''|'' \<notin> set ''j''" "CHR ''|'' \<notin> set ''h''"
    "CHR ''|'' \<notin> set ''/p''" "CHR ''|'' \<notin> set ''link''" "CHR ''|'' \<notin> set ''u''" by simp_all
  have parts: "split_n (CHR ''|'') 11 legacy_member =
      [''t'', ''j'', itoa 7, ''h'', ''/p'', fmt_f4 1, itoa 0, ''link'', ''u'']"
    unfolding legacy_member_def eleven
    by (simp only: split_n_field split_n_last itoa_no_bar fmt_f4_no_bar nb not_False_eq_True)
  have "round4 1 = 1" using round_half_even_int [of 10000] by (simp add: round4_def)
  then have nums: "atoi (itoa 7) = Some 7" "atoi (itoa 0) = Some 0" "parse_float (fmt_f4 1) = Some 1"
    by (simp_all add: in_int64_def)
  let ?e = "\<lparr>se_TaskID = ''t'', se_JobID = ''j'', se_PageID = 7, se_Host = ''h'', se_Path = ''/p'',
      se_Priority = 1, se_RetryCount = 0, se_SourceType = ''link'', se_SourceURL = ''u'',
      se_RunAt = 4 * millisecond, se_TaskType = ''crawl'', se_LighthouseRunID = 0\<rparr>"
  have p: "ParseScheduleEntry legacy_member 4 = Inr ?e"
    by (simp add: ParseScheduleEntry_def parts nums)
  obtain d' w' where run: "publishAndRemove mem_redis ?e (new_dispatcher, legacy_store) = (None, d', w')"
    by (simp add: publishAndRemove_def publish_route_def publish_type_def ensureConsumerGroup_def
        new_dispatcher_def legacy_store_def empty_store_def err_of_def Let_def case_prod_beta)
  have "(4, legacy_member) \<in> set (zsets legacy_store (ScheduleKey ''j''))"
    by (simp add: legacy_store_def)
  from legacy_member_never_removed [OF mem.redis_server_axioms p _ this run] show ?thesis
    using p run by (auto simp: parts)
qed

end
