(* ===== verification/Broker_Consumer.thy ===== *)
theory Broker_Consumer
  imports Broker_Dispatcher
begin

text \<open>
  \<open>internal/broker/consumer.go\<close>: reading the stream of a job through its consumer group,
  acknowledging, and the sweep that reclaims stale messages and tells those delivered too
  often.  A message body is the association list of its fields.  The lemmas show what the
  dispatcher writes is read back, how the sweep sorts messages, that it is bounded, and
  that it gives up no message it could parse.
\<close>

section \<open>Messages\<close>

record stream_message =
  sm_MessageID :: string
  sm_TaskID :: string
  sm_JobID :: string
  sm_PageID :: int
  sm_Host :: string
  sm_Path :: string
  sm_Priority :: rat
  sm_RetryCount :: int
  sm_SourceType :: string
  sm_SourceURL :: string

record consumer_opts =
  co_ConsumerName :: string
  co_BlockTimeout :: time
  co_Count :: int
  co_ClaimInterval :: time
  co_MinIdleTime :: time
  co_MaxDeliveries :: int
  co_AutoclaimCount :: int
  co_AutoclaimMaxPerSweep :: int

definition DefaultConsumerOpts :: "(string \<Rightarrow> int \<Rightarrow> int) \<Rightarrow> string \<Rightarrow> consumer_opts" where
  "DefaultConsumerOpts env name =
     \<lparr>co_ConsumerName = name,
      co_BlockTimeout = env ''REDIS_CONSUMER_BLOCK_MS'' 2000 * millisecond,
      co_Count = env ''REDIS_CONSUMER_READ_COUNT'' 10,
      co_ClaimInterval = env ''REDIS_AUTOCLAIM_INTERVAL_S'' 30 * second,
      co_MinIdleTime = env ''REDIS_AUTOCLAIM_MIN_IDLE_S'' 180 * second,
      co_MaxDeliveries = env ''REDIS_AUTOCLAIM_MAX_DELIVERIES'' 3,
      co_AutoclaimCount = env ''REDIS_AUTOCLAIM_COUNT'' 100,
      co_AutoclaimMaxPerSweep = env ''REDIS_AUTOCLAIM_MAX_PER_SWEEP'' 1000\<rparr>"

datatype message_error = MissingField string | BadField string

definition msg_get :: "message \<Rightarrow> string \<Rightarrow> string" where
  "msg_get xMsg key = (case map_of (snd xMsg) key of Some v \<Rightarrow> v | None \<Rightarrow> [])"

definition parseStreamMessage :: "message \<Rightarrow> message_error + stream_message" where
  "parseStreamMessage xMsg =
     (let get = msg_get xMsg in
      case find (\<lambda>key. get key = []) [''task_id'', ''job_id'', ''host'', ''path''] of
        Some key \<Rightarrow> Inl (MissingField key)
      | None \<Rightarrow>
          (case atoi (get ''page_id'') of None \<Rightarrow> Inl (BadField ''page_id'') | Some pageID \<Rightarrow>
           case parse_float (get ''priority'') of None \<Rightarrow> Inl (BadField ''priority'') | Some priority \<Rightarrow>
           case atoi (get ''retry_count'') of None \<Rightarrow> Inl (BadField ''retry_count'') | Some retryCount \<Rightarrow>
           Inr \<lparr>sm_MessageID = fst xMsg, sm_TaskID = get ''task_id'', sm_JobID = get ''job_id'',
                sm_PageID = pageID, sm_Host = get ''host'', sm_Path = get ''path'',
                sm_Priority = priority, sm_RetryCount = retryCount,
                sm_SourceType = get ''source_type'', sm_SourceURL = get ''source_url''\<rparr>))"

definition isNoGroupErr :: "string option \<Rightarrow> bool" where
  "isNoGroupErr err = (case err of None \<Rightarrow> False
     | Some s \<Rightarrow> str_contains s ''NOGROUP'' \<or> str_contains s ''no such key'')"

section \<open>Reading\<close>

definition Ack :: "'w redis \<Rightarrow> string \<Rightarrow> string list \<Rightarrow> 'w \<Rightarrow> string option \<times> 'w" where
  "Ack R jobID messageIDs w =
     (if messageIDs = [] then (None, w)
      else case r_cmd R (XAck (StreamKey jobID) (ConsumerGroup jobID) messageIDs) w of
        (r, w1) \<Rightarrow> (err_of r, w1))"

text \<open>A message that does not parse is acknowledged and skipped.\<close>

fun read_messages :: "'w redis \<Rightarrow> string \<Rightarrow> message list \<Rightarrow> 'w \<Rightarrow> stream_message list \<times> 'w" where
  "read_messages R jobID [] w = ([], w)"
| "read_messages R jobID (xMsg # xs) w =
     (case parseStreamMessage xMsg of
        Inl _ \<Rightarrow> read_messages R jobID xs (snd (Ack R jobID [fst xMsg] w))
      | Inr msg \<Rightarrow> (case read_messages R jobID xs w of (msgs, w1) \<Rightarrow> (msg # msgs, w1)))"

definition Read ::
  "'w redis \<Rightarrow> consumer_opts \<Rightarrow> string \<Rightarrow> 'w \<Rightarrow> (string + stream_message list) \<times> 'w" where
  "Read R opts jobID w =
     (case r_cmd R (XReadGroup (StreamKey jobID) (ConsumerGroup jobID) (co_ConsumerName opts) (co_Count opts)) w of
        (RNil, w1) \<Rightarrow> (Inr [], w1)
      | (RErr e, w1) \<Rightarrow> if isNoGroupErr (Some e) then (Inr [], w1) else (Inl e, w1)
      | (RMsgs xs, w1) \<Rightarrow> (case read_messages R jobID xs w1 of (msgs, w2) \<Rightarrow> (Inr msgs, w2))
      | (_, w1) \<Rightarrow> (Inl [], w1))"

text \<open>\<open>Read\<close> without \<open>BLOCK\<close>: time passing before a call is not part of the call here.\<close>

definition ReadNonBlocking ::
  "'w redis \<Rightarrow> consumer_opts \<Rightarrow> string \<Rightarrow> 'w \<Rightarrow> (string + stream_message list) \<times> 'w" where
  "ReadNonBlocking R opts jobID w =
     (case r_cmd R (XReadGroup (StreamKey jobID) (ConsumerGroup jobID) (co_ConsumerName opts) (co_Count opts)) w of
        (RNil, w1) \<Rightarrow> (Inr [], w1)
      | (RErr e, w1) \<Rightarrow> if isNoGroupErr (Some e) then (Inr [], w1) else (Inl e, w1)
      | (RMsgs xs, w1) \<Rightarrow> (case read_messages R jobID xs w1 of (msgs, w2) \<Rightarrow> (Inr msgs, w2))
      | (_, w1) \<Rightarrow> (Inl [], w1))"

definition ConsumerPendingCount :: "'w redis \<Rightarrow> string \<Rightarrow> 'w \<Rightarrow> (string + int) \<times> 'w" where
  "ConsumerPendingCount R jobID w =
     (case r_cmd R (XPending (StreamKey jobID) (ConsumerGroup jobID)) w of
        (RInt n, w1) \<Rightarrow> (Inr n, w1)
      | (RErr e, w1) \<Rightarrow> if isNoGroupErr (Some e) then (Inr 0, w1) else (Inl e, w1)
      | (_, w1) \<Rightarrow> (Inr 0, w1))"

section \<open>Reclaiming\<close>

text \<open>\<open>classifiedMessage\<close>: \<open>None\<close> for an unparseable message.\<close>

type_synonym classified = "stream_message option"

fun classify_parse :: "'w redis \<Rightarrow> string \<Rightarrow> message list \<Rightarrow> 'w \<Rightarrow> classified list \<times> 'w" where
  "classify_parse R jobID [] w = ([], w)"
| "classify_parse R jobID (xMsg # xs) w =
     (case parseStreamMessage xMsg of
        Inl _ \<Rightarrow> (case classify_parse R jobID xs (snd (Ack R jobID [fst xMsg] w)) of
                    (ps, w1) \<Rightarrow> (None # ps, w1))
      | Inr m \<Rightarrow> (case classify_parse R jobID xs w of (ps, w1) \<Rightarrow> (Some m # ps, w1)))"

definition parsed_ids :: "classified list \<Rightarrow> string list" where
  "parsed_ids ps = map sm_MessageID (List.map_filter id ps)"

type_synonym delivered = "string \<Rightarrow> int option"

fun add_counts :: "(string \<times> int) list \<Rightarrow> delivered \<Rightarrow> delivered" where
  "add_counts [] dl = dl"
| "add_counts ((i, n) # ps) dl = add_counts ps (dl(i \<mapsto> n))"

fun count_stragglers ::
  "'w redis \<Rightarrow> string \<Rightarrow> string \<Rightarrow> string list \<Rightarrow> delivered \<Rightarrow> 'w \<Rightarrow> delivered \<times> 'w" where
  "count_stragglers R sk g [] dl w = (dl, w)"
| "count_stragglers R sk g (i # is) dl w =
     (if dl i \<noteq> None then count_stragglers R sk g is dl w
      else case r_cmd R (XPendingExt sk g i i 1) w of
        (RPend ((i', n) # _), w1) \<Rightarrow> count_stragglers R sk g is (dl(i' \<mapsto> n)) w1
      | (_, w1) \<Rightarrow> count_stragglers R sk g is dl w1)"

definition classifyBatch ::
  "'w redis \<Rightarrow> string \<Rightarrow> string \<Rightarrow> string \<Rightarrow> message list \<Rightarrow> 'w \<Rightarrow>
     (delivered \<times> classified list) \<times> 'w" where
  "classifyBatch R jobID sk g msgs w =
     (case classify_parse R jobID msgs w of
        (parsed, w1) \<Rightarrow>
          (let ids = parsed_ids parsed in
           if ids = [] then ((\<lambda>_. None, parsed), w1)
           else case r_cmd R (XPendingExt sk g (hd ids) (last ids) (int (length parsed) * 2)) w1 of
             (RPend pending, w2) \<Rightarrow>
               (case count_stragglers R sk g ids (add_counts pending (\<lambda>_. None)) w2 of
                  (dl, w3) \<Rightarrow> ((dl, parsed), w3))
           | (_, w2) \<Rightarrow> ((\<lambda>_. None, parsed), w2)))"

text \<open>One batch sorted into reclaimed messages and dead letters.\<close>

fun sort_batch ::
  "int \<Rightarrow> delivered \<Rightarrow> classified list \<Rightarrow> stream_message list \<times> stream_message list \<Rightarrow>
     stream_message list \<times> stream_message list" where
  "sort_batch mx dl [] acc = acc"
| "sort_batch mx dl (None # ps) acc = sort_batch mx dl ps acc"
| "sort_batch mx dl (Some m # ps) (rec, dead) =
     (case dl (sm_MessageID m) of
        None \<Rightarrow> sort_batch mx dl ps (rec, dead)
      | Some cnt \<Rightarrow>
          if mx \<le> cnt then sort_batch mx dl ps (rec, dead @ [m])
          else sort_batch mx dl ps (rec @ [m], dead))"

definition sweep_cap :: "consumer_opts \<Rightarrow> int" where
  "sweep_cap opts = (if co_AutoclaimMaxPerSweep opts \<le> 0 then 1000 else co_AutoclaimMaxPerSweep opts)"

definition per_call :: "consumer_opts \<Rightarrow> int" where
  "per_call opts = (if co_AutoclaimCount opts \<le> 0 then 100 else co_AutoclaimCount opts)"

definition iteration_cap :: "consumer_opts \<Rightarrow> nat" where
  "iteration_cap opts =
     nat (max 10 ((sweep_cap opts + per_call opts - 1) div per_call opts * 3))"

text \<open>
  The loop of \<open>ReclaimStale\<close>; the first argument is what is left of the iteration cap,
  \<open>iterationCap - iterations\<close>.
\<close>

fun reclaim_loop ::
  "nat \<Rightarrow> 'w redis \<Rightarrow> consumer_opts \<Rightarrow> string \<Rightarrow> string \<Rightarrow> int \<Rightarrow> stream_message list \<times> stream_message list \<Rightarrow>
     'w \<Rightarrow> (string + stream_message list \<times> stream_message list) \<times> 'w" where
  "reclaim_loop 0 R opts jobID cursor seen acc w = (Inr acc, w)"
| "reclaim_loop (Suc left) R opts jobID cursor seen acc w =
     (let remaining = sweep_cap opts - seen; sk = StreamKey jobID; g = ConsumerGroup jobID in
      if remaining \<le> 0 then (Inr acc, w)
      else case r_cmd R (XAutoClaim sk g (co_ConsumerName opts) (unix_milli (co_MinIdleTime opts))
                cursor (min remaining (per_call opts))) w of
        (RClaimed msgs next, w1) \<Rightarrow>
          (case classifyBatch R jobID sk g msgs w1 of
             ((dl, parsed), w2) \<Rightarrow>
               (let acc' = sort_batch (co_MaxDeliveries opts) dl parsed acc;
                    seen' = seen + int (length msgs)
                in if next = ''0-0'' \<or> next = [] then (Inr acc', w2)
                   else if sweep_cap opts \<le> seen' then (Inr acc', w2)
                   else reclaim_loop left R opts jobID next seen' acc' w2))
      | (RErr e, w1) \<Rightarrow> if isNoGroupErr (Some e) then (Inr ([], []), w1) else (Inl e, w1)
      | (_, w1) \<Rightarrow> (Inl [], w1))"

definition ReclaimStale ::
  "'w redis \<Rightarrow> consumer_opts \<Rightarrow> string \<Rightarrow> 'w \<Rightarrow>
     (string + stream_message list \<times> stream_message list) \<times> 'w" where
  "ReclaimStale R opts jobID w = reclaim_loop (iteration_cap opts) R opts jobID ''0-0'' 0 ([], []) w"

section \<open>What a sweep does to the pending entries\<close>

definition readable :: "rstore \<Rightarrow> string \<Rightarrow> string \<Rightarrow> bool" where
  "readable s k i \<longleftrightarrow> (\<exists>b m. (i, b) \<in> set (streams s k) \<and> parseStreamMessage (i, b) = Inr m)"

definition stream_ok :: "rstore \<Rightarrow> bool" where
  "stream_ok s \<longleftrightarrow> (\<forall>k. distinct (map fst (streams s k))) \<and> (\<forall>k g. distinct (map pe_id (pels s k g)))"

text \<open>
  \<open>swept s t\<close>: nothing is added to the pending entries, no entry's delivery count falls, and
  an entry whose message can be read stays.
\<close>

definition swept :: "rstore \<Rightarrow> rstore \<Rightarrow> bool" where
  "swept s t \<longleftrightarrow> streams t = streams s \<and>
     (\<forall>k g p. p \<in> set (pels t k g) \<longrightarrow>
        (\<exists>q\<in>set (pels s k g). pe_id q = pe_id p \<and> pe_count q \<le> pe_count p)) \<and>
     (\<forall>k g. distinct (map pe_id (pels s k g)) \<longrightarrow> distinct (map pe_id (pels t k g))) \<and>
     (\<forall>k g p. p \<in> set (pels s k g) \<and> readable s k (pe_id p) \<longrightarrow>
        (\<exists>q\<in>set (pels t k g). pe_id q = pe_id p))"

lemma swept_refl [simp]: "swept s s"
  by (auto simp: swept_def)

lemma swept_tick [simp]: "swept s (tick n s)"
  by (auto simp: swept_def)

lemma swept_trans:
  assumes "swept s t" and "swept t u"
  shows "swept s u"
proof -
  have r: "readable t k i = readable s k i" for k i using assms(1) by (simp add: readable_def swept_def)
  have "\<exists>q\<in>set (pels s k g). pe_id q = pe_id p \<and> pe_count q \<le> pe_count p"
    if "p \<in> set (pels u k g)" for k g p
    using assms that unfolding swept_def by (metis order_trans)
  moreover have "\<exists>q\<in>set (pels u k g). pe_id q = pe_id p"
    if "p \<in> set (pels s k g)" "readable s k (pe_id p)" for k g p
    using assms that r unfolding swept_def by metis
  ultimately show ?thesis using assms by (simp add: swept_def)
qed

lemma swept_ok: "swept s t \<Longrightarrow> stream_ok s \<Longrightarrow> stream_ok t"
  by (simp add: swept_def stream_ok_def)

lemma swept_readable: "swept s t \<Longrightarrow> readable t = readable s"
  by (simp add: swept_def readable_def fun_eq_iff)

lemma swept_ack:
  "\<not> readable s k i \<Longrightarrow> swept s (snd (redis_exec (XAck k g [i]) s))"
  by (auto simp: swept_def distinct_map_filter)

lemma autoclaim_length: "length (fst (autoclaim a n live c now idle ps)) \<le> n"
  by (induction a n live c now idle ps rule: autoclaim.induct) (auto simp: Let_def case_prod_beta)

lemma autoclaim_old:
  "p \<in> set (fst (snd (autoclaim a n live c now idle ps))) \<Longrightarrow>
     \<exists>q\<in>set ps. pe_id q = pe_id p \<and> pe_count q \<le> pe_count p"
  by (induction a n live c now idle ps rule: autoclaim.induct)
    (auto simp: Let_def case_prod_beta split: if_splits)

lemma autoclaim_keeps:
  "p \<in> set ps \<Longrightarrow> live (pe_id p) \<Longrightarrow>
     \<exists>q\<in>set (fst (snd (autoclaim a n live c now idle ps))). pe_id q = pe_id p"
  by (induction a n live c now idle ps rule: autoclaim.induct)
    (auto simp: Let_def case_prod_beta split: if_splits)

lemma autoclaim_distinct:
  "distinct (map pe_id ps) \<Longrightarrow> distinct (map pe_id (fst (snd (autoclaim a n live c now idle ps))))"
proof (induction a n live c now idle ps rule: autoclaim.induct)
  case (2 a n live c now idle p ps)
  have new: "pe_id p \<notin> pe_id ` set (fst (snd (autoclaim a n live c now idle ps)))" for a n
  proof
    assume "pe_id p \<in> pe_id ` set (fst (snd (autoclaim a n live c now idle ps)))"
    then obtain r where r: "r \<in> set (fst (snd (autoclaim a n live c now idle ps)))" "pe_id r = pe_id p"
      by (metis imageE)
    from autoclaim_old [OF r(1)] r(2) 2(4) show False by (auto simp: image_iff)
  qed
  show ?case using 2 new by (simp add: Let_def case_prod_beta)
qed simp

text \<open>The parts of \<open>XAUTOCLAIM\<close>: the list is cut at the start id.\<close>

lemma swept_autoclaim: "swept s (snd (redis_exec (XAutoClaim k g c idle start count) s))"
proof (cases "map_of (groups s k) g = None \<or> count \<le> 0")
  case True
  then show ?thesis by (auto split: option.splits)
next
  case False
  let ?early = "filter (\<lambda>p. sid (pe_id p) < sid start) (pels s k g)"
  let ?late = "filter (\<lambda>p. \<not> sid (pe_id p) < sid start) (pels s k g)"
  let ?live = "\<lambda>i. i \<in> fst ` set (streams s k)"
  let ?r = "fst (snd (autoclaim (10 * nat count) (nat count) ?live c (clock_ms s) idle ?late))"
  have p: "pels (snd (redis_exec (XAutoClaim k g c idle start count) s)) =
      (pels s)(k := (pels s k)(g := ?early @ ?r))"
    and st: "streams (snd (redis_exec (XAutoClaim k g c idle start count) s)) = streams s"
    using False by (auto simp: Let_def case_prod_beta)
  have old: "\<exists>q\<in>set (pels s k g). pe_id q = pe_id p \<and> pe_count q \<le> pe_count p"
    if "p \<in> set (?early @ ?r)" for p
    using that autoclaim_old [of p] by fastforce
  have dist: "distinct (map pe_id (?early @ ?r))" if d: "distinct (map pe_id (pels s k g))"
  proof -
    have "pe_id p \<noteq> pe_id q" if "p \<in> set ?early" "q \<in> set ?r" for p q
      using that autoclaim_old [of q] by fastforce
    moreover have "distinct (map pe_id ?r)" using d by (intro autoclaim_distinct) (simp add: distinct_map_filter)
    ultimately show ?thesis using d by (auto simp: distinct_map_filter)
  qed
  have keep: "\<exists>q\<in>set (?early @ ?r). pe_id q = pe_id p"
    if "p \<in> set (pels s k g)" "readable s k (pe_id p)" for p
  proof (cases "sid (pe_id p) < sid start")
    case False
    have "?live (pe_id p)" using that(2) by (force simp: readable_def)
    then show ?thesis using autoclaim_keeps [of p ?late ?live] that(1) False by fastforce
  qed (use that in auto)
  show ?thesis unfolding swept_def p st using old dist keep by (auto simp del: set_append set_filter)
qed

lemma swept_pending: "swept s (snd (redis_exec (XPendingExt k g a b n) s))"
  by (auto split: option.splits)

lemma claimed_messages:
  assumes "redis_exec (XAutoClaim k g c idle start count) s = (RClaimed msgs nx, s')" and "stream_ok s"
  shows "set msgs \<subseteq> set (streams s k)" and "distinct (map fst msgs)" and "length msgs \<le> nat count"
proof -
  let ?live = "\<lambda>i. i \<in> fst ` set (streams s k)"
  let ?late = "filter (\<lambda>p. \<not> sid (pe_id p) < sid start) (pels s k g)"
  let ?a = "autoclaim (10 * nat count) (nat count) ?live c (clock_ms s) idle ?late"
  have m: "msgs = filter (\<lambda>m. fst m \<in> set (fst ?a)) (streams s k)"
    using assms(1) by (auto simp: Let_def case_prod_beta no_group_def split: option.splits if_splits)
  show "set msgs \<subseteq> set (streams s k)" by (auto simp: m)
  show d: "distinct (map fst msgs)" using assms(2) by (simp add: m stream_ok_def distinct_map_filter)
  have "length msgs = card (fst ` set msgs)" using d by (metis distinct_card length_map set_map)
  also have "\<dots> \<le> card (set (fst ?a))" by (intro card_mono) (auto simp: m)
  also have "\<dots> \<le> nat count" using autoclaim_length card_length order_trans by blast
  finally show "length msgs \<le> nat count" .
qed

text \<open>
  What the delivery counts of a batch mean for the pending entries before (\<open>s\<close>) and after
  (\<open>t\<close>) they were read.
\<close>

definition counts_known :: "string \<Rightarrow> string \<Rightarrow> delivered \<Rightarrow> rstore \<Rightarrow> rstore \<Rightarrow> bool" where
  "counts_known k g dl s t \<longleftrightarrow> (\<forall>i c. dl i = Some c \<longrightarrow>
     (\<exists>q\<in>set (pels s k g). pe_id q = i \<and> pe_count q \<le> c) \<and>
     (\<forall>p\<in>set (pels t k g). pe_id p = i \<longrightarrow> c \<le> pe_count p))"

lemma counts_known_None [simp]: "counts_known k g (\<lambda>_. None) s t"
  by (simp add: counts_known_def)

lemma counts_known_widen:
  assumes "swept s s1" and "counts_known k g dl s1 t1" and "swept t1 t"
  shows "counts_known k g dl s t"
proof -
  have "\<exists>q\<in>set (pels s k g). pe_id q = i \<and> pe_count q \<le> c" if "dl i = Some c" for i c
    using assms(1,2) that unfolding counts_known_def swept_def by (metis order_trans)
  moreover have "c \<le> pe_count p" if "dl i = Some c" "p \<in> set (pels t k g)" "pe_id p = i" for i c p
    using assms(2,3) that unfolding counts_known_def swept_def by (metis order_trans)
  ultimately show ?thesis by (simp add: counts_known_def)
qed

lemma counts_known_read:
  assumes "counts_known k g dl s s" and "stream_ok s" and "q \<in> set (pels s k g)"
  shows "counts_known k g (dl(pe_id q \<mapsto> pe_count q)) s s"
proof -
  have "distinct (map pe_id (pels s k g))" using assms(2) unfolding stream_ok_def by blast
  then have inj: "inj_on pe_id (set (pels s k g))" by (simp only: distinct_map)
  have "p = q" if "p \<in> set (pels s k g)" "pe_id p = pe_id q" for p
    by (rule inj_onD [OF inj that(2) that(1) assms(3)])
  then have "\<forall>p\<in>set (pels s k g). pe_id p = pe_id q \<longrightarrow> pe_count q \<le> pe_count p" by auto
  moreover have "\<exists>r\<in>set (pels s k g). pe_id r = pe_id q \<and> pe_count r \<le> pe_count q"
    using assms(3) by blast
  ultimately show ?thesis using assms(1) unfolding counts_known_def by simp
qed

lemma counts_known_add:
  assumes "counts_known k g dl s s" and "stream_ok s"
    and "\<forall>(i, n)\<in>set ps. \<exists>q\<in>set (pels s k g). i = pe_id q \<and> n = pe_count q"
  shows "counts_known k g (add_counts ps dl) s s"
  using assms
proof (induction ps dl rule: add_counts.induct)
  case (2 i n ps dl)
  then obtain q where "q \<in> set (pels s k g)" "i = pe_id q" "n = pe_count q" by auto
  then have "counts_known k g (dl(i \<mapsto> n)) s s" using counts_known_read [OF 2(2,3)] by blast
  moreover have "\<forall>(i, n)\<in>set ps. \<exists>q\<in>set (pels s k g). i = pe_id q \<and> n = pe_count q" using 2(4) by simp
  ultimately show ?case using "2.IH" 2(3) by (simp only: add_counts.simps)
qed simp

lemma pending_entries:
  assumes "redis_exec (XPendingExt k g a b n) s = (RPend ps, s')"
  shows "s' = s" and "\<forall>(i, c)\<in>set ps. \<exists>q\<in>set (pels s k g). i = pe_id q \<and> c = pe_count q"
  using assms by (auto simp: no_group_def split: option.splits dest!: in_set_takeD)

lemma parsed_id: "parseStreamMessage x = Inr m \<Longrightarrow> sm_MessageID m = fst x"
  by (auto simp: parseStreamMessage_def Let_def split: option.splits)

context redis_server
begin

lemma cmd_swept:
  assumes "\<And>n. swept (view w) (snd (redis_exec c (tick n (view w))))"
  shows "swept (view w) (view (snd (r_cmd R c w)))"
  using assms by (cases rule: cmd_cases [OF prod.collapse [symmetric, of "r_cmd R c w"]]) auto

lemma swept_after_tick:
  "(\<And>s. swept s (snd (redis_exec c s))) \<Longrightarrow> swept s (snd (redis_exec c (tick n s)))"
  using swept_tick swept_trans by blast

lemma ack_swept:
  assumes "\<not> readable (view w) (StreamKey j) i"
  shows "swept (view w) (view (snd (Ack R j [i] w)))"
proof -
  have "swept (view w) (snd (redis_exec (XAck (StreamKey j) (ConsumerGroup j) [i]) (tick n (view w))))" for n
    by (rule swept_trans [OF swept_tick swept_ack]) (use assms in \<open>simp add: readable_def\<close>)
  then show ?thesis using cmd_swept by (simp add: Ack_def case_prod_beta)
qed

lemma classify_parse_swept:
  assumes "distinct (map fst (streams (view w) (StreamKey j)))" and "set msgs \<subseteq> set (streams (view w) (StreamKey j))"
    and "classify_parse R j msgs w = (parsed, w')"
  shows "swept (view w) (view w') \<and> length parsed = length msgs \<and>
    (\<forall>m. Some m \<in> set parsed \<longrightarrow> sm_MessageID m \<in> fst ` set msgs)"
  using assms
proof (induction msgs arbitrary: w parsed)
  case (Cons x msgs)
  show ?case
  proof (cases "parseStreamMessage x")
    case (Inl e)
    have "\<not> readable (view w) (StreamKey j) (fst x)"
    proof
      assume "readable (view w) (StreamKey j) (fst x)"
      then obtain b m where b: "(fst x, b) \<in> set (streams (view w) (StreamKey j))"
        "parseStreamMessage (fst x, b) = Inr m" by (auto simp: readable_def)
      have "(fst x, b) = x"
        using Cons.prems(1,2) b(1) by (metis distinct_map fst_conv inj_onD list.set_intros(1) subsetD)
      then show False using b(2) Inl by simp
    qed
    let ?w1 = "snd (Ack R j [fst x] w)"
    have 1: "swept (view w) (view ?w1)" by (rule ack_swept) fact
    obtain ps where ps: "classify_parse R j msgs ?w1 = (ps, w')" "parsed = None # ps"
      using Cons.prems(3) Inl by (auto split: prod.splits)
    have "distinct (map fst (streams (view ?w1) (StreamKey j)))"
      "set msgs \<subseteq> set (streams (view ?w1) (StreamKey j))"
      using 1 Cons.prems by (auto simp: swept_def)
    from Cons.IH [OF this ps(1)] show ?thesis using 1 swept_trans ps(2) by auto
  next
    case (Inr m)
    then obtain ps where ps: "classify_parse R j msgs w = (ps, w')" "parsed = Some m # ps"
      using Cons.prems(3) by (auto split: prod.splits)
    from Cons.IH [OF Cons.prems(1) _ ps(1)] show ?thesis
      using Cons.prems(2) ps(2) parsed_id [OF Inr] by auto
  qed
qed simp

lemma pending_ext:
  assumes "r_cmd R (XPendingExt k g a b n) w = (r, w')"
  shows "swept (view w) (view w')"
    and "r = RPend ps \<Longrightarrow> \<forall>(i, c)\<in>set ps. \<exists>q\<in>set (pels (view w') k g). i = pe_id q \<and> c = pe_count q"
proof -
  show "swept (view w) (view w')"
    using cmd_swept [OF swept_after_tick [OF swept_pending]] assms by (metis snd_conv)
  assume r: "r = RPend ps"
  with assms obtain d where "(RPend ps, view w') = redis_exec (XPendingExt k g a b n) (tick d (view w))"
    by (elim cmd_applied) simp_all
  from pending_entries [OF this [symmetric]]
  show "\<forall>(i, c)\<in>set ps. \<exists>q\<in>set (pels (view w') k g). i = pe_id q \<and> c = pe_count q" by simp
qed

lemma count_stragglers_known:
  assumes "stream_ok (view w)" and "counts_known k g dl s (view w)" and "swept s (view w)"
    and "count_stragglers R k g is dl w = (dl', w')"
  shows "swept s (view w') \<and> counts_known k g dl' s (view w')"
  using assms
proof (induction "is" arbitrary: dl w)
  case (Cons i "is")
  show ?case
  proof (cases "dl i")
    case None
    obtain r w1 where c: "r_cmd R (XPendingExt k g i i 1) w = (r, w1)" by fastforce
    note 1 = pending_ext(1) [OF c]
    have ok: "stream_ok (view w1)" using swept_ok [OF 1] Cons.prems(1) by blast
    have s1: "swept s (view w1)" using swept_trans [OF Cons.prems(3) 1] .
    have k1: "counts_known k g dl s (view w1)"
      by (rule counts_known_widen [OF swept_refl Cons.prems(2) 1])
    show ?thesis
    proof (cases "\<exists>i' n ps. r = RPend ((i', n) # ps)")
      case True
      then obtain i' n ps where r: "r = RPend ((i', n) # ps)" by blast
      obtain q where q: "q \<in> set (pels (view w1) k g)" "i' = pe_id q" "n = pe_count q"
        using pending_ext(2) [OF c r] by auto
      have "counts_known k g [i' \<mapsto> n] (view w1) (view w1)"
        using counts_known_read [OF counts_known_None ok q(1)] q(2,3) by simp
      from counts_known_widen [OF s1 this swept_refl]
      have "counts_known k g (dl(i' \<mapsto> n)) s (view w1)" using k1 by (simp add: counts_known_def)
      moreover have "count_stragglers R k g is (dl(i' \<mapsto> n)) w1 = (dl', w')"
        using Cons.prems(4) None c r by simp
      ultimately show ?thesis using Cons.IH ok s1 by blast
    next
      case False
      then have "count_stragglers R k g is dl w1 = (dl', w')"
        using Cons.prems(4) None c by (auto split: reply.splits list.splits)
      then show ?thesis using Cons.IH ok s1 k1 by blast
    qed
  qed (use Cons in simp)
qed simp

lemma classify_batch_known:
  assumes "stream_ok (view w)" and "set msgs \<subseteq> set (streams (view w) (StreamKey j))"
    and "classifyBatch R j (StreamKey j) g msgs w = ((dl, parsed), w')"
  shows "swept (view w) (view w') \<and> counts_known (StreamKey j) g dl (view w) (view w') \<and>
    length parsed = length msgs"
proof -
  obtain parsed' w1 where c: "classify_parse R j msgs w = (parsed', w1)" by fastforce
  have "distinct (map fst (streams (view w) (StreamKey j)))" using assms(1) by (simp add: stream_ok_def)
  note 1 = classify_parse_swept [OF this assms(2) c]
  let ?ids = "parsed_ids parsed'"
  let ?c = "XPendingExt (StreamKey j) g (hd ?ids) (last ?ids) (int (length parsed') * 2)"
  obtain r w2 where r: "r_cmd R ?c w1 = (r, w2)" by fastforce
  note 2 = pending_ext [OF r]
  have 12: "swept (view w) (view w2)" using 1 2(1) swept_trans by blast
  consider (no_ids) "?ids = []" | (no_reply) "?ids \<noteq> []" "\<nexists>ps. r = RPend ps"
    | (reply) ps where "?ids \<noteq> []" "r = RPend ps" by blast
  then show ?thesis
  proof cases
    case no_ids
    with assms(3) c have "dl = (\<lambda>_. None)" "parsed = parsed'" "w' = w1"
      by (auto simp: classifyBatch_def Let_def)
    with 1 show ?thesis by simp
  next
    case no_reply
    with assms(3) c r have "dl = (\<lambda>_. None)" "parsed = parsed'" "w' = w2"
      by (auto simp: classifyBatch_def Let_def split: reply.splits)
    with 1 12 show ?thesis by simp
  next
    case (reply ps)
    have ok: "stream_ok (view w2)" using swept_ok [OF 12 assms(1)] .
    have "counts_known (StreamKey j) g (add_counts ps (\<lambda>_. None)) (view w2) (view w2)"
      by (rule counts_known_add [OF counts_known_None ok 2(2) [OF reply(2)]])
    from counts_known_widen [OF 12 this swept_refl]
    have k: "counts_known (StreamKey j) g (add_counts ps (\<lambda>_. None)) (view w) (view w2)" .
    have "count_stragglers R (StreamKey j) g ?ids (add_counts ps (\<lambda>_. None)) w2 = (dl, w') \<and> parsed = parsed'"
      using assms(3) c r reply by (simp add: classifyBatch_def Let_def case_prod_beta prod_eq_iff) auto
    then have st: "count_stragglers R (StreamKey j) g ?ids (add_counts ps (\<lambda>_. None)) w2 = (dl, w')"
      and pp: "parsed = parsed'" by auto
    from count_stragglers_known [OF ok k 12 st] 1 pp show ?thesis by simp
  qed
qed

end

text \<open>
  \<open>sorted_out s t acc\<close>: the messages given back as reclaimed were pending in \<open>s\<close> with fewer
  deliveries than the bound; the dead letters were pending in \<open>s\<close>, and those still pending in
  \<open>t\<close> have reached the bound.
\<close>

definition sorted_out ::
  "int \<Rightarrow> string \<Rightarrow> string \<Rightarrow> rstore \<Rightarrow> rstore \<Rightarrow> stream_message list \<times> stream_message list \<Rightarrow> bool" where
  "sorted_out mx k g s t acc \<longleftrightarrow>
     (\<forall>m\<in>set (fst acc). \<exists>q\<in>set (pels s k g). pe_id q = sm_MessageID m \<and> pe_count q < mx) \<and>
     (\<forall>m\<in>set (snd acc). (\<exists>q\<in>set (pels s k g). pe_id q = sm_MessageID m) \<and>
        (\<forall>p\<in>set (pels t k g). pe_id p = sm_MessageID m \<longrightarrow> mx \<le> pe_count p))"

lemma sorted_out_Nil [simp]: "sorted_out mx k g s t ([], [])"
  by (simp add: sorted_out_def)

lemma sorted_out_later:
  assumes "sorted_out mx k g s t acc" and "swept t u"
  shows "sorted_out mx k g s u acc"
proof -
  have "mx \<le> pe_count p"
    if m: "m \<in> set (snd acc)" "p \<in> set (pels u k g)" "pe_id p = sm_MessageID m" for m p
  proof -
    obtain q where "q \<in> set (pels t k g)" "pe_id q = pe_id p" "pe_count q \<le> pe_count p"
      using assms(2) m(2) unfolding swept_def by blast
    then show ?thesis using assms(1) m(1,3) unfolding sorted_out_def by fastforce
  qed
  then show ?thesis using assms(1) unfolding sorted_out_def by blast
qed

lemma sort_batch_sorted:
  assumes "counts_known k g dl s t" and "sorted_out mx k g s t acc"
  shows "sorted_out mx k g s t (sort_batch mx dl ps acc)"
  using assms
proof (induction mx dl ps acc rule: sort_batch.induct)
  case (3 mx dl m ps rec dead)
  show ?case
  proof (cases "dl (sm_MessageID m)")
    case (Some c)
    then have "\<exists>q\<in>set (pels s k g). pe_id q = sm_MessageID m \<and> pe_count q \<le> c"
      "\<forall>p\<in>set (pels t k g). pe_id p = sm_MessageID m \<longrightarrow> c \<le> pe_count p"
      using 3(4) unfolding counts_known_def by auto
    then have "mx \<le> c \<Longrightarrow> sorted_out mx k g s t (rec, dead @ [m])"
      "\<not> mx \<le> c \<Longrightarrow> sorted_out mx k g s t (rec @ [m], dead)"
      using 3(5) unfolding sorted_out_def by fastforce+
    then show ?thesis using 3 Some by auto
  qed (use 3 in auto)
qed auto

lemma sort_batch_length:
  "length (fst (sort_batch mx dl ps acc)) + length (snd (sort_batch mx dl ps acc)) \<le>
     length (fst acc) + length (snd acc) + length ps"
proof (induction mx dl ps acc rule: sort_batch.induct)
  case (3 mx dl m ps rec dead)
  then show ?case by (cases "dl (sm_MessageID m)") fastforce+
qed auto

lemma per_call_pos: "0 < per_call opts" and sweep_cap_pos: "0 < sweep_cap opts"
  by (simp_all add: per_call_def sweep_cap_def)

context redis_server
begin

lemma reclaim_loop_sound:
  assumes "stream_ok (view w)" and "swept s (view w)"
    and "sorted_out (co_MaxDeliveries opts) (StreamKey j) (ConsumerGroup j) s (view w) acc"
    and "int (length (fst acc) + length (snd acc)) \<le> seen" and "seen \<le> sweep_cap opts"
    and "reclaim_loop left R opts j cursor seen acc w = (res, w')"
  shows "swept s (view w') \<and> (\<forall>acc'. res = Inr acc' \<longrightarrow>
      sorted_out (co_MaxDeliveries opts) (StreamKey j) (ConsumerGroup j) s (view w') acc' \<and>
      int (length (fst acc') + length (snd acc')) \<le> sweep_cap opts)"
  using assms
proof (induction left arbitrary: cursor seen acc w)
  case 0
  then show ?case by auto
next
  case (Suc left)
  let ?sk = "StreamKey j" and ?g = "ConsumerGroup j" and ?rem = "sweep_cap opts - seen"
  let ?c = "XAutoClaim ?sk ?g (co_ConsumerName opts) (unix_milli (co_MinIdleTime opts)) cursor
      (min ?rem (per_call opts))"
  obtain r w1 where c: "r_cmd R ?c w = (r, w1)" by fastforce
  have s1: "swept s (view w1)"
    using cmd_swept [OF swept_after_tick [OF swept_autoclaim], of w] c swept_trans [OF Suc.prems(2)]
    by (metis snd_conv)
  consider (full) "?rem \<le> 0" | (claimed) msgs nx where "\<not> ?rem \<le> 0" "r = RClaimed msgs nx"
    | (other) "\<not> ?rem \<le> 0" "\<nexists>msgs nx. r = RClaimed msgs nx" by blast
  then show ?case
  proof cases
    case full
    with Suc.prems show ?thesis by (auto simp: Let_def)
  next
    case other
    then have "w' = w1" "res = Inr ([], []) \<or> (\<exists>e. res = Inl e)"
      using Suc.prems(6) c by (auto simp: Let_def split: reply.splits if_splits)
    with s1 sweep_cap_pos [of opts] show ?thesis by auto
  next
    case (claimed msgs nx)
    obtain d where d: "(RClaimed msgs nx, view w1) = redis_exec ?c (tick d (view w))"
      using c claimed(2) by (elim cmd_applied) simp_all
    have okt: "stream_ok (tick d (view w))" using swept_ok [OF swept_tick Suc.prems(1)] .
    note cm = claimed_messages [OF d [symmetric] okt]
    have t1: "swept (view w) (view w1)"
      using cmd_swept [OF swept_after_tick [OF swept_autoclaim], of w] c by (metis snd_conv)
    have ok1: "stream_ok (view w1)" using swept_ok [OF t1 Suc.prems(1)] .
    have sub: "set msgs \<subseteq> set (streams (view w1) ?sk)" using cm(1) t1 by (simp add: swept_def)
    have len: "int (length msgs) \<le> ?rem" using cm(3) claimed(1) per_call_pos [of opts] by simp
    obtain dl parsed w2 where b: "classifyBatch R j ?sk ?g msgs w1 = ((dl, parsed), w2)"
      by (metis prod.exhaust)
    note k = classify_batch_known [OF ok1 sub b]
    let ?acc = "sort_batch (co_MaxDeliveries opts) dl parsed acc"
    let ?seen = "seen + int (length msgs)"
    have s2: "swept s (view w2)" using k swept_trans [OF s1] by blast
    have ok2: "stream_ok (view w2)" using k swept_ok ok1 by blast
    have "counts_known ?sk ?g dl s (view w2)"
      by (rule counts_known_widen [OF s1 _ swept_refl]) (use k in simp)
    moreover have "sorted_out (co_MaxDeliveries opts) ?sk ?g s (view w2) acc"
      using sorted_out_later [OF Suc.prems(3)] t1 k swept_trans by blast
    ultimately have so: "sorted_out (co_MaxDeliveries opts) ?sk ?g s (view w2) ?acc"
      by (rule sort_batch_sorted)
    have ln: "int (length (fst ?acc) + length (snd ?acc)) \<le> ?seen"
      using sort_batch_length [of "co_MaxDeliveries opts" dl parsed acc] Suc.prems(4) k by linarith
    have "(res = Inr ?acc \<and> w' = w2) \<or> reclaim_loop left R opts j nx ?seen ?acc w2 = (res, w')"
      using Suc.prems(6) c claimed b by (auto simp: Let_def split: if_splits)
    then show ?thesis
    proof
      assume "res = Inr ?acc \<and> w' = w2"
      then show ?thesis using s2 so ln len by auto
    next
      assume l: "reclaim_loop left R opts j nx ?seen ?acc w2 = (res, w')"
      show ?thesis using Suc.IH [OF ok2 s2 so ln _ l] len by simp
    qed
  qed
qed

lemma reclaim_stale_sound:
  assumes "stream_ok (view w)" and "ReclaimStale R opts j w = (res, w')"
  shows "swept (view w) (view w')"
    and "res = Inr (rec, dead) \<Longrightarrow>
      sorted_out (co_MaxDeliveries opts) (StreamKey j) (ConsumerGroup j) (view w) (view w') (rec, dead) \<and>
      int (length rec + length dead) \<le> sweep_cap opts"
  using reclaim_loop_sound [OF assms(1) swept_refl, of opts j "([], [])" 0 "iteration_cap opts" "''0-0''" res w']
    assms(2) sweep_cap_pos [of opts] by (auto simp: ReclaimStale_def)

end

lemma read_classify:
  "read_messages R j xs w =
     (List.map_filter id (fst (classify_parse R j xs w)), snd (classify_parse R j xs w))"
  by (induction xs arbitrary: w)
    (auto simp: case_prod_beta List.map_filter_def split: sum.splits)

lemma classify_parse_src:
  "classify_parse R j xs w = (ps, w') \<Longrightarrow> Some m \<in> set ps \<Longrightarrow>
     \<exists>x\<in>set xs. parseStreamMessage x = Inr m"
proof (induction xs arbitrary: w ps)
  case (Cons x xs)
  show ?case
  proof (cases "parseStreamMessage x")
    case (Inl e)
    with Cons show ?thesis by (auto split: prod.splits)
  next
    case (Inr m')
    obtain qs where "classify_parse R j xs w = (qs, w')" "ps = Some m' # qs"
      using Cons.prems(1) Inr by (auto split: prod.splits)
    with Cons Inr show ?thesis by auto
  qed
qed simp

lemma read_group_effect:
  assumes "redis_exec (XReadGroup k g c n) s = (RMsgs xs, s')"
  shows "streams s' = streams s" and "set xs \<subseteq> set (streams s k)"
    and "\<forall>x\<in>set xs. \<exists>p\<in>set (pels s' k g). pe_id p = fst x"
proof -
  obtain l where l: "map_of (groups s k) g = Some l"
    using assms by (auto simp: no_group_def split: option.splits)
  have xs: "xs = (if 0 < n then take (nat n) (drop l (streams s k)) else drop l (streams s k))"
    and st: "streams s' = streams s"
    and p: "pels s' k g = pels s k g @ map (\<lambda>(i, _). \<lparr>pe_id = i, pe_consumer = c,
        pe_at = clock_ms s, pe_count = 1\<rparr>) xs"
    using assms l by (auto simp: Let_def split: if_splits)
  show "streams s' = streams s" by (rule st)
  show "set xs \<subseteq> set (streams s k)" unfolding xs by (auto dest!: in_set_takeD in_set_dropD)
  show "\<forall>x\<in>set xs. \<exists>p\<in>set (pels s' k g). pe_id p = fst x" unfolding p by force
qed

section \<open>Properties\<close>

text \<open>C31: What the dispatcher publishes the consumer reads: the message of an entry whose task,
  job, host and path are not empty, whose numbers fit 64 bits and whose priority is not
  negative parses to the same fields, the priority to four decimals.\<close>

theorem publish_read_roundtrip:
  assumes "se_TaskID e \<noteq> []" and "se_JobID e \<noteq> []" and "se_Host e \<noteq> []" and "se_Path e \<noteq> []"
    and "in_int64 (se_PageID e)" and "in_int64 (se_RetryCount e)" and "0 \<le> se_Priority e"
  shows "parseStreamMessage (i, publish_values e) = Inr
    \<lparr>sm_MessageID = i, sm_TaskID = se_TaskID e, sm_JobID = se_JobID e, sm_PageID = se_PageID e,
     sm_Host = se_Host e, sm_Path = se_Path e, sm_Priority = round4 (se_Priority e),
     sm_RetryCount = se_RetryCount e, sm_SourceType = se_SourceType e, sm_SourceURL = se_SourceURL e\<rparr>"
  using assms by (simp add: parseStreamMessage_def publish_values_def msg_get_def Let_def)

theorem publish_read_roundtrip_witness:
  "\<exists>m. parseStreamMessage (''5-0'', publish_values due_entry) = Inr m \<and> sm_TaskID m = ''t'' \<and> sm_PageID m = 7"
  using publish_read_roundtrip [of due_entry "''5-0''"] by (simp add: due_entry_def in_int64_def)

text \<open>C23: Delivery is at least once: every message \<open>Read\<close> hands out is in the pending entries of
  the group when it returns, whatever calls fail, so that a worker that dies before
  acknowledging it leaves it to the next sweep.\<close>

theorem read_messages_pending:
  assumes "redis_server R view" and "distinct (map fst (streams (view w) (StreamKey j)))"
    and "Read R opts j w = (Inr msgs, w')" and "m \<in> set msgs"
  shows "\<exists>p\<in>set (pels (view w') (StreamKey j) (ConsumerGroup j)). pe_id p = sm_MessageID m"
proof -
  let ?sk = "StreamKey j" and ?g = "ConsumerGroup j"
  let ?c = "XReadGroup ?sk ?g (co_ConsumerName opts) (co_Count opts)"
  obtain r w1 where c: "r_cmd R ?c w = (r, w1)" by fastforce
  then obtain xs where xs: "r = RMsgs xs" "read_messages R j xs w1 = (msgs, w')"
    using assms(3,4) by (auto simp: Read_def split: reply.splits if_splits prod.splits)
  obtain d where d: "(RMsgs xs, view w1) = redis_exec ?c (tick d (view w))"
    using redis_server.cmd_applied [OF assms(1), of ?c w "RMsgs xs" w1] c xs(1) by auto
  have st: "streams (view w1) = streams (view w)" and sub: "set xs \<subseteq> set (streams (view w) ?sk)"
    and pend: "\<forall>x\<in>set xs. \<exists>p\<in>set (pels (view w1) ?sk ?g). pe_id p = fst x"
    using read_group_effect [OF d [symmetric]] by simp_all
  let ?ps = "fst (classify_parse R j xs w1)"
  have m: "Some m \<in> set ?ps" and w': "classify_parse R j xs w1 = (?ps, w')"
    using xs(2) assms(4) by (auto simp: read_classify List.map_filter_def)
  have sw: "swept (view w1) (view w')" and id: "sm_MessageID m \<in> fst ` set xs"
    using redis_server.classify_parse_swept [OF assms(1), of w1 j xs ?ps w'] assms(2) sub st m w' by auto
  obtain x where x: "x \<in> set xs" "parseStreamMessage x = Inr m"
    using classify_parse_src [OF w' m] by blast
  have "x \<in> set (streams (view w) ?sk)" using sub x(1) by (rule subsetD)
  then have "readable (view w1) ?sk (fst x)"
    unfolding readable_def st using x(2) by (metis prod.collapse)
  moreover obtain p where "p \<in> set (pels (view w1) ?sk ?g)" "pe_id p = fst x" using pend x(1) by blast
  ultimately show ?thesis using sw parsed_id [OF x(2)] unfolding swept_def by metis
qed

text \<open>A stream with one message the group has not delivered and one pending for a dead worker.\<close>

definition consumer_example :: rstore where
  "consumer_example = empty_store\<lparr>clock_ms := 500000,
     streams := (\<lambda>_. [])(StreamKey ''j'' :=
       [(''1-0'', publish_values due_entry), (''2-0'', publish_values due_entry)]),
     groups := (\<lambda>_. [])(StreamKey ''j'' := [(ConsumerGroup ''j'', 1)]),
     pels := (\<lambda>_ _. [])(StreamKey ''j'' := (\<lambda>_. [])(ConsumerGroup ''j'' :=
       [\<lparr>pe_id = ''1-0'', pe_consumer = ''dead'', pe_at = 0, pe_count = 1\<rparr>]))\<rparr>"

lemma consumer_example_ok: "stream_ok consumer_example"
  by (simp add: stream_ok_def consumer_example_def)

lemma due_message: "parseStreamMessage (i, publish_values due_entry) = Inr
    \<lparr>sm_MessageID = i, sm_TaskID = ''t'', sm_JobID = ''j'', sm_PageID = 7, sm_Host = ''h'',
     sm_Path = ''/p'', sm_Priority = round4 1, sm_RetryCount = 0, sm_SourceType = ''link'', sm_SourceURL = ''u''\<rparr>"
  by (simp add: parseStreamMessage_def publish_values_def msg_get_def Let_def due_entry_def in_int64_def)

theorem read_messages_pending_witness:
  "\<exists>msgs w'. Read mem_redis (DefaultConsumerOpts (\<lambda>_ d. d) ''w1'') ''j'' consumer_example = (Inr msgs, w') \<and>
     (\<exists>p\<in>set (pels w' (StreamKey ''j'') (ConsumerGroup ''j'')). pe_id p = ''2-0'')"
proof -
  let ?m = "\<lparr>sm_MessageID = ''2-0'', sm_TaskID = ''t'', sm_JobID = ''j'', sm_PageID = 7, sm_Host = ''h'',
     sm_Path = ''/p'', sm_Priority = round4 1, sm_RetryCount = 0, sm_SourceType = ''link'', sm_SourceURL = ''u''\<rparr>"
  obtain w' where r: "Read mem_redis (DefaultConsumerOpts (\<lambda>_ d. d) ''w1'') ''j'' consumer_example = (Inr [?m], w')"
    by (simp add: Read_def DefaultConsumerOpts_def consumer_example_def due_message Let_def)
  have "distinct (map fst (streams consumer_example (StreamKey ''j'')))"
    by (simp add: consumer_example_def)
  from read_messages_pending [OF mem.redis_server_axioms this r, of ?m] r show ?thesis by auto
qed

text \<open>A sweep sorts stale messages by how often they were delivered, and lets none go.  What it
  returns as reclaimed was pending before the sweep with fewer deliveries than
  \<open>MaxDeliveries\<close>; what it returns as a dead letter was pending before, and if it still is, it
  has been delivered at least that often; together they are at most the cap of a sweep; and
  every pending message that can be parsed is still pending afterwards, whatever calls fail.\<close>

theorem reclaim_sorts_by_deliveries:
  assumes "redis_server R view" and "stream_ok (view w)" and "ReclaimStale R opts j w = (Inr (rec, dead), w')"
  shows "(\<forall>m\<in>set rec. \<exists>q\<in>set (pels (view w) (StreamKey j) (ConsumerGroup j)).
            pe_id q = sm_MessageID m \<and> pe_count q < co_MaxDeliveries opts) \<and>
    (\<forall>m\<in>set dead. (\<exists>q\<in>set (pels (view w) (StreamKey j) (ConsumerGroup j)). pe_id q = sm_MessageID m) \<and>
        (\<forall>p\<in>set (pels (view w') (StreamKey j) (ConsumerGroup j)).
           pe_id p = sm_MessageID m \<longrightarrow> co_MaxDeliveries opts \<le> pe_count p)) \<and>
    int (length rec + length dead) \<le> sweep_cap opts \<and>
    (\<forall>p\<in>set (pels (view w) (StreamKey j) (ConsumerGroup j)). readable (view w) (StreamKey j) (pe_id p) \<longrightarrow>
        (\<exists>q\<in>set (pels (view w') (StreamKey j) (ConsumerGroup j)). pe_id q = pe_id p))"
  using redis_server.reclaim_stale_sound [OF assms(1,2,3)] unfolding sorted_out_def swept_def by simp

theorem reclaim_sorts_by_deliveries_witness:
  "\<exists>res w'. ReclaimStale mem_redis (DefaultConsumerOpts (\<lambda>_ d. d) ''w1'') ''j'' consumer_example = (Inr res, w') \<and>
     (\<exists>q\<in>set (pels w' (StreamKey ''j'') (ConsumerGroup ''j'')). pe_id q = ''1-0'')"
proof -
  let ?o = "DefaultConsumerOpts (\<lambda>_ d. d) ''w1''"
  have cap: "iteration_cap ?o = Suc 29"
    by (simp add: iteration_cap_def sweep_cap_def per_call_def DefaultConsumerOpts_def)
  have opts: "sweep_cap ?o = 1000" "per_call ?o = 100" "co_ConsumerName ?o = ''w1''"
    "unix_milli (co_MinIdleTime ?o) = 180000" "co_MaxDeliveries ?o = 3"
    by (simp_all add: DefaultConsumerOpts_def sweep_cap_def per_call_def unix_milli_def millisecond_def second_def)
  have s: "sid ''0-0'' = (0, 0)" "sid ''1-0'' = (1, 0)" by code_simp+
  have "\<exists>rec dead w'. ReclaimStale mem_redis ?o ''j'' consumer_example = (Inr (rec, dead), w')"
    unfolding ReclaimStale_def cap reclaim_loop.simps(2)
    by (simp add: opts Let_def case_prod_beta consumer_example_def s
        classifyBatch_def due_message parsed_ids_def List.map_filter_def)
  then obtain rec dead w' where r: "ReclaimStale mem_redis ?o ''j'' consumer_example = (Inr (rec, dead), w')"
    by blast
  have "readable consumer_example (StreamKey ''j'') ''1-0''"
    by (auto simp: readable_def consumer_example_def due_message)
  then show ?thesis
    using reclaim_sorts_by_deliveries [OF mem.redis_server_axioms consumer_example_ok r] r
    by (auto simp: consumer_example_def)
qed

text \<open>When the delivery counts cannot be read, nothing is reclaimed and nothing is dead-lettered:
  a message without a count is skipped.  (The log line of that branch says the batch is
  treated as reclaimable.)\<close>

theorem reclaim_needs_counts:
  assumes "\<forall>k g a b n w. is_err (fst (r_cmd R (XPendingExt k g a b n) w))"
    and "ReclaimStale R opts j w = (Inr (rec, dead), w')"
  shows "rec = [] \<and> dead = []"
proof -
  have err: "\<nexists>ps. fst (r_cmd R (XPendingExt k g a b n) w) = RPend ps" for k g a b n w
  proof
    assume "\<exists>ps. fst (r_cmd R (XPendingExt k g a b n) w) = RPend ps"
    moreover have "is_err (fst (r_cmd R (XPendingExt k g a b n) w))" using assms(1) by blast
    ultimately show False by auto
  qed
  have cb: "fst (fst (classifyBatch R j sk g msgs w)) = (\<lambda>_. None)" for sk g msgs w
  proof -
    obtain ps w1 where c: "classify_parse R j msgs w = (ps, w1)" by fastforce
    show ?thesis using err [of sk g "hd (parsed_ids ps)" "last (parsed_ids ps)" "int (length ps) * 2" w1]
      by (auto simp: classifyBatch_def c Let_def split: reply.splits prod.splits)
  qed
  have sb: "sort_batch mx (\<lambda>_. None) ps acc = acc" for mx ps acc
    by (induction mx "\<lambda>_::string. None :: int option" ps acc rule: sort_batch.induct) auto
  have "reclaim_loop n R opts j cursor seen ([], []) w = (Inr acc, w') \<Longrightarrow> acc = ([], [])"
    for n cursor seen w acc
  proof (induction n arbitrary: cursor seen w)
    case (Suc n)
    show ?case using Suc cb
      by (auto simp: Let_def case_prod_beta sb split: reply.splits if_splits prod.splits)
  qed auto
  then show ?thesis using assms(2) by (fastforce simp: ReclaimStale_def)
qed

definition no_counts_redis :: "rstore redis" where
  "no_counts_redis = mem_redis\<lparr>r_cmd := (\<lambda>c s. case c of
     XPendingExt _ _ _ _ _ \<Rightarrow> (RErr ''i/o timeout'', s) | _ \<Rightarrow> redis_exec c s)\<rparr>"

theorem reclaim_needs_counts_witness:
  "\<exists>w'. ReclaimStale no_counts_redis (DefaultConsumerOpts (\<lambda>_ d. d) ''w1'') ''j'' consumer_example =
     (Inr ([], []), w')"
proof -
  let ?o = "DefaultConsumerOpts (\<lambda>_ d. d) ''w1''"
  have cap: "iteration_cap ?o = Suc 29"
    by (simp add: iteration_cap_def sweep_cap_def per_call_def DefaultConsumerOpts_def)
  have opts: "sweep_cap ?o = 1000" "per_call ?o = 100" "co_ConsumerName ?o = ''w1''"
    "unix_milli (co_MinIdleTime ?o) = 180000" "co_MaxDeliveries ?o = 3"
    by (simp_all add: DefaultConsumerOpts_def sweep_cap_def per_call_def unix_milli_def millisecond_def second_def)
  have s: "sid ''0-0'' = (0, 0)" "sid ''1-0'' = (1, 0)" by code_simp+
  have "\<exists>rec dead w'. ReclaimStale no_counts_redis ?o ''j'' consumer_example = (Inr (rec, dead), w')"
    unfolding ReclaimStale_def cap reclaim_loop.simps(2)
    by (simp add: opts Let_def case_prod_beta consumer_example_def s
        classifyBatch_def due_message parsed_ids_def List.map_filter_def no_counts_redis_def)
  then obtain rec dead w' where r: "ReclaimStale no_counts_redis ?o ''j'' consumer_example = (Inr (rec, dead), w')"
    by blast
  have "\<forall>k g a b n w. is_err (fst (r_cmd no_counts_redis (XPendingExt k g a b n) w))"
    by (simp add: no_counts_redis_def)
  from reclaim_needs_counts [OF this r] r show ?thesis by simp
qed

end
