(* ===== verification/Broker_Outbox.thy ===== *)
theory Broker_Outbox
  imports Broker_Scheduler
begin

text \<open>
  \<open>internal/broker/outbox.go\<close>: the sweeper that moves due rows of the table \<open>task_outbox\<close> into
  the sorted sets.  The database is the pair of tables; a tick is one transaction, and
  \<open>db_plan\<close> says which of its statements fail, whether a failed commit was applied, and which
  rows another sweeper has locked.  The lemmas show that a row is never lost, how often it
  is retried and how far its next run is put off.
\<close>

section \<open>Tables and options\<close>

record outbox_row =
  ob_id :: int
  ob_taskID :: string
  ob_jobID :: string
  ob_pageID :: int
  ob_host :: string
  ob_path :: string
  ob_priority :: rat
  ob_retryCount :: int
  ob_sourceType :: string
  ob_sourceURL :: string
  ob_runAt :: time
  ob_attempts :: int
  ob_taskType :: string
  ob_lighthouseRunID :: "int option"

text \<open>\<open>task_outbox\<close>, and \<open>task_outbox_dead\<close> with the last error of every row.\<close>

record outbox_db =
  od_rows :: "outbox_row list"
  od_dead :: "(outbox_row \<times> string) list"

record outbox_opts =
  oo_Interval :: time
  oo_BatchSize :: int
  oo_BaseBackoff :: time
  oo_MaxBackoff :: time
  oo_MaxAttempts :: int
  oo_StatementTimeout :: time

definition DefaultOutboxMaxAttempts :: int where
  "DefaultOutboxMaxAttempts = 10"

definition DefaultOutboxSweeperOpts :: outbox_opts where
  "DefaultOutboxSweeperOpts =
     \<lparr>oo_Interval = 500 * millisecond, oo_BatchSize = 200, oo_BaseBackoff = 2 * second,
      oo_MaxBackoff = 300 * second, oo_MaxAttempts = DefaultOutboxMaxAttempts,
      oo_StatementTimeout = 15 * second\<rparr>"

definition NewOutboxSweeper :: "outbox_opts \<Rightarrow> outbox_opts" where
  "NewOutboxSweeper opts =
     opts\<lparr>oo_Interval := (if oo_Interval opts \<le> 0 then 500 * millisecond else oo_Interval opts),
       oo_BatchSize := (if oo_BatchSize opts \<le> 0 then 200 else oo_BatchSize opts),
       oo_BaseBackoff := (if oo_BaseBackoff opts \<le> 0 then 2 * second else oo_BaseBackoff opts),
       oo_MaxBackoff := (if oo_MaxBackoff opts \<le> 0 then 300 * second else oo_MaxBackoff opts),
       oo_MaxAttempts := (if oo_MaxAttempts opts \<le> 0 then DefaultOutboxMaxAttempts else oo_MaxAttempts opts)\<rparr>"

datatype db_step = BeginTx | SetTimeout | SelectDue | DeleteDone | BumpAttempts | InsertDead
  | DeleteDead | CommitTx

datatype tick_error = StepFailed db_step string | BatchFailed sched_error

record db_plan =
  dp_fail :: "db_step \<Rightarrow> string option"
  dp_commit_applied :: bool
  dp_locked :: "int \<Rightarrow> bool"

section \<open>Parts of a tick\<close>

definition interval_ms :: "time \<Rightarrow> int" where
  "interval_ms d = (if d < 0 then 0 else d) div millisecond"

definition intervalString :: "time \<Rightarrow> string" where
  "intervalString d = itoa (interval_ms d) @ '' milliseconds''"

text \<open>\<open>SELECT ... WHERE run_at <= NOW() ORDER BY run_at LIMIT n FOR UPDATE SKIP LOCKED\<close>.\<close>

definition due_rows :: "db_plan \<Rightarrow> time \<Rightarrow> int \<Rightarrow> outbox_row list \<Rightarrow> outbox_row list" where
  "due_rows P now n rows =
     take (nat n) (sort_key ob_runAt (filter (\<lambda>r. ob_runAt r \<le> now \<and> \<not> dp_locked P (ob_id r)) rows))"

definition outbox_entry :: "outbox_row \<Rightarrow> schedule_entry" where
  "outbox_entry r =
     \<lparr>se_TaskID = ob_taskID r, se_JobID = ob_jobID r, se_PageID = ob_pageID r, se_Host = ob_host r,
      se_Path = ob_path r, se_Priority = ob_priority r, se_RetryCount = ob_retryCount r,
      se_SourceType = ob_sourceType r, se_SourceURL = ob_sourceURL r, se_RunAt = ob_runAt r,
      se_TaskType = (if ob_taskType r = [] then ''crawl'' else ob_taskType r),
      se_LighthouseRunID = (case ob_lighthouseRunID r of Some i \<Rightarrow> i | None \<Rightarrow> 0)\<rparr>"

text \<open>\<open>lastErrMsg\<close>, what the dead row keeps of the error.\<close>

definition last_err_msg :: "sched_error \<Rightarrow> string" where
  "last_err_msg x = (case x of
       BatchError failed tot e \<Rightarrow> e
     | PipelineFailed n e \<Rightarrow> ''broker: schedule batch ('' @ itoa (int n) @ '' entries): '' @ e
     | _ \<Rightarrow> [])"

text \<open>The rows that were scheduled, and those to retry, by the outcome of \<open>ScheduleBatch\<close>.\<close>

fun split_failed :: "nat list \<Rightarrow> nat \<Rightarrow> outbox_row list \<Rightarrow> int list \<times> outbox_row list" where
  "split_failed failed i [] = ([], [])"
| "split_failed failed i (r # rs) =
     (case split_failed failed (Suc i) rs of (done, retry) \<Rightarrow>
        if i \<in> set failed then (done, r # retry) else (ob_id r # done, retry))"

definition partition_outcome ::
  "sched_error option \<Rightarrow> outbox_row list \<Rightarrow> int list \<times> outbox_row list" where
  "partition_outcome err claimed =
     (case err of
        None \<Rightarrow> (map ob_id claimed, [])
      | Some (BatchError failed tot e) \<Rightarrow> split_failed failed 0 claimed
      | Some _ \<Rightarrow> ([], claimed))"

text \<open>Of the rows to retry, those kept and those that reach \<open>MaxAttempts\<close> with this tick.\<close>

definition split_dead :: "outbox_opts \<Rightarrow> outbox_row list \<Rightarrow> outbox_row list \<times> outbox_row list" where
  "split_dead opts retry =
     (if retry \<noteq> [] \<and> 0 < oo_MaxAttempts opts
      then (filter (\<lambda>r. \<not> oo_MaxAttempts opts \<le> ob_attempts r + 1) retry,
            filter (\<lambda>r. oo_MaxAttempts opts \<le> ob_attempts r + 1) retry)
      else (retry, []))"

definition delete_ids :: "int list \<Rightarrow> outbox_db \<Rightarrow> outbox_db" where
  "delete_ids ids db = db\<lparr>od_rows := filter (\<lambda>r. ob_id r \<notin> set ids) (od_rows db)\<rparr>"

definition bump_row :: "outbox_opts \<Rightarrow> time \<Rightarrow> outbox_row \<Rightarrow> outbox_row" where
  "bump_row opts now r =
     r\<lparr>ob_attempts := ob_attempts r + 1,
       ob_runAt := now + min (interval_ms (oo_BaseBackoff opts) * millisecond * 2 ^ nat (ob_attempts r))
                             (interval_ms (oo_MaxBackoff opts) * millisecond)\<rparr>"

definition bumpAttempts :: "outbox_opts \<Rightarrow> time \<Rightarrow> int list \<Rightarrow> outbox_db \<Rightarrow> outbox_db" where
  "bumpAttempts opts now ids db =
     db\<lparr>od_rows := map (\<lambda>r. if ob_id r \<in> set ids then bump_row opts now r else r) (od_rows db)\<rparr>"

definition moveToDeadLetter ::
  "db_plan \<Rightarrow> outbox_row list \<Rightarrow> string \<Rightarrow> outbox_db \<Rightarrow> tick_error + outbox_db" where
  "moveToDeadLetter P rows lastErr db =
     (if rows = [] then Inr db
      else let ids = map ob_id rows in
        case dp_fail P InsertDead of Some e \<Rightarrow> Inl (StepFailed InsertDead e) | None \<Rightarrow>
        case dp_fail P DeleteDead of Some e \<Rightarrow> Inl (StepFailed DeleteDead e) | None \<Rightarrow>
        Inr (delete_ids ids (db\<lparr>od_dead := od_dead db @
          map (\<lambda>r. (r\<lparr>ob_attempts := ob_attempts r + 1\<rparr>, lastErr))
            (filter (\<lambda>r. ob_id r \<in> set ids) (od_rows db))\<rparr>)))"

section \<open>A tick\<close>

text \<open>The statements after \<open>ScheduleBatch\<close>, on the tables as the transaction sees them.\<close>

definition settle ::
  "db_plan \<Rightarrow> outbox_opts \<Rightarrow> time \<Rightarrow> sched_error option \<Rightarrow> outbox_row list \<Rightarrow> outbox_db \<Rightarrow>
     tick_error + outbox_db" where
  "settle P opts now err claimed db =
     (case partition_outcome err claimed of (succeeded, retry0) \<Rightarrow>
      case split_dead opts retry0 of (retry, deadLetter) \<Rightarrow>
      case (if succeeded = [] then None else dp_fail P DeleteDone) of
        Some e \<Rightarrow> Inl (StepFailed DeleteDone e) | None \<Rightarrow>
      (let db1 = (if succeeded = [] then db else delete_ids succeeded db);
           retryIDs = map ob_id retry in
       case (if retryIDs = [] then None else dp_fail P BumpAttempts) of
         Some e \<Rightarrow> Inl (StepFailed BumpAttempts e) | None \<Rightarrow>
       (let db2 = (if retryIDs = [] then db1 else bumpAttempts opts now retryIDs db1) in
        if deadLetter = [] then Inr db2
        else moveToDeadLetter P deadLetter (case err of Some x \<Rightarrow> last_err_msg x | None \<Rightarrow> []) db2)))"

definition commit_tx :: "db_plan \<Rightarrow> outbox_db \<Rightarrow> outbox_db \<Rightarrow> tick_error option \<times> outbox_db" where
  "commit_tx P old new =
     (case dp_fail P CommitTx of
        None \<Rightarrow> (None, new)
      | Some e \<Rightarrow> (Some (StepFailed CommitTx e), if dp_commit_applied P then new else old))"

definition Tick ::
  "'w redis \<Rightarrow> db_plan \<Rightarrow> outbox_opts \<Rightarrow> time \<Rightarrow> outbox_db \<times> 'w \<Rightarrow>
     tick_error option \<times> outbox_db \<times> 'w" where
  "Tick R P opts now dw =
     (case dw of (db, w) \<Rightarrow>
      case dp_fail P BeginTx of Some e \<Rightarrow> (Some (StepFailed BeginTx e), db, w) | None \<Rightarrow>
      case (if 0 < oo_StatementTimeout opts then dp_fail P SetTimeout else None) of
        Some e \<Rightarrow> (Some (StepFailed SetTimeout e), db, w)
      | None \<Rightarrow>
      case dp_fail P SelectDue of Some e \<Rightarrow> (Some (StepFailed SelectDue e), db, w) | None \<Rightarrow>
      (let claimed = due_rows P now (oo_BatchSize opts) (od_rows db) in
       if claimed = [] then (case commit_tx P db db of (err, db') \<Rightarrow> (err, db', w))
       else case ScheduleBatch R (map outbox_entry claimed) w of (schedErr, w1) \<Rightarrow>
         (case settle P opts now schedErr claimed db of
            Inl e \<Rightarrow> (Some e, db, w1)
          | Inr db1 \<Rightarrow>
              (case commit_tx P db db1 of
                 (Some e, db') \<Rightarrow> (Some e, db', w1)
               | (None, db') \<Rightarrow> (map_option BatchFailed schedErr, db', w1)))))"

section \<open>What a tick leaves\<close>

definition outbox_ok :: "outbox_opts \<Rightarrow> outbox_db \<Rightarrow> bool" where
  "outbox_ok opts db \<longleftrightarrow> distinct (map ob_id (od_rows db)) \<and>
     (\<forall>r\<in>set (od_rows db). 0 \<le> ob_attempts r \<and> ob_attempts r < oo_MaxAttempts opts)"

text \<open>What may become of a row.\<close>

definition row_fate :: "outbox_opts \<Rightarrow> time \<Rightarrow> rstore \<Rightarrow> outbox_db \<Rightarrow> outbox_row \<Rightarrow> bool" where
  "row_fate opts now s db r \<longleftrightarrow>
     r \<in> set (od_rows db) \<or> bump_row opts now r \<in> set (od_rows db) \<or>
     (\<exists>msg. (r\<lparr>ob_attempts := ob_attempts r + 1\<rparr>, msg) \<in> set (od_dead db)) \<or>
     Member (outbox_entry r) \<in> zs_members (zsets s (ScheduleKey (ob_jobID r)))"

lemma claimed_rows:
  assumes "r \<in> set (due_rows P now n rows)"
  shows "r \<in> set rows" and "ob_runAt r \<le> now" and "\<not> dp_locked P (ob_id r)"
  using assms by (auto simp: due_rows_def dest!: in_set_takeD)

lemma claimed_length: "0 \<le> n \<Longrightarrow> length (due_rows P now n rows) \<le> nat n"
  by (simp add: due_rows_def)

text \<open>After a batch without an error every entry is in its sorted set.\<close>

lemma zadd_all_members:
  assumes "e \<in> set es"
  shows "Member e \<in> zs_members (zsets (snd (redis_exec_all (map zadd_entry es) s)) (ScheduleKey (se_JobID e)))"
proof -
  have one: "m \<in> zs_members (zsets s k) \<Longrightarrow>
      m \<in> zs_members (zsets (snd (redis_exec (zadd_entry a) s)) k)" for m k s a
    by (auto simp: zadd_entry_def)
  have keep: "m \<in> zs_members (zsets s k) \<Longrightarrow>
      m \<in> zs_members (zsets (snd (redis_exec_all (map zadd_entry es) s)) k)" for m k s es
    by (induction es arbitrary: s) (simp_all add: one Let_def case_prod_beta)
  show ?thesis using assms
  proof (induction es arbitrary: s)
    case (Cons a es)
    show ?case
    proof (cases "a = e")
      case True
      then show ?thesis by (simp add: Let_def case_prod_beta) (rule keep, simp add: zadd_entry_def)
    next
      case False
      with Cons show ?thesis by (simp add: Let_def case_prod_beta)
    qed
  qed simp
qed

lemma schedule_batch_result:
  assumes "\<And>cs w. snd (fst (r_pipe R cs w)) = first_err (fst (fst (r_pipe R cs w)))"
    and "es \<noteq> []"
  shows "ScheduleBatch R es w = (map_option (PipelineFailed (length es)) (snd (fst (r_pipe R (map zadd_entry es) w))),
    snd (r_pipe R (map zadd_entry es) w))"
proof -
  obtain rs err w1 where p: "r_pipe R (map zadd_entry es) w = ((rs, err), w1)" by (metis prod.exhaust)
  have e: "err = first_err rs" using assms(1) [of "map zadd_entry es" w] p by simp
  show ?thesis
  proof (cases err)
    case None
    then have "failed_indices 0 rs = []" using e by (simp add: failed_indices_Nil)
    then show ?thesis using assms(2) p None by (simp add: ScheduleBatch_def)
  qed (use assms(2) p in \<open>simp add: ScheduleBatch_def\<close>)
qed

context redis_server
begin

lemma schedule_batch_applied:
  assumes "ScheduleBatch R es w = (None, w')" and "e \<in> set es"
  shows "Member e \<in> zs_members (zsets (view w') (ScheduleKey (se_JobID e)))"
proof -
  have ne: "es \<noteq> []" using assms(2) by auto
  let ?p = "r_pipe R (map zadd_entry es) w"
  have r: "snd (fst ?p) = None" "w' = snd ?p"
    using assms(1) schedule_batch_result [OF pipe_err ne, of w] by (auto simp: prod_eq_iff)
  obtain d n where "view (snd ?p) = snd (redis_exec_all (take n (map zadd_entry es)) (tick d (view w)))"
    and "length (map zadd_entry es) \<le> n"
    using pipe_law [of "map zadd_entry es" w] r(1) by blast
  then have "view w' = snd (redis_exec_all (map zadd_entry es) (tick d (view w)))" using r(2) by simp
  then show ?thesis using zadd_all_members [OF assms(2)] by simp
qed

end

lemma inj_ids:
  assumes "outbox_ok opts db" and "r \<in> set (od_rows db)" and "q \<in> set (od_rows db)" and "ob_id r = ob_id q"
  shows "r = q"
proof -
  have "inj_on ob_id (set (od_rows db))" using assms(1) by (simp add: outbox_ok_def distinct_map)
  then show ?thesis by (rule inj_onD [OF _ assms(4,2,3)])
qed

lemma settle_done:
  assumes "settle P opts now None claimed db = Inr db1"
  shows "db1 = delete_ids (map ob_id claimed) db"
  using assms
  by (auto simp: settle_def partition_outcome_def split_dead_def delete_ids_def Let_def split: option.splits if_splits)

text \<open>After a failed batch the claimed rows are bumped, or moved at the last attempt.\<close>

definition last_attempt :: "outbox_opts \<Rightarrow> outbox_row \<Rightarrow> bool" where
  "last_attempt opts r \<longleftrightarrow> 0 < oo_MaxAttempts opts \<and> oo_MaxAttempts opts \<le> ob_attempts r + 1"

definition failed_db :: "outbox_opts \<Rightarrow> time \<Rightarrow> string \<Rightarrow> outbox_row list \<Rightarrow> outbox_db \<Rightarrow> outbox_db" where
  "failed_db opts now msg claimed db =
     (let lost = (\<lambda>r. ob_id r \<in> ob_id ` {c \<in> set claimed. last_attempt opts c});
          kept = (\<lambda>r. ob_id r \<in> ob_id ` {c \<in> set claimed. \<not> last_attempt opts c});
          bump = (\<lambda>r. if kept r then bump_row opts now r else r)
      in db\<lparr>od_rows := filter (\<lambda>r. \<not> lost r) (map bump (od_rows db)),
           od_dead := od_dead db @ map (\<lambda>r. (r\<lparr>ob_attempts := ob_attempts r + 1\<rparr>, msg))
             (filter lost (map bump (od_rows db)))\<rparr>)"

lemma bump_row_id [simp]: "ob_id (bump_row opts now r) = ob_id r"
  by (simp add: bump_row_def)

lemma split_dead_sets:
  "set (fst (split_dead opts rs)) = {c \<in> set rs. \<not> last_attempt opts c}"
  "set (snd (split_dead opts rs)) = {c \<in> set rs. last_attempt opts c}"
  by (auto simp: split_dead_def last_attempt_def)

lemma settle_failed:
  assumes "settle P opts now (Some (PipelineFailed n e)) claimed db = Inr db1"
  shows "db1 = failed_db opts now (last_err_msg (PipelineFailed n e)) claimed db"
proof -
  obtain retry dead where d: "split_dead opts claimed = (retry, dead)" by fastforce
  have sets: "set retry = {c \<in> set claimed. \<not> last_attempt opts c}" "set dead = {c \<in> set claimed. last_attempt opts c}"
    using split_dead_sets [of opts claimed] d by simp_all
  have empty: "dead = [] \<Longrightarrow> {c \<in> set claimed. last_attempt opts c} = {}"
    "retry = [] \<Longrightarrow> {c \<in> set claimed. \<not> last_attempt opts c} = {}" using sets by auto
  have "bumpAttempts opts now [] db = db" by (simp add: bumpAttempts_def)
  then have eq: "db1 = (let db2 = bumpAttempts opts now (map ob_id retry) db in
      if dead = [] then db2 else delete_ids (map ob_id dead) (db2\<lparr>od_dead := od_dead db2 @
          map (\<lambda>r. (r\<lparr>ob_attempts := ob_attempts r + 1\<rparr>, last_err_msg (PipelineFailed n e)))
            (filter (\<lambda>r. ob_id r \<in> set (map ob_id dead)) (od_rows db2))\<rparr>))"
    using assms d by (auto simp: settle_def partition_outcome_def moveToDeadLetter_def Let_def split: option.splits if_splits)
  show ?thesis
  proof (cases "dead = []")
    case True
    then have e: "{c \<in> set claimed. last_attempt opts c} = {}" by (rule empty(1))
    show ?thesis unfolding failed_db_def Let_def e using eq True by (simp add: bumpAttempts_def sets)
  next
    case False
    show ?thesis unfolding eq failed_db_def Let_def using False
      by (simp add: bumpAttempts_def delete_ids_def sets)
  qed
qed

lemma failed_db_fate:
  assumes "outbox_ok opts db" and "set claimed \<subseteq> set (od_rows db)" and "r \<in> set (od_rows db)"
  shows "row_fate opts now s (failed_db opts now msg claimed db) r"
proof -
  have c: "ob_id r \<in> ob_id ` {c \<in> set claimed. Q c} \<longleftrightarrow> r \<in> set claimed \<and> Q r" for Q
    using inj_ids [OF assms(1)] assms(2,3) by (auto simp: image_iff)
  have mem: "x \<in> set (map f (od_rows db)) \<Longrightarrow> True" for x :: outbox_row and f by simp
  consider "r \<notin> set claimed" | "r \<in> set claimed" "last_attempt opts r" | "r \<in> set claimed" "\<not> last_attempt opts r" by blast
  then show ?thesis
  proof cases
    case 1
    then have "r \<in> set (od_rows (failed_db opts now msg claimed db))"
      using assms(3) c by (force simp: failed_db_def Let_def)
    then show ?thesis by (simp add: row_fate_def)
  next
    case 2
    then have "(r\<lparr>ob_attempts := ob_attempts r + 1\<rparr>, msg) \<in> set (od_dead (failed_db opts now msg claimed db))"
      using assms(3) c by (force simp: failed_db_def Let_def)
    then show ?thesis unfolding row_fate_def by blast
  next
    case 3
    then have "bump_row opts now r \<in> set (od_rows (failed_db opts now msg claimed db))"
      using assms(3) c by (force simp: failed_db_def Let_def)
    then show ?thesis by (simp add: row_fate_def)
  qed
qed

lemma failed_db_rows:
  assumes "outbox_ok opts db" and "set claimed \<subseteq> set (od_rows db)"
    and "q \<in> set (od_rows (failed_db opts now msg claimed db))"
  shows "q \<in> set (od_rows db) \<or> (\<exists>r\<in>set claimed. q = bump_row opts now r \<and> \<not> last_attempt opts r)"
proof -
  obtain r where r: "r \<in> set (od_rows db)"
    and q: "q = (if ob_id r \<in> ob_id ` {c \<in> set claimed. \<not> last_attempt opts c} then bump_row opts now r else r)"
    using assms(3) by (auto simp: failed_db_def Let_def)
  show ?thesis
  proof (cases "ob_id r \<in> ob_id ` {c \<in> set claimed. \<not> last_attempt opts c}")
    case True
    then obtain c where "c \<in> set claimed" "\<not> last_attempt opts c" "ob_id r = ob_id c" by auto
    moreover then have "r = c" using inj_ids [OF assms(1) r] assms(2) by blast
    ultimately show ?thesis using q True by auto
  qed (use q r in simp)
qed

lemma failed_db_dead:
  assumes "outbox_ok opts db" and "set claimed \<subseteq> set (od_rows db)"
    and "(q, m) \<in> set (od_dead (failed_db opts now msg claimed db))"
  shows "(q, m) \<in> set (od_dead db) \<or> (\<exists>r\<in>set claimed. q = r\<lparr>ob_attempts := ob_attempts r + 1\<rparr> \<and> last_attempt opts r)"
proof (cases "(q, m) \<in> set (od_dead db)")
  case False
  let ?kept = "\<lambda>r. ob_id r \<in> ob_id ` {c \<in> set claimed. \<not> last_attempt opts c}"
  let ?lost = "\<lambda>r. ob_id r \<in> ob_id ` {c \<in> set claimed. last_attempt opts c}"
  let ?bump = "\<lambda>r. if ?kept r then bump_row opts now r else r"
  have id: "ob_id (?bump r) = ob_id r" for r by simp
  have "(q, m) \<in> (\<lambda>x. (x\<lparr>ob_attempts := ob_attempts x + 1\<rparr>, msg)) ` {x \<in> ?bump ` set (od_rows db). ?lost x}"
    using assms(3) False unfolding failed_db_def Let_def by simp
  then obtain r where r: "r \<in> set (od_rows db)" "?lost (?bump r)"
    and q: "q = (?bump r)\<lparr>ob_attempts := ob_attempts (?bump r) + 1\<rparr>" by blast
  note r(2) [unfolded id]
  then obtain c where c: "c \<in> set claimed" "last_attempt opts c" "ob_id r = ob_id c" by auto
  have rc: "r = c" using inj_ids [OF assms(1) r(1)] assms(2) c by blast
  have "ob_id r \<notin> ob_id ` {c \<in> set claimed. \<not> last_attempt opts c}"
    using inj_ids [OF assms(1) r(1)] assms(2) c rc by fastforce
  then have "q = c\<lparr>ob_attempts := ob_attempts c + 1\<rparr>" using q rc by simp
  with c(1,2) show ?thesis by blast
qed simp

lemma failed_db_ids:
  "distinct (map ob_id (od_rows db)) \<Longrightarrow> distinct (map ob_id (od_rows (failed_db opts now msg claimed db)))"
proof -
  have "map ob_id (map (\<lambda>r. if P r then bump_row opts now r else r) rows) = map ob_id rows" for P rows
    by (induction rows) auto
  then show "distinct (map ob_id (od_rows db)) \<Longrightarrow> ?thesis"
    by (simp add: failed_db_def Let_def distinct_map_filter del: map_map)
qed

lemma commit_cases: "commit_tx P old new = (err, db') \<Longrightarrow> db' = old \<or> db' = new"
  by (auto simp: commit_tx_def split: option.splits if_splits)

context redis_server
begin

lemma tick_cases:
  assumes "Tick R P opts now (db, w) = (err, db', w')"
  defines "claimed \<equiv> due_rows P now (oo_BatchSize opts) (od_rows db)"
  obtains (same) "db' = db"
  | (sent) "ScheduleBatch R (map outbox_entry claimed) w = (None, w')"
      and "db' = delete_ids (map ob_id claimed) db"
  | (failed) n e where "ScheduleBatch R (map outbox_entry claimed) w = (Some (PipelineFailed n e), w')"
      and "db' = failed_db opts now (last_err_msg (PipelineFailed n e)) claimed db"
proof (cases "db' = db")
  case False
  have ne: "claimed \<noteq> []"
  proof
    assume "claimed = []"
    then have "db' = db"
      using assms(1) commit_cases [of P db db]
      by (auto simp: Tick_def Let_def claimed_def split: option.splits if_splits prod.splits)
    with False show False by simp
  qed
  obtain se w1 where b: "ScheduleBatch R (map outbox_entry claimed) w = (se, w1)" by fastforce
  obtain db1 where st: "settle P opts now se claimed db = Inr db1" and w: "w' = w1" and d: "db' = db1"
  proof (cases "settle P opts now se claimed db")
    case (Inl e)
    then have "db' = db" using assms(1) ne b
      by (auto simp: Tick_def Let_def claimed_def [symmetric] split: option.splits)
    with False show ?thesis by simp
  next
    case (Inr db1)
    obtain ce cdb where c: "commit_tx P db db1 = (ce, cdb)" by fastforce
    have "db' = cdb \<or> db' = db" and "w' = w1 \<or> db' = db"
      using assms(1) ne b Inr c
      by (auto simp: Tick_def Let_def claimed_def [symmetric] split: option.splits)
    then show ?thesis using that [OF Inr] commit_cases [OF c] False by auto
  qed
  show ?thesis
  proof (cases se)
    case None
    then show ?thesis using sent b w d settle_done st by blast
  next
    case (Some x)
    have "\<exists>n e. x = PipelineFailed n e"
      using schedule_batch_result [OF pipe_err, of "map outbox_entry claimed" w] ne b Some
      by (cases "snd (fst (r_pipe R (map zadd_entry (map outbox_entry claimed)) w))") simp_all
    then obtain n e where "x = PipelineFailed n e" by blast
    then show ?thesis using failed [of n e] b w d settle_failed st Some by blast
  qed
qed (rule same)

end

section \<open>Properties\<close>

text \<open>C12: The sweeper loses no row.  Whatever statements of the transaction and calls to Redis fail,
  and also when a failed commit was applied after all, every row of \<open>task_outbox\<close> is after a
  tick still there, or there with one attempt more and a later run time, or in
  \<open>task_outbox_dead\<close>, or its entry is in the sorted set of its job.\<close>

theorem outbox_loses_no_row:
  assumes "redis_server R view" and "outbox_ok opts db"
    and "Tick R P opts now (db, w) = (err, db', w')" and "r \<in> set (od_rows db)"
  shows "r \<in> set (od_rows db') \<or> bump_row opts now r \<in> set (od_rows db') \<or>
     (\<exists>msg. (r\<lparr>ob_attempts := ob_attempts r + 1\<rparr>, msg) \<in> set (od_dead db')) \<or>
     Member (outbox_entry r) \<in> zs_members (zsets (view w') (ScheduleKey (ob_jobID r)))"
proof -
  let ?claimed = "due_rows P now (oo_BatchSize opts) (od_rows db)"
  have sub: "set ?claimed \<subseteq> set (od_rows db)" using claimed_rows(1) by blast
  have "row_fate opts now (view w') db' r"
  proof (cases rule: redis_server.tick_cases [OF assms(1,3)])
    case 1
    with assms(4) show ?thesis by (simp add: row_fate_def)
  next
    case 2
    show ?thesis
    proof (cases "r \<in> set ?claimed")
      case True
      then have "outbox_entry r \<in> set (map outbox_entry ?claimed)" by simp
      from redis_server.schedule_batch_applied [OF assms(1) 2(1) this] show ?thesis
        by (simp add: row_fate_def outbox_entry_def)
    next
      case False
      then have "ob_id r \<notin> ob_id ` set ?claimed"
        using inj_ids [OF assms(2,4)] sub by blast
      then show ?thesis using 2(2) assms(4) by (simp add: row_fate_def delete_ids_def)
    qed
  next
    case (3 n e)
    then show ?thesis using failed_db_fate [OF assms(2) sub assms(4)] by simp
  qed
  then show ?thesis by (simp add: row_fate_def)
qed

text \<open>Retries are bounded.  With a positive \<open>MaxAttempts\<close> a tick keeps the ids of
  \<open>task_outbox\<close> distinct and the attempts of every row below \<open>MaxAttempts\<close>; a row that changed
  was due and has one attempt more, and its next run is after now by at most
  \<open>MaxBackoff\<close>; a row added to \<open>task_outbox_dead\<close> had used \<open>MaxAttempts\<close> attempts.\<close>

theorem outbox_retries_bounded:
  assumes "redis_server R view" and "outbox_ok opts db" and "0 < oo_MaxAttempts opts"
    and "millisecond \<le> oo_BaseBackoff opts" and "millisecond \<le> oo_MaxBackoff opts"
    and "Tick R P opts now (db, w) = (err, db', w')"
  shows "outbox_ok opts db' \<and>
    (\<forall>q\<in>set (od_rows db'). q \<in> set (od_rows db) \<or>
       (\<exists>r\<in>set (od_rows db). ob_runAt r \<le> now \<and> ob_id q = ob_id r \<and> ob_attempts q = ob_attempts r + 1 \<and>
          now < ob_runAt q \<and> ob_runAt q \<le> now + oo_MaxBackoff opts)) \<and>
    (\<forall>(q, msg)\<in>set (od_dead db'). (q, msg) \<in> set (od_dead db) \<or> ob_attempts q = oo_MaxAttempts opts)"
proof -
  let ?claimed = "due_rows P now (oo_BatchSize opts) (od_rows db)"
  have sub: "set ?claimed \<subseteq> set (od_rows db)" using claimed_rows(1) by blast
  have att: "0 \<le> ob_attempts r \<and> ob_attempts r < oo_MaxAttempts opts" if "r \<in> set (od_rows db)" for r
    using assms(2) that by (simp add: outbox_ok_def)
  have ms: "0 < interval_ms d * millisecond \<and> interval_ms d * millisecond \<le> d" if "millisecond \<le> d" for d
    using that unfolding interval_ms_def millisecond_def by (simp add: pos_imp_zdiv_pos_iff)
  have bump: "now < ob_runAt (bump_row opts now r)" "ob_runAt (bump_row opts now r) \<le> now + oo_MaxBackoff opts" for r
    using ms [OF assms(4)] ms [OF assms(5)] by (auto simp: bump_row_def min_def)
  show ?thesis
  proof (cases rule: redis_server.tick_cases [OF assms(1,6)])
    case 1
    with assms(2) show ?thesis by auto
  next
    case 2
    with assms(2) show ?thesis by (auto simp: delete_ids_def outbox_ok_def distinct_map_filter)
  next
    case (3 n e)
    let ?db = "failed_db opts now (last_err_msg (PipelineFailed n e)) ?claimed db"
    note rows = failed_db_rows [OF assms(2) sub] and dead = failed_db_dead [OF assms(2) sub]
    have "0 \<le> ob_attempts q \<and> ob_attempts q < oo_MaxAttempts opts" if "q \<in> set (od_rows ?db)" for q
      using rows [OF that] att sub assms(3) by (fastforce simp: bump_row_def last_attempt_def)
    then have "outbox_ok opts ?db"
      using failed_db_ids assms(2) by (simp add: outbox_ok_def)
    moreover have "q \<in> set (od_rows db) \<or> (\<exists>r\<in>set (od_rows db). ob_runAt r \<le> now \<and> ob_id q = ob_id r \<and>
        ob_attempts q = ob_attempts r + 1 \<and> now < ob_runAt q \<and> ob_runAt q \<le> now + oo_MaxBackoff opts)"
      if qin: "q \<in> set (od_rows ?db)" for q
    proof (cases "q \<in> set (od_rows db)")
      case False
      then obtain r where r: "r \<in> set ?claimed" "q = bump_row opts now r" using rows [OF qin] by blast
      then have "r \<in> set (od_rows db)" "ob_runAt r \<le> now" using claimed_rows by blast+
      moreover have "ob_attempts q = ob_attempts r + 1" using r(2) by (simp add: bump_row_def)
      ultimately show ?thesis using bump [of r] r(2) by (intro disjI2 bexI [of _ r]) simp_all
    qed simp
    moreover have "(q, m) \<in> set (od_dead db) \<or> ob_attempts q = oo_MaxAttempts opts"
      if "(q, m) \<in> set (od_dead ?db)" for q m
      using dead [OF that] att sub by (fastforce simp: last_attempt_def)
    ultimately show ?thesis unfolding 3(2) by blast
  qed
qed

text \<open>\<open>ScheduleBatch\<close> never reports a partial failure.  As \<open>Exec\<close> of the client returns the error
  of the first command that failed, a batch in which some commands failed is reported as
  failed as a whole, and the split of the sweeper into rows that were scheduled and rows to
  retry is never taken.\<close>

theorem schedule_batch_never_partial:
  assumes "redis_server R view"
  shows "fst (ScheduleBatch R es w) \<noteq> Some (BatchError failed n e)"
  using schedule_batch_result [OF redis_server.pipe_err [OF assms], of es w] by (cases "es = []") (auto simp: ScheduleBatch_def)

text \<open>A due row at its first attempt, and a client whose pipeline fails after one command.\<close>

definition outbox_example :: outbox_row where
  "outbox_example = \<lparr>ob_id = 1, ob_taskID = ''t'', ob_jobID = ''j'', ob_pageID = 7, ob_host = ''h'',
     ob_path = ''/p'', ob_priority = 1, ob_retryCount = 0, ob_sourceType = ''link'', ob_sourceURL = ''u'',
     ob_runAt = 0, ob_attempts = 0, ob_taskType = ''crawl'', ob_lighthouseRunID = None\<rparr>"

definition outbox_example_db :: outbox_db where
  "outbox_example_db = \<lparr>od_rows = [outbox_example, outbox_example\<lparr>ob_id := 2, ob_attempts := 9\<rparr>], od_dead = []\<rparr>"

definition no_failures :: db_plan where
  "no_failures = \<lparr>dp_fail = (\<lambda>_. None), dp_commit_applied = True, dp_locked = (\<lambda>_. False)\<rparr>"

lemma outbox_example_ok: "outbox_ok DefaultOutboxSweeperOpts outbox_example_db"
  by (simp add: outbox_ok_def outbox_example_db_def outbox_example_def DefaultOutboxSweeperOpts_def
      DefaultOutboxMaxAttempts_def)

theorem outbox_loses_no_row_witness:
  "\<exists>err db' w'. Tick sim_redis no_failures DefaultOutboxSweeperOpts 5000000
      (outbox_example_db, \<lparr>sim_store = empty_store, sim_plan = [(0, 2)]\<rparr>) = (err, db', w') \<and>
    (outbox_example \<in> set (od_rows db') \<or>
     bump_row DefaultOutboxSweeperOpts 5000000 outbox_example \<in> set (od_rows db') \<or>
     (\<exists>msg. (outbox_example\<lparr>ob_attempts := ob_attempts outbox_example + 1\<rparr>, msg) \<in> set (od_dead db')) \<or>
     Member (outbox_entry outbox_example) \<in> zs_members (zsets (sim_store w') (ScheduleKey (ob_jobID outbox_example))))"
proof -
  let ?w = "\<lparr>sim_store = empty_store, sim_plan = [(0, 2)]\<rparr>"
  obtain err db' w' where t: "Tick sim_redis no_failures DefaultOutboxSweeperOpts 5000000 (outbox_example_db, ?w) = (err, db', w')"
    by (rule prod_cases3)
  have "outbox_example \<in> set (od_rows outbox_example_db)" by (simp add: outbox_example_db_def)
  from outbox_loses_no_row [OF sim.redis_server_axioms outbox_example_ok t this] t show ?thesis by blast
qed

theorem outbox_retries_bounded_witness:
  "\<exists>err db' w'. Tick sim_redis no_failures DefaultOutboxSweeperOpts 5000000
      (outbox_example_db, \<lparr>sim_store = empty_store, sim_plan = [(0, 2)]\<rparr>) = (err, db', w') \<and>
    outbox_ok DefaultOutboxSweeperOpts db'"
proof -
  let ?w = "\<lparr>sim_store = empty_store, sim_plan = [(0, 2)]\<rparr>"
  obtain err db' w' where t: "Tick sim_redis no_failures DefaultOutboxSweeperOpts 5000000 (outbox_example_db, ?w) = (err, db', w')"
    by (rule prod_cases3)
  have "0 < oo_MaxAttempts DefaultOutboxSweeperOpts" "millisecond \<le> oo_BaseBackoff DefaultOutboxSweeperOpts"
    "millisecond \<le> oo_MaxBackoff DefaultOutboxSweeperOpts"
    by (simp_all add: DefaultOutboxSweeperOpts_def DefaultOutboxMaxAttempts_def millisecond_def second_def)
  from outbox_retries_bounded [OF sim.redis_server_axioms outbox_example_ok this t] t show ?thesis by blast
qed

theorem schedule_batch_never_partial_witness:
  "fst (ScheduleBatch sim_redis [outbox_entry outbox_example]
     \<lparr>sim_store = empty_store, sim_plan = [(0, 2)]\<rparr>) \<noteq> Some (BatchError [0] 1 ''i/o timeout'')"
  by (rule schedule_batch_never_partial [OF sim.redis_server_axioms])

end
