(* ===== verification/Broker_Redis.thy ===== *)
theory Broker_Redis
  imports Broker_Counters
begin

text \<open>
  \<open>internal/broker/redis.go\<close> and \<open>internal/broker/reclaim.go\<close>: the configuration from the
  environment, and the clean-up of the keys of finished jobs.  \<open>SCAN\<close> is an operation of
  its own: a loop over its cursor ends when the server says so, hence the definitions that
  scan are partial, and the locale \<open>redis_scan\<close> says what a full iteration is relied on for.
\<close>

section \<open>Configuration\<close>

definition envInt :: "(string \<Rightarrow> string) \<Rightarrow> string \<Rightarrow> int \<Rightarrow> int" where
  "envInt env key def =
     (let v = env key in
      if v = [] then def else case atoi v of None \<Rightarrow> def | Some n \<Rightarrow> n)"

text \<open>\<open>strconv.ParseBool\<close>.\<close>

definition parse_bool :: "string \<Rightarrow> bool option" where
  "parse_bool v =
     (if v \<in> {''1'', ''t'', ''T'', ''TRUE'', ''true'', ''True''} then Some True
      else if v \<in> {''0'', ''f'', ''F'', ''FALSE'', ''false'', ''False''} then Some False else None)"

definition envBool :: "(string \<Rightarrow> string) \<Rightarrow> string \<Rightarrow> bool \<Rightarrow> bool" where
  "envBool env key def =
     (let v = env key in
      if v = [] then def else case parse_bool v of None \<Rightarrow> def | Some b \<Rightarrow> b)"

record config =
  cf_URL :: string
  cf_PoolSize :: int
  cf_TLSEnabled :: bool
  cf_ReadTimeout :: time
  cf_WriteTimeout :: time
  cf_MaxRetries :: int

definition ConfigFromEnv :: "(string \<Rightarrow> string) \<Rightarrow> config" where
  "ConfigFromEnv env =
     (let poolSize = envInt env ''REDIS_POOL_SIZE'' 200; url = env ''REDIS_URL'';
          tlsDefault = has_prefix url ''rediss://'';
          tlsEnabled = envBool env ''REDIS_TLS_ENABLED'' tlsDefault
      in \<lparr>cf_URL = url, cf_PoolSize = poolSize, cf_TLSEnabled = tlsEnabled,
          cf_ReadTimeout = 3 * second, cf_WriteTimeout = 3 * second, cf_MaxRetries = 3\<rparr>)"

section \<open>Scanning\<close>

text \<open>\<open>Scan\<close> from a cursor: a page of keys and the next cursor, zero at the end.\<close>

type_synonym 'w scan_op = "nat \<Rightarrow> string \<Rightarrow> 'w \<Rightarrow> (string + string list \<times> nat) \<times> 'w"

partial_function (option) scan_from ::
  "'w scan_op \<Rightarrow> string \<Rightarrow> nat \<Rightarrow> string list \<Rightarrow> 'w \<Rightarrow> ((string + string list) \<times> 'w) option" where
  "scan_from scan pat cursor keys w =
     (case scan cursor pat w of
        (Inl e, w1) \<Rightarrow> Some (Inl e, w1)
      | (Inr (page, nx), w1) \<Rightarrow>
          if nx = 0 then Some (Inr (keys @ page), w1) else scan_from scan pat nx (keys @ page) w1)"

definition scanAll :: "'w scan_op \<Rightarrow> string \<Rightarrow> 'w \<Rightarrow> ((string + string list) \<times> 'w) option" where
  "scanAll scan pat w = scan_from scan pat 0 [] w"

section \<open>Clean-up of a job\<close>

definition isMissingGroup :: "string \<Rightarrow> bool" where
  "isMissingGroup msg \<longleftrightarrow> str_contains msg ''NOGROUP'' \<or> str_contains msg ''no such key'' \<or>
     str_contains msg ''requires the key to exist''"

definition flight_pattern :: string where
  "flight_pattern = keyPrefix @ ''dom:flight:*''"

definition cleanupInflightForJob ::
  "'w redis \<Rightarrow> 'w scan_op \<Rightarrow> string \<Rightarrow> 'w \<Rightarrow> (string option \<times> 'w) option" where
  "cleanupInflightForJob R scan jobID w =
     (case scanAll scan flight_pattern w of
        None \<Rightarrow> None
      | Some (Inl e, w1) \<Rightarrow> Some (Some e, w1)
      | Some (Inr keys, w1) \<Rightarrow>
          if keys = [] then Some (None, w1)
          else (case r_pipe R (map (\<lambda>key. HDel key [jobID]) keys) w1 of
                  ((_, err), w2) \<Rightarrow> Some (err, w2)))"

definition RemoveJobKeys ::
  "'w redis \<Rightarrow> 'w scan_op \<Rightarrow> string \<Rightarrow> 'w \<Rightarrow> (string option \<times> 'w) option" where
  "RemoveJobKeys R scan jobID w =
     (if jobID = [] then Some (Some ''broker: RemoveJobKeys requires a jobID'', w)
      else
        (let sk = StreamKey jobID; lh = LighthouseStreamKey jobID;
             w1 = snd (r_cmd R (XGroupDestroy sk (ConsumerGroup jobID)) w);
             w2 = snd (r_cmd R (XGroupDestroy lh (LighthouseConsumerGroup jobID)) w1)
         in case r_pipe R [Del [ScheduleKey jobID, sk, lh], HDel RunningCountersKey [jobID]] w2 of
              ((_, Some e), w3) \<Rightarrow> Some (Some e, w3)
            | ((_, None), w3) \<Rightarrow>
                (case cleanupInflightForJob R scan jobID w3 of
                   None \<Rightarrow> None
                 | Some (_, w4) \<Rightarrow> Some (None, w4))))"

section \<open>Orphans\<close>

definition orphan_fields :: "string list \<Rightarrow> string list \<Rightarrow> string list" where
  "orphan_fields active fs = filter (\<lambda>jobID. jobID \<notin> set active) fs"

fun sweep_keys ::
  "'w redis \<Rightarrow> string list \<Rightarrow> string list \<Rightarrow> int \<Rightarrow> 'w \<Rightarrow> int \<times> 'w" where
  "sweep_keys R active [] removed w = (removed, w)"
| "sweep_keys R active (key # keys) removed w =
     (case r_cmd R (HKeys key) w of
        (RStrs fs, w1) \<Rightarrow>
          (let orphans = orphan_fields active fs in
           if orphans = [] then sweep_keys R active keys removed w1
           else case r_cmd R (HDel key orphans) w1 of
             (r, w2) \<Rightarrow>
               if is_err r then sweep_keys R active keys removed w2
               else sweep_keys R active keys (removed + int (length orphans)) w2)
      | (_, w1) \<Rightarrow> sweep_keys R active keys removed w1)"

definition SweepOrphanInflight ::
  "'w redis \<Rightarrow> 'w scan_op \<Rightarrow> string list \<Rightarrow> 'w \<Rightarrow> ((string + int) \<times> 'w) option" where
  "SweepOrphanInflight R scan active w =
     (case scanAll scan flight_pattern w of
        None \<Rightarrow> None
      | Some (Inl e, w1) \<Rightarrow> Some (Inl e, w1)
      | Some (Inr keys, w1) \<Rightarrow>
          (case sweep_keys R active keys 0 w1 of (n, w2) \<Rightarrow> Some (Inr n, w2)))"

section \<open>Clearing\<close>

text \<open>
  \<open>DEL\<close> in batches of 500: full batches while scanning, the rest at the end.  Result: the
  number deleted, the error if any.
\<close>

partial_function (option) delete_full ::
  "'w redis \<Rightarrow> nat \<Rightarrow> string list \<Rightarrow> int \<Rightarrow> 'w \<Rightarrow> ((string option \<times> string list \<times> int) \<times> 'w) option" where
  "delete_full R batch keys deleted w =
     (if length keys < batch then Some ((None, keys, deleted), w)
      else case r_cmd R (Del (take batch keys)) w of
        (RInt n, w1) \<Rightarrow> delete_full R batch (drop batch keys) (deleted + n) w1
      | (RErr e, w1) \<Rightarrow> Some ((Some e, keys, deleted), w1)
      | (_, w1) \<Rightarrow> Some ((Some [], keys, deleted), w1))"

partial_function (option) scan_delete_from ::
  "'w redis \<Rightarrow> 'w scan_op \<Rightarrow> nat \<Rightarrow> string \<Rightarrow> nat \<Rightarrow> string list \<Rightarrow> int \<Rightarrow> 'w \<Rightarrow>
     ((string option \<times> int) \<times> 'w) option" where
  "scan_delete_from R scan batch pat cursor keys deleted w =
     (case scan cursor pat w of
        (Inl e, w1) \<Rightarrow> Some ((Some e, deleted), w1)
      | (Inr (page, nx), w1) \<Rightarrow>
          (case delete_full R batch (keys @ page) deleted w1 of
             None \<Rightarrow> None
           | Some ((Some e, _, n), w2) \<Rightarrow> Some ((Some e, n), w2)
           | Some ((None, rest, n), w2) \<Rightarrow>
               if nx \<noteq> 0 then scan_delete_from R scan batch pat nx rest n w2
               else if rest = [] then Some ((None, n), w2)
               else (case r_cmd R (Del rest) w2 of
                       (RInt m, w3) \<Rightarrow> Some ((None, n + m), w3)
                     | (RErr e, w3) \<Rightarrow> Some ((Some e, n), w3)
                     | (_, w3) \<Rightarrow> Some ((Some [], n), w3))))"

definition scanAndDelete ::
  "'w redis \<Rightarrow> 'w scan_op \<Rightarrow> string \<Rightarrow> 'w \<Rightarrow> ((string option \<times> int) \<times> 'w) option" where
  "scanAndDelete R scan pat w = scan_delete_from R scan 500 pat 0 [] 0 w"

fun clear_patterns ::
  "'w redis \<Rightarrow> 'w scan_op \<Rightarrow> string list \<Rightarrow> int \<Rightarrow> 'w \<Rightarrow> ((string option \<times> int) \<times> 'w) option" where
  "clear_patterns R scan [] tot w = Some ((None, tot), w)"
| "clear_patterns R scan (p # ps) tot w =
     (case scanAndDelete R scan p w of
        None \<Rightarrow> None
      | Some ((Some e, n), w1) \<Rightarrow> Some ((Some e, tot), w1)
      | Some ((None, n), w1) \<Rightarrow> clear_patterns R scan ps (tot + n) w1)"

definition clear_all_patterns :: "string list" where
  "clear_all_patterns = map (\<lambda>p. keyPrefix @ p)
     [''sched:*'', ''stream:*'', ''dom:gate:*'', ''dom:cfg:*'', ''dom:flight:*'']"

definition ClearAll :: "'w redis \<Rightarrow> 'w scan_op \<Rightarrow> 'w \<Rightarrow> ((string option \<times> int) \<times> 'w) option" where
  "ClearAll R scan w =
     (case clear_patterns R scan clear_all_patterns 0 w of
        None \<Rightarrow> None
      | Some ((Some e, tot), w1) \<Rightarrow> Some ((Some e, tot), w1)
      | Some ((None, tot), w1) \<Rightarrow>
          (case r_cmd R (Del [RunningCountersKey]) w1 of
             (RInt n, w2) \<Rightarrow> Some ((None, tot + n), w2)
           | (RErr e, w2) \<Rightarrow> Some ((Some e, tot), w2)
           | (_, w2) \<Rightarrow> Some ((Some [], tot), w2)))"

section \<open>Reclaiming the keys of finished jobs\<close>

record reclaim_report =
  rr_CandidatesScanned :: nat
  rr_TerminalJobs :: nat
  rr_Cleaned :: nat
  rr_Failed :: nat
  rr_FirstError :: "string option"

definition sched_prefix :: string where
  "sched_prefix = keyPrefix @ ''sched:''"

definition stream_prefix :: string where
  "stream_prefix = keyPrefix @ ''stream:''"

definition job_of_key :: "string \<Rightarrow> string" where
  "job_of_key key =
     (if has_prefix key sched_prefix then trim_prefix key sched_prefix
      else if has_prefix key stream_prefix
      then trim_suffix (trim_prefix key stream_prefix) '':lh''
      else [])"

text \<open>The ids in the order first seen; the Go map has no order.\<close>

definition listJobIDsInRedis ::
  "'w redis \<Rightarrow> 'w scan_op \<Rightarrow> 'w \<Rightarrow> ((string + string list) \<times> 'w) option" where
  "listJobIDsInRedis R scan w =
     (case scanAll scan (sched_prefix @ ''*'') w of
        None \<Rightarrow> None
      | Some (Inl e, w1) \<Rightarrow> Some (Inl e, w1)
      | Some (Inr ks1, w1) \<Rightarrow>
          (case scanAll scan (stream_prefix @ ''*'') w1 of
             None \<Rightarrow> None
           | Some (Inl e, w2) \<Rightarrow> Some (Inl e, w2)
           | Some (Inr ks2, w2) \<Rightarrow>
               (case r_cmd R (HKeys RunningCountersKey) w2 of
                  (RErr e, w3) \<Rightarrow> Some (Inl e, w3)
                | (r, w3) \<Rightarrow>
                    (let fs = (case r of RStrs fs \<Rightarrow> fs | _ \<Rightarrow> []) in
                     Some (Inr (remdups (filter (\<lambda>i. i \<noteq> []) (map job_of_key (ks1 @ ks2) @ fs))), w3)))))"

fun reclaim_jobs ::
  "'w redis \<Rightarrow> 'w scan_op \<Rightarrow> string list \<Rightarrow> reclaim_report \<Rightarrow> 'w \<Rightarrow> (reclaim_report \<times> 'w) option" where
  "reclaim_jobs R scan [] rep w = Some (rep, w)"
| "reclaim_jobs R scan (jobID # ids) rep w =
     (case RemoveJobKeys R scan jobID w of
        None \<Rightarrow> None
      | Some (Some e, w1) \<Rightarrow>
          reclaim_jobs R scan ids
            (rep\<lparr>rr_Failed := Suc (rr_Failed rep),
                 rr_FirstError := (case rr_FirstError rep of None \<Rightarrow> Some e | Some x \<Rightarrow> Some x)\<rparr>) w1
      | Some (None, w1) \<Rightarrow> reclaim_jobs R scan ids (rep\<lparr>rr_Cleaned := Suc (rr_Cleaned rep)\<rparr>) w1)"

definition empty_report :: "nat \<Rightarrow> reclaim_report" where
  "empty_report n = \<lparr>rr_CandidatesScanned = n, rr_TerminalJobs = 0, rr_Cleaned = 0, rr_Failed = 0,
     rr_FirstError = None\<rparr>"

text \<open>\<open>filt\<close> is the query for the finished jobs; \<open>None\<close> stands for the nil filter.\<close>

definition ReclaimTerminalJobKeys ::
  "'w redis \<Rightarrow> 'w scan_op \<Rightarrow> (string list \<Rightarrow> 'w \<Rightarrow> (string + string list) \<times> 'w) option \<Rightarrow> 'w \<Rightarrow>
     ((string option \<times> reclaim_report) \<times> 'w) option" where
  "ReclaimTerminalJobKeys R scan filt w =
     (case filt of
        None \<Rightarrow> Some ((Some ''broker: ReclaimTerminalJobKeys requires a TerminalFilter'', empty_report 0), w)
      | Some f \<Rightarrow>
          (case listJobIDsInRedis R scan w of
             None \<Rightarrow> None
           | Some (Inl e, w1) \<Rightarrow> Some ((Some e, empty_report 0), w1)
           | Some (Inr candidates, w1) \<Rightarrow>
               (let rep = empty_report (length candidates) in
                if candidates = [] then Some ((None, rep), w1)
                else case f candidates w1 of
                  (Inl e, w2) \<Rightarrow> Some ((Some e, rep), w2)
                | (Inr fin, w2) \<Rightarrow>
                    (case reclaim_jobs R scan fin (rep\<lparr>rr_TerminalJobs := length fin\<rparr>) w2 of
                       None \<Rightarrow> None
                     | Some (rep', w3) \<Rightarrow> Some ((None, rep'), w3)))))"

section \<open>What a full iteration is relied on for\<close>

definition glob :: "string \<Rightarrow> string \<Rightarrow> bool" where
  "glob pat k \<longleftrightarrow> has_prefix k (butlast pat)"

inductive full_scan :: "'w scan_op \<Rightarrow> string \<Rightarrow> nat \<Rightarrow> 'w \<Rightarrow> string list \<Rightarrow> 'w \<Rightarrow> bool" for scan pat where
  last_page: "scan c pat w = (Inr (page, 0), w1) \<Longrightarrow> full_scan scan pat c w page w1"
| more_pages: "scan c pat w = (Inr (page, nx), w1) \<Longrightarrow> nx \<noteq> 0 \<Longrightarrow> full_scan scan pat nx w1 keys w2 \<Longrightarrow>
     full_scan scan pat c w (page @ keys) w2"

lemma full_scan_from:
  "full_scan scan pat c w keys w' \<Longrightarrow> scan_from scan pat c acc w = Some (Inr (acc @ keys), w')"
proof (induction arbitrary: acc rule: full_scan.induct)
  case (last_page c w page w1)
  then show ?case by (subst scan_from.simps) simp
next
  case (more_pages c w page nx w1 keys w2)
  then show ?case by (subst scan_from.simps) simp
qed

definition live_keys :: "rstore \<Rightarrow> string set" where
  "live_keys s = {k. key_exists s k}"

locale redis_scan = redis_reliable R view
  for R :: "'w redis" and view :: "'w \<Rightarrow> rstore" +
  fixes scan :: "'w scan_op"
  assumes scan_ends: "finite (live_keys (view w)) \<Longrightarrow> \<exists>keys w'. full_scan scan pat 0 w keys w'"
    and scan_full: "finite (live_keys (view w)) \<Longrightarrow> full_scan scan pat 0 w keys w' \<Longrightarrow>
      (\<exists>d. view w' = tick d (view w)) \<and> (\<forall>k\<in>live_keys (view w'). glob pat k \<longrightarrow> k \<in> set keys) \<and>
      (\<forall>k\<in>set keys. glob pat k)"
begin

lemma scan_all:
  assumes "finite (live_keys (view w))"
  obtains keys w' d where "scanAll scan pat w = Some (Inr keys, w')" and "view w' = tick d (view w)"
    and "\<And>k. key_exists (view w') k \<Longrightarrow> glob pat k \<Longrightarrow> k \<in> set keys" and "\<And>k. k \<in> set keys \<Longrightarrow> glob pat k"
proof -
  obtain keys w' where f: "full_scan scan pat 0 w keys w'" using scan_ends [OF assms] by blast
  have "scanAll scan pat w = Some (Inr keys, w')"
    using full_scan_from [OF f, of "[]"] by (simp add: scanAll_def)
  with scan_full [OF assms f] that show ?thesis by (auto simp: live_keys_def)
qed

end

text \<open>The in-memory server gives all matching keys in one page.\<close>

definition mem_scan :: "rstore scan_op" where
  "mem_scan c pat s = (Inr (sorted_list_of_set {k \<in> live_keys s. glob pat k}, 0), s)"

interpretation mem: redis_scan mem_redis "\<lambda>s. s" mem_scan
proof (unfold_locales, goal_cases)
  case (1 w pat)
  show ?case unfolding mem_scan_def by (blast intro: last_page)
next
  case (2 w pat keys w')
  from 2(2) have "keys = sorted_list_of_set {k \<in> live_keys w. glob pat k} \<and> w' = w"
    by (cases rule: full_scan.cases) (auto simp: mem_scan_def)
  with 2(1) show ?case by (auto intro: exI [of _ 0])
qed

section \<open>What the clean-up leaves\<close>

definition no_new_keys :: "rstore \<Rightarrow> rstore \<Rightarrow> bool" where
  "no_new_keys s t \<longleftrightarrow> live_keys t \<subseteq> live_keys s"

lemma no_new_keys_tick: "no_new_keys s (tick n s)"
  by (auto simp: no_new_keys_def live_keys_def key_exists_def hash_at_def expired_def gate_open_def
      split: option.splits if_splits)

lemma no_new_keys_trans: "no_new_keys s t \<Longrightarrow> no_new_keys t u \<Longrightarrow> no_new_keys s u"
  by (auto simp: no_new_keys_def)

lemma hash_at_del_key: "hash_at (del_key k s) k' = (if k' = k then [] else hash_at s k')"
  by (auto simp: del_key_def hash_at_def expired_def split: option.splits)

lemma hash_at_groups [simp]: "hash_at (s\<lparr>groups := g\<rparr>) k = hash_at s k"
  by (simp add: hash_at_def expired_def split: option.splits)

lemma no_new_keysI:
  assumes "\<And>x. zsets s x = [] \<Longrightarrow> zsets t x = []" and "\<And>x. hash_at s x = [] \<Longrightarrow> hash_at t x = []"
    and "gates t = gates s" and "clock_ms t = clock_ms s"
    and "\<And>x. streams s x = [] \<Longrightarrow> streams t x = []" and "\<And>x. groups s x = [] \<Longrightarrow> groups t x = []"
  shows "no_new_keys s t"
proof -
  have "gate_open t = gate_open s" using assms(3,4) by (intro ext) (simp only: gate_open_def)
  then show ?thesis using assms(1,2,5,6)
    by (auto simp: no_new_keys_def live_keys_def key_exists_def)
qed

lemma gate_open_del_key: "gate_open s x \<Longrightarrow> gate_open (del_key k s) x"
  by (auto simp: gate_open_def del_key_def split: option.splits)

lemma no_new_keys_exec:
  "no_new_keys s (snd (redis_exec (XGroupDestroy k g) s))"
  "no_new_keys s (del_key k s)"
  "no_new_keys s (snd (redis_exec (HDel k fs) s))"
proof -
  show "no_new_keys s (snd (redis_exec (XGroupDestroy k g) s))"
    by (rule no_new_keysI) auto
  show "no_new_keys s (del_key k s)"
    using gate_open_del_key [of s _ k]
    by (auto simp: no_new_keys_def live_keys_def key_exists_def hash_at_del_key)
      (auto simp: del_key_def split: if_splits)
  show "no_new_keys s (snd (redis_exec (HDel k fs) s))"
    by (rule no_new_keysI) auto
qed

lemma finite_no_new: "no_new_keys s t \<Longrightarrow> finite (live_keys s) \<Longrightarrow> finite (live_keys t)"
  unfolding no_new_keys_def by (rule finite_subset)

lemma hdel_all:
  fixes keys :: "string list" and j :: string and s :: rstore
  defines "s' \<equiv> snd (redis_exec_all (map (\<lambda>k. HDel k [j]) keys) s)"
  shows "map_of (hash_at s' k) f = (if k \<in> set keys \<and> f = j then None else map_of (hash_at s k) f)"
    and "zsets s' = zsets s" and "streams s' = streams s" and "groups s' = groups s"
    and "ttls s k = None \<Longrightarrow> ttls s' k = None"
proof -
  show "map_of (hash_at s' k) f = (if k \<in> set keys \<and> f = j then None else map_of (hash_at s k) f)"
    unfolding s'_def by (induction keys arbitrary: s) (auto simp: Let_def case_prod_beta map_of_filter_neq)
  show "zsets s' = zsets s" and "streams s' = streams s" and "groups s' = groups s"
    unfolding s'_def by (induction keys arbitrary: s; simp add: Let_def case_prod_beta)+
  show "ttls s k = None \<Longrightarrow> ttls s' k = None"
    unfolding s'_def by (induction keys arbitrary: s) (simp_all add: Let_def case_prod_beta put_hash_def)
qed

text \<open>
  \<open>job_clean j s\<close>: nothing of the job is left.  \<open>others_kept j s t\<close>: the sorted sets, streams
  and counters of other jobs are as they were.
\<close>

definition job_keys :: "string \<Rightarrow> string list" where
  "job_keys j = [ScheduleKey j, StreamKey j, LighthouseStreamKey j]"

definition job_clean :: "string \<Rightarrow> rstore \<Rightarrow> bool" where
  "job_clean j s \<longleftrightarrow> (\<forall>k\<in>set (job_keys j). zsets s k = [] \<and> streams s k = [] \<and> groups s k = []) \<and>
     map_of (hash_at s RunningCountersKey) j = None \<and>
     (\<forall>d. map_of (hash_at s (DomainInflightKey d)) j = None)"

definition others_kept :: "string \<Rightarrow> rstore \<Rightarrow> rstore \<Rightarrow> bool" where
  "others_kept j s t \<longleftrightarrow>
     (\<forall>k. k \<notin> set (job_keys j) \<longrightarrow> zsets t k = zsets s k \<and> streams t k = streams s k) \<and>
     (counters_inv s \<longrightarrow> (\<forall>i. i \<noteq> j \<longrightarrow> counter_at t i = counter_at s i))"

lemma flight_glob: "glob flight_pattern (DomainInflightKey d)"
  by (simp add: glob_def flight_pattern_def DomainInflightKey_def keyPrefix_def has_prefix_def)

lemma not_flight: "\<not> glob flight_pattern RunningCountersKey"
  by (simp add: glob_def flight_pattern_def RunningCountersKey_def keyPrefix_def has_prefix_def)

lemma group_destroy_frame:
  "zsets (snd (redis_exec (XGroupDestroy k g) s)) = zsets s"
  "streams (snd (redis_exec (XGroupDestroy k g) s)) = streams s"
  "hash_at (snd (redis_exec (XGroupDestroy k g) s)) h = hash_at s h"
  "ttls (snd (redis_exec (XGroupDestroy k g) s)) h = ttls s h"
  by simp_all

lemma del_key_frame:
  "zsets (del_key k s) x = (if x = k then [] else zsets s x)"
  "streams (del_key k s) x = (if x = k then [] else streams s x)"
  "groups (del_key k s) x = (if x = k then [] else groups s x)"
  "ttls (del_key k s) x = (if x = k then None else ttls s x)"
  by (simp_all add: del_key_def)

lemma job_keys_not_running [simp]: "RunningCountersKey \<noteq> ScheduleKey j" "RunningCountersKey \<noteq> StreamKey j"
  "RunningCountersKey \<noteq> LighthouseStreamKey j"
  by (simp_all add: key_defs)

text \<open>The pipeline of \<open>RemoveJobKeys\<close> on the server.\<close>

lemma remove_pipe:
  fixes s :: rstore and j :: string
  defines "t \<equiv> snd (redis_exec_all [Del [ScheduleKey j, StreamKey j, LighthouseStreamKey j],
      HDel RunningCountersKey [j]] s)"
  shows "first_err (fst (redis_exec_all [Del [ScheduleKey j, StreamKey j, LighthouseStreamKey j],
      HDel RunningCountersKey [j]] s)) = None"
    and "\<forall>k\<in>set (job_keys j). zsets t k = [] \<and> streams t k = [] \<and> groups t k = []"
    and "k \<notin> set (job_keys j) \<Longrightarrow> zsets t k = zsets s k \<and> streams t k = streams s k"
    and "map_of (hash_at t RunningCountersKey) i =
      (if i = j then None else map_of (hash_at s RunningCountersKey) i)"
    and "ttls s RunningCountersKey = None \<Longrightarrow> ttls t RunningCountersKey = None"
    and "no_new_keys s t"
proof -
  have t: "t = put_hash RunningCountersKey
      (filter (\<lambda>p. fst p \<noteq> j) (hash_at s RunningCountersKey))
      (del_key (LighthouseStreamKey j) (del_key (StreamKey j) (del_key (ScheduleKey j) s)))"
    by (simp add: t_def Let_def case_prod_beta hash_at_del_key)
  show "first_err (fst (redis_exec_all [Del [ScheduleKey j, StreamKey j, LighthouseStreamKey j],
      HDel RunningCountersKey [j]] s)) = None"
    by (simp add: Let_def case_prod_beta)
  show "\<forall>k\<in>set (job_keys j). zsets t k = [] \<and> streams t k = [] \<and> groups t k = []"
    and "k \<notin> set (job_keys j) \<Longrightarrow> zsets t k = zsets s k \<and> streams t k = streams s k"
    by (auto simp: t job_keys_def del_key_frame)
  show "map_of (hash_at t RunningCountersKey) i =
      (if i = j then None else map_of (hash_at s RunningCountersKey) i)"
    by (simp add: t map_of_filter_neq)
  show "ttls s RunningCountersKey = None \<Longrightarrow> ttls t RunningCountersKey = None"
    by (simp add: t put_hash_ttls del_key_frame)
  have "no_new_keys u (snd (redis_exec (HDel RunningCountersKey [j]) u))" for u
    by (rule no_new_keys_exec)
  then show "no_new_keys s t"
    using no_new_keys_exec(2) no_new_keys_trans
    by (simp add: t_def Let_def case_prod_beta del: redis_exec.simps(12)) metis
qed

context redis_scan
begin

lemma remove_job_keys_now:
  assumes "finite (live_keys (view w))" and "j \<noteq> []"
  shows "\<exists>w'. RemoveJobKeys R scan j w = Some (None, w') \<and> job_clean j (view w') \<and> others_kept j (view w) (view w')"
proof -
  let ?sk = "StreamKey j" and ?lh = "LighthouseStreamKey j"
  let ?c1 = "XGroupDestroy ?sk (ConsumerGroup j)" and ?c2 = "XGroupDestroy ?lh (LighthouseConsumerGroup j)"
  let ?p = "[Del [ScheduleKey j, ?sk, ?lh], HDel RunningCountersKey [j]]"
  obtain r1 w1 where 1: "r_cmd R ?c1 w = (r1, w1)" by fastforce
  obtain r2 w2 where 2: "r_cmd R ?c2 w1 = (r2, w2)" by fastforce
  obtain d1 where d1: "(r1, view w1) = redis_exec ?c1 (tick d1 (view w))" by (rule cmd_now [OF 1])
  obtain d2 where d2: "(r2, view w2) = redis_exec ?c2 (tick d2 (view w1))" by (rule cmd_now [OF 2])
  obtain rs e w3 where 3: "r_pipe R ?p w2 = ((rs, e), w3)" by (metis prod.exhaust)
  obtain d3 where d3: "(rs, view w3) = redis_exec_all ?p (tick d3 (view w2))" and e: "e = first_err rs"
    by (rule pipe_now [OF 3])
  note v1 = arg_cong [OF d1, of snd, unfolded snd_conv] and v2 = arg_cong [OF d2, of snd, unfolded snd_conv]
    and v3 = arg_cong [OF d3, of snd, unfolded snd_conv]
  note p = remove_pipe [where s = "tick d3 (view w2)" and j = j, folded v3]
  have e0: "e = None" using p(1) d3 e by (metis fst_conv)
  have n1: "no_new_keys (view w) (view w1)" unfolding v1
    by (rule no_new_keys_trans [OF no_new_keys_tick no_new_keys_exec(1)])
  have n2: "no_new_keys (view w1) (view w2)" unfolding v2
    by (rule no_new_keys_trans [OF no_new_keys_tick no_new_keys_exec(1)])
  have n3: "no_new_keys (view w2) (view w3)"
    by (rule no_new_keys_trans [OF no_new_keys_tick p(6)])
  have fin: "finite (live_keys (view w3))"
    using assms(1) n1 n2 n3 finite_no_new by blast
  obtain keys w4 d4 where sc: "scanAll scan flight_pattern w3 = Some (Inr keys, w4)"
    and v4: "view w4 = tick d4 (view w3)"
    and all: "\<And>k. key_exists (view w4) k \<Longrightarrow> glob flight_pattern k \<Longrightarrow> k \<in> set keys"
    and only: "\<And>k. k \<in> set keys \<Longrightarrow> glob flight_pattern k"
    using scan_all [OF fin, where pat = flight_pattern] by blast
  have running: "RunningCountersKey \<notin> set keys" using only not_flight by blast
  obtain w' d5 where fin_w: "cleanupInflightForJob R scan j w3 = Some (None, w') \<or>
      (\<exists>x. cleanupInflightForJob R scan j w3 = Some (Some x, w'))"
    and v5: "view w' = snd (redis_exec_all (map (\<lambda>key. HDel key [j]) keys) (tick d5 (view w4)))"
  proof (cases "keys = []")
    case True
    then show ?thesis using that [of w4 0] sc by (simp add: cleanupInflightForJob_def)
  next
    case False
    obtain rs x w5 where 5: "r_pipe R (map (\<lambda>key. HDel key [j]) keys) w4 = ((rs, x), w5)" by (metis prod.exhaust)
    obtain d5 where "(rs, view w5) = redis_exec_all (map (\<lambda>key. HDel key [j]) keys) (tick d5 (view w4))"
      by (rule pipe_now [OF 5])
    then show ?thesis using that [of w5 d5] sc 5 False
      by (cases x) (auto simp: cleanupInflightForJob_def dest: arg_cong [of _ _ snd])
  qed
  note h = hdel_all [where keys = keys and j = j and s = "tick d5 (view w4)", folded v5]
  have run: "RemoveJobKeys R scan j w = Some (None, w')"
    using assms(2) 1 2 3 e0 fin_w by (auto simp: RemoveJobKeys_def Let_def)
  have flight: "map_of (hash_at (view w') (DomainInflightKey d)) j = None" for d
  proof (cases "DomainInflightKey d \<in> set keys")
    case True
    then show ?thesis by (simp add: h(1))
  next
    case False
    then have "\<not> key_exists (view w4) (DomainInflightKey d)" using all flight_glob by blast
    then have "\<not> key_exists (tick d5 (view w4)) (DomainInflightKey d)"
      using no_new_keys_tick [of "view w4" d5] by (auto simp: no_new_keys_def live_keys_def)
    then have "hash_at (tick d5 (view w4)) (DomainInflightKey d) = []" by (simp add: key_exists_def)
    then show ?thesis by (simp add: h(1))
  qed
  have tick_none: "map_of (hash_at s k) i = None \<Longrightarrow> map_of (hash_at (tick n s) k) i = None" for s n k i
    using hash_at_tick [of n s k] by auto
  have counter_gone: "map_of (hash_at (view w') RunningCountersKey) j = None"
    using running p(4) [of j] unfolding h(1) v4 by (simp add: tick_none)
  have clean: "job_clean j (view w')"
    using p(2) flight counter_gone by (simp add: job_clean_def h(2-4) v4)
  have kept: "zsets (view w') k = zsets (view w) k \<and> streams (view w') k = streams (view w) k"
    if "k \<notin> set (job_keys j)" for k
    using p(3) [OF that] by (simp add: h(2,3) v4 v1 v2)
  have counters: "counter_at (view w') i = counter_at (view w) i"
    if "counters_inv (view w)" "i \<noteq> j" for i
  proof -
    have t0: "ttls (view w) RunningCountersKey = None" using that(1) by (simp add: counters_inv_def)
    then have t2: "ttls (view w2) RunningCountersKey = None" by (simp add: v1 v2)
    have "hash_at (view w2) RunningCountersKey = hash_at (view w) RunningCountersKey"
      using t0 by (simp add: v1 v2 group_destroy_frame hash_at_tick_no_ttl del: redis_exec.simps)
    then have m3: "map_of (hash_at (view w3) RunningCountersKey) i = map_of (hash_at (view w) RunningCountersKey) i"
      using p(4) [of i] that(2) t2 by (simp add: hash_at_tick_no_ttl)
    have "ttls (view w3) RunningCountersKey = None" using p(5) t2 by simp
    then have "map_of (hash_at (view w') RunningCountersKey) i = map_of (hash_at (view w3) RunningCountersKey) i"
      using running by (simp add: h(1) v4 hash_at_tick_no_ttl)
    then show ?thesis by (simp add: counter_at_def m3)
  qed
  show ?thesis using run clean kept counters by (auto simp: others_kept_def)
qed

end

section \<open>Orphan sweep\<close>

text \<open>Fields of active jobs are never touched, whatever keys the scan gives.\<close>

context redis_server
begin

lemma hkeys_frame: "hashes (view (snd (r_cmd R (HKeys k) w))) = hashes (view w)"
  "ttls (view (snd (r_cmd R (HKeys k) w))) = ttls (view w)"
  by (cases rule: cmd_cases [OF prod.collapse [symmetric, of "r_cmd R (HKeys k) w"]]; simp)+

lemma hdel_field:
  assumes "ttls (view w) k = None" and "f \<notin> set fs"
  shows "map_of (hashes (view (snd (r_cmd R (HDel k' fs) w))) k) f = map_of (hashes (view w) k) f"
    and "ttls (view (snd (r_cmd R (HDel k' fs) w))) k = None"
  using assms
  by (cases rule: cmd_cases [OF prod.collapse [symmetric, of "r_cmd R (HDel k' fs) w"]];
      auto simp: put_hash_def map_of_filter_key hash_at_def expired_def)+

lemma sweep_keeps_active:
  assumes "ttls (view w) k = None" and "f \<in> set active"
  shows "map_of (hashes (view (snd (sweep_keys R active keys n w))) k) f = map_of (hashes (view w) k) f"
  using assms(1)
proof (induction keys arbitrary: n w)
  case (Cons key keys)
  obtain r w1 where h: "r_cmd R (HKeys key) w = (r, w1)" by fastforce
  have 1: "hashes (view w1) = hashes (view w)" "ttls (view w1) k = None"
    using hkeys_frame [of key w] h Cons.prems by auto
  show ?case
  proof (cases "\<exists>fs. r = RStrs fs \<and> orphan_fields active fs \<noteq> []")
    case True
    then obtain fs where fs: "r = RStrs fs" "orphan_fields active fs \<noteq> []" by blast
    obtain x w2 where d: "r_cmd R (HDel key (orphan_fields active fs)) w1 = (x, w2)" by fastforce
    have "f \<notin> set (orphan_fields active fs)" using assms(2) by (simp add: orphan_fields_def)
    from hdel_field [OF 1(2) this, of key] d have
      "map_of (hashes (view w2) k) f = map_of (hashes (view w1) k) f" "ttls (view w2) k = None" by auto
    then show ?thesis using Cons.IH h fs d 1 by (simp add: Let_def)
  next
    case False
    then have "\<exists>n'. sweep_keys R active (key # keys) n w = sweep_keys R active keys n' w1"
      using h by (auto simp: Let_def split: reply.splits)
    then show ?thesis using Cons.IH 1 by metis
  qed
qed simp

end

section \<open>Properties\<close>

text \<open>\<open>RemoveJobKeys\<close> always returns, and leaves nothing of the job: its sorted set, both
  streams with their groups, its running counter and its field in the in-flight hash of
  every domain are gone, while sorted sets, streams and counters of other jobs are as
  before.\<close>

theorem remove_job_keys_complete:
  assumes "redis_scan R view scan" and "finite (live_keys (view w))" and "j \<noteq> []"
  shows "\<exists>w'. RemoveJobKeys R scan j w = Some (None, w') \<and> job_clean j (view w') \<and>
    others_kept j (view w) (view w')"
  by (rule redis_scan.remove_job_keys_now [OF assms])

definition cleanup_example :: rstore where
  "cleanup_example = empty_store\<lparr>zsets := (\<lambda>_. [])(ScheduleKey ''j'' := [(4, ''m'')]),
     streams := (\<lambda>_. [])(StreamKey ''j'' := [(''1-0'', [])]),
     hashes := (\<lambda>_. [])(DomainInflightKey ''a.com'' := [(''j'', ''1''), (''k'', ''2'')])\<rparr>"

lemma cleanup_example_finite: "finite (live_keys cleanup_example)"
proof (rule finite_subset)
  show "live_keys cleanup_example \<subseteq> {ScheduleKey ''j'', StreamKey ''j'', DomainInflightKey ''a.com''}"
    by (auto simp: live_keys_def key_exists_def cleanup_example_def empty_store_def hash_at_def
        expired_def gate_open_def split: if_splits)
qed simp

theorem remove_job_keys_complete_witness:
  "\<exists>w'. RemoveJobKeys mem_redis mem_scan ''j'' cleanup_example = Some (None, w') \<and>
     zsets w' (ScheduleKey ''j'') = [] \<and> map_of (hash_at w' (DomainInflightKey ''a.com'')) ''j'' = None"
  using remove_job_keys_complete [OF mem.redis_scan_axioms cleanup_example_finite, of "''j''"]
  by (auto simp: job_clean_def job_keys_def)

text \<open>The orphan sweep never takes away the in-flight count of an active job, whatever keys
  the scan returns and whatever calls fail.\<close>

theorem orphan_sweep_keeps_active:
  assumes "redis_server R view" and "ttls (view w1) k = None" and "f \<in> set active"
    and "scanAll scan flight_pattern w = Some (Inr keys, w1)"
  shows "\<exists>n w'. SweepOrphanInflight R scan active w = Some (Inr n, w') \<and>
    map_of (hashes (view w') k) f = map_of (hashes (view w1) k) f"
  using redis_server.sweep_keeps_active [OF assms(1-3), of keys 0] assms(4)
  by (simp add: SweepOrphanInflight_def case_prod_beta)

theorem orphan_sweep_keeps_active_witness:
  "\<exists>n w'. SweepOrphanInflight mem_redis mem_scan [''k''] cleanup_example = Some (Inr n, w') \<and>
     map_of (hashes w' (DomainInflightKey ''a.com'')) ''k'' = Some ''2''"
proof -
  obtain keys where "scanAll mem_scan flight_pattern cleanup_example = Some (Inr keys, cleanup_example)"
    by (simp add: scanAll_def mem_scan_def scan_from.simps)
  from orphan_sweep_keeps_active [OF mem.redis_server_axioms _ _ this, of "DomainInflightKey ''a.com''" "''k''" "[''k'']"]
  show ?thesis by (simp add: cleanup_example_def empty_store_def)
qed

end
