(* ===== verification/Go_Url.thy ===== *)
theory Go_Url
  imports Go_Prelude "HOL-Library.Char_ord"
begin

text \<open>
  \<open>url.Parse\<close> of the Go library as the packages use it: scheme, user, host and decoded path
  of a URL, or the fact that it is rejected.  User information is cut off and checked for
  its characters; the query and the fragment are kept raw.
\<close>

record url =
  u_Scheme :: string
  u_Opaque :: string
  u_Host :: string
  u_Path :: string
  u_RawQuery :: string
  u_Fragment :: string

definition char_code :: "char \<Rightarrow> nat" where
  "char_code c = of_char c"

definition is_lower :: "char \<Rightarrow> bool" where
  "is_lower c \<longleftrightarrow> 97 \<le> char_code c \<and> char_code c \<le> 122"

definition is_upper :: "char \<Rightarrow> bool" where
  "is_upper c \<longleftrightarrow> 65 \<le> char_code c \<and> char_code c \<le> 90"

definition is_digit :: "char \<Rightarrow> bool" where
  "is_digit c \<longleftrightarrow> 48 \<le> char_code c \<and> char_code c \<le> 57"

definition is_alpha :: "char \<Rightarrow> bool" where
  "is_alpha c \<longleftrightarrow> is_lower c \<or> is_upper c"

definition hex_value :: "char \<Rightarrow> nat option" where
  "hex_value c =
     (let n = char_code c in
      if is_digit c then Some (n - 48)
      else if 97 \<le> n \<and> n \<le> 102 then Some (n - 87)
      else if 65 \<le> n \<and> n \<le> 70 then Some (n - 55) else None)"

text \<open>The characters a host may hold; bytes above 127 may stand unescaped.\<close>

definition host_char :: "char \<Rightarrow> bool" where
  "host_char c \<longleftrightarrow> is_alpha c \<or> is_digit c \<or> c \<in> set ''-_.~!$&()*+,;=:[]<>'' \<or> char_code c = 39 \<or>
     char_code c = 34 \<or> 128 \<le> char_code c"

text \<open>\<open>unescape\<close> in path mode: every \<open>%XX\<close> is decoded, a malformed one is an error.\<close>

fun unescape_path :: "string \<Rightarrow> string option" where
  "unescape_path [] = Some []"
| "unescape_path (c # cs) =
     (if c \<noteq> CHR ''%'' then map_option ((#) c) (unescape_path cs)
      else case cs of
        a # b # rest \<Rightarrow>
          (case (hex_value a, hex_value b) of
             (Some x, Some y) \<Rightarrow> map_option ((#) (char_of (16 * x + y))) (unescape_path rest)
           | _ \<Rightarrow> None)
      | _ \<Rightarrow> None)"

text \<open>In host mode only bytes above 127 may be escaped, and \<open>%25\<close>.\<close>

fun unescape_host :: "string \<Rightarrow> string option" where
  "unescape_host [] = Some []"
| "unescape_host (c # cs) =
     (if c \<noteq> CHR ''%'' then (if host_char c then map_option ((#) c) (unescape_host cs) else None)
      else case cs of
        a # b # rest \<Rightarrow>
          (case (hex_value a, hex_value b) of
             (Some x, Some y) \<Rightarrow>
               (if x < 8 \<and> (a, b) \<noteq> (CHR ''2'', CHR ''5'') then None
                else map_option ((#) (char_of (16 * x + y))) (unescape_host rest))
           | _ \<Rightarrow> None)
      | _ \<Rightarrow> None)"

definition valid_port :: "string \<Rightarrow> bool" where
  "valid_port p \<longleftrightarrow> (case p of [] \<Rightarrow> True | c # cs \<Rightarrow> c = CHR '':'' \<and> list_all is_digit cs)"

text \<open>\<open>parseHost\<close>: a bracketed address, or a name with at most one colon before a port.\<close>

definition after_bracket :: "string \<Rightarrow> string" where
  "after_bracket h = rev (takeWhile (\<lambda>c. c \<noteq> CHR '']'') (rev h))"

definition parse_host :: "string \<Rightarrow> string option" where
  "parse_host h =
     (if has_prefix h ''['' then
        (if CHR '']'' \<notin> set h then None
         else if valid_port (after_bracket h) then unescape_host h else None)
      else if 1 < count_list h (CHR '':'') then None
      else if valid_port (dropWhile (\<lambda>c. c \<noteq> CHR '':'') h) then unescape_host h
      else None)"

definition userinfo_char :: "char \<Rightarrow> bool" where
  "userinfo_char c \<longleftrightarrow> is_alpha c \<or> is_digit c \<or> c \<in> set ''-._:~!$&()*+,;=%@'' \<or> char_code c = 39"

text \<open>The part before the last \<open>@\<close> is the user.\<close>

definition parse_authority :: "string \<Rightarrow> string option" where
  "parse_authority a =
     (if CHR ''@'' \<notin> set a then parse_host a
      else let h = rev (takeWhile (\<lambda>c. c \<noteq> CHR ''@'') (rev a));
               user = take (length a - length h - 1) a
           in case parse_host h of None \<Rightarrow> None | Some h' \<Rightarrow>
              if list_all userinfo_char user then Some h' else None)"

text \<open>\<open>getScheme\<close>: the scheme and the rest.\<close>

fun get_scheme_from :: "nat \<Rightarrow> string \<Rightarrow> string \<Rightarrow> (string \<times> string) option" where
  "get_scheme_from i raw [] = Some ([], raw)"
| "get_scheme_from i raw (c # cs) =
     (if is_alpha c then get_scheme_from (Suc i) raw cs
      else if is_digit c \<or> c \<in> set ''+-.''
      then (if i = 0 then Some ([], raw) else get_scheme_from (Suc i) raw cs)
      else if c = CHR '':'' then (if i = 0 then None else Some (take i raw, cs))
      else Some ([], raw))"

definition is_ctl :: "char \<Rightarrow> bool" where
  "is_ctl c \<longleftrightarrow> char_code c < 32 \<or> char_code c = 127"

definition before :: "char \<Rightarrow> string \<Rightarrow> string" where
  "before d s = takeWhile (\<lambda>c. c \<noteq> d) s"

definition after :: "char \<Rightarrow> string \<Rightarrow> string" where
  "after d s = drop 1 (dropWhile (\<lambda>c. c \<noteq> d) s)"

definition with_path :: "url \<Rightarrow> string \<Rightarrow> url option" where
  "with_path u p = map_option (\<lambda>p'. u\<lparr>u_Path := p'\<rparr>) (unescape_path p)"

definition parse_rest :: "string \<Rightarrow> string \<Rightarrow> string \<Rightarrow> string \<Rightarrow> url option" where
  "parse_rest scheme rest query frag =
     (let u = \<lparr>u_Scheme = scheme, u_Opaque = [], u_Host = [], u_Path = [], u_RawQuery = query,
               u_Fragment = frag\<rparr> in
      if \<not> has_prefix rest ''/'' then
        (if scheme \<noteq> [] then Some (u\<lparr>u_Opaque := rest\<rparr>)
         else if CHR '':'' \<in> set (before (CHR ''/'') rest) then None
         else with_path u rest)
      else if (scheme \<noteq> [] \<or> \<not> has_prefix rest ''///'') \<and> has_prefix rest ''//'' then
        (let au = drop 2 rest; authority = before (CHR ''/'') au;
             path = dropWhile (\<lambda>c. c \<noteq> CHR ''/'') au
         in case parse_authority authority of None \<Rightarrow> None
            | Some h \<Rightarrow> with_path (u\<lparr>u_Host := h\<rparr>) path)
      else with_path u rest)"

definition url_parse :: "string \<Rightarrow> url option" where
  "url_parse raw =
     (let nofrag = before (CHR ''#'') raw; frag = after (CHR ''#'') raw in
      if unescape_path frag = None then None
      else if list_ex is_ctl nofrag then None
      else if nofrag = ''*'' then
        Some \<lparr>u_Scheme = [], u_Opaque = [], u_Host = [], u_Path = ''*'', u_RawQuery = [], u_Fragment = frag\<rparr>
      else case get_scheme_from 0 nofrag nofrag of None \<Rightarrow> None
      | Some (scheme, rest0) \<Rightarrow>
          parse_rest (to_lower scheme) (before (CHR ''?'') rest0) (after (CHR ''?'') rest0) frag)"

section \<open>Plain URLs\<close>

text \<open>Letters, digits and the marks that stand for themselves everywhere.\<close>

definition plain_char :: "char \<Rightarrow> bool" where
  "plain_char c \<longleftrightarrow> is_alpha c \<or> is_digit c \<or> c = CHR ''-'' \<or> c = CHR ''.'' \<or> c = CHR ''_'' \<or> c = CHR ''~''"

lemma char_code_simps [simp]:
  "char_code (CHR ''/'') = 47" "char_code (CHR '':'') = 58" "char_code (CHR ''?'') = 63"
  "char_code (CHR ''#'') = 35" "char_code (CHR ''%'') = 37" "char_code (CHR ''@'') = 64"
  "char_code (CHR ''['') = 91" "char_code (CHR '']'') = 93" "char_code (CHR ''*'') = 42"
  "char_code (CHR ''-'') = 45" "char_code (CHR ''.'') = 46" "char_code (CHR ''_'') = 95"
  "char_code (CHR ''~'') = 126"
  by (simp_all add: char_code_def)

lemma plain_not:
  assumes "plain_char c"
  shows "c \<noteq> CHR ''/''" "c \<noteq> CHR '':''" "c \<noteq> CHR ''?''" "c \<noteq> CHR ''#''" "c \<noteq> CHR ''%''"
    "c \<noteq> CHR ''@''" "c \<noteq> CHR ''[''" "c \<noteq> CHR '']''" "c \<noteq> CHR ''*''" "\<not> is_ctl c" "host_char c"
proof -
  have n: "97 \<le> char_code c \<and> char_code c \<le> 122 \<or> 65 \<le> char_code c \<and> char_code c \<le> 90 \<or>
      48 \<le> char_code c \<and> char_code c \<le> 57 \<or> char_code c \<in> {45, 46, 95, 126}"
    using assms by (auto simp: plain_char_def is_alpha_def is_lower_def is_upper_def is_digit_def)
  show "c \<noteq> CHR ''/''" "c \<noteq> CHR '':''" "c \<noteq> CHR ''?''" "c \<noteq> CHR ''#''" "c \<noteq> CHR ''%''"
    "c \<noteq> CHR ''@''" "c \<noteq> CHR ''[''" "c \<noteq> CHR '']''" "c \<noteq> CHR ''*''"
    using n by auto
  show "\<not> is_ctl c" using n by (auto simp: is_ctl_def)
  show "host_char c" using assms by (auto simp: host_char_def plain_char_def)
qed

lemma unescape_path_plain: "list_all (\<lambda>c. c \<noteq> CHR ''%'') s \<Longrightarrow> unescape_path s = Some s"
  by (induction s rule: unescape_path.induct) auto

lemma unescape_host_plain: "list_all (\<lambda>c. c \<noteq> CHR ''%'' \<and> host_char c) s \<Longrightarrow> unescape_host s = Some s"
  by (induction s rule: unescape_host.induct) auto

lemma dropWhile_none: "list_all P s \<Longrightarrow> dropWhile P s = []"
  by (induction s) auto

lemma takeWhile_all: "list_all P s \<Longrightarrow> takeWhile P s = s"
  by (induction s) auto

definition plain_host :: "string \<Rightarrow> bool" where
  "plain_host h \<longleftrightarrow> list_all plain_char (before (CHR '':'') h) \<and>
     valid_port (dropWhile (\<lambda>c. c \<noteq> CHR '':'') h)"

definition plain_path :: "string \<Rightarrow> bool" where
  "plain_path p \<longleftrightarrow> list_all (\<lambda>c. plain_char c \<or> c = CHR ''/'') p \<and> (p = [] \<or> hd p = CHR ''/'')"

lemma digit_plain: "is_digit c \<Longrightarrow> plain_char c"
  by (simp add: plain_char_def)

lemma plain_host_cases:
  assumes "plain_host h"
  obtains (name) "list_all plain_char h"
  | (port) a ds where "h = a @ CHR '':'' # ds" "list_all plain_char a" "list_all is_digit ds"
proof (cases "dropWhile (\<lambda>c. c \<noteq> CHR '':'') h")
  case Nil
  then have "before (CHR '':'') h = h" unfolding before_def by (metis append.right_neutral takeWhile_dropWhile_id)
  then show ?thesis using name assms by (simp add: plain_host_def)
next
  case (Cons c ds)
  then have "c = CHR '':''" by (metis (mono_tags, lifting) hd_dropWhile list.distinct(1) list.sel(1))
  moreover have "h = before (CHR '':'') h @ c # ds" unfolding before_def Cons [symmetric] by simp
  moreover have "list_all is_digit ds" using assms Cons by (simp add: plain_host_def valid_port_def)
  ultimately show ?thesis using port assms unfolding plain_host_def by metis
qed

lemma plain_host_chars:
  assumes "plain_host h"
  shows "\<forall>c\<in>set h. plain_char c \<or> c = CHR '':''" and "count_list h (CHR '':'') \<le> 1"
proof -
  have "(\<forall>c\<in>set h. plain_char c \<or> c = CHR '':'') \<and> count_list h (CHR '':'') \<le> 1"
    using assms
  proof (cases rule: plain_host_cases)
    case name
    then have "CHR '':'' \<notin> set h" using plain_not(2) by (auto simp: list_all_iff)
    then have "count_list h (CHR '':'') = 0" by (simp add: count_list_0_iff)
    with name show ?thesis by (simp add: list_all_iff)
  next
    case (port a ds)
    have "CHR '':'' \<notin> set a" using port plain_not(2) by (auto simp: list_all_iff)
    moreover have "CHR '':'' \<notin> set ds" using port digit_plain plain_not(2) by (auto simp: list_all_iff)
    ultimately have "count_list a (CHR '':'') = 0" "count_list ds (CHR '':'') = 0"
      by (simp_all add: count_list_0_iff)
    then show ?thesis using port digit_plain by (auto simp: list_all_iff)
  qed
  then show "\<forall>c\<in>set h. plain_char c \<or> c = CHR '':''" and "count_list h (CHR '':'') \<le> 1" by auto
qed

lemma parse_plain_host:
  assumes "plain_host h"
  shows "parse_authority h = Some h"
proof -
  note c = plain_host_chars [OF assms]
  have "CHR ''@'' \<notin> set h" using c(1) plain_not(6) by auto
  moreover have "\<not> has_prefix h ''[''"
    using c(1) plain_not(7) by (cases h) (auto simp: has_prefix_def)
  moreover have "list_all (\<lambda>c. c \<noteq> CHR ''%'' \<and> host_char c) h"
  proof -
    have "host_char (CHR '':'')" by (simp add: host_char_def)
    then show ?thesis using c(1) plain_not(5,11) unfolding list_all_iff by blast
  qed
  ultimately show ?thesis
    using c(2) assms
    by (simp add: parse_authority_def parse_host_def unescape_host_plain plain_host_def)
qed

text \<open>A URL without query and fragment, of plain characters, is taken apart as it was put together.\<close>

lemma url_parse_plain:
  assumes "scheme = ''http'' \<or> scheme = ''https''" and "plain_host h" and "plain_path p"
  shows "url_parse (scheme @ ''://'' @ h @ p) = Some
    \<lparr>u_Scheme = scheme, u_Opaque = [], u_Host = h, u_Path = p, u_RawQuery = [], u_Fragment = []\<rparr>"
proof -
  let ?raw = "scheme @ ''://'' @ h @ p"
  have hp: "\<forall>c\<in>set (h @ p). plain_char c \<or> c = CHR '':'' \<or> c = CHR ''/''"
    using plain_host_chars(1) [OF assms(2)] assms(3) by (auto simp: list_all_iff plain_path_def)
  have ok: "c \<noteq> CHR ''#'' \<and> c \<noteq> CHR ''?'' \<and> \<not> is_ctl c" if "plain_char c \<or> c = CHR '':'' \<or> c = CHR ''/''" for c
    using that plain_not(3,4,10) [of c] by (auto simp: is_ctl_def)
  have okhp: "\<forall>c\<in>set (h @ p). c \<noteq> CHR ''#'' \<and> c \<noteq> CHR ''?'' \<and> \<not> is_ctl c"
    using hp ok by blast
  have slash: "\<not> is_ctl (CHR ''/'')" "\<not> is_ctl (CHR '':'')" by (simp_all add: is_ctl_def)
  have all: "\<forall>c\<in>set (''//'' @ h @ p). c \<noteq> CHR ''#'' \<and> c \<noteq> CHR ''?'' \<and> \<not> is_ctl c"
    using okhp slash by simp
  have "\<forall>c\<in>set scheme. c \<noteq> CHR ''#'' \<and> \<not> is_ctl c"
    using assms(1) by (auto simp: is_ctl_def char_code_def)
  then have raw: "\<forall>c\<in>set ?raw. c \<noteq> CHR ''#'' \<and> \<not> is_ctl c"
    using all slash by (simp add: ball_Un)
  then have rawf: "list_all (\<lambda>c. c \<noteq> CHR ''#'') ?raw" and nctl: "\<not> list_ex is_ctl ?raw"
    unfolding list_all_iff list_ex_iff by blast+
  have frag: "before (CHR ''#'') ?raw = ?raw" "after (CHR ''#'') ?raw = []"
    using takeWhile_all [OF rawf] dropWhile_none [OF rawf] unfolding before_def after_def
    by (simp_all only: drop_Nil)
  have sch: "get_scheme_from 0 ?raw ?raw = Some (scheme, ''//'' @ h @ p)"
    using assms(1) by (auto simp: is_alpha_def is_lower_def is_upper_def is_digit_def char_code_def)
  have "list_all (\<lambda>c. c \<noteq> CHR ''?'') (''//'' @ h @ p)"
    using all unfolding list_all_iff by blast
  then have q: "before (CHR ''?'') (''//'' @ h @ p) = ''//'' @ h @ p" "after (CHR ''?'') (''//'' @ h @ p) = []"
    using takeWhile_all dropWhile_none unfolding before_def after_def by (metis, metis drop_Nil)
  have hs: "CHR ''/'' \<notin> set h" using plain_host_chars(1) [OF assms(2)] plain_not(1) by auto
  have au: "before (CHR ''/'') (h @ p) = h" "dropWhile (\<lambda>c. c \<noteq> CHR ''/'') (h @ p) = p"
    using hs assms(3) by (cases p; auto simp: before_def plain_path_def takeWhile_append dropWhile_append)+
  have lower: "to_lower scheme = scheme"
    using assms(1) by (auto simp: to_lower_def lower_char_def)
  have up: "unescape_path p = Some p"
    using assms(3) plain_not(5) by (intro unescape_path_plain) (auto simp: list_all_iff plain_path_def)
  have ne: "?raw \<noteq> ''*''" "scheme \<noteq> []" using assms(1) by auto
  have pre: "has_prefix (''//'' @ h @ p) ''/''" "has_prefix (''//'' @ h @ p) ''//''" "drop 2 (''//'' @ h @ p) = h @ p"
    by (simp_all add: has_prefix_def)
  have "parse_rest scheme (''//'' @ h @ p) [] [] = Some
    \<lparr>u_Scheme = scheme, u_Opaque = [], u_Host = h, u_Path = p, u_RawQuery = [], u_Fragment = []\<rparr>"
    using ne(2) unfolding parse_rest_def Let_def pre
    by (simp add: pre au parse_plain_host [OF assms(2)] with_path_def up del: append.simps)
  then show ?thesis
    using ne(1) nctl unfolding url_parse_def Let_def frag
    by (simp add: sch q lower del: append.simps list_ex_append)
qed

end
