(* ===== verification/Util_Url.thy ===== *)
theory Util_Url
  imports Go_Url
begin

text \<open>
  \<open>internal/util/url.go\<close>: domains and URLs as the crawler and the API write them.  The table of
  public suffixes (\<open>publicsuffix.EffectiveTLDPlusOne\<close>) and the printing of a parsed URL
  (\<open>URL.String\<close>, which the code reaches on a path shown to be dead) are arguments.
\<close>

section \<open>Domains\<close>

definition NormaliseDomain :: "string \<Rightarrow> string" where
  "NormaliseDomain domain =
     (let d1 = trim_prefix domain ''http://'';
          d2 = trim_prefix d1 ''https://'';
          d3 = trim_prefix d2 ''www.''
      in trim_suffix d3 ''/'')"

text \<open>\<open>net.ParseIP\<close> on a string without a colon: four decimal octets without leading zeros.\<close>

definition octet :: "string \<Rightarrow> bool" where
  "octet s \<longleftrightarrow> s \<noteq> [] \<and> list_all is_digit s \<and> (length s = 1 \<or> hd s \<noteq> CHR ''0'') \<and> length s \<le> 3 \<and>
     (case digits_val 0 s of Some n \<Rightarrow> n \<le> 255 | None \<Rightarrow> False)"

definition is_ipv4 :: "string \<Rightarrow> bool" where
  "is_ipv4 s \<longleftrightarrow> (let fs = split_on (CHR ''.'') s in length fs = 4 \<and> list_all octet fs)"

definition blockedDomains :: "string list" where
  "blockedDomains = [''localhost'', ''localhost.localdomain'', ''local'', ''internal'', ''test'', ''example'',
     ''invalid'']"

datatype domain_error = EmptyDomain | HasPort | NotAllowed string | NotFullDomain

definition is_blocked :: "string \<Rightarrow> bool" where
  "is_blocked d \<longleftrightarrow> (let l = to_lower d in
     list_ex (\<lambda>b. l = b \<or> has_suffix l (''.'' @ b)) blockedDomains)"

text \<open>\<open>etld\<close> is \<open>EffectiveTLDPlusOne\<close>; both of its errors are reported alike.\<close>

definition ValidateDomain :: "(string \<Rightarrow> string + string) \<Rightarrow> string \<Rightarrow> domain_error option" where
  "ValidateDomain etld domain =
     (let d = NormaliseDomain (trim_space domain) in
      if d = [] then Some EmptyDomain
      else if str_contains d '':'' then Some HasPort
      else if is_ipv4 d then Some (NotAllowed d)
      else if is_blocked d then Some (NotAllowed d)
      else case etld d of Inl _ \<Rightarrow> Some NotFullDomain | Inr _ \<Rightarrow> None)"

section \<open>URLs\<close>

definition with_https :: "string \<Rightarrow> string" where
  "with_https raw =
     (let r = (if has_prefix raw ''http://'' then ''https://'' @ drop 7 raw else raw)
      in if has_prefix r ''https://'' then r else ''https://'' @ r)"

definition NormaliseURL :: "(url \<Rightarrow> string) \<Rightarrow> string \<Rightarrow> string" where
  "NormaliseURL url_string rawURL =
     (let raw = trim_space rawURL in
      if raw = [] then []
      else let r = with_https raw in
        (case url_parse r of
           None \<Rightarrow> []
         | Some u \<Rightarrow>
             if u_Scheme u = [] \<or> u_Host u = [] then []
             else (case str_index (u_Host u) ''://'' of
                     Some i \<Rightarrow> url_string (u\<lparr>u_Host := drop (i + 3) (u_Host u)\<rparr>)
                   | None \<Rightarrow> r)))"

definition ExtractPathFromURL :: "string \<Rightarrow> string" where
  "ExtractPathFromURL fullURL =
     (let p = trim_prefix (trim_prefix (trim_prefix fullURL ''http://'') ''https://'') ''www.''
      in case str_index p ''/'' of Some i \<Rightarrow> drop i p | None \<Rightarrow> ''/'')"

definition ConstructURL :: "string \<Rightarrow> string \<Rightarrow> string" where
  "ConstructURL domain path =
     ''https://'' @ NormaliseDomain domain @ (if has_prefix path ''/'' then path else ''/'' @ path)"

definition normaliseHostPort :: "string \<Rightarrow> string \<Rightarrow> string" where
  "normaliseHostPort host scheme =
     (if scheme = ''http'' \<and> has_suffix host '':80'' then trim_suffix host '':80''
      else if scheme = ''https'' \<and> has_suffix host '':443'' then trim_suffix host '':443''
      else host)"

definition redirect_host :: "url \<Rightarrow> string" where
  "redirect_host u = to_lower (trim_prefix (normaliseHostPort (u_Host u) (u_Scheme u)) ''www.'')"

definition redirect_path :: "url \<Rightarrow> string" where
  "redirect_path u =
     (let p = (if u_Path u = [] then ''/'' else u_Path u)
      in if 1 < length p then trim_suffix p ''/'' else p)"

definition IsSignificantRedirect :: "string \<Rightarrow> string \<Rightarrow> bool" where
  "IsSignificantRedirect originalURL redirectURL =
     (if redirectURL = [] then False
      else case (url_parse originalURL, url_parse redirectURL) of
        (Some a, Some b) \<Rightarrow>
          if redirect_host a \<noteq> redirect_host b then True else redirect_path a \<noteq> redirect_path b
      | _ \<Rightarrow> True)"

section \<open>A host never holds a slash\<close>

lemma hex_value_less: "hex_value c = Some n \<Longrightarrow> n < 16"
  by (auto simp: hex_value_def Let_def is_digit_def split: if_splits)

lemma unescape_host_no_slash: "unescape_host s = Some h \<Longrightarrow> CHR ''/'' \<notin> set h"
proof (induction s arbitrary: h rule: unescape_host.induct)
  case (2 c cs)
  show ?case
  proof (cases "c = CHR ''%''")
    case False
    then obtain h' where "host_char c" "unescape_host cs = Some h'" "h = c # h'"
      using "2.prems" by (auto split: if_splits)
    moreover have "\<not> host_char (CHR ''/'')"
      by (simp add: host_char_def is_alpha_def is_lower_def is_upper_def is_digit_def)
    ultimately show ?thesis using "2.IH"(1) [OF False] by auto
  next
    case True
    then obtain a b rest x y h' where q: "cs = a # b # rest" "hex_value a = Some x" "hex_value b = Some y"
      "\<not> (x < 8 \<and> (a, b) \<noteq> (CHR ''2'', CHR ''5''))" "unescape_host rest = Some h'"
      "h = char_of (16 * x + y) # h'"
      using "2.prems" by (auto split: list.splits option.splits if_splits)
    have "x < 16" "y < 16" using hex_value_less q(2,3) by blast+
    then have "16 * x + y < 256" by simp
    then have "of_char (char_of (16 * x + y) :: char) = 16 * x + y" by simp
    moreover have "16 * x + y \<noteq> 47"
    proof (cases "x < 8")
      case True
      then have "x = 2" "y = 5" using q by (auto simp: hex_value_def is_digit_def char_code_def)
      then show ?thesis by simp
    qed simp
    ultimately have "char_of (16 * x + y) \<noteq> CHR ''/''"
      by (metis char_code_def char_code_simps(1))
    moreover have "CHR ''/'' \<notin> set h'"
      using "2.IH"(2) q True by blast
    ultimately show ?thesis using q(6) by simp
  qed
qed simp

lemma parse_host_no_slash: "parse_host s = Some h \<Longrightarrow> CHR ''/'' \<notin> set h"
  by (auto simp: parse_host_def unescape_host_no_slash split: if_splits)

lemma parse_authority_no_slash: "parse_authority s = Some h \<Longrightarrow> CHR ''/'' \<notin> set h"
  by (auto simp: parse_authority_def Let_def parse_host_no_slash split: if_splits option.splits)

lemma url_host_no_slash: "url_parse s = Some u \<Longrightarrow> CHR ''/'' \<notin> set (u_Host u)"
  by (auto simp: url_parse_def parse_rest_def with_path_def Let_def parse_authority_no_slash
      split: if_splits option.splits)

lemma str_index_set: "str_index s p = Some i \<Longrightarrow> set p \<subseteq> set s"
proof (induction s arbitrary: i)
  case (Cons c s)
  show ?case
  proof (cases "has_prefix (c # s) p")
    case True
    then obtain t where "c # s = p @ t" by (auto simp: has_prefix_iff)
    then show ?thesis by (metis Un_upper1 set_append)
  qed (use Cons in auto)
qed (auto split: if_splits)

lemma host_no_scheme: "url_parse s = Some u \<Longrightarrow> str_index (u_Host u) ''://'' = None"
  using url_host_no_slash str_index_set [of "u_Host u" "''://''"] by fastforce

section \<open>Normal form of a URL\<close>

lemma trim_space_id:
  assumes "s \<noteq> []" and "\<not> is_space (hd s)" and "\<not> is_space (List.last s)"
  shows "trim_space s = s"
proof -
  have "dropWhile is_space s = s" using assms by (cases s) auto
  moreover have "\<not> is_space (hd (rev s))" using assms(1,3) by (simp add: hd_rev)
  then have "dropWhile is_space (rev s) = rev s" by (cases "rev s") auto
  ultimately show ?thesis by (simp add: trim_space_def)
qed

lemma trim_space_ends:
  assumes "trim_space s \<noteq> []"
  shows "\<not> is_space (List.last (trim_space s))"
proof -
  let ?r = "dropWhile is_space (rev (dropWhile is_space s))"
  have "?r \<noteq> []" using assms by (simp add: trim_space_def)
  then have "\<not> is_space (hd ?r)" by (rule hd_dropWhile)
  then show ?thesis using assms by (simp add: trim_space_def last_rev)
qed

lemma with_https_prefix: "has_prefix (with_https t) ''https://''"
  by (auto simp: with_https_def Let_def has_prefix_def)

lemma with_https_id: "has_prefix t ''https://'' \<Longrightarrow> with_https t = t"
  by (auto simp: with_https_def Let_def has_prefix_iff)

lemma with_https_last:
  assumes "with_https t \<noteq> ''https://''"
  shows "List.last (with_https t) = List.last t"
proof (cases "has_prefix t ''http://''")
  case True
  then obtain x where "t = ''http://'' @ x" by (auto simp: has_prefix_iff)
  then show ?thesis using assms by (auto simp: with_https_def has_prefix_def Let_def)
next
  case False
  then show ?thesis using assms by (cases "t = []") (auto simp: with_https_def has_prefix_def Let_def)
qed

lemma url_parse_bare: "url_parse ''https://'' = Some \<lparr>u_Scheme = ''https'', u_Opaque = [], u_Host = [],
    u_Path = [], u_RawQuery = [], u_Fragment = []\<rparr>"
  using url_parse_plain [of "''https''" "[]" "[]"] by (simp add: plain_host_def plain_path_def before_def valid_port_def)

definition usable :: "string \<Rightarrow> bool" where
  "usable r \<longleftrightarrow> (\<exists>u. url_parse r = Some u \<and> u_Scheme u \<noteq> [] \<and> u_Host u \<noteq> [])"

lemma usable_not_bare: "usable r \<Longrightarrow> r \<noteq> ''https://''"
  by (auto simp: usable_def url_parse_bare)

lemma normalise_url_eq:
  "NormaliseURL f raw = (if usable (with_https (trim_space raw)) then with_https (trim_space raw) else [])"
proof (cases "trim_space raw = []")
  case True
  have "\<not> usable (with_https [])"
    using url_parse_bare by (auto simp: usable_def with_https_def has_prefix_def)
  then show ?thesis using True by (simp add: NormaliseURL_def)
next
  case False
  then show ?thesis
    by (auto simp: NormaliseURL_def usable_def host_no_scheme Let_def split: option.splits)
qed

text \<open>\<open>NormaliseURL\<close> has a normal form.  Its result is empty, or it is the trimmed input
  with the scheme \<open>https\<close> and a URL with a host; applied to its own result it changes
  nothing.  The branch for a scheme inside the host never runs: the result does not depend on
  how a URL is printed.\<close>

theorem normalise_url_normal_form:
  "(NormaliseURL f raw = [] \<or>
      NormaliseURL f raw = with_https (trim_space raw) \<and>
      has_prefix (NormaliseURL f raw) ''https://'' \<and> usable (NormaliseURL f raw)) \<and>
   NormaliseURL f (NormaliseURL f raw) = NormaliseURL f raw \<and>
   NormaliseURL f raw = NormaliseURL g raw"
proof (cases "usable (with_https (trim_space raw))")
  case False
  then show ?thesis by (simp add: normalise_url_eq) (simp add: trim_space_def usable_def with_https_def has_prefix_def url_parse_bare)
next
  case True
  define r where "r = with_https (trim_space raw)"
  have nb: "r \<noteq> ''https://''" using True usable_not_bare by (simp add: r_def)
  have px: "has_prefix r ''https://''" by (simp add: r_def with_https_prefix)
  have "trim_space raw \<noteq> []" using nb by (auto simp: r_def with_https_def has_prefix_def)
  then have "\<not> is_space (List.last r)"
    using trim_space_ends with_https_last nb by (simp add: r_def)
  moreover have "r \<noteq> []" "\<not> is_space (hd r)"
    using px by (auto simp: has_prefix_iff is_space_def)
  ultimately have "trim_space r = r" by (intro trim_space_id)
  then have "NormaliseURL f r = r" using True px by (simp add: normalise_url_eq with_https_id) (simp add: r_def)
  then show ?thesis using True px by (simp add: normalise_url_eq r_def)
qed

section \<open>Domain and path of a constructed URL\<close>

lemma str_index_char: "c \<notin> set a \<Longrightarrow> str_index (a @ c # b) [c] = Some (length a)"
  by (induction a) (auto simp: has_prefix_def)

lemma trim_www_append:
  assumes "CHR ''/'' \<notin> set n"
  obtains n' where "CHR ''/'' \<notin> set n'" "trim_prefix (n @ CHR ''/'' # q) ''www.'' = n' @ CHR ''/'' # q"
proof (cases "has_prefix n ''www.''")
  case True
  then obtain t where t: "n = ''www.'' @ t" by (auto simp: has_prefix_iff)
  have "trim_prefix (n @ CHR ''/'' # q) ''www.'' = t @ CHR ''/'' # q"
    unfolding t append_assoc by (rule trim_prefix_append)
  then show ?thesis using that [of t] assms t by simp
next
  case False
  have "\<not> has_prefix (n @ CHR ''/'' # q) ''www.''"
  proof
    assume "has_prefix (n @ CHR ''/'' # q) ''www.''"
    then have t: "take 4 (n @ CHR ''/'' # q) = ''www.''" by (simp add: has_prefix_def numeral_eq_Suc)
    then have n: "length n < 4"
      using False by (cases "4 \<le> length n") (auto simp: has_prefix_def numeral_eq_Suc)
    have "take 4 (n @ CHR ''/'' # q) ! length n = CHR ''/''" unfolding nth_take [OF n] by simp
    moreover have "take 4 (n @ CHR ''/'' # q) ! length n \<in> set ''www.''"
      unfolding t using n by (intro nth_mem) simp
    ultimately show False by simp
  qed
  then show ?thesis using that [of n] assms by (simp add: trim_prefix_def)
qed

definition rooted :: "string \<Rightarrow> string" where
  "rooted p = (if has_prefix p ''/'' then p else ''/'' @ p)"

text \<open>The path of a URL built from a domain and a path is that path, with a slash in front
  when it had none, provided the domain, cut down by \<open>NormaliseDomain\<close>, holds no slash.\<close>

theorem extract_construct_roundtrip:
  assumes "CHR ''/'' \<notin> set (NormaliseDomain d)"
  shows "ExtractPathFromURL (ConstructURL d p) = rooted p"
proof -
  let ?n = "NormaliseDomain d"
  obtain q where q: "rooted p = CHR ''/'' # q"
    by (cases "has_prefix p ''/''") (auto simp: rooted_def has_prefix_iff)
  obtain n' where n': "CHR ''/'' \<notin> set n'" "trim_prefix (?n @ CHR ''/'' # q) ''www.'' = n' @ CHR ''/'' # q"
    using trim_www_append [OF assms] by blast
  have c: "ConstructURL d p = ''https://'' @ ?n @ CHR ''/'' # q"
    using q unfolding ConstructURL_def rooted_def by simp
  have "trim_prefix (''https://'' @ ?n @ CHR ''/'' # q) ''http://'' = ''https://'' @ ?n @ CHR ''/'' # q"
    by (simp add: trim_prefix_def has_prefix_def)
  then show ?thesis
    unfolding ExtractPathFromURL_def c using n' q
    by (simp add: str_index_char Let_def trim_prefix_append [of "''https://''", simplified])
qed

theorem extract_construct_roundtrip_witness:
  "ExtractPathFromURL (ConstructURL ''http://www.example.com/'' ''about'') = ''/about''"
  using extract_construct_roundtrip [of "''http://www.example.com/''" "''about''"]
  by (simp add: NormaliseDomain_def trim_prefix_def trim_suffix_def has_prefix_def has_suffix_def rooted_def)

section \<open>Redirects\<close>

definition default_port :: "string \<Rightarrow> string" where
  "default_port scheme = (if scheme = ''http'' then '':80'' else '':443'')"

text \<open>A site at \<open>h\<close> written with or without \<open>www.\<close>, the default port and a final slash.\<close>

definition site_url :: "string \<Rightarrow> bool \<Rightarrow> string \<Rightarrow> bool \<Rightarrow> string \<Rightarrow> bool \<Rightarrow> string" where
  "site_url scheme www h port p slash =
     scheme @ ''://'' @ ((if www then ''www.'' else []) @ h @ (if port then default_port scheme else [])) @
     p @ (if slash then ''/'' else [])"

definition bare_host :: "string \<Rightarrow> bool" where
  "bare_host h \<longleftrightarrow> list_all plain_char h \<and> \<not> has_prefix h ''www.''"

definition bare_path :: "string \<Rightarrow> bool" where
  "bare_path p \<longleftrightarrow> plain_path p \<and> \<not> has_suffix p ''/''"

lemma plain_char_w [simp]: "plain_char (CHR ''w'')" "plain_char (CHR ''.'')"
  by (simp_all add: plain_char_def is_alpha_def is_lower_def char_code_def)

lemma plain_list_no_colon: "list_all plain_char a \<Longrightarrow> CHR '':'' \<notin> set a"
  using plain_not(2) by (auto simp: list_all_iff)

lemma plain_host_port:
  assumes "list_all plain_char a" and "r = [] \<or> (\<exists>ds. r = CHR '':'' # ds \<and> list_all is_digit ds)"
  shows "plain_host (a @ r)"
proof -
  have n: "\<And>c. c \<in> set a \<Longrightarrow> c \<noteq> CHR '':''" using plain_list_no_colon [OF assms(1)] by blast
  have r: "takeWhile (\<lambda>c. c \<noteq> CHR '':'') r = []" "dropWhile (\<lambda>c. c \<noteq> CHR '':'') r = r"
    using assms(2) by auto
  have "before (CHR '':'') (a @ r) = a" "dropWhile (\<lambda>c. c \<noteq> CHR '':'') (a @ r) = r"
    using n r by (simp_all add: before_def takeWhile_append2 dropWhile_append2)
  then show ?thesis using assms by (auto simp: plain_host_def valid_port_def)
qed

lemma site_parse:
  assumes "scheme = ''http'' \<or> scheme = ''https''" "bare_host h" "bare_path p"
  shows "url_parse (site_url scheme www h port p slash) = Some
    \<lparr>u_Scheme = scheme, u_Opaque = [], u_Host = (if www then ''www.'' else []) @ h @ (if port then default_port scheme else []),
     u_Path = p @ (if slash then ''/'' else []), u_RawQuery = [], u_Fragment = []\<rparr>"
  unfolding site_url_def
proof (rule url_parse_plain [OF assms(1)])
  have "plain_host (((if www then ''www.'' else []) @ h) @ (if port then default_port scheme else []))"
    using assms(2) by (intro plain_host_port) (auto simp: bare_host_def default_port_def is_digit_def char_code_def)
  then show "plain_host ((if www then ''www.'' else []) @ h @ (if port then default_port scheme else []))"
    by (simp only: append_assoc)
  show "plain_path (p @ (if slash then ''/'' else []))"
    using assms(3) by (cases p) (auto simp: bare_path_def plain_path_def)
qed

lemma no_port_suffix: "CHR '':'' \<notin> set h \<Longrightarrow> \<not> has_suffix h (CHR '':'' # ds)"
  by (auto simp: has_suffix_iff)

lemma host_port_strip:
  assumes "CHR '':'' \<notin> set h" "scheme = ''http'' \<or> scheme = ''https''"
  shows "normaliseHostPort (h @ (if port then default_port scheme else [])) scheme = h"
  using assms no_port_suffix
  by (auto simp: normaliseHostPort_def default_port_def simp del: append.simps)

lemma redirect_host_site:
  assumes "bare_host h" "scheme = ''http'' \<or> scheme = ''https''"
    "u_Scheme u = scheme" "u_Host u = (if www then ''www.'' else []) @ h @ (if port then default_port scheme else [])"
  shows "redirect_host u = to_lower h"
proof -
  have "CHR '':'' \<notin> set ((if www then ''www.'' else []) @ h)"
    using assms(1) plain_list_no_colon by (auto simp: bare_host_def)
  then have "normaliseHostPort (u_Host u) (u_Scheme u) = (if www then ''www.'' else []) @ h"
    using host_port_strip assms(2-4) by (metis append_assoc)
  then show ?thesis
    using assms(1) trim_prefix_append [of "''www.''" h]
    by (auto simp: redirect_host_def bare_host_def trim_prefix_def)
qed

lemma redirect_path_site:
  assumes "bare_path p" "u_Path u = p @ (if slash then ''/'' else [])"
  shows "redirect_path u = (if p = [] then ''/'' else p)"
proof (cases "p = []")
  case False
  then obtain c q where p: "p = CHR ''/'' # c # q"
    using assms(1) by (cases p rule: list.exhaust; cases "tl p") (auto simp: bare_path_def plain_path_def has_suffix_def)
  have "trim_suffix p ''/'' = p" using assms(1) by (simp add: bare_path_def trim_suffix_def)
  then show ?thesis
    using assms p trim_suffix_append [of p "''/''"] by (auto simp: redirect_path_def Let_def)
qed (use assms in \<open>auto simp: redirect_path_def\<close>)

text \<open>A redirect counts exactly when it leads to another host or another path.  Between two
  plain URLs the scheme, a leading \<open>www.\<close>, the default port of the scheme, a final slash and
  the case of the host make no difference, and any other difference does.\<close>

theorem redirect_significant_iff:
  assumes "s1 \<in> {''http'', ''https''}" "s2 \<in> {''http'', ''https''}"
    "bare_host h1" "bare_host h2" "bare_path p1" "bare_path p2"
  shows "IsSignificantRedirect (site_url s1 w1 h1 d1 p1 t1) (site_url s2 w2 h2 d2 p2 t2) \<longleftrightarrow>
    to_lower h1 \<noteq> to_lower h2 \<or> p1 \<noteq> p2"
proof -
  have s: "s1 = ''http'' \<or> s1 = ''https''" "s2 = ''http'' \<or> s2 = ''https''" using assms by auto
  have ne: "site_url s2 w2 h2 d2 p2 t2 \<noteq> []" using s(2) by (auto simp: site_url_def)
  have root: "p \<noteq> ''/''" if "bare_path p" for p
    using that by (auto simp: bare_path_def has_suffix_def)
  show ?thesis
    using ne root [OF assms(5)] root [OF assms(6)]
    by (auto simp: IsSignificantRedirect_def site_parse [OF s(1) assms(3,5)] site_parse [OF s(2) assms(4,6)]
        redirect_host_site [OF assms(3) s(1)] redirect_host_site [OF assms(4) s(2)]
        redirect_path_site [OF assms(5)] redirect_path_site [OF assms(6)])
qed

theorem redirect_significant_iff_witness:
  "\<not> IsSignificantRedirect (site_url ''http'' True ''example.com'' False ''/a'' False)
       (site_url ''https'' False ''Example.com'' True ''/a'' True)"
proof -
  have h: "bare_host ''example.com''" "bare_host ''Example.com''"
    by (simp_all add: bare_host_def has_prefix_def plain_char_def is_alpha_def is_lower_def is_upper_def char_code_def)
  have p: "bare_path ''/a''"
    by (simp add: bare_path_def plain_path_def has_suffix_def plain_char_def is_alpha_def is_lower_def char_code_def)
  have l: "to_lower ''example.com'' = to_lower ''Example.com''" by code_simp
  show ?thesis
    using redirect_significant_iff [of "''http''" "''https''" "''example.com''" "''Example.com''" "''/a''" "''/a''"
        True False False False True True] h p l by simp
qed

section \<open>What the validation of a domain lets through\<close>

text \<open>The check against internal names looks at the end of the whole input.  With a path
  behind it the name \<open>localhost\<close> under any label is accepted, whenever the table of suffixes
  takes the last label for a suffix, and the URL built from it names the internal host.\<close>

theorem validate_domain_keeps_path:
  assumes "etld ''a.localhost/x'' = Inr e"
  shows "ValidateDomain etld ''a.localhost/x'' = None \<and>
    ValidateDomain etld ''a.localhost'' = Some (NotAllowed ''a.localhost'') \<and>
    ConstructURL ''a.localhost/x'' ''/'' = ''https://a.localhost/x/''"
  using assms
  by (simp add: ValidateDomain_def NormaliseDomain_def trim_space_def is_space_def trim_prefix_def trim_suffix_def
      has_prefix_def has_suffix_def str_contains_def is_ipv4_def is_blocked_def blockedDomains_def Let_def
      to_lower_def lower_char_def ConstructURL_def)

theorem validate_domain_keeps_path_witness:
  "ValidateDomain (\<lambda>d. Inr d) ''a.localhost/x'' = None \<and>
    ValidateDomain (\<lambda>d. Inr d) ''a.localhost'' = Some (NotAllowed ''a.localhost'') \<and>
    ConstructURL ''a.localhost/x'' ''/'' = ''https://a.localhost/x/''"
  by (rule validate_domain_keeps_path) simp

end
