(* ===== verification/Jobs_Executor.thy ===== *)
theory Jobs_Executor
  imports Util_Url "HOL-Library.Word"
begin

text \<open>
  \<open>internal/jobs/executor.go\<close> with the classification of \<open>shared.go\<close>: one crawl of a task and
  the decision what becomes of the task.  The crawler, the JSON encoder and the libraries that
  pack a page for upload are arguments.  A zero \<open>time.Time\<close> is \<open>None\<close>; the five timing columns
  of a request are one record, and the columns the upload worker stamps are left out.
\<close>

section \<open>Data\<close>

record perf_metrics =
  pf_DNSLookupTime :: int
  pf_TCPConnectionTime :: int
  pf_TLSHandshakeTime :: int
  pf_TTFB :: int
  pf_ContentTransferTime :: int

definition no_perf :: perf_metrics where
  "no_perf = \<lparr>pf_DNSLookupTime = 0, pf_TCPConnectionTime = 0, pf_TLSHandshakeTime = 0, pf_TTFB = 0,
     pf_ContentTransferTime = 0\<rparr>"

record waf_detection =
  wd_Vendor :: string
  wd_Blocked :: bool
  wd_Reason :: string

type_synonym headers = "(string \<times> string list) list"

record cache_attempt =
  ca_Attempt :: int
  ca_CacheStatus :: string
  ca_Delay :: int

text \<open>The diagnostics are only handed on to the encoder.\<close>

typedecl request_diagnostics

record crawl_result =
  cr_URL :: string
  cr_ResponseTime :: int
  cr_StatusCode :: int
  cr_CacheStatus :: string
  cr_ContentType :: string
  cr_ContentLength :: int
  cr_Headers :: headers
  cr_RedirectURL :: string
  cr_Performance :: perf_metrics
  cr_Links :: "(string \<times> string list) list"
  cr_SecondResponseTime :: int
  cr_SecondCacheStatus :: string
  cr_SecondContentLength :: int
  cr_SecondHeaders :: headers
  cr_SecondPerformance :: "perf_metrics option"
  cr_CacheCheckAttempts :: "cache_attempt list"
  cr_RequestDiagnostics :: "request_diagnostics option"
  cr_Body :: string
  cr_WAF :: "waf_detection option"

datatype task_status = Waiting | Pending | Running | Completed | Failed | Skipped

record task =
  tk_ID :: string
  tk_JobID :: string
  tk_PageID :: int
  tk_Host :: string
  tk_Path :: string
  tk_DomainName :: string
  tk_Status :: task_status
  tk_CreatedAt :: "time option"
  tk_StartedAt :: "time option"
  tk_RetryCount :: int
  tk_Error :: string
  tk_SourceType :: string
  tk_SourceURL :: string
  tk_PriorityScore :: rat
  tk_FindLinks :: bool

record html_meta =
  hm_StorageBucket :: string
  hm_StoragePath :: string
  hm_ContentType :: string
  hm_ContentEncoding :: string
  hm_SizeBytes :: int
  hm_CompressedSizeBytes :: int
  hm_SHA256 :: string
  hm_CapturedAt :: "time option"
  hm_ArchivedAt :: "time option"

definition no_html :: html_meta where
  "no_html = \<lparr>hm_StorageBucket = [], hm_StoragePath = [], hm_ContentType = [], hm_ContentEncoding = [], hm_SizeBytes = 0,
     hm_CompressedSizeBytes = 0, hm_SHA256 = [], hm_CapturedAt = None, hm_ArchivedAt = None\<rparr>"

record db_task =
  dt_ID :: string
  dt_JobID :: string
  dt_PageID :: int
  dt_Host :: string
  dt_Path :: string
  dt_Status :: task_status
  dt_CreatedAt :: "time option"
  dt_StartedAt :: "time option"
  dt_CompletedAt :: "time option"
  dt_RetryCount :: int
  dt_Error :: string
  dt_SourceType :: string
  dt_SourceURL :: string
  dt_StatusCode :: int
  dt_ResponseTime :: int
  dt_CacheStatus :: string
  dt_ContentType :: string
  dt_ContentLength :: int
  dt_Headers :: string
  dt_RedirectURL :: string
  dt_Perf :: perf_metrics
  dt_SecondResponseTime :: int
  dt_SecondCacheStatus :: string
  dt_SecondContentLength :: int
  dt_SecondHeaders :: string
  dt_SecondPerf :: perf_metrics
  dt_CacheCheckAttempts :: string
  dt_RequestDiagnostics :: string
  dt_PriorityScore :: rat
  dt_HTML :: html_meta

datatype retry_reason = Blocking | Retryable

text \<open>A decision is a retry at a time for a reason, or the permanent failure of the task.\<close>

record retry_decision =
  rd_ShouldRetry :: bool
  rd_NextRunAt :: "time option"
  rd_Reason :: "retry_reason option"
  rd_IsPermanentFailure :: bool

record html_upload =
  hu_Path :: string
  hu_ContentType :: string
  hu_UploadContentType :: string
  hu_ContentEncoding :: string
  hu_SizeBytes :: int
  hu_CompressedSizeBytes :: int
  hu_SHA256 :: string
  hu_CapturedAt :: time
  hu_Payload :: string

record task_outcome =
  to_Task :: db_task
  to_CrawlResult :: "crawl_result option"
  to_Retry :: "retry_decision option"
  to_DiscoveredLinks :: "(string \<times> string list) list"
  to_HTMLUpload :: "html_upload option"
  to_RateLimited :: bool
  to_Success :: bool

record executor_config =
  ec_MaxBlockingRetries :: int
  ec_MaxTaskRetries :: int
  ec_BaseDelayMS :: int
  ec_MaxDelayMS :: int

text \<open>What the executor calls outside its package.\<close>

record exec_lib =
  el_headers :: "headers \<Rightarrow> string option"
  el_attempts :: "cache_attempt list \<Rightarrow> string option"
  el_diagnostics :: "request_diagnostics \<Rightarrow> string option"
  el_gzip :: "string \<Rightarrow> string option"
  el_sha256 :: "string \<Rightarrow> string"
  el_media_type :: "string \<Rightarrow> string option"
  el_object_path :: "string \<Rightarrow> string \<Rightarrow> string"
  el_url_string :: "url \<Rightarrow> string"

definition envIntWithDefault :: "(string \<Rightarrow> string) \<Rightarrow> string \<Rightarrow> int \<Rightarrow> int" where
  "envIntWithDefault env key fallback =
     (let raw = trim_space (env key) in
      if raw \<noteq> [] then (case atoi raw of Some n \<Rightarrow> if n > 0 then n else fallback | None \<Rightarrow> fallback)
      else fallback)"

definition MaxTaskRetries :: int where
  "MaxTaskRetries = 5"

definition DefaultExecutorConfig :: "(string \<Rightarrow> string) \<Rightarrow> executor_config" where
  "DefaultExecutorConfig env =
     \<lparr>ec_MaxBlockingRetries = 3, ec_MaxTaskRetries = MaxTaskRetries,
      ec_BaseDelayMS = envIntWithDefault env ''GNH_RATE_LIMIT_BASE_DELAY_MS'' 50,
      ec_MaxDelayMS = envIntWithDefault env ''GNH_RATE_LIMIT_MAX_DELAY_MS'' 60000\<rparr>"

section \<open>The default concurrency of a job\<close>

definition fallbackJobConcurrency :: int where
  "fallbackJobConcurrency = 20"

definition jobDefaultConcurrency :: "(string \<Rightarrow> string) \<Rightarrow> int" where
  "jobDefaultConcurrency env =
     (let raw = trim_space (env ''GNH_MAX_WORKERS'') in
      if raw \<noteq> [] then (case atoi raw of Some n \<Rightarrow> if n > 0 then n else fallbackJobConcurrency
                                       | None \<Rightarrow> fallbackJobConcurrency)
      else fallbackJobConcurrency)"

section \<open>Classification of errors\<close>

definition mentions :: "string list \<Rightarrow> string \<Rightarrow> bool" where
  "mentions words msg = list_ex (str_contains (to_lower msg)) words"

definition network_words :: "string list" where
  "network_words = [''timeout'', ''deadline exceeded'', ''connection'', ''network'', ''temporary'',
     ''reset by peer'', ''broken pipe'', ''unexpected eof'']"

definition server_words :: "string list" where
  "server_words = [''internal server error'', ''bad gateway'', ''gateway timeout'', ''502'', ''504'', ''500'']"

definition isRetryableError :: "string option \<Rightarrow> bool" where
  "isRetryableError err = (case err of None \<Rightarrow> False | Some e \<Rightarrow> mentions network_words e \<or> mentions server_words e)"

definition blocking_words :: "string list" where
  "blocking_words = [''403'', ''forbidden'', ''429'', ''too many requests'', ''rate limit'', ''503'',
     ''service unavailable'']"

definition isBlockingError :: "string option \<Rightarrow> bool" where
  "isBlockingError err = (case err of None \<Rightarrow> False | Some e \<Rightarrow> mentions blocking_words e)"

definition rate_limit_words :: "string list" where
  "rate_limit_words = [''429'', ''too many requests'', ''rate limit'', ''403'', ''503'']"

definition IsRateLimitError :: "string option \<Rightarrow> bool" where
  "IsRateLimitError err = (case err of None \<Rightarrow> False | Some e \<Rightarrow> mentions rate_limit_words e)"

section \<open>Delays\<close>

text \<open>\<open>time.Duration\<close> is a signed 64-bit count of nanoseconds; the product and the shift wrap
  round, a negative shift count panics (\<open>None\<close>).\<close>

type_synonym duration = "64 word"

definition millis :: "int \<Rightarrow> duration" where
  "millis n = word_of_int n * 1000000"

definition blockingBackoff :: "executor_config \<Rightarrow> int \<Rightarrow> int option" where
  "blockingBackoff cfg retryCount =
     (if retryCount < 0 then None
      else let base = millis (ec_BaseDelayMS cfg);
               delay = base * push_bit (nat retryCount) 1;
               mx = millis (ec_MaxDelayMS cfg)
           in Some (if sint delay > sint mx then sint mx else sint delay))"

definition retryableBackoff :: "int \<Rightarrow> int" where
  "retryableBackoff retryCount =
     (let delay = word_of_int retryCount * word_of_int second :: duration
      in if sint delay > 30 * second then 30 * second else sint delay)"

section \<open>From a task and a result to a row\<close>

definition ConstructTaskURL :: "exec_lib \<Rightarrow> string \<Rightarrow> string \<Rightarrow> string \<Rightarrow> string" where
  "ConstructTaskURL L path host domainName =
     (if has_prefix path ''http://'' \<or> has_prefix path ''https://'' then NormaliseURL (el_url_string L) path
      else if host \<noteq> [] then ConstructURL host path
      else if domainName \<noteq> [] then ConstructURL domainName path
      else NormaliseURL (el_url_string L) path)"

definition taskToDBTask :: "task \<Rightarrow> db_task" where
  "taskToDBTask t =
     \<lparr>dt_ID = tk_ID t, dt_JobID = tk_JobID t, dt_PageID = tk_PageID t, dt_Host = tk_Host t, dt_Path = tk_Path t,
      dt_Status = tk_Status t, dt_CreatedAt = tk_CreatedAt t, dt_StartedAt = tk_StartedAt t,
      dt_CompletedAt = None, dt_RetryCount = tk_RetryCount t, dt_Error = tk_Error t,
      dt_SourceType = tk_SourceType t, dt_SourceURL = tk_SourceURL t,
      dt_StatusCode = 0, dt_ResponseTime = 0, dt_CacheStatus = [], dt_ContentType = [], dt_ContentLength = 0,
      dt_Headers = [], dt_RedirectURL = [], dt_Perf = no_perf, dt_SecondResponseTime = 0,
      dt_SecondCacheStatus = [], dt_SecondContentLength = 0, dt_SecondHeaders = [], dt_SecondPerf = no_perf,
      dt_CacheCheckAttempts = [], dt_RequestDiagnostics = [], dt_PriorityScore = tk_PriorityScore t, dt_HTML = no_html\<rparr>"

definition populateResponseFields :: "db_task \<Rightarrow> crawl_result \<Rightarrow> db_task" where
  "populateResponseFields t r =
     (let t1 = t\<lparr>dt_StatusCode := cr_StatusCode r, dt_ResponseTime := cr_ResponseTime r,
                 dt_CacheStatus := cr_CacheStatus r, dt_ContentType := cr_ContentType r,
                 dt_ContentLength := cr_ContentLength r\<rparr>;
          t2 = (if IsSignificantRedirect (cr_URL r) (cr_RedirectURL r)
                then t1\<lparr>dt_RedirectURL := cr_RedirectURL r\<rparr> else t1);
          t3 = t2\<lparr>dt_Perf := cr_Performance r, dt_SecondResponseTime := cr_SecondResponseTime r,
                  dt_SecondCacheStatus := cr_SecondCacheStatus r,
                  dt_SecondContentLength := cr_SecondContentLength r\<rparr>
      in case cr_SecondPerformance r of Some pf \<Rightarrow> t3\<lparr>dt_SecondPerf := pf\<rparr> | None \<Rightarrow> t3)"

definition populateRequestDiagnostics :: "exec_lib \<Rightarrow> db_task \<Rightarrow> crawl_result option \<Rightarrow> db_task" where
  "populateRequestDiagnostics L t res =
     (case Option.bind res cr_RequestDiagnostics of
        None \<Rightarrow> t\<lparr>dt_RequestDiagnostics := ''{}''\<rparr>
      | Some d \<Rightarrow> (case el_diagnostics L d of
          Some b \<Rightarrow> t\<lparr>dt_RequestDiagnostics := b\<rparr> | None \<Rightarrow> t\<lparr>dt_RequestDiagnostics := ''{}''\<rparr>))"

definition encoded :: "('a list \<Rightarrow> string option) \<Rightarrow> 'a list \<Rightarrow> string \<Rightarrow> string" where
  "encoded enc xs dflt = (if xs = [] then dflt else case enc xs of Some b \<Rightarrow> b | None \<Rightarrow> dflt)"

definition populateJSONBFields :: "exec_lib \<Rightarrow> db_task \<Rightarrow> crawl_result \<Rightarrow> db_task" where
  "populateJSONBFields L t r =
     populateRequestDiagnostics L
       (t\<lparr>dt_Headers := encoded (el_headers L) (cr_Headers r) ''{}'',
          dt_SecondHeaders := encoded (el_headers L) (cr_SecondHeaders r) ''{}'',
          dt_CacheCheckAttempts := encoded (el_attempts L) (cr_CacheCheckAttempts r) ''[]''\<rparr>) (Some r)"

definition canonicalHTMLContentType :: "exec_lib \<Rightarrow> string \<Rightarrow> string" where
  "canonicalHTMLContentType L ct =
     (let t = trim_space ct in
      if t = [] then []
      else case el_media_type L t of None \<Rightarrow> to_lower t | Some m \<Rightarrow> to_lower m)"

definition normalisedHTMLContentType :: "string \<Rightarrow> string" where
  "normalisedHTMLContentType ct = (let t = trim_space ct in if t = [] then ''text/html'' else to_lower t)"

definition maxHTMLUploadBodyBytes :: nat where
  "maxHTMLUploadBodyBytes = 8 * 1024 * 1024"

definition buildHTMLUpload :: "exec_lib \<Rightarrow> db_task \<Rightarrow> crawl_result \<Rightarrow> time \<Rightarrow> html_upload option" where
  "buildHTMLUpload L t r capturedAt =
     (if cr_Body r = [] then None
      else let m = canonicalHTMLContentType L (cr_ContentType r) in
        if m \<noteq> ''text/html'' \<and> m \<noteq> ''application/xhtml+xml'' then None
        else if maxHTMLUploadBodyBytes < length (cr_Body r) then None
        else case el_gzip L (cr_Body r) of
          None \<Rightarrow> None
        | Some payload \<Rightarrow> Some
            \<lparr>hu_Path = el_object_path L (dt_JobID t) (dt_ID t),
             hu_ContentType = normalisedHTMLContentType (cr_ContentType r),
             hu_UploadContentType = (if m = [] then ''text/html'' else m),
             hu_ContentEncoding = ''gzip'',
             hu_SizeBytes = int (length (cr_Body r)),
             hu_CompressedSizeBytes = int (length payload),
             hu_SHA256 = el_sha256 L (cr_Body r),
             hu_CapturedAt = capturedAt, hu_Payload = payload\<rparr>)"

section \<open>Outcomes\<close>

definition buildSuccessOutcome :: "exec_lib \<Rightarrow> time \<Rightarrow> task \<Rightarrow> crawl_result \<Rightarrow> task_outcome" where
  "buildSuccessOutcome L now t r =
     (let d0 = (taskToDBTask t)\<lparr>dt_Status := Completed, dt_CompletedAt := Some now, dt_Error := []\<rparr>;
          d = populateJSONBFields L (populateResponseFields d0 r) r
      in \<lparr>to_Task = d, to_CrawlResult = Some r, to_Retry = None, to_DiscoveredLinks = cr_Links r,
          to_HTMLUpload = buildHTMLUpload L d r now, to_RateLimited = False, to_Success = True\<rparr>)"

definition error_row :: "exec_lib \<Rightarrow> task \<Rightarrow> crawl_result option \<Rightarrow> db_task" where
  "error_row L t res =
     (case res of
        Some r \<Rightarrow> populateJSONBFields L (populateResponseFields (taskToDBTask t) r) r
      | None \<Rightarrow> populateRequestDiagnostics L
          ((taskToDBTask t)\<lparr>dt_Headers := ''{}'', dt_SecondHeaders := ''{}'', dt_CacheCheckAttempts := ''[]''\<rparr>) None)"

definition retry_row :: "db_task \<Rightarrow> string \<Rightarrow> db_task" where
  "retry_row d err = d\<lparr>dt_RetryCount := dt_RetryCount d + 1, dt_Error := err, dt_Status := Waiting,
     dt_StartedAt := None\<rparr>"

definition failed_row :: "time \<Rightarrow> db_task \<Rightarrow> string \<Rightarrow> db_task" where
  "failed_row now d err = d\<lparr>dt_Status := Failed, dt_CompletedAt := Some now, dt_Error := err\<rparr>"

definition retry_at :: "time \<Rightarrow> int \<Rightarrow> retry_reason \<Rightarrow> retry_decision" where
  "retry_at now backoff reason = \<lparr>rd_ShouldRetry = True, rd_NextRunAt = Some (now + backoff),
     rd_Reason = Some reason, rd_IsPermanentFailure = False\<rparr>"

definition permanent_failure :: retry_decision where
  "permanent_failure = \<lparr>rd_ShouldRetry = False, rd_NextRunAt = None, rd_Reason = None, rd_IsPermanentFailure = True\<rparr>"

text \<open>\<open>None\<close> is the panic of a negative shift.\<close>

definition buildErrorOutcome ::
  "exec_lib \<Rightarrow> executor_config \<Rightarrow> time \<Rightarrow> task \<Rightarrow> crawl_result option \<Rightarrow> string \<Rightarrow> bool \<Rightarrow> task_outcome option" where
  "buildErrorOutcome L cfg now t res err rateLimited =
     (let d = error_row L t res;
          out = (\<lambda>row dec. \<lparr>to_Task = row, to_CrawlResult = res, to_Retry = Some dec, to_DiscoveredLinks = [],
                   to_HTMLUpload = None, to_RateLimited = rateLimited, to_Success = False\<rparr>);
          isBlocking = (rateLimited \<or> isBlockingError (Some err));
          isRetryable = isRetryableError (Some err);
          d' = retry_row d err
      in if isBlocking then
           (if dt_RetryCount d < ec_MaxBlockingRetries cfg
            then map_option (\<lambda>b. out d' (retry_at now b Blocking)) (blockingBackoff cfg (dt_RetryCount d'))
            else Some (out (failed_row now d err) permanent_failure))
         else if isRetryable \<and> dt_RetryCount d < ec_MaxTaskRetries cfg
         then Some (out d' (retry_at now (retryableBackoff (dt_RetryCount d')) Retryable))
         else Some (out (failed_row now d err) permanent_failure))"

definition nil_result_error :: "string \<Rightarrow> string" where
  "nil_result_error url = ''crawler returned nil result for '' @ url"

definition rate_limited_response :: "crawl_result option \<Rightarrow> string \<Rightarrow> bool" where
  "rate_limited_response res err \<longleftrightarrow>
     (case res of Some r \<Rightarrow> cr_StatusCode r \<in> {429, 403, 503} | None \<Rightarrow> False) \<or> IsRateLimitError (Some err)"

text \<open>\<open>warm\<close> is the crawler: a result or none, and an error or none.\<close>

definition Execute ::
  "exec_lib \<Rightarrow> executor_config \<Rightarrow> (string \<Rightarrow> bool \<Rightarrow> 'c \<Rightarrow> (crawl_result option \<times> string option) \<times> 'c) \<Rightarrow>
     time \<Rightarrow> task \<Rightarrow> 'c \<Rightarrow> task_outcome option \<times> 'c" where
  "Execute L cfg warm now t w =
     (let url = ConstructTaskURL L (tk_Path t) (tk_Host t) (tk_DomainName t) in
      case warm url (tk_FindLinks t) w of
        ((res, Some err), w1) \<Rightarrow> (buildErrorOutcome L cfg now t res err (rate_limited_response res err), w1)
      | ((None, None), w1) \<Rightarrow> (buildErrorOutcome L cfg now t None (nil_result_error url) False, w1)
      | ((Some r, None), w1) \<Rightarrow> (Some (buildSuccessOutcome L now t r), w1))"

definition classifyTaskOutcome :: "task_outcome \<Rightarrow> string \<times> string" where
  "classifyTaskOutcome out =
     (let retries = (case to_Retry out of Some d \<Rightarrow> rd_ShouldRetry d | None \<Rightarrow> False) in
      if to_Success out then (''success'', ''ok'')
      else if to_RateLimited out then
        (if retries then (''retry_scheduled'', ''blocking'') else (''failed'', ''blocking_exhausted''))
      else if retries then (''retry_scheduled'', ''retryable'') else (''failed'', ''non_retryable''))"

section \<open>What an outcome says\<close>

definition same_task :: "task \<Rightarrow> db_task \<Rightarrow> bool" where
  "same_task t d \<longleftrightarrow> dt_ID d = tk_ID t \<and> dt_JobID d = tk_JobID t \<and> dt_PageID d = tk_PageID t \<and>
     dt_Host d = tk_Host t \<and> dt_Path d = tk_Path t \<and> dt_CreatedAt d = tk_CreatedAt t \<and>
     dt_SourceType d = tk_SourceType t \<and> dt_SourceURL d = tk_SourceURL t \<and>
     dt_PriorityScore d = tk_PriorityScore t"

definition completed_outcome :: "time \<Rightarrow> task \<Rightarrow> task_outcome \<Rightarrow> bool" where
  "completed_outcome now t out \<longleftrightarrow>
     to_Success out \<and> to_Retry out = None \<and> dt_Status (to_Task out) = Completed \<and>
     dt_CompletedAt (to_Task out) = Some now \<and> dt_Error (to_Task out) = [] \<and>
     dt_RetryCount (to_Task out) = tk_RetryCount t"

definition retry_outcome :: "executor_config \<Rightarrow> time \<Rightarrow> task \<Rightarrow> task_outcome \<Rightarrow> bool" where
  "retry_outcome cfg now t out \<longleftrightarrow>
     \<not> to_Success out \<and> dt_Status (to_Task out) = Waiting \<and> dt_StartedAt (to_Task out) = None \<and>
     dt_CompletedAt (to_Task out) = None \<and> dt_RetryCount (to_Task out) = tk_RetryCount t + 1 \<and>
     ((\<exists>b. blockingBackoff cfg (tk_RetryCount t + 1) = Some b \<and>
           to_Retry out = Some (retry_at now b Blocking) \<and> tk_RetryCount t < ec_MaxBlockingRetries cfg) \<or>
      to_Retry out = Some (retry_at now (retryableBackoff (tk_RetryCount t + 1)) Retryable) \<and>
           tk_RetryCount t < ec_MaxTaskRetries cfg)"

definition failed_outcome :: "time \<Rightarrow> task \<Rightarrow> task_outcome \<Rightarrow> bool" where
  "failed_outcome now t out \<longleftrightarrow>
     \<not> to_Success out \<and> to_Retry out = Some permanent_failure \<and> dt_Status (to_Task out) = Failed \<and>
     dt_CompletedAt (to_Task out) = Some now \<and> dt_RetryCount (to_Task out) = tk_RetryCount t"

named_theorems task_row \<open>which fields the steps on a row leave alone\<close>

lemma populate_diag_fields [task_row]:
  "same_task t (populateRequestDiagnostics L d res) = same_task t d"
  "dt_Status (populateRequestDiagnostics L d res) = dt_Status d"
  "dt_CompletedAt (populateRequestDiagnostics L d res) = dt_CompletedAt d"
  "dt_Error (populateRequestDiagnostics L d res) = dt_Error d"
  "dt_RetryCount (populateRequestDiagnostics L d res) = dt_RetryCount d"
  by (simp_all add: populateRequestDiagnostics_def same_task_def split: option.splits)

lemma populate_json_fields [task_row]:
  "same_task t (populateJSONBFields L d r) = same_task t d"
  "dt_Status (populateJSONBFields L d r) = dt_Status d"
  "dt_CompletedAt (populateJSONBFields L d r) = dt_CompletedAt d"
  "dt_Error (populateJSONBFields L d r) = dt_Error d"
  "dt_RetryCount (populateJSONBFields L d r) = dt_RetryCount d"
  by (simp_all add: populateJSONBFields_def task_row) (simp add: same_task_def)

lemma populate_response_fields [task_row]:
  "same_task t (populateResponseFields d r) = same_task t d"
  "dt_Status (populateResponseFields d r) = dt_Status d"
  "dt_CompletedAt (populateResponseFields d r) = dt_CompletedAt d"
  "dt_Error (populateResponseFields d r) = dt_Error d"
  "dt_RetryCount (populateResponseFields d r) = dt_RetryCount d"
  by (simp_all add: populateResponseFields_def same_task_def Let_def split: option.splits)

lemma task_to_row [task_row]:
  "same_task t (taskToDBTask t)" "dt_RetryCount (taskToDBTask t) = tk_RetryCount t"
  "dt_CompletedAt (taskToDBTask t) = None"
  by (simp_all add: taskToDBTask_def same_task_def)

lemma error_row_fields [task_row]:
  "same_task t (error_row L t res)" "dt_RetryCount (error_row L t res) = tk_RetryCount t"
  "dt_CompletedAt (error_row L t res) = None"
  by (simp_all add: error_row_def task_row split: option.splits) (simp add: taskToDBTask_def same_task_def)+

lemma retry_failed_rows [task_row]:
  "same_task t (retry_row d err) = same_task t d" "same_task t (failed_row now d err) = same_task t d"
  by (simp_all add: same_task_def retry_row_def failed_row_def)

lemma success_outcome:
  "completed_outcome now t (buildSuccessOutcome L now t r)"
  "same_task t (to_Task (buildSuccessOutcome L now t r))"
  by (simp_all add: completed_outcome_def buildSuccessOutcome_def Let_def task_row)
    (simp_all add: same_task_def taskToDBTask_def)

lemma error_outcome:
  assumes "buildErrorOutcome L cfg now t res err rl = Some out"
  shows "same_task t (to_Task out) \<and> to_RateLimited out = rl \<and>
    (retry_outcome cfg now t out \<or> failed_outcome now t out)"
proof -
  define d where "d = error_row L t res"
  have d: "same_task t d" "dt_RetryCount d = tk_RetryCount t" "dt_CompletedAt d = None"
    by (simp_all add: d_def task_row)
  have r: "dt_RetryCount (retry_row d err) = tk_RetryCount t + 1" "dt_Status (retry_row d err) = Waiting"
    "dt_StartedAt (retry_row d err) = None" "dt_CompletedAt (retry_row d err) = None"
    "dt_Status (failed_row now d err) = Failed" "dt_CompletedAt (failed_row now d err) = Some now"
    "dt_RetryCount (failed_row now d err) = tk_RetryCount t"
    using d by (simp_all add: retry_row_def failed_row_def)
  show ?thesis
    using assms d r unfolding buildErrorOutcome_def Let_def d_def [symmetric]
    by (auto simp: retry_outcome_def failed_outcome_def task_row split: if_splits)
qed

text \<open>C8: Every crawl of a task is decided in one of three ways, and the row written says which.
  Success completes the task with no error and no retry; a retry puts it back to waiting with
  its count raised by one, below the limit of its class, at a time the backoff of the class
  gives; a permanent failure fails it and leaves the count.  The identity of the task is kept.\<close>

theorem execute_outcome_sound:
  assumes "Execute L cfg warm now t w = (Some out, w')"
  shows "same_task t (to_Task out) \<and>
    (completed_outcome now t out \<or> retry_outcome cfg now t out \<or> failed_outcome now t out)"
proof -
  obtain res err w1 where q: "warm (ConstructTaskURL L (tk_Path t) (tk_Host t) (tk_DomainName t)) (tk_FindLinks t) w
      = ((res, err), w1)" by (metis surj_pair)
  show ?thesis
  proof (cases "res = None \<or> err \<noteq> None")
    case True
    then obtain r e rl where "buildErrorOutcome L cfg now t r e rl = Some out"
      using assms q by (cases err; cases res) (auto simp: Execute_def Let_def)
    then show ?thesis using error_outcome by blast
  next
    case False
    then obtain r where "out = buildSuccessOutcome L now t r"
      using assms q by (auto simp: Execute_def Let_def)
    then show ?thesis using success_outcome by simp
  qed
qed

definition no_lib :: exec_lib where
  "no_lib = \<lparr>el_headers = \<lambda>_. None, el_attempts = \<lambda>_. None, el_diagnostics = \<lambda>_. None, el_gzip = \<lambda>_. None,
     el_sha256 = \<lambda>_. [], el_media_type = \<lambda>_. None, el_object_path = \<lambda>j i. j @ ''/'' @ i, el_url_string = \<lambda>_. []\<rparr>"

definition std_config :: executor_config where
  "std_config = DefaultExecutorConfig (\<lambda>_. [])"

definition example_task :: task where
  "example_task = \<lparr>tk_ID = ''t'', tk_JobID = ''j'', tk_PageID = 1, tk_Host = ''h'', tk_Path = ''/p'',
     tk_DomainName = ''h'', tk_Status = Running, tk_CreatedAt = Some 0, tk_StartedAt = Some 1, tk_RetryCount = 0,
     tk_Error = [], tk_SourceType = [], tk_SourceURL = [], tk_PriorityScore = 1, tk_FindLinks = False\<rparr>"

lemma std_config_simps [simp]:
  "ec_MaxBlockingRetries std_config = 3" "ec_MaxTaskRetries std_config = 5"
  "ec_BaseDelayMS std_config = 50" "ec_MaxDelayMS std_config = 60000"
  by (simp_all add: std_config_def DefaultExecutorConfig_def envIntWithDefault_def MaxTaskRetries_def
      trim_space_def Let_def)

theorem execute_outcome_sound_witness:
  "\<exists>out. Execute no_lib std_config (\<lambda>u f (n::nat). ((None, Some ''forbidden''), Suc n)) 7 example_task 0 = (Some out, 1) \<and>
     same_task example_task (to_Task out) \<and> retry_outcome std_config 7 example_task out"
proof -
  let ?w = "\<lambda>u f (n::nat). ((None, Some ''forbidden''), Suc n)"
  have b: "isBlockingError (Some ''forbidden'')" by code_simp
  obtain out where o: "Execute no_lib std_config ?w 7 example_task 0 = (Some out, 1)" "to_Retry out \<noteq> Some permanent_failure"
    "\<not> to_Success out"
    using b by (auto simp: Execute_def buildErrorOutcome_def Let_def task_row example_task_def retry_row_def
        blockingBackoff_def retry_at_def permanent_failure_def)
  then show ?thesis
    using execute_outcome_sound [OF o(1)] by (auto simp: completed_outcome_def failed_outcome_def)
qed

section \<open>Retries end\<close>

definition retried :: "task \<Rightarrow> task_outcome \<Rightarrow> task" where
  "retried t out = t\<lparr>tk_RetryCount := dt_RetryCount (to_Task out), tk_Error := dt_Error (to_Task out)\<rparr>"

definition retries :: "task_outcome \<Rightarrow> bool" where
  "retries out \<longleftrightarrow> (case to_Retry out of Some d \<Rightarrow> rd_ShouldRetry d | None \<Rightarrow> False)"

text \<open>A task crawled at the given times until an attempt is not followed by a retry; \<open>None\<close>
  when the times run out, or on the panic of a shift.\<close>

fun run_task ::
  "exec_lib \<Rightarrow> executor_config \<Rightarrow> (string \<Rightarrow> bool \<Rightarrow> 'c \<Rightarrow> (crawl_result option \<times> string option) \<times> 'c) \<Rightarrow>
     time list \<Rightarrow> task \<Rightarrow> 'c \<Rightarrow> (task_outcome \<times> 'c) option" where
  "run_task L cfg warm [] t w = None"
| "run_task L cfg warm (now # ts) t w =
     (case Execute L cfg warm now t w of
        (None, _) \<Rightarrow> None
      | (Some out, w1) \<Rightarrow> if retries out then run_task L cfg warm ts (retried t out) w1 else Some (out, w1))"

definition retry_limit :: "executor_config \<Rightarrow> int" where
  "retry_limit cfg = max (ec_MaxBlockingRetries cfg) (ec_MaxTaskRetries cfg)"

lemma blocking_backoff_some: "0 \<le> n \<Longrightarrow> \<exists>b. blockingBackoff cfg n = Some b"
  by (simp add: blockingBackoff_def Let_def)

lemma execute_returns:
  assumes "0 \<le> tk_RetryCount t"
  shows "\<exists>out w'. Execute L cfg warm now t w = (Some out, w')"
proof -
  have e: "\<exists>out. buildErrorOutcome L cfg now t r e rl = Some out" for r e rl
    using assms blocking_backoff_some [of "tk_RetryCount t + 1" cfg]
    by (auto simp: buildErrorOutcome_def Let_def retry_row_def task_row)
  obtain res err w1 where q: "warm (ConstructTaskURL L (tk_Path t) (tk_Host t) (tk_DomainName t)) (tk_FindLinks t) w
      = ((res, err), w1)" by (metis surj_pair)
  show ?thesis
    using e q by (cases err; cases res) (auto simp: Execute_def Let_def)
qed

lemma run_task_ends:
  assumes "0 \<le> tk_RetryCount t" and "retry_limit cfg < tk_RetryCount t + int (length ts)" and "ts \<noteq> []"
  shows "\<exists>out w'. run_task L cfg warm ts t w = Some (out, w') \<and> \<not> retries out \<and> same_task t (to_Task out) \<and>
    dt_RetryCount (to_Task out) \<le> max (tk_RetryCount t) (retry_limit cfg)"
  using assms
proof (induction ts arbitrary: t w)
  case (Cons now ts)
  obtain out w1 where x: "Execute L cfg warm now t w = (Some out, w1)"
    using execute_returns [OF Cons.prems(1), of L cfg warm now w] by (elim exE)
  note o = execute_outcome_sound [OF x]
  show ?case
  proof (cases "retries out")
    case True
    then have r: "retry_outcome cfg now t out"
      using o by (auto simp: retries_def completed_outcome_def failed_outcome_def permanent_failure_def)
    define t' where "t' = retried t out"
    have c: "tk_RetryCount t' = tk_RetryCount t + 1" "tk_RetryCount t < retry_limit cfg"
      using r by (auto simp: t'_def retried_def retry_outcome_def retry_limit_def)
    have "ts \<noteq> []" using c Cons.prems(2) by auto
    then obtain out' w' where "run_task L cfg warm ts t' w1 = Some (out', w')" "\<not> retries out'"
      "same_task t' (to_Task out')" "dt_RetryCount (to_Task out') \<le> max (tk_RetryCount t') (retry_limit cfg)"
      using Cons.IH [of t' w1] c Cons.prems by auto
    then show ?thesis using x True c by (auto simp: t'_def retried_def same_task_def)
  next
    case False
    then have "dt_RetryCount (to_Task out) = tk_RetryCount t"
      using o by (auto simp: completed_outcome_def failed_outcome_def retry_outcome_def retries_def retry_at_def)
    then show ?thesis using x False o by auto
  qed
qed simp

text \<open>C9: No task is retried for ever.  Whatever the crawler answers, a task that starts with a
  count \<open>c\<close> is, after at most \<open>max MaxBlockingRetries MaxTaskRetries - c + 1\<close> crawls, completed or
  failed for good, and its count has not passed the larger limit.\<close>

theorem retries_terminate:
  assumes "0 \<le> tk_RetryCount t" and "tk_RetryCount t \<le> retry_limit cfg"
    and "int (length ts) = retry_limit cfg - tk_RetryCount t + 1"
  shows "\<exists>out w'. run_task L cfg warm ts t w = Some (out, w') \<and> same_task t (to_Task out) \<and>
    dt_Status (to_Task out) \<in> {Completed, Failed} \<and> dt_RetryCount (to_Task out) \<le> retry_limit cfg"
proof -
  have ne: "ts \<noteq> []" using assms by auto
  have fin: "dt_Status (to_Task out) \<in> {Completed, Failed}"
    if "run_task L cfg warm ts t w = Some (out, w')" for ts t w out w'
    using that
  proof (induction L cfg warm ts t w rule: run_task.induct)
    case (2 L cfg warm now ts t w)
    then show ?case
      using execute_outcome_sound [of L cfg warm now t w]
      by (auto simp: completed_outcome_def failed_outcome_def retry_outcome_def retries_def retry_at_def
          split: prod.splits option.splits if_splits)
  qed simp
  show ?thesis
    using run_task_ends [OF assms(1) _ ne, of cfg L warm w] assms(2,3) fin by fastforce
qed

theorem retries_terminate_witness:
  "\<exists>out w'. run_task no_lib std_config (\<lambda>u f (n::nat). ((None, Some ''timeout''), Suc n)) [0, 1, 2, 3, 4, 5] example_task 0
      = Some (out, w') \<and> same_task example_task (to_Task out) \<and>
    dt_Status (to_Task out) \<in> {Completed, Failed} \<and> dt_RetryCount (to_Task out) \<le> 5"
  using retries_terminate [of example_task std_config "[0, 1, 2, 3, 4, 5]" no_lib
      "\<lambda>u f (n::nat). ((None, Some ''timeout''), Suc n)" 0]
  by (simp add: example_task_def retry_limit_def)

section \<open>Delays\<close>

lemma sint_small: "- (2 ^ 63) \<le> x \<Longrightarrow> x < 2 ^ 63 \<Longrightarrow> sint (word_of_int x :: duration) = x"
  by transfer (simp add: signed_take_bit_int_eq_self)

lemma millis_word: "millis n = word_of_int (n * 1000000)"
  by (simp add: millis_def)

lemma shifted: "word_of_int x * push_bit n (1 :: duration) = word_of_int (x * 2 ^ n)"
  by (simp add: push_bit_eq_mult)

text \<open>The backoff of a blocked task never passes the configured maximum; and while the
  shifted base fits 64 bits it is the smaller of base times \<open>2^n\<close> and the maximum.\<close>

theorem blocking_backoff_exact:
  assumes "0 \<le> n" and "0 < ec_MaxDelayMS cfg" and "ec_MaxDelayMS cfg * 1000000 < 2 ^ 63"
  shows "(\<exists>b. blockingBackoff cfg n = Some b \<and> b \<le> ec_MaxDelayMS cfg * 1000000) \<and>
    (0 < ec_BaseDelayMS cfg \<and> ec_BaseDelayMS cfg * 1000000 * 2 ^ nat n < 2 ^ 63 \<longrightarrow>
      blockingBackoff cfg n = Some (min (ec_BaseDelayMS cfg * 1000000 * 2 ^ nat n) (ec_MaxDelayMS cfg * 1000000)))"
proof -
  have m: "sint (millis (ec_MaxDelayMS cfg)) = ec_MaxDelayMS cfg * 1000000"
    unfolding millis_word using assms by (intro sint_small) simp_all
  have b: "sint (millis (ec_BaseDelayMS cfg) * push_bit (nat n) 1) = ec_BaseDelayMS cfg * 1000000 * 2 ^ nat n"
    if "0 < ec_BaseDelayMS cfg" "ec_BaseDelayMS cfg * 1000000 * 2 ^ nat n < 2 ^ 63"
  proof -
    have "(0::int) \<le> ec_BaseDelayMS cfg * 1000000 * 2 ^ nat n" using that by simp
    then have "- (2 ^ 63) \<le> ec_BaseDelayMS cfg * 1000000 * 2 ^ nat n"
      by (rule order_trans [rotated]) simp
    then show ?thesis unfolding millis_word shifted using that(2) by (rule sint_small)
  qed
  show ?thesis using assms(1) m b by (auto simp: blockingBackoff_def Let_def min_def)
qed

theorem blocking_backoff_exact_witness:
  "blockingBackoff std_config 3 = Some (400 * 1000000) \<and> blockingBackoff std_config 12 = Some (60000 * 1000000)"
  using blocking_backoff_exact [of 3 std_config] blocking_backoff_exact [of 12 std_config] by simp

section \<open>The class of an error\<close>

lemma contains_append: "str_contains b p \<Longrightarrow> str_contains (a @ b) p"
proof (induction a)
  case (Cons c a)
  then show ?case by (auto simp: str_contains_def)
qed simp

lemma to_lower_append: "to_lower (a @ b) = to_lower a @ to_lower b"
  by (simp add: to_lower_def)

lemma mentions_append: "mentions words b \<Longrightarrow> mentions words (a @ b)"
  using contains_append by (auto simp: mentions_def list_ex_iff to_lower_append)

text \<open>A failure is put in its class by searching its text, and the text holds the URL.  When
  the crawler returns neither result nor error, a URL with a word such as \<open>500\<close> in it is
  retried, while the same failure of a URL without one is final at once.\<close>

theorem nil_result_classed_by_url:
  assumes "warm (ConstructTaskURL L (tk_Path t) (tk_Host t) (tk_DomainName t)) (tk_FindLinks t) w = ((None, None), w1)"
    and "0 \<le> tk_RetryCount t" and "tk_RetryCount t < ec_MaxTaskRetries cfg" and "tk_RetryCount t < ec_MaxBlockingRetries cfg"
  shows "\<exists>out. Execute L cfg warm now t w = (Some out, w1) \<and>
    (let u = nil_result_error (ConstructTaskURL L (tk_Path t) (tk_Host t) (tk_DomainName t)) in
     retry_outcome cfg now t out = mentions (blocking_words @ network_words @ server_words) u \<and>
     failed_outcome now t out = (\<not> mentions (blocking_words @ network_words @ server_words) u))"
proof -
  let ?u = "nil_result_error (ConstructTaskURL L (tk_Path t) (tk_Host t) (tk_DomainName t))"
  obtain out w' where x: "Execute L cfg warm now t w = (Some out, w')"
    using execute_returns [OF assms(2), of L cfg warm now w] by (elim exE)
  then have b: "buildErrorOutcome L cfg now t None ?u False = Some out" "w' = w1"
    using assms(1) by (simp_all add: Execute_def Let_def)
  have m: "mentions (blocking_words @ network_words @ server_words) ?u =
      (isBlockingError (Some ?u) \<or> isRetryableError (Some ?u))"
    by (auto simp: isBlockingError_def isRetryableError_def mentions_def)
  have one: "retries out = (isBlockingError (Some ?u) \<or> isRetryableError (Some ?u))"
    using b(1) assms(3,4)
    by (auto simp: buildErrorOutcome_def Let_def task_row retries_def retry_at_def permanent_failure_def split: if_splits)
  have "retry_outcome cfg now t out = retries out \<and> failed_outcome now t out = (\<not> retries out)"
    using error_outcome [OF b(1)]
    by (auto simp: retry_outcome_def failed_outcome_def retries_def retry_at_def permanent_failure_def)
  then show ?thesis using x b(2) m one by (simp add: Let_def)
qed

theorem nil_result_classed_by_url_witness:
  "\<exists>out. Execute no_lib std_config (\<lambda>u f w. ((None, None), w)) 7 (example_task\<lparr>tk_Path := ''/top-500''\<rparr>) () = (Some out, ()) \<and>
     retry_outcome std_config 7 (example_task\<lparr>tk_Path := ''/top-500''\<rparr>) out"
proof -
  have m: "mentions (blocking_words @ network_words @ server_words)
      (nil_result_error (ConstructTaskURL no_lib ''/top-500'' ''h'' ''h''))" by code_simp
  show ?thesis
    using nil_result_classed_by_url [of "\<lambda>u f w. ((None, None), w)" no_lib "example_task\<lparr>tk_Path := ''/top-500''\<rparr>"
        "()" "()" std_config 7] m
    by (auto simp: example_task_def Let_def)
qed

end
