(* ===== verification/Crawler_Robots.thy ===== *)
theory Crawler_Robots
  imports Go_Prelude "HOL-Library.Sublist"
begin

text \<open>
  \<open>internal/crawler/robots.go\<close>: fetching, parsing and applying \<open>robots.txt\<close>.  The HTTP client is an
  argument; text is bytes, and letters are the ASCII ones.
\<close>

record robots_rules =
  rr_CrawlDelay :: int
  rr_Sitemaps :: "string list"
  rr_DisallowPatterns :: "string list"
  rr_AllowPatterns :: "string list"

definition no_rules :: robots_rules where
  "no_rules = \<lparr>rr_CrawlDelay = 0, rr_Sitemaps = [], rr_DisallowPatterns = [], rr_AllowPatterns = []\<rparr>"

section \<open>Parsing\<close>

datatype section_kind = Ours | Wild | Other

record parse_state =
  ps_rules :: robots_rules
  ps_wild :: robots_rules
  ps_section :: section_kind
  ps_found :: bool

definition bot_name :: "string \<Rightarrow> string" where
  "bot_name userAgent = to_lower (hd (split_on (CHR ''/'') userAgent))"

text \<open>Lines by what they begin with, after trimming; the text behind the colon, trimmed.\<close>

datatype line = Blank | Agent string | Sitemap string | Delay string | Disallow string | Allow string | Unknown

definition classify_line :: "string \<Rightarrow> line" where
  "classify_line raw =
     (let line = trim_space raw; lower = to_lower line in
      if line = [] \<or> has_prefix line ''#'' then Blank
      else if has_prefix lower ''user-agent:'' then Agent (trim_space (drop 11 line))
      else if has_prefix lower ''sitemap:'' then Sitemap (trim_space (drop 8 line))
      else if has_prefix lower ''crawl-delay:'' then Delay (trim_space (drop 12 line))
      else if has_prefix lower ''disallow:'' then Disallow (trim_space (drop 9 line))
      else if has_prefix lower ''allow:'' then Allow (trim_space (drop 6 line))
      else Unknown)"

definition is_our_agent :: "string \<Rightarrow> string \<Rightarrow> bool" where
  "is_our_agent botName agent \<longleftrightarrow> agent \<noteq> ''*'' \<and> (to_lower agent = botName \<or> str_contains (to_lower agent) botName)"

definition add_sitemap :: "string \<Rightarrow> robots_rules \<Rightarrow> robots_rules" where
  "add_sitemap url r = r\<lparr>rr_Sitemaps := rr_Sitemaps r @ [url]\<rparr>"

text \<open>A directive of a section, as it changes the rules it is for.\<close>

fun apply_directive :: "line \<Rightarrow> robots_rules \<Rightarrow> robots_rules" where
  "apply_directive (Delay s) r =
     (case atoi s of Some n \<Rightarrow> if n > 0 then r\<lparr>rr_CrawlDelay := n\<rparr> else r | None \<Rightarrow> r)"
| "apply_directive (Disallow p) r =
     (if p \<noteq> [] \<and> p \<noteq> ''/'' then r\<lparr>rr_DisallowPatterns := rr_DisallowPatterns r @ [p]\<rparr> else r)"
| "apply_directive (Allow p) r =
     (if p \<noteq> [] then r\<lparr>rr_AllowPatterns := rr_AllowPatterns r @ [p]\<rparr> else r)"
| "apply_directive _ r = r"

definition parse_line :: "string \<Rightarrow> line \<Rightarrow> parse_state \<Rightarrow> parse_state" where
  "parse_line botName l s =
     (case l of
        Blank \<Rightarrow> s
      | Agent a \<Rightarrow>
          if a = ''*'' then s\<lparr>ps_section := Wild\<rparr>
          else if is_our_agent botName a then s\<lparr>ps_section := Ours, ps_found := True, ps_rules := no_rules\<rparr>
          else s\<lparr>ps_section := Other\<rparr>
      | Sitemap url \<Rightarrow>
          if url = [] then s
          else let s1 = s\<lparr>ps_rules := add_sitemap url (ps_rules s)\<rparr> in
            if ps_section s = Wild \<and> \<not> ps_found s then s1\<lparr>ps_wild := add_sitemap url (ps_wild s)\<rparr> else s1
      | _ \<Rightarrow>
          if ps_section s = Other then s
          else if ps_section s = Wild \<and> \<not> ps_found s then s\<lparr>ps_wild := apply_directive l (ps_wild s)\<rparr>
          else s\<lparr>ps_rules := apply_directive l (ps_rules s)\<rparr>)"

definition start_state :: parse_state where
  "start_state = \<lparr>ps_rules = no_rules, ps_wild = no_rules, ps_section = Other, ps_found = False\<rparr>"

definition robots_limit :: nat where
  "robots_limit = 1 * 1024 * 1024"

text \<open>The scanner gives up on a line that does not fit its buffer of 64 KiB.\<close>

definition max_line :: nat where
  "max_line = 64 * 1024"

datatype robots_error = FetchFailed string | BadStatus nat | ReadFailed | LineTooLong

definition parseRobotsTxtContent :: "string \<Rightarrow> string \<Rightarrow> robots_error + robots_rules" where
  "parseRobotsTxtContent content userAgent =
     (let lines = split_on (CHR 0x0A) content;
          s = fold (parse_line (bot_name userAgent)) (map classify_line lines) start_state
      in if list_ex (\<lambda>l. max_line \<le> length l) lines then Inl LineTooLong
         else Inr (if ps_found s then ps_rules s else ps_wild s))"

definition robots_url :: "string \<Rightarrow> string" where
  "robots_url domain =
     (if has_prefix domain ''http://'' \<or> has_prefix domain ''https://'' then trim_suffix domain ''/'' @ ''/robots.txt''
      else ''https://'' @ domain @ ''/robots.txt'')"

text \<open>\<open>fetch\<close> answers a URL with an error, or a status and the body, \<open>None\<close> if it cannot be read.\<close>

definition ParseRobotsTxt ::
  "(string \<Rightarrow> string \<Rightarrow> string + (nat \<times> string option)) \<Rightarrow> string \<Rightarrow> string \<Rightarrow> robots_error + robots_rules" where
  "ParseRobotsTxt fetch domain userAgent =
     (case fetch (robots_url domain) userAgent of
        Inl e \<Rightarrow> Inl (FetchFailed e)
      | Inr (status, body) \<Rightarrow>
          if status \<noteq> 200 then (if status = 404 then Inr no_rules else Inl (BadStatus status))
          else case body of None \<Rightarrow> Inl ReadFailed
          | Some b \<Rightarrow> parseRobotsTxtContent (take robots_limit b) userAgent)"

section \<open>Matching\<close>

fun match_parts :: "string list \<Rightarrow> string \<Rightarrow> bool" where
  "match_parts [] s = True"
| "match_parts (p # ps) s =
     (if p = [] then match_parts ps s
      else case str_index s p of None \<Rightarrow> False | Some i \<Rightarrow> match_parts ps (drop (i + length p) s))"

definition matchesRobotsPattern :: "string \<Rightarrow> string \<Rightarrow> bool" where
  "matchesRobotsPattern path pattern =
     (if has_suffix pattern ''$'' then path = butlast pattern
      else if str_contains pattern ''*'' then
        (let parts = split_on (CHR ''*'') pattern in
         if length parts = 2 \<and> parts ! 1 = [] then has_prefix path (parts ! 0) else match_parts parts path)
      else has_prefix path pattern)"

definition IsPathAllowed :: "robots_rules option \<Rightarrow> string \<Rightarrow> bool" where
  "IsPathAllowed rules path =
     (case rules of None \<Rightarrow> True | Some r \<Rightarrow>
        if rr_DisallowPatterns r = [] then True
        else if list_ex (matchesRobotsPattern path) (rr_AllowPatterns r) then True
        else \<not> list_ex (matchesRobotsPattern path) (rr_DisallowPatterns r))"

section \<open>The matcher against the meaning of a pattern\<close>

text \<open>A pattern stands for the paths that begin with a text it describes; \<open>*\<close> is any text.\<close>

fun pattern_covers :: "string \<Rightarrow> string \<Rightarrow> bool" where
  "pattern_covers [] s = True"
| "pattern_covers (c # p) s =
     (if c = CHR ''*'' then pattern_covers p s \<or> (case s of [] \<Rightarrow> False | _ # s' \<Rightarrow> pattern_covers (c # p) s')
      else case s of [] \<Rightarrow> False | d # s' \<Rightarrow> c = d \<and> pattern_covers p s')"

text \<open>The parts of a pattern, one after the other somewhere in a text.\<close>

fun parts_in :: "string list \<Rightarrow> string \<Rightarrow> bool" where
  "parts_in [] s = True"
| "parts_in (p # ps) s \<longleftrightarrow> (\<exists>a b. s = a @ p @ b \<and> parts_in ps b)"

lemma str_index_least:
  "s = a @ p @ b \<Longrightarrow> \<exists>i a' b'. str_index s p = Some i \<and> i \<le> length a \<and> s = a' @ p @ b' \<and> length a' = i"
proof (induction a arbitrary: s)
  case Nil
  then have "has_prefix s p" by (auto simp: has_prefix_iff)
  then have "str_index s p = Some 0" by (cases s) (auto simp: has_prefix_def)
  then show ?case using Nil by auto
next
  case (Cons c a)
  show ?case
  proof (cases "has_prefix s p")
    case True
    then have "str_index s p = Some 0" by (cases s) (auto simp: has_prefix_def)
    then show ?thesis using True by (auto simp: has_prefix_iff)
  next
    case False
    obtain i a' b' where "str_index (a @ p @ b) p = Some i" "i \<le> length a" "a @ p @ b = a' @ p @ b'" "length a' = i"
      using Cons.IH [of "a @ p @ b"] by auto
    then show ?thesis
      using Cons.prems False by (intro exI [of _ "Suc i"] exI [of _ "c # a'"] exI [of _ b']) auto
  qed
qed

lemma str_index_found: "str_index s p = Some i \<Longrightarrow> s = take i s @ p @ drop (i + length p) s"
proof (induction s arbitrary: i)
  case (Cons c s)
  show ?case
  proof (cases "has_prefix (c # s) p")
    case True
    then show ?thesis using Cons.prems by (auto simp: has_prefix_iff)
  qed (use Cons in auto)
qed (auto split: if_splits)

lemma parts_in_mono: "parts_in ps b \<Longrightarrow> parts_in ps (x @ b)"
  by (cases ps) (auto, metis append_assoc)

lemma parts_in_empty [simp]: "parts_in ([] # ps) s \<longleftrightarrow> parts_in ps s"
  using parts_in_mono by (auto intro: exI [of _ "[]"])

lemma match_parts_iff: "match_parts ps s \<longleftrightarrow> parts_in ps s"
proof (induction ps s rule: match_parts.induct)
  case (2 p ps s)
  show ?case
  proof (cases "p = []")
    case True
    then show ?thesis using 2 parts_in_mono by (auto intro: exI [of _ "[]"])
  next
    case False
    show ?thesis
    proof
      assume "match_parts (p # ps) s"
      then obtain i where i: "str_index s p = Some i" "match_parts ps (drop (i + length p) s)"
        using False by (auto split: option.splits)
      then have "parts_in ps (drop (i + length p) s)" using "2.IH"(2) False by blast
      then show "parts_in (p # ps) s"
        using str_index_found [OF i(1)] unfolding parts_in.simps
        by (intro exI [of _ "take i s"] exI [of _ "drop (i + length p) s"] conjI)
    next
      assume "parts_in (p # ps) s"
      then obtain a b where ab: "s = a @ p @ b" "parts_in ps b" by auto
      obtain i a' b' where i: "str_index s p = Some i" "i \<le> length a" "s = a' @ p @ b'" "length a' = i"
        using str_index_least [OF ab(1)] by blast
      have d: "drop (i + length p) s = drop (i + length p) (a @ p) @ b"
        using ab(1) i(2) by simp
      have "parts_in ps (drop (i + length p) s)" unfolding d by (rule parts_in_mono [OF ab(2)])
      then show "match_parts (p # ps) s" using i(1) "2.IH"(2) False by simp
    qed
  qed
qed simp

lemma covers_star: "pattern_covers (CHR ''*'' # p) s \<longleftrightarrow> (\<exists>a b. s = a @ b \<and> pattern_covers p b)"
proof (induction s)
  case (Cons c s)
  have "(\<exists>a b. c # s = a @ b \<and> pattern_covers p b) \<longleftrightarrow>
      pattern_covers p (c # s) \<or> (\<exists>a b. s = a @ b \<and> pattern_covers p b)"
    by (auto simp: Cons_eq_append_conv)
  then show ?case using Cons by simp
qed simp

lemma split_on_nonempty [simp]: "split_on d s \<noteq> []"
  by (induction s) (auto split: list.splits)

lemma covers_parts:
  "split_on (CHR ''*'') pat = q # qs \<Longrightarrow>
     pattern_covers pat s \<longleftrightarrow> has_prefix s q \<and> parts_in qs (drop (length q) s)"
proof (induction pat arbitrary: s q qs)
  case (Cons c pat)
  obtain r rs where r: "split_on (CHR ''*'') pat = r # rs" by (meson neq_Nil_conv split_on_nonempty)
  note IH = Cons.IH [OF r]
  show ?case
  proof (cases "c = CHR ''*''")
    case True
    then have q: "q = []" "qs = r # rs" using Cons.prems r by auto
    have "pattern_covers (c # pat) s \<longleftrightarrow> (\<exists>a b. s = a @ b \<and> has_prefix b r \<and> parts_in rs (drop (length r) b))"
      unfolding True covers_star IH ..
    also have "\<dots> \<longleftrightarrow> parts_in (r # rs) s"
    proof
      assume "parts_in (r # rs) s"
      then obtain a b where "s = a @ r @ b" "parts_in rs b" by auto
      then show "\<exists>a b. s = a @ b \<and> has_prefix b r \<and> parts_in rs (drop (length r) b)"
        by (intro exI [of _ a] exI [of _ "r @ b"]) simp
    qed (auto simp: has_prefix_iff; blast)
    finally show ?thesis using q by (simp add: has_prefix_def)
  next
    case False
    then have "q = c # r" "qs = rs" using Cons.prems r by auto
    then show ?thesis using False IH by (cases s) (auto simp: has_prefix_def)
  qed
qed (auto simp: has_prefix_def)

lemma split_on_none: "d \<notin> set s \<Longrightarrow> split_on d s = [s]"
  by (induction s) auto

lemma split_on_append: "d \<notin> set a \<Longrightarrow> split_on d (a @ d # b) = a # split_on d b"
  by (induction a) auto

lemma str_contains_char: "str_contains s [c] \<longleftrightarrow> c \<in> set s"
proof
  assume "str_contains s [c]"
  then obtain i where "str_index s [c] = Some i" by (auto simp: str_contains_def)
  then have "s = take i s @ [c] @ drop (i + length [c]) s" by (rule str_index_found)
  then show "c \<in> set s" by (metis in_set_conv_decomp append_Cons append_Nil)
next
  assume "c \<in> set s"
  then obtain a b where "s = a @ [c] @ b" by (auto simp: in_set_conv_decomp)
  then show "str_contains s [c]" using str_index_least [of s a "[c]" b] by (auto simp: str_contains_def)
qed

lemma matches_parts:
  assumes "\<not> has_suffix pat ''$''" and "CHR ''*'' \<in> set pat" and "split_on (CHR ''*'') pat = q # qs"
  shows "matchesRobotsPattern path pat = (if qs = [[]] then has_prefix path q else parts_in (q # qs) path)"
  using assms str_contains_char [of pat "CHR ''*''"]
  by (auto simp: matchesRobotsPattern_def match_parts_iff [symmetric] length_Suc_conv)

text \<open>The matcher never lets a path through that a pattern without a final \<open>$\<close> covers: a covered
  path is matched.  A pattern that begins with \<open>*\<close>, or has no \<open>*\<close> but at its end, matches no
  other path.\<close>

theorem robots_pattern_match:
  assumes "\<not> has_suffix pat ''$''"
  shows "(pattern_covers pat path \<longrightarrow> matchesRobotsPattern path pat) \<and>
    (has_prefix pat ''*'' \<or> CHR ''*'' \<notin> set (butlast pat) \<longrightarrow>
       matchesRobotsPattern path pat = pattern_covers pat path)"
proof (cases "CHR ''*'' \<in> set pat")
  case False
  then have "split_on (CHR ''*'') pat = [pat]" by (rule split_on_none)
  then have "pattern_covers pat path = has_prefix path pat" by (simp add: covers_parts)
  moreover have "matchesRobotsPattern path pat = has_prefix path pat"
    using assms False by (simp add: matchesRobotsPattern_def str_contains_char)
  ultimately show ?thesis by simp
next
  case True
  obtain q qs where q: "split_on (CHR ''*'') pat = q # qs" by (meson neq_Nil_conv split_on_nonempty)
  note m = matches_parts [OF assms True q, of path] and c = covers_parts [OF q, of path]
  have "pattern_covers pat path \<longrightarrow> matchesRobotsPattern path pat"
    unfolding m c by (auto simp: has_prefix_iff intro: exI [of _ "[]"])
  moreover have "matchesRobotsPattern path pat = pattern_covers pat path" if "has_prefix pat ''*''"
  proof -
    have "q = []" using that q by (auto simp: has_prefix_iff)
    then have "parts_in (q # qs) path = parts_in qs path" using parts_in_empty by simp
    then show ?thesis unfolding m c using \<open>q = []\<close> by (auto simp: has_prefix_def simp del: parts_in.simps(2))
  qed
  moreover have "matchesRobotsPattern path pat = pattern_covers pat path" if "CHR ''*'' \<notin> set (butlast pat)"
  proof -
    have bl: "pat = butlast pat @ [List.last pat]" using True by (cases pat rule: rev_cases) auto
    then have "CHR ''*'' \<in> set (butlast pat @ [List.last pat])" using True by simp
    then have "List.last pat = CHR ''*''" using that by simp
    then have "pat = butlast pat @ CHR ''*'' # []" using bl by simp
    then have "split_on (CHR ''*'') pat = [butlast pat, []]" using split_on_append [OF that, of "[]"] by simp
    then have "q = butlast pat" "qs = [[]]" using q by simp_all
    then show ?thesis unfolding m c by (auto simp: has_prefix_iff)
  qed
  ultimately show ?thesis by blast
qed

theorem robots_pattern_match_witness:
  "matchesRobotsPattern ''/private/a'' ''/private/*'' \<and> matchesRobotsPattern ''/a/b.pdf'' ''/a*.pdf''"
proof -
  have s: "\<not> has_suffix ''/private/*'' ''$''" "\<not> has_suffix ''/a*.pdf'' ''$''" by (simp_all add: has_suffix_def)
  have c: "pattern_covers ''/private/*'' ''/private/a''" "pattern_covers ''/a*.pdf'' ''/a/b.pdf''" by code_simp+
  show ?thesis
    using robots_pattern_match [OF s(1), of "''/private/a''"] robots_pattern_match [OF s(2), of "''/a/b.pdf''"] c by blast
qed

text \<open>Elsewhere the matcher and the meaning part.  A pattern with a \<open>*\<close> inside matches anywhere
  in the path and so bars paths it does not cover, and a final \<open>$\<close> makes \<open>*\<close> an ordinary
  character, so the path it was written for is allowed.\<close>

theorem robots_pattern_divergence:
  "matchesRobotsPattern ''/x/a/b'' ''/a*b'' \<and> \<not> pattern_covers ''/a*b'' ''/x/a/b'' \<and>
   \<not> matchesRobotsPattern ''/doc.pdf'' ''/*.pdf$'' \<and> pattern_covers ''/*.pdf'' ''/doc.pdf''"
  by code_simp

section \<open>Which sections count\<close>

text \<open>The lines behind the last header that names the bot.\<close>

fun own_tail :: "string \<Rightarrow> line list \<Rightarrow> line list option" where
  "own_tail b [] = None"
| "own_tail b (l # ls) =
     (case own_tail b ls of Some t \<Rightarrow> Some t
      | None \<Rightarrow> (case l of Agent a \<Rightarrow> if is_our_agent b a then Some ls else None | _ \<Rightarrow> None))"

text \<open>The rules of a list of lines: those of the sections \<open>hear\<close> holds for, and the sitemaps of
  the same sections or, with \<open>all_maps\<close>, of every section.\<close>

fun collect :: "(section_kind \<Rightarrow> bool) \<Rightarrow> bool \<Rightarrow> section_kind \<Rightarrow> line list \<Rightarrow> robots_rules \<Rightarrow> robots_rules" where
  "collect hear all_maps sec [] r = r"
| "collect hear all_maps sec (l # ls) r =
     (case l of
        Agent a \<Rightarrow> collect hear all_maps (if a = ''*'' then Wild else Other) ls r
      | Sitemap url \<Rightarrow> collect hear all_maps sec ls (if url \<noteq> [] \<and> (all_maps \<or> hear sec) then add_sitemap url r else r)
      | _ \<Rightarrow> collect hear all_maps sec ls (if hear sec then apply_directive l r else r))"

lemma fold_not_ours:
  assumes "own_tail b ls = None"
  shows "ps_found (fold (parse_line b) ls s) = ps_found s \<and>
    (ps_found s \<longrightarrow> ps_rules (fold (parse_line b) ls s) = collect (\<lambda>k. k \<noteq> Other) True (ps_section s) ls (ps_rules s)) \<and>
    (\<not> ps_found s \<and> ps_section s \<noteq> Ours \<longrightarrow>
       ps_wild (fold (parse_line b) ls s) = collect (\<lambda>k. k = Wild) False (ps_section s) ls (ps_wild s))"
  using assms
proof (induction ls arbitrary: s)
  case (Cons l ls)
  have o: "own_tail b ls = None" "\<And>a. l = Agent a \<Longrightarrow> \<not> is_our_agent b a"
    using Cons.prems by (auto split: option.splits if_splits)
  have p: "ps_found (parse_line b l s) = ps_found s" "ps_section s \<noteq> Ours \<longrightarrow> ps_section (parse_line b l s) \<noteq> Ours"
    using o(2) by (cases l; simp add: parse_line_def Let_def)+
  show ?case
    using Cons.IH [OF o(1), of "parse_line b l s"] p o(2)
    by (cases l; cases "ps_section s") (auto simp: parse_line_def Let_def)
qed simp

lemma own_tail_split:
  "own_tail b ls = Some t \<Longrightarrow> \<exists>us a. ls = us @ Agent a # t \<and> is_our_agent b a \<and> own_tail b t = None"
proof (induction ls)
  case (Cons l ls)
  show ?case
  proof (cases "own_tail b ls")
    case None
    then show ?thesis using Cons.prems by (cases l) (auto split: if_splits intro: exI [of _ "[]"])
  next
    case (Some t')
    then obtain us a where "ls = us @ Agent a # t" "is_our_agent b a" "own_tail b t = None"
      using Cons by auto
    then show ?thesis by (intro exI [of _ "l # us"] exI [of _ a]) simp
  qed
qed simp

definition robots_lines :: "string \<Rightarrow> line list" where
  "robots_lines content = map classify_line (split_on (CHR 0x0A) content)"

definition parsed :: "string \<Rightarrow> string list \<Rightarrow> robots_rules" where
  "parsed b lines = (let s = fold (parse_line b) (map classify_line lines) start_state
     in if ps_found s then ps_rules s else ps_wild s)"

lemma parse_short:
  assumes "\<forall>l\<in>set (split_on (CHR 0x0A) content). length l < max_line"
  shows "parseRobotsTxtContent content ua = Inr (parsed (bot_name ua) (split_on (CHR 0x0A) content))"
proof -
  have "\<not> list_ex (\<lambda>l. max_line \<le> length l) (split_on (CHR 0x0A) content)"
    using assms by (auto simp: list_ex_iff not_le)
  then show ?thesis by (simp add: parseRobotsTxtContent_def parsed_def Let_def)
qed

text \<open>C29: What counts of a file.  When no header names the bot, the rules and sitemaps of the
  wildcard sections are taken.  Otherwise everything up to the last header that names it is
  dropped, sitemaps too, and from there on the rules of the section and of every wildcard
  section after it are taken together with all sitemaps.\<close>

theorem robots_parse_reference:
  assumes "\<forall>l\<in>set (split_on (CHR 0x0A) content). length l < max_line"
  shows "parseRobotsTxtContent content ua = Inr
    (case own_tail (bot_name ua) (robots_lines content) of
       None \<Rightarrow> collect (\<lambda>k. k = Wild) False Other (robots_lines content) no_rules
     | Some t \<Rightarrow> collect (\<lambda>k. k \<noteq> Other) True Ours t no_rules)"
proof -
  let ?b = "bot_name ua" and ?ls = "robots_lines content"
  note p = parse_short [OF assms, of ua, unfolded parsed_def robots_lines_def [symmetric]]
  show ?thesis
  proof (cases "own_tail ?b ?ls")
    case None
    then show ?thesis
      using fold_not_ours [OF None, of start_state]
      by (simp add: p start_state_def Let_def)
  next
    case (Some t)
    then obtain us a where q: "?ls = us @ Agent a # t" "is_our_agent ?b a" "own_tail ?b t = None"
      using own_tail_split by blast
    define s where "s = fold (parse_line ?b) us start_state"
    have "a \<noteq> ''*''" using q(2) by (simp add: is_our_agent_def)
    then have h: "parse_line ?b (Agent a) s = s\<lparr>ps_section := Ours, ps_found := True, ps_rules := no_rules\<rparr>"
      using q(2) by (simp add: parse_line_def)
    have f: "fold (parse_line ?b) ?ls start_state = fold (parse_line ?b) t (parse_line ?b (Agent a) s)"
      by (simp add: q(1) s_def)
    show ?thesis
      using fold_not_ours [OF q(3), of "parse_line ?b (Agent a) s"] Some f h
      by (simp add: p Let_def)
  qed
qed

definition nl :: string where
  "nl = [CHR 0x0A]"

theorem robots_parse_reference_witness:
  "\<exists>r. parseRobotsTxtContent (''User-agent: *'' @ nl @ ''Disallow: /tmp'') ''Hover/1.0'' = Inr r \<and>
     rr_DisallowPatterns r = [''/tmp'']"
proof -
  let ?c = "''User-agent: *'' @ nl @ ''Disallow: /tmp''"
  have len: "\<forall>l\<in>set (split_on (CHR 0x0A) ?c). length l < max_line"
    by (simp add: nl_def max_line_def)
  have t: "own_tail (bot_name ''Hover/1.0'') (robots_lines ?c) = None" by code_simp
  have r: "rr_DisallowPatterns (collect (\<lambda>k. k = Wild) False Other (robots_lines ?c) no_rules) = [''/tmp'']" by code_simp
  show ?thesis using robots_parse_reference [OF len, of "''Hover/1.0''"] t r by simp
qed

text \<open>Sections run together.  A wildcard section behind the one for the bot adds its rules to
  it, a second name in the header of a group hides the group from the bot, and a sitemap named
  before the section of the bot is lost.\<close>

theorem robots_sections_mixed:
  "map_sum id rr_DisallowPatterns (parseRobotsTxtContent
      (''User-agent: hover'' @ nl @ ''Disallow: /a'' @ nl @ ''User-agent: *'' @ nl @ ''Disallow: /b'') ''Hover/1.0'')
    = Inr [''/a'', ''/b''] \<and>
   map_sum id rr_DisallowPatterns (parseRobotsTxtContent
      (''User-agent: hover'' @ nl @ ''User-agent: other'' @ nl @ ''Disallow: /a'') ''Hover/1.0'') = Inr [] \<and>
   map_sum id rr_Sitemaps (parseRobotsTxtContent
      (''Sitemap: /s.xml'' @ nl @ ''User-agent: hover'' @ nl @ ''Disallow: /a'') ''Hover/1.0'') = Inr []"
proof -
  have n: "split_on (CHR 0x0A) (''User-agent: hover'' @ nl @ ''Disallow: /a'' @ nl @ ''User-agent: *'' @ nl @ ''Disallow: /b'')
        = [''User-agent: hover'', ''Disallow: /a'', ''User-agent: *'', ''Disallow: /b'']"
    "split_on (CHR 0x0A) (''User-agent: hover'' @ nl @ ''User-agent: other'' @ nl @ ''Disallow: /a'')
        = [''User-agent: hover'', ''User-agent: other'', ''Disallow: /a'']"
    "split_on (CHR 0x0A) (''Sitemap: /s.xml'' @ nl @ ''User-agent: hover'' @ nl @ ''Disallow: /a'')
        = [''Sitemap: /s.xml'', ''User-agent: hover'', ''Disallow: /a'']"
    by (simp_all add: nl_def)
  have b: "bot_name ''Hover/1.0'' = ''hover''" by code_simp
  have r: "rr_DisallowPatterns (parsed ''hover'' [''User-agent: hover'', ''Disallow: /a'', ''User-agent: *'', ''Disallow: /b''])
      = [''/a'', ''/b'']"
    "rr_DisallowPatterns (parsed ''hover'' [''User-agent: hover'', ''User-agent: other'', ''Disallow: /a'']) = []"
    "rr_Sitemaps (parsed ''hover'' [''Sitemap: /s.xml'', ''User-agent: hover'', ''Disallow: /a'']) = []"
    by code_simp+
  have "parseRobotsTxtContent c ''Hover/1.0'' = Inr (parsed ''hover'' ls)"
    if "split_on (CHR 0x0A) c = ls" "\<forall>l\<in>set ls. length l < max_line" for c ls
    using parse_short [of c "''Hover/1.0''"] that b by simp
  note p = this [OF n(1)] this [OF n(2)] this [OF n(3)]
  show ?thesis
    using p r by (simp only: list.set ball_simps) (simp add: max_line_def)
qed

end
