(* ===== verification/Jobs_LinkDiscovery.thy ===== *)
theory Jobs_LinkDiscovery
  imports Jobs_Executor Crawler_Robots
begin

text \<open>
  \<open>internal/jobs/link_discovery.go\<close>: which of the links of a page become pages and tasks of its
  job.  The table of public suffixes, the resolution and printing of URLs, the clock of the
  context and the two database calls are arguments.
\<close>

record link_task =
  lt_JobID :: string
  lt_Host :: string
  lt_Path :: string
  lt_DomainID :: int
  lt_DomainName :: string
  lt_PriorityScore :: rat
  lt_AllowCrossSubdomainLinks :: bool

record page =
  pg_ID :: int
  pg_Host :: string
  pg_Path :: string
  pg_Priority :: rat

text \<open>\<open>le_create\<close> is \<open>CreatePageRecords\<close>, \<open>le_enqueue\<close> the job manager's \<open>EnqueueJobURLs\<close>, each with
  its time limit; \<open>le_remaining\<close> the time to the deadline of the context, if it has one.\<close>

record 'w link_env =
  le_MinPriority :: rat
  le_etld :: "string \<Rightarrow> string option"
  le_resolve :: "url \<Rightarrow> url \<Rightarrow> url"
  le_string :: "url \<Rightarrow> string"
  le_done :: "'w \<Rightarrow> bool"
  le_remaining :: "'w \<Rightarrow> int option"
  le_create :: "int \<Rightarrow> int \<Rightarrow> string \<Rightarrow> string list \<Rightarrow> 'w \<Rightarrow> (string + (int \<times> string \<times> string) list) \<times> 'w"
  le_enqueue :: "int \<Rightarrow> string \<Rightarrow> page list \<Rightarrow> string \<Rightarrow> string \<Rightarrow> 'w \<Rightarrow> string option \<times> 'w"

section \<open>Hosts\<close>

definition Hostname :: "url \<Rightarrow> string" where
  "Hostname u =
     (let h = u_Host u in
      if CHR '':'' \<notin> set h then h
      else if CHR '']'' \<in> set h then trim_prefix (before (CHR '']'') h) ''[''
      else before (CHR '':'') h)"

definition IsAbs :: "url \<Rightarrow> bool" where
  "IsAbs u \<longleftrightarrow> u_Scheme u \<noteq> []"

definition normaliseComparableHost :: "string \<Rightarrow> string" where
  "normaliseComparableHost host = trim_prefix (trim_suffix (to_lower (trim_space host)) ''.'') ''www.''"

definition sameRegistrableDomain :: "(string \<Rightarrow> string option) \<Rightarrow> string \<Rightarrow> string \<Rightarrow> bool" where
  "sameRegistrableDomain etld hostA hostB =
     (let a = normaliseComparableHost hostA; b = normaliseComparableHost hostB in
      if a = [] \<or> b = [] then False
      else case (etld a, etld b) of
        (Some ra, Some rb) \<Rightarrow> ra = rb
      | _ \<Rightarrow> a = b)"

definition sameHostWithWWWEquivalence :: "string \<Rightarrow> string \<Rightarrow> bool" where
  "sameHostWithWWWEquivalence hostA hostB \<longleftrightarrow> normaliseComparableHost hostA = normaliseComparableHost hostB"

definition isLinkAllowedForTask :: "(string \<Rightarrow> string option) \<Rightarrow> string \<Rightarrow> link_task \<Rightarrow> bool" where
  "isLinkAllowedForTask etld host t =
     (if lt_AllowCrossSubdomainLinks t then sameRegistrableDomain etld host (lt_DomainName t)
      else if lt_Host t \<noteq> [] then sameHostWithWWWEquivalence host (lt_Host t)
      else sameHostWithWWWEquivalence host (lt_DomainName t))"

section \<open>One category of links\<close>

definition discoveredLinksDBTimeout :: int where
  "discoveredLinksDBTimeout = 30 * second"

definition discoveredLinksMinRemain :: int where
  "discoveredLinksMinRemain = 8 * second"

definition discoveredLinksMinTimeout :: int where
  "discoveredLinksMinTimeout = 5 * second"

definition tidy_link :: "url \<Rightarrow> url" where
  "tidy_link u =
     (let u1 = u\<lparr>u_Fragment := []\<rparr> in
      if u_Path u1 \<noteq> ''/'' \<and> has_suffix (u_Path u1) ''/'' then u1\<lparr>u_Path := trim_suffix (u_Path u1) ''/''\<rparr> else u1)"

definition link_target :: "'w link_env \<Rightarrow> url option \<Rightarrow> string \<Rightarrow> url option" where
  "link_target E base link =
     (case url_parse link of
        None \<Rightarrow> None
      | Some u \<Rightarrow> if IsAbs u then Some u else map_option (\<lambda>b. le_resolve E b u) base)"

definition admitted :: "'w link_env \<Rightarrow> link_task \<Rightarrow> robots_rules option \<Rightarrow> url \<Rightarrow> bool" where
  "admitted E t rules u \<longleftrightarrow>
     isLinkAllowedForTask (le_etld E) (Hostname u) t \<and> IsPathAllowed rules (u_Path (tidy_link u))"

fun filter_links :: "'w link_env \<Rightarrow> link_task \<Rightarrow> robots_rules option \<Rightarrow> url option \<Rightarrow> string list \<Rightarrow> string list" where
  "filter_links E t rules base [] = []"
| "filter_links E t rules base (l # ls) =
     (case link_target E base l of
        None \<Rightarrow> filter_links E t rules base ls
      | Some u \<Rightarrow> if admitted E t rules u then le_string E (tidy_link u) # filter_links E t rules base ls
                  else filter_links E t rules base ls)"

text \<open>The time limit for the database calls, \<open>None\<close> when too little is left.\<close>

definition link_timeout :: "int option \<Rightarrow> int option" where
  "link_timeout remaining =
     (case remaining of
        None \<Rightarrow> Some discoveredLinksDBTimeout
      | Some rem \<Rightarrow>
          if rem \<le> discoveredLinksMinRemain then None
          else let m = min (rem - discoveredLinksMinRemain) discoveredLinksDBTimeout in
            if m < discoveredLinksMinTimeout then None else Some m)"

definition processLinkCategory ::
  "'w link_env \<Rightarrow> link_task \<Rightarrow> robots_rules option \<Rightarrow> string \<Rightarrow> string list \<Rightarrow> rat \<Rightarrow> 'w \<Rightarrow> 'w" where
  "processLinkCategory E t rules sourceURL links priority w =
     (if links = [] then w
      else if priority < le_MinPriority E then w
      else if le_done E w then w
      else let filtered = filter_links E t rules (url_parse sourceURL) links in
        if filtered = [] then w
        else case link_timeout (le_remaining E w) of
          None \<Rightarrow> w
        | Some limit \<Rightarrow>
            (case le_create E limit (lt_DomainID t) (lt_DomainName t) filtered w of
               (Inl _, w1) \<Rightarrow> w1
             | (Inr recs, w1) \<Rightarrow>
                 snd (le_enqueue E limit (lt_JobID t)
                   (map (\<lambda>(i, h, p). \<lparr>pg_ID = i, pg_Host = h, pg_Path = p, pg_Priority = priority\<rparr>) recs)
                   ''link'' sourceURL w1)))"

definition category :: "(string \<times> string list) list \<Rightarrow> string \<Rightarrow> string list" where
  "category links name = (case map_of links name of None \<Rightarrow> [] | Some ls \<Rightarrow> ls)"

text \<open>With \<open>jm\<close> false there is no job manager.\<close>

definition ProcessDiscoveredLinks ::
  "'w link_env \<Rightarrow> bool \<Rightarrow> link_task \<Rightarrow> (string \<times> string list) list \<Rightarrow> string \<Rightarrow> robots_rules option \<Rightarrow> 'w \<Rightarrow> 'w" where
  "ProcessDiscoveredLinks E jm t links sourceURL rules w =
     (if \<not> jm then w
      else if lt_DomainID t = 0 then w
      else let go = processLinkCategory E t rules sourceURL in
        if lt_Path t = ''/'' then
          go (category links ''body'') (lt_PriorityScore t * (9 / 10))
            (go (category links ''footer'') (99 / 100) (go (category links ''header'') 1 w))
        else go (category links ''body'') (lt_PriorityScore t * (9 / 10)) w)"

section \<open>What is handed on\<close>

lemma filter_links_admitted:
  "x \<in> set (filter_links E t rules base ls) \<Longrightarrow>
     \<exists>l\<in>set ls. \<exists>u. link_target E base l = Some u \<and> admitted E t rules u \<and> x = le_string E (tidy_link u)"
  by (induction ls) (auto split: option.splits if_splits)

lemma tidy_link_simps:
  "u_Fragment (tidy_link u) = []" "u_Host (tidy_link u) = u_Host u" "u_Scheme (tidy_link u) = u_Scheme u"
  by (simp_all add: tidy_link_def Let_def)

text \<open>A log of the calls that create pages and enqueue them; the answers are arbitrary.\<close>

datatype link_call = Created int int "string list" | Enqueued int string "page list" string

definition logging :: "'x link_env \<Rightarrow> (link_call list \<Rightarrow> string + (int \<times> string \<times> string) list) \<Rightarrow>
    (link_call list \<Rightarrow> string option) \<Rightarrow> (link_call list \<Rightarrow> bool) \<Rightarrow> (link_call list \<Rightarrow> int option) \<Rightarrow> link_call list link_env" where
  "logging E answer err dn rem =
     \<lparr>le_MinPriority = le_MinPriority E, le_etld = le_etld E, le_resolve = le_resolve E, le_string = le_string E,
      le_done = dn, le_remaining = rem,
      le_create = (\<lambda>limit did dname urls w. (answer w, w @ [Created limit did urls])),
      le_enqueue = (\<lambda>limit j pages st src w. (err w, w @ [Enqueued limit j pages st]))\<rparr>"

text \<open>What a page may be created for: one of the links that were found, in a category that counts for the
  page of the task, which leads to a host the task may follow and to a path its robots rules allow.\<close>

definition discoverable :: "link_task \<Rightarrow> (string \<times> string list) list \<Rightarrow> string set" where
  "discoverable t links =
     (if lt_Path t = ''/'' then set (category links ''header'') \<union> set (category links ''footer'') else {}) \<union>
     set (category links ''body'')"

definition allowed_page :: "'x link_env \<Rightarrow> link_task \<Rightarrow> robots_rules option \<Rightarrow> string \<Rightarrow> string set \<Rightarrow> string \<Rightarrow> bool" where
  "allowed_page E t rules src ls x \<longleftrightarrow>
     (\<exists>l \<in> ls. \<exists>u. link_target E (url_parse src) l = Some u \<and> x = le_string E (tidy_link u) \<and>
        isLinkAllowedForTask (le_etld E) (Hostname u) t \<and> IsPathAllowed rules (u_Path (tidy_link u)))"

definition good_creation :: "'x link_env \<Rightarrow> link_task \<Rightarrow> robots_rules option \<Rightarrow> string \<Rightarrow> string set \<Rightarrow> int \<Rightarrow> string list \<Rightarrow> bool" where
  "good_creation E t rules src ls limit urls \<longleftrightarrow>
     urls \<noteq> [] \<and> list_all (allowed_page E t rules src ls) urls \<and>
     discoveredLinksMinTimeout \<le> limit \<and> limit \<le> discoveredLinksDBTimeout"

definition pages_of :: "rat \<Rightarrow> (int \<times> string \<times> string) list \<Rightarrow> page list" where
  "pages_of pr recs = map (\<lambda>(i, h, p). \<lparr>pg_ID = i, pg_Host = h, pg_Path = p, pg_Priority = pr\<rparr>) recs"

text \<open>The logs that link discovery may write: rounds of one creation each, which is followed by the
  enqueueing of exactly the pages the database answered with, or by nothing when it answered with an
  error.  \<open>a\<close> gives the answer of the database after a log.\<close>

inductive discovery_log :: "(link_call list \<Rightarrow> string + (int \<times> string \<times> string) list) \<Rightarrow> 'x link_env \<Rightarrow> link_task \<Rightarrow>
    robots_rules option \<Rightarrow> string \<Rightarrow> string set \<Rightarrow> link_call list \<Rightarrow> link_call list \<Rightarrow> bool" for a E t rules src ls w where
  no_call: "discovery_log a E t rules src ls w w"
| refused: "discovery_log a E t rules src ls w w1 \<Longrightarrow> good_creation E t rules src ls limit urls \<Longrightarrow> a w1 = Inl e \<Longrightarrow>
    discovery_log a E t rules src ls w (w1 @ [Created limit (lt_DomainID t) urls])"
| stored: "discovery_log a E t rules src ls w w1 \<Longrightarrow> good_creation E t rules src ls limit urls \<Longrightarrow> a w1 = Inr recs \<Longrightarrow>
    le_MinPriority E \<le> pr \<Longrightarrow>
    discovery_log a E t rules src ls w (w1 @ [Created limit (lt_DomainID t) urls, Enqueued limit (lt_JobID t) (pages_of pr recs) ''link''])"

lemma hostname_tidy [simp]: "Hostname (tidy_link u) = Hostname u"
  by (simp add: Hostname_def tidy_link_simps)

lemma filter_links_allowed:
  assumes "set ls \<subseteq> L"
  shows "list_all (allowed_page E t rules src L) (filter_links (logging E a e dn rem) t rules (url_parse src) ls)"
proof -
  have "allowed_page E t rules src L x"
    if x: "x \<in> set (filter_links (logging E a e dn rem) t rules (url_parse src) ls)" for x
  proof -
    obtain l u where l: "l \<in> set ls" "link_target (logging E a e dn rem) (url_parse src) l = Some u"
      and "admitted (logging E a e dn rem) t rules u" "x = le_string (logging E a e dn rem) (tidy_link u)"
      using filter_links_admitted [OF x] by blast
    moreover have "link_target (logging E a e dn rem) (url_parse src) l = link_target E (url_parse src) l"
      unfolding link_target_def logging_def link_env.select_convs ..
    moreover have "l \<in> L" using l(1) assms by blast
    ultimately show ?thesis
      unfolding allowed_page_def by (intro bexI [of _ l] exI [of _ u]) (simp_all add: admitted_def logging_def)
  qed
  then show ?thesis by (simp add: list_all_iff)
qed

lemma link_timeout_bounds:
  "link_timeout rem = Some m \<Longrightarrow> discoveredLinksMinTimeout \<le> m \<and> m \<le> discoveredLinksDBTimeout"
  by (auto simp: link_timeout_def Let_def discoveredLinksMinTimeout_def discoveredLinksDBTimeout_def second_def
      millisecond_def split: option.splits if_splits)

lemma category_log:
  assumes "discovery_log a E t rules src L w0 w" "set ls \<subseteq> L"
  shows "discovery_log a E t rules src L w0 (processLinkCategory (logging E a e dn rem) t rules src ls pr w)"
proof (cases "ls = [] \<or> pr < le_MinPriority E \<or> dn w \<or> link_timeout (rem w) = None \<or>
    filter_links (logging E a e dn rem) t rules (url_parse src) ls = []")
  case True
  then show ?thesis using assms(1) by (auto simp: processLinkCategory_def Let_def logging_def)
next
  case False
  let ?f = "filter_links (logging E a e dn rem) t rules (url_parse src) ls"
  obtain m where m: "link_timeout (rem w) = Some m" using False by auto
  have c: "good_creation E t rules src L m ?f"
    unfolding good_creation_def using False filter_links_allowed [OF assms(2)] link_timeout_bounds [OF m] by simp
  have d: "le_MinPriority (logging E a e dn rem) = le_MinPriority E" "le_done (logging E a e dn rem) = dn"
    "le_remaining (logging E a e dn rem) = rem"
    "le_create (logging E a e dn rem) = (\<lambda>limit did dname urls w. (a w, w @ [Created limit did urls]))"
    "le_enqueue (logging E a e dn rem) = (\<lambda>limit j pages st src w. (e w, w @ [Enqueued limit j pages st]))"
    by (simp_all add: logging_def)
  show ?thesis
  proof (cases "a w")
    case (Inl x)
    have "processLinkCategory (logging E a e dn rem) t rules src ls pr w = w @ [Created m (lt_DomainID t) ?f]"
      using False m Inl by (simp add: processLinkCategory_def Let_def d)
    then show ?thesis using refused [OF assms(1) c Inl] by simp
  next
    case (Inr recs)
    have "processLinkCategory (logging E a e dn rem) t rules src ls pr w =
        w @ [Created m (lt_DomainID t) ?f, Enqueued m (lt_JobID t) (pages_of pr recs) ''link'']"
      using False m Inr by (simp add: processLinkCategory_def Let_def d pages_of_def)
    then show ?thesis using stored [OF assms(1) c Inr, of pr] False by simp
  qed
qed

text \<open>C25: Whatever the database answers, link discovery writes one of the logs above.  The only pages it
  creates are of the job's domain, each for one of the discovered links, at a host the task may follow
  and at a path its robots rules allow; what it enqueues directly afterwards are exactly the pages the
  database returned for this creation, for the job of the task, as links, with one priority that is not
  below the minimum; after an error nothing is enqueued; and no call is made with less than five or
  more than thirty seconds.\<close>

theorem discovered_links_admitted:
  "discovery_log a E t rules src (discoverable t links) w
     (ProcessDiscoveredLinks (logging E a e dn rem) jm t links src rules w)"
proof -
  have sub: "set (category links ''body'') \<subseteq> discoverable t links"
    "lt_Path t = ''/'' \<Longrightarrow> set (category links ''header'') \<subseteq> discoverable t links"
    "lt_Path t = ''/'' \<Longrightarrow> set (category links ''footer'') \<subseteq> discoverable t links"
    by (auto simp: discoverable_def)
  show ?thesis unfolding ProcessDiscoveredLinks_def Let_def
    using sub by (auto intro!: category_log no_call)
qed

end
