(* ===== verification/Jobs_WafBreaker.thy ===== *)
theory Jobs_WafBreaker
  imports Jobs_Executor "HOL-Library.Sublist"
begin

text \<open>
  \<open>internal/jobs/waf_circuit_breaker.go\<close>: per job a count of consecutive blocked responses, which
  at the threshold has the job blocked once.  The call of \<open>BlockJob\<close> runs beside the stream
  worker: a trip adds to the calls under way, and the end of a call is a step of its own.  A nil
  breaker does nothing and is not modelled.
\<close>

section \<open>The breaker\<close>

record breaker =
  wb_threshold :: int
  wb_counts :: "string \<Rightarrow> int option"
  wb_tripped :: "string set"
  wb_vendors :: "string \<Rightarrow> waf_detection option"

definition defaultWAFCircuitBreakerThreshold :: int where
  "defaultWAFCircuitBreakerThreshold = 2"

definition wafCircuitBreakerThreshold :: "(string \<Rightarrow> string) \<Rightarrow> int" where
  "wafCircuitBreakerThreshold env =
     (let v = trim_space (env ''GNH_WAF_CIRCUIT_BREAKER_THRESHOLD'') in
      if v \<noteq> [] then (case atoi v of
          Some n \<Rightarrow> if n > 0 then n else defaultWAFCircuitBreakerThreshold
        | None \<Rightarrow> defaultWAFCircuitBreakerThreshold)
      else defaultWAFCircuitBreakerThreshold)"

definition NewWAFCircuitBreaker :: "(string \<Rightarrow> string) \<Rightarrow> breaker" where
  "NewWAFCircuitBreaker env =
     \<lparr>wb_threshold = wafCircuitBreakerThreshold env, wb_counts = (\<lambda>_. None), wb_tripped = {},
      wb_vendors = (\<lambda>_. None)\<rparr>"

text \<open>The result is the detection a trip was made for, \<open>None\<close> when there was no trip.\<close>

definition Observe :: "string \<Rightarrow> waf_detection option \<Rightarrow> breaker \<Rightarrow> waf_detection option \<times> breaker" where
  "Observe jobID det b =
     (if jobID = [] then (None, b)
      else if jobID \<in> wb_tripped b then (None, b)
      else case det of
        Some d \<Rightarrow>
          if wd_Blocked d then
            (let n = (case wb_counts b jobID of None \<Rightarrow> 0 | Some n \<Rightarrow> n) + 1 in
             if n \<ge> wb_threshold b
             then (Some d, b\<lparr>wb_counts := (wb_counts b)(jobID := None), wb_tripped := insert jobID (wb_tripped b),
                             wb_vendors := (wb_vendors b)(jobID := None)\<rparr>)
             else (None, b\<lparr>wb_counts := (wb_counts b)(jobID \<mapsto> n), wb_vendors := (wb_vendors b)(jobID \<mapsto> d)\<rparr>))
          else (None, b\<lparr>wb_counts := (wb_counts b)(jobID := None), wb_vendors := (wb_vendors b)(jobID := None)\<rparr>)
      | None \<Rightarrow> (None, b\<lparr>wb_counts := (wb_counts b)(jobID := None), wb_vendors := (wb_vendors b)(jobID := None)\<rparr>))"

definition Forget :: "string \<Rightarrow> breaker \<Rightarrow> breaker" where
  "Forget jobID b =
     (if jobID = [] then b
      else b\<lparr>wb_counts := (wb_counts b)(jobID := None), wb_vendors := (wb_vendors b)(jobID := None),
             wb_tripped := wb_tripped b - {jobID}\<rparr>)"

definition Rearm :: "string \<Rightarrow> waf_detection \<Rightarrow> breaker \<Rightarrow> breaker" where
  "Rearm jobID lastVendor b =
     (if jobID = [] then b
      else b\<lparr>wb_tripped := wb_tripped b - {jobID},
             wb_counts := (wb_counts b)(jobID \<mapsto> (if wb_threshold b - 1 < 0 then 0 else wb_threshold b - 1)),
             wb_vendors := (wb_vendors b)(jobID \<mapsto> lastVendor)\<rparr>)"

definition Threshold :: "breaker \<Rightarrow> int" where
  "Threshold b = wb_threshold b"

text \<open>A call of \<open>BlockJob\<close> under way: the job and the detection.  With \<open>jm\<close> false there is no
  job manager; without an outcome nothing is observed.\<close>

type_synonym block_call = "string \<times> waf_detection"

definition outcome_waf :: "task_outcome \<Rightarrow> waf_detection option" where
  "outcome_waf out = Option.bind (to_CrawlResult out) cr_WAF"

definition MaybeTripFromOutcome ::
  "bool \<Rightarrow> task_outcome option \<Rightarrow> breaker \<Rightarrow> block_call option \<times> breaker" where
  "MaybeTripFromOutcome jm outcome b =
     (case outcome of
        None \<Rightarrow> (None, b)
      | Some out \<Rightarrow>
          if \<not> jm then (None, b)
          else let jobID = dt_JobID (to_Task out) in
            (case Observe jobID (outcome_waf out) b of
               (Some d, b') \<Rightarrow> (Some (jobID, d), b')
             | (None, b') \<Rightarrow> (None, b')))"

definition block_reason :: "waf_detection \<Rightarrow> string" where
  "block_reason d = ''circuit breaker: '' @ wd_Reason d"

text \<open>The end of the detached call: a failure arms the breaker again.\<close>

definition block_done :: "bool \<Rightarrow> block_call \<Rightarrow> breaker \<Rightarrow> breaker" where
  "block_done ok c b = (if ok then b else Rearm (fst c) (snd c) b)"

section \<open>What the breaker promises of one job\<close>

text \<open>The specification: a job counts the blocked responses of its current streak, or has
  tripped.\<close>

datatype job_state = Counting nat | Tripped

fun spec_observe :: "nat \<Rightarrow> bool \<Rightarrow> job_state \<Rightarrow> bool \<times> job_state" where
  "spec_observe th blocked Tripped = (False, Tripped)"
| "spec_observe th blocked (Counting n) =
     (if \<not> blocked then (False, Counting 0)
      else if th \<le> Suc n then (True, Tripped) else (False, Counting (Suc n)))"

definition job_view :: "breaker \<Rightarrow> string \<Rightarrow> job_state" where
  "job_view b j =
     (if j \<in> wb_tripped b then Tripped
      else Counting (case wb_counts b j of None \<Rightarrow> 0 | Some n \<Rightarrow> nat n))"

definition is_blocked_det :: "waf_detection option \<Rightarrow> bool" where
  "is_blocked_det det = (case det of None \<Rightarrow> False | Some d \<Rightarrow> wd_Blocked d)"

definition breaker_ok :: "breaker \<Rightarrow> bool" where
  "breaker_ok b \<longleftrightarrow> 0 < wb_threshold b \<and> (\<forall>j n. wb_counts b j = Some n \<longrightarrow> 0 \<le> n)"

lemma new_breaker_ok [simp]: "breaker_ok (NewWAFCircuitBreaker env)"
  by (auto simp: breaker_ok_def NewWAFCircuitBreaker_def wafCircuitBreakerThreshold_def Let_def
      defaultWAFCircuitBreakerThreshold_def split: option.splits)

abbreviation count_of :: "breaker \<Rightarrow> string \<Rightarrow> int" where
  "count_of b j \<equiv> (case wb_counts b j of None \<Rightarrow> 0 | Some n \<Rightarrow> n)"

lemma observe_cases:
  "j \<in> wb_tripped b \<Longrightarrow> Observe j det b = (None, b)"
  "j \<noteq> [] \<Longrightarrow> j \<notin> wb_tripped b \<Longrightarrow> \<not> is_blocked_det det \<Longrightarrow> Observe j det b =
     (None, b\<lparr>wb_counts := (wb_counts b)(j := None), wb_vendors := (wb_vendors b)(j := None)\<rparr>)"
  "j \<noteq> [] \<Longrightarrow> j \<notin> wb_tripped b \<Longrightarrow> wd_Blocked d \<Longrightarrow> wb_threshold b \<le> count_of b j + 1 \<Longrightarrow> Observe j (Some d) b =
     (Some d, b\<lparr>wb_counts := (wb_counts b)(j := None), wb_tripped := insert j (wb_tripped b),
                wb_vendors := (wb_vendors b)(j := None)\<rparr>)"
  "j \<noteq> [] \<Longrightarrow> j \<notin> wb_tripped b \<Longrightarrow> wd_Blocked d \<Longrightarrow> \<not> wb_threshold b \<le> count_of b j + 1 \<Longrightarrow> Observe j (Some d) b =
     (None, b\<lparr>wb_counts := (wb_counts b)(j \<mapsto> count_of b j + 1), wb_vendors := (wb_vendors b)(j \<mapsto> d)\<rparr>)"
  by (auto simp: Observe_def is_blocked_det_def Let_def split: option.splits)

lemma observe_refines:
  assumes "breaker_ok b" and "j \<noteq> []"
  shows "job_view (snd (Observe j det b)) =
      (job_view b)(j := snd (spec_observe (nat (wb_threshold b)) (is_blocked_det det) (job_view b j))) \<and>
    (fst (Observe j det b) \<noteq> None) = fst (spec_observe (nat (wb_threshold b)) (is_blocked_det det) (job_view b j)) \<and>
    (fst (Observe j det b) \<noteq> None \<longrightarrow> fst (Observe j det b) = det) \<and>
    breaker_ok (snd (Observe j det b)) \<and> wb_threshold (snd (Observe j det b)) = wb_threshold b"
proof -
  have c: "0 \<le> count_of b j" using assms by (auto simp: breaker_ok_def split: option.splits)
  have ci: "int (case wb_counts b j of None \<Rightarrow> 0 | Some x \<Rightarrow> nat x) = count_of b j"
    using c by (simp split: option.splits)
  have cn: "nat (count_of b j + 1) = Suc (case wb_counts b j of None \<Rightarrow> 0 | Some x \<Rightarrow> nat x)"
    using ci by linarith
  have v: "job_view b j = Counting (nat (count_of b j))" if "j \<notin> wb_tripped b"
    using that by (simp add: job_view_def split: option.splits)
  consider (trip) "j \<in> wb_tripped b" | (clear) "j \<notin> wb_tripped b" "\<not> is_blocked_det det"
    | (hit) d where "j \<notin> wb_tripped b" "det = Some d" "wd_Blocked d" "wb_threshold b \<le> count_of b j + 1"
    | (more) d where "j \<notin> wb_tripped b" "det = Some d" "wd_Blocked d" "\<not> wb_threshold b \<le> count_of b j + 1"
    by (cases det; cases "wb_threshold b \<le> count_of b j + 1") (auto simp: is_blocked_det_def)
  then show ?thesis
  proof cases
    case trip
    then show ?thesis using assms by (auto simp: observe_cases(1) job_view_def fun_eq_iff)
  next
    case clear
    then show ?thesis using assms
      by (auto simp: observe_cases(2) v job_view_def fun_eq_iff breaker_ok_def)
  next
    case hit
    then show ?thesis using assms c
      by (auto simp: observe_cases(3) v ci job_view_def fun_eq_iff breaker_ok_def is_blocked_det_def nat_le_iff)
  next
    case more
    then show ?thesis using assms c
      by (auto simp: observe_cases(4) v ci cn job_view_def fun_eq_iff breaker_ok_def is_blocked_det_def nat_le_iff)
  qed
qed

lemma forget_refines:
  assumes "breaker_ok b" and "j \<noteq> []"
  shows "job_view (Forget j b) = (job_view b)(j := Counting 0)" and "breaker_ok (Forget j b)"
  using assms by (auto simp: Forget_def job_view_def breaker_ok_def fun_eq_iff)

lemma rearm_refines:
  assumes "breaker_ok b" and "j \<noteq> []"
  shows "job_view (Rearm j v b) = (job_view b)(j := Counting (nat (wb_threshold b) - 1))"
    and "breaker_ok (Rearm j v b)"
  using assms by (auto simp: Rearm_def job_view_def breaker_ok_def fun_eq_iff nat_diff_distrib)

text \<open>C11: The breaker refines one automaton per job.  \<open>Observe\<close>, \<open>Forget\<close> and \<open>Rearm\<close> act on the
  job they name as the specification does and on no other job, \<open>Observe\<close> trips exactly when
  the specification does, with the detection it was given, and the well-formedness of the
  breaker is kept.\<close>

theorem waf_breaker_refines:
  assumes "breaker_ok b" and "j \<noteq> []"
  shows "job_view (snd (Observe j det b)) =
      (job_view b)(j := snd (spec_observe (nat (wb_threshold b)) (is_blocked_det det) (job_view b j))) \<and>
    fst (Observe j det b) =
      (if fst (spec_observe (nat (wb_threshold b)) (is_blocked_det det) (job_view b j)) then det else None) \<and>
    job_view (Forget j b) = (job_view b)(j := Counting 0) \<and>
    job_view (Rearm j v b) = (job_view b)(j := Counting (nat (wb_threshold b) - 1)) \<and>
    breaker_ok (snd (Observe j det b)) \<and> breaker_ok (Forget j b) \<and> breaker_ok (Rearm j v b)"
  using observe_refines [OF assms, of det] forget_refines [OF assms] rearm_refines [OF assms, of v] by auto

definition vendor_x :: waf_detection where
  "vendor_x = \<lparr>wd_Vendor = ''x'', wd_Blocked = True, wd_Reason = ''captcha''\<rparr>"

theorem waf_breaker_refines_witness:
  "fst (Observe ''j'' (Some vendor_x) (Rearm ''j'' vendor_x (NewWAFCircuitBreaker (\<lambda>_. [])))) = Some vendor_x"
proof -
  have t: "wb_threshold (NewWAFCircuitBreaker (\<lambda>_. [])) = 2"
    by (simp add: NewWAFCircuitBreaker_def wafCircuitBreakerThreshold_def trim_space_def Let_def
        defaultWAFCircuitBreakerThreshold_def)
  have v: "job_view (Rearm ''j'' vendor_x (NewWAFCircuitBreaker (\<lambda>_. []))) ''j'' = Counting 1"
    using waf_breaker_refines [OF new_breaker_ok, of "''j''" None "\<lambda>_. []" vendor_x] t by simp
  have "breaker_ok (Rearm ''j'' vendor_x (NewWAFCircuitBreaker (\<lambda>_. [])))"
    using waf_breaker_refines [OF new_breaker_ok, of "''j''" None "\<lambda>_. []" vendor_x] by simp
  then show ?thesis
    using waf_breaker_refines [of "Rearm ''j'' vendor_x (NewWAFCircuitBreaker (\<lambda>_. []))" "''j''" "Some vendor_x" vendor_x] v t
    by (simp add: is_blocked_det_def vendor_x_def Rearm_def)
qed

section \<open>When a job is blocked\<close>

text \<open>The jobs tripped by a run of observations, in order.\<close>

fun observe_all :: "(string \<times> waf_detection option) list \<Rightarrow> breaker \<Rightarrow> string list" where
  "observe_all [] b = []"
| "observe_all ((j, det) # evs) b =
     (case Observe j det b of
        (Some _, b') \<Rightarrow> j # observe_all evs b'
      | (None, b') \<Rightarrow> observe_all evs b')"

definition blocked_of :: "string \<Rightarrow> (string \<times> waf_detection option) list \<Rightarrow> bool list" where
  "blocked_of j evs = map (is_blocked_det \<circ> snd) (filter (\<lambda>e. fst e = j) evs)"

fun spec_trips :: "nat \<Rightarrow> bool list \<Rightarrow> job_state \<Rightarrow> nat" where
  "spec_trips th [] st = 0"
| "spec_trips th (x # xs) st =
     (case spec_observe th x st of (t, st') \<Rightarrow> (if t then 1 else 0) + spec_trips th xs st')"

lemma spec_trips_tripped [simp]: "spec_trips th xs Tripped = 0"
  by (induction xs) auto

lemma true_run_sublist:
  assumes "n < th"
  shows "sublist (replicate th True) (replicate n True @ False # bs) \<longleftrightarrow> sublist (replicate th True) bs"
proof
  have th: "replicate th True \<noteq> []" using assms by simp
  assume "sublist (replicate th True) (replicate n True @ False # bs)"
  then consider "sublist (replicate th True) (replicate n True)" | "sublist (replicate th True) (False # bs)"
    | us vs where "replicate th True = us @ vs" "suffix us (replicate n True)" "prefix vs (False # bs)"
    by (auto simp: sublist_append)
  then show "sublist (replicate th True) bs"
  proof cases
    case 1
    then show ?thesis using assms sublist_length_le by fastforce
  next
    case 2
    then show ?thesis using th by (cases th) (auto simp: sublist_Cons_right)
  next
    case 3
    have "vs = []"
    proof (cases vs)
      case (Cons v vs')
      then have "v = True" using 3(1) by (metis in_set_conv_decomp in_set_replicate)
      then show ?thesis using 3(3) Cons by simp
    qed simp
    then have "th \<le> n" using 3(1,2) by (metis append_Nil2 length_replicate suffix_length_le)
    then show ?thesis using assms by simp
  qed
next
  assume "sublist (replicate th True) bs"
  then show "sublist (replicate th True) (replicate n True @ False # bs)"
    by (auto simp: sublist_append sublist_Cons_right)
qed

lemma spec_trips_window:
  assumes "n < th"
  shows "spec_trips th bs (Counting n) = (if sublist (replicate th True) (replicate n True @ bs) then 1 else 0)"
  using assms
proof (induction bs arbitrary: n)
  case Nil
  then have "\<not> sublist (replicate th True) (replicate n True)" using sublist_length_le by fastforce
  then show ?case by simp
next
  case (Cons x bs)
  have app: "replicate n True @ True # bs = replicate (Suc n) True @ bs"
    by (metis append_Cons append_Nil append_assoc replicate_Suc replicate_app_Cons_same)
  show ?case
  proof (cases x)
    case False
    then show ?thesis using Cons.IH [of 0] Cons.prems true_run_sublist [OF Cons.prems] by simp
  next
    case True
    show ?thesis
    proof (cases "th \<le> Suc n")
      case True
      then have "th = Suc n" using Cons.prems by simp
      then have "sublist (replicate th True) (replicate (Suc n) True @ bs)" by (auto simp: sublist_append)
      then have "sublist (replicate th True) (replicate n True @ True # bs)" unfolding app .
      then show ?thesis using True \<open>x\<close> by simp
    next
      case False
      have "spec_trips th bs (Counting (Suc n)) =
          (if sublist (replicate th True) (replicate n True @ True # bs) then 1 else 0)"
        unfolding app using False by (intro Cons.IH) simp
      then show ?thesis using False \<open>x\<close> by simp
    qed
  qed
qed

lemma observe_other: "i \<noteq> j \<Longrightarrow> breaker_ok b \<Longrightarrow> job_view (snd (Observe i det b)) j = job_view b j"
  by (cases "i = []") (simp_all add: Observe_def [of "[]"] observe_refines)

lemma observe_ok: "breaker_ok b \<Longrightarrow> breaker_ok (snd (Observe i det b)) \<and> wb_threshold (snd (Observe i det b)) = wb_threshold b"
  by (cases "i = []") (simp_all add: Observe_def [of "[]"] observe_refines)

lemma observe_all_spec:
  assumes "breaker_ok b" and "j \<noteq> []"
  shows "count_list (observe_all evs b) j = spec_trips (nat (wb_threshold b)) (blocked_of j evs) (job_view b j)"
  using assms(1)
proof (induction evs arbitrary: b)
  case Nil
  then show ?case by (simp add: blocked_of_def)
next
  case (Cons e evs)
  obtain i det where e: "e = (i, det)" by force
  obtain r b' where x: "Observe i det b = (r, b')" by force
  have ok: "breaker_ok b'" "wb_threshold b' = wb_threshold b"
    using observe_ok [OF Cons.prems, of i det] x by simp_all
  note IH = Cons.IH [OF ok(1)]
  show ?case
  proof (cases "i = j")
    case True
    then show ?thesis
      using observe_refines [OF Cons.prems assms(2), of det] x e IH ok(2)
      by (cases r) (auto simp: blocked_of_def split: prod.splits)
  next
    case False
    then show ?thesis
      using observe_other [OF False Cons.prems, of det] x e IH ok(2) by (cases r) (auto simp: blocked_of_def)
  qed
qed

text \<open>A new breaker trips for a job exactly once when \<open>threshold\<close> of its outcomes in a row
  were blocked, and never otherwise, whatever the outcomes of other jobs between them.\<close>

theorem breaker_trips_iff:
  assumes "j \<noteq> []"
  shows "count_list (observe_all evs (NewWAFCircuitBreaker env)) j =
    (if sublist (replicate (nat (wafCircuitBreakerThreshold env)) True) (blocked_of j evs) then 1 else 0)"
proof -
  have t: "wb_threshold (NewWAFCircuitBreaker env) = wafCircuitBreakerThreshold env"
    "job_view (NewWAFCircuitBreaker env) j = Counting 0"
    by (simp_all add: NewWAFCircuitBreaker_def job_view_def)
  have "0 < wafCircuitBreakerThreshold env" using new_breaker_ok [of env] t by (simp add: breaker_ok_def)
  then show ?thesis
    using observe_all_spec [OF new_breaker_ok assms] spec_trips_window [of 0] t by simp
qed

theorem breaker_trips_iff_witness:
  "count_list (observe_all [(''a'', Some vendor_x), (''b'', None), (''a'', Some vendor_x), (''a'', Some vendor_x)]
      (NewWAFCircuitBreaker (\<lambda>_. []))) ''a'' = 1"
proof -
  let ?evs = "[(''a'', Some vendor_x), (''b'', None), (''a'', Some vendor_x), (''a'', Some vendor_x)]"
  have "wafCircuitBreakerThreshold (\<lambda>_. []) = 2" by code_simp
  moreover have "sublist [True, True] (blocked_of ''a'' ?evs)"
    by (simp add: blocked_of_def vendor_x_def is_blocked_det_def sublist_Cons_right)
  ultimately show ?thesis using breaker_trips_iff [of "''a''" ?evs "\<lambda>_. []"] by (simp add: numeral_2_eq_2)
qed

section \<open>Calls under way\<close>

record pod =
  pd_breaker :: breaker
  pd_calls :: "block_call list"

text \<open>The steps of a worker: an outcome is observed, a call ends, and a job that has no call
  under way is forgotten.\<close>

inductive pod_step :: "pod \<Rightarrow> pod \<Rightarrow> bool" where
  outcome: "MaybeTripFromOutcome jm out (pd_breaker p) = (c, b) \<Longrightarrow>
    pod_step p \<lparr>pd_breaker = b, pd_calls = pd_calls p @ (case c of None \<Rightarrow> [] | Some x \<Rightarrow> [x])\<rparr>"
| finished: "pd_calls p = xs @ c # ys \<Longrightarrow>
    pod_step p \<lparr>pd_breaker = block_done ok c (pd_breaker p), pd_calls = xs @ ys\<rparr>"
| terminated: "j \<notin> fst ` set (pd_calls p) \<Longrightarrow>
    pod_step p \<lparr>pd_breaker = Forget j (pd_breaker p), pd_calls = pd_calls p\<rparr>"

inductive pod_reach :: "(string \<Rightarrow> string) \<Rightarrow> pod \<Rightarrow> bool" for env where
  start: "pod_reach env \<lparr>pd_breaker = NewWAFCircuitBreaker env, pd_calls = []\<rparr>"
| step: "pod_reach env p \<Longrightarrow> pod_step p p' \<Longrightarrow> pod_reach env p'"

definition calls_ok :: "pod \<Rightarrow> bool" where
  "calls_ok p \<longleftrightarrow> distinct (map fst (pd_calls p)) \<and>
     (\<forall>c\<in>set (pd_calls p). fst c \<in> wb_tripped (pd_breaker p) \<and> wd_Blocked (snd c))"

lemma observe_tripped:
  "Observe j det b = (r, b') \<Longrightarrow> wb_tripped b' = (if r = None then wb_tripped b else insert j (wb_tripped b)) \<and>
     (\<forall>d. r = Some d \<longrightarrow> j \<notin> wb_tripped b \<and> wd_Blocked d)"
  by (auto simp: Observe_def Let_def split: if_splits option.splits)

lemma maybe_trip_calls:
  assumes "MaybeTripFromOutcome jm out b = (c, b')"
  shows "c = None \<and> wb_tripped b' = wb_tripped b \<or>
    (\<exists>j d. c = Some (j, d) \<and> j \<notin> wb_tripped b \<and> wb_tripped b' = insert j (wb_tripped b) \<and> wd_Blocked d)"
proof (cases out)
  case (Some out)
  obtain r b1 where o: "Observe (dt_JobID (to_Task out)) (outcome_waf out) b = (r, b1)" by force
  show ?thesis
    using assms Some o observe_tripped [OF o] by (cases r) (auto simp: MaybeTripFromOutcome_def split: if_splits)
qed (use assms in \<open>simp add: MaybeTripFromOutcome_def\<close>)

lemma block_done_tripped:
  "wb_tripped b - {fst c} \<subseteq> wb_tripped (block_done ok c b)"
  by (auto simp: block_done_def Rearm_def)

lemma pod_step_ok:
  assumes "pod_step p p'" and "calls_ok p"
  shows "calls_ok p'"
  using assms(1)
proof cases
  case (outcome jm out c b)
  then show ?thesis
    using assms(2) maybe_trip_calls [OF outcome(2)] by (auto simp: calls_ok_def)
next
  case (finished xs c ys ok)
  have d: "distinct (map fst (xs @ c # ys))" and
    m: "\<forall>x\<in>set (xs @ c # ys). fst x \<in> wb_tripped (pd_breaker p) \<and> wd_Blocked (snd x)"
    using assms(2) finished(2) by (simp_all add: calls_ok_def)
  have "fst x \<in> wb_tripped (block_done ok c (pd_breaker p))" if x: "x \<in> set (xs @ ys)" for x
  proof -
    have "fst x \<noteq> fst c" using d x by (auto simp: image_iff)
    moreover have "fst x \<in> wb_tripped (pd_breaker p)" using m x by auto
    ultimately show ?thesis using block_done_tripped by blast
  qed
  then show ?thesis using d m unfolding calls_ok_def finished(1) by simp
next
  case (terminated j)
  then show ?thesis using assms(2) by (auto simp: calls_ok_def Forget_def)
qed

text \<open>A worker never has two calls of \<open>BlockJob\<close> for one job under way, and a call under way
  was made for a blocked response of a job the breaker holds as tripped.\<close>

theorem one_block_call_per_job:
  assumes "pod_reach env p"
  shows "distinct (map fst (pd_calls p)) \<and>
    (\<forall>c\<in>set (pd_calls p). fst c \<in> wb_tripped (pd_breaker p) \<and> wd_Blocked (snd c))"
  using assms
proof (induction rule: pod_reach.induct)
  case (step p p')
  then show ?case using pod_step_ok [of p p'] by (simp add: calls_ok_def)
qed simp

theorem one_block_call_per_job_witness:
  "\<exists>p. pod_reach (\<lambda>k. ''1'') p \<and> map fst (pd_calls p) = [''j''] \<and> distinct (map fst (pd_calls p))"
proof -
  define b where "b = NewWAFCircuitBreaker (\<lambda>k. ''1'')"
  have "wafCircuitBreakerThreshold (\<lambda>k. ''1'') = 1" by code_simp
  then have t: "wb_threshold b = 1" "wb_counts b ''j'' = None" "wb_tripped b = {}"
    by (simp_all add: b_def NewWAFCircuitBreaker_def)
  define r where "r = \<lparr>cr_URL = [], cr_ResponseTime = 0, cr_StatusCode = 403, cr_CacheStatus = [], cr_ContentType = [],
    cr_ContentLength = 0, cr_Headers = [], cr_RedirectURL = [], cr_Performance = no_perf, cr_Links = [],
    cr_SecondResponseTime = 0, cr_SecondCacheStatus = [], cr_SecondContentLength = 0, cr_SecondHeaders = [],
    cr_SecondPerformance = None, cr_CacheCheckAttempts = [], cr_RequestDiagnostics = None, cr_Body = [],
    cr_WAF = Some vendor_x\<rparr>"
  define out where "out = \<lparr>to_Task = taskToDBTask example_task\<lparr>dt_JobID := ''j''\<rparr>, to_CrawlResult = Some r, to_Retry = None,
    to_DiscoveredLinks = [], to_HTMLUpload = None, to_RateLimited = True, to_Success = False\<rparr>"
  obtain b' where m: "MaybeTripFromOutcome True (Some out) b = (Some (''j'', vendor_x), b')"
    using t by (simp add: MaybeTripFromOutcome_def outcome_waf_def out_def r_def Observe_def vendor_x_def Let_def)
  have "pod_reach (\<lambda>k. ''1'') \<lparr>pd_breaker = b, pd_calls = []\<rparr>" unfolding b_def by (rule pod_reach.start)
  then have p: "pod_reach (\<lambda>k. ''1'') \<lparr>pd_breaker = b', pd_calls = [(''j'', vendor_x)]\<rparr>"
    using pod_reach.step pod_step.outcome [of True "Some out" "\<lparr>pd_breaker = b, pd_calls = []\<rparr>"] m by fastforce
  show ?thesis using one_block_call_per_job [OF p] p by (intro exI) auto
qed

text \<open>A call of \<open>BlockJob\<close> that failed is made again.  After it the next blocked response of the
  job trips the breaker at once, while a response that was not blocked clears the job.\<close>

theorem failed_block_retried:
  assumes "breaker_ok b" and "j \<noteq> []"
  shows "(wd_Blocked d \<longrightarrow> fst (Observe j (Some d) (block_done False (j, v) b)) = Some d) \<and>
    (\<not> is_blocked_det det \<longrightarrow> job_view (snd (Observe j det (block_done False (j, v) b))) j = Counting 0)"
proof -
  have "wb_threshold (Rearm j v b) = wb_threshold b" by (simp add: Rearm_def)
  moreover have "nat (wb_threshold b) \<noteq> 0" using assms(1) by (simp add: breaker_ok_def)
  ultimately show ?thesis
    using observe_refines [OF rearm_refines(2) [OF assms] assms(2)] rearm_refines(1) [OF assms, of v]
    by (auto simp: block_done_def is_blocked_det_def)
qed

theorem failed_block_retried_witness:
  "fst (Observe ''j'' (Some vendor_x) (block_done False (''j'', vendor_x) (NewWAFCircuitBreaker (\<lambda>_. [])))) = Some vendor_x"
  using failed_block_retried [OF new_breaker_ok, of "''j''" vendor_x vendor_x "\<lambda>_. []" None]
  by (simp add: vendor_x_def)

end
