(* ===== verification/Jobs_StreamWorker.thy ===== *)
theory Jobs_StreamWorker
  imports Broker_Dispatcher Broker_Consumer Broker_Pacer Jobs_LinkDiscovery Jobs_WafBreaker
begin

text \<open>
  \<open>internal/jobs/stream_worker.go\<close>: the pool that reads messages, crawls, and acts on the outcome,
  and that tells the dispatcher how much a job may run.  Messages of one pass are processed one
  after the other; the database and the persistence queues are one state \<open>'d\<close>, reached through
  the functions of \<open>worker_env\<close>.
\<close>

section \<open>Configuration\<close>

definition defaultActiveJobsLimit :: int where
  "defaultActiveJobsLimit = 200"

text \<open>The product is a machine integer; an overflow to a non-positive value is caught.\<close>

definition activeJobsLimit :: "(string \<Rightarrow> string) \<Rightarrow> int" where
  "activeJobsLimit env =
     (let v = trim_space (env ''STREAM_ACTIVE_JOBS_LIMIT'');
          minLimit = envIntWithDefault env ''GNH_PENDING_ADMISSION_LIMIT_MIN'' 250;
          factor = envIntWithDefault env ''GNH_PENDING_ADMISSION_WORKER_FACTOR'' 3;
          product = sint (word_of_int (jobDefaultConcurrency env * factor) :: 64 word);
          derived = (if product < minLimit then minLimit else product);
          computed = (if derived \<le> 0 then defaultActiveJobsLimit else derived)
      in if v \<noteq> [] then (case atoi v of Some n \<Rightarrow> if n > 0 then n else computed | None \<Rightarrow> computed)
         else computed)"

definition linkDiscoveryMaxInflight :: "(string \<Rightarrow> string) \<Rightarrow> int" where
  "linkDiscoveryMaxInflight env =
     (let v = trim_space (env ''JOBS_LINK_DISCOVERY_MAX_INFLIGHT'') in
      if v \<noteq> [] then (case atoi v of Some n \<Rightarrow> if n > 0 then n else 128 | None \<Rightarrow> 128) else 128)"

definition linkDiscoveryMinPriorityFromEnv :: "(string \<Rightarrow> string) \<Rightarrow> rat" where
  "linkDiscoveryMinPriorityFromEnv env =
     (let raw = trim_space (env ''GNH_LINK_DISCOVERY_MIN_PRIORITY'') in
      if raw \<noteq> [] then (case parse_float raw of Some x \<Rightarrow> if 0 \<le> x \<and> x \<le> 1 then x else 1 / 2 | None \<Rightarrow> 1 / 2)
      else 1 / 2)"

definition reconcileInterval :: "(string \<Rightarrow> string) \<Rightarrow> int" where
  "reconcileInterval env = envIntWithDefault env ''REDIS_COUNTER_RECONCILE_INTERVAL_S'' 120 * second"

record worker_opts =
  wo_NumWorkers :: int
  wo_TasksPerWorker :: int
  wo_ReclaimInterval :: time

definition DefaultStreamWorkerOpts :: worker_opts where
  "DefaultStreamWorkerOpts = \<lparr>wo_NumWorkers = 30, wo_TasksPerWorker = 20, wo_ReclaimInterval = 30 * second\<rparr>"

section \<open>State\<close>

record job_info =
  ji_DomainID :: int
  ji_DomainName :: string
  ji_FindLinks :: bool
  ji_AllowCrossSubdomainLinks :: bool
  ji_CrawlDelay :: int
  ji_Concurrency :: "64 word"
  ji_AdaptiveDelay :: int
  ji_AdaptiveDelayFloor :: int
  ji_RobotsRules :: "robots_rules option"

text \<open>The row the query of \<open>fetchJobInfo\<close> scans; three columns may be null.\<close>

record info_row =
  ir_DomainID :: int
  ir_DomainName :: string
  ir_CrawlDelay :: "int option"
  ir_AdaptiveDelay :: "int option"
  ir_AdaptiveFloor :: "int option"
  ir_FindLinks :: bool
  ir_AllowCross :: bool
  ir_Concurrency :: "64 word"

datatype effect =
    Promote string
  | Upload db_task html_upload
  | QueueUpdate db_task

record ('w, 'd) pool =
  sp_redis :: 'w
  sp_db :: 'd
  sp_cache :: "string \<Rightarrow> (job_info \<times> time) option"
  sp_active :: "string list"
  sp_breaker :: "breaker option"
  sp_calls :: "block_call list"

text \<open>
  \<open>we_jm\<close> says whether there is a job manager, \<open>we_persist\<close> whether pages are archived,
  \<open>we_queue\<close> whether there is a task queue; \<open>we_do\<close> performs an effect.
\<close>

record 'd worker_env =
  we_env :: "string \<Rightarrow> string"
  we_lib :: exec_lib
  we_exec :: executor_config
  we_pacer :: pacer_config
  we_consumer :: consumer_opts
  we_jm :: bool
  we_persist :: bool
  we_queue :: bool
  we_warm :: "string \<Rightarrow> bool \<Rightarrow> 'd \<Rightarrow> (crawl_result option \<times> string option) \<times> 'd"
  we_fetch :: "string \<Rightarrow> 'd \<Rightarrow> (string + info_row) \<times> 'd"
  we_robots :: "string \<Rightarrow> 'd \<Rightarrow> (string + robots_rules option) \<times> 'd"
  we_active :: "int \<Rightarrow> 'd \<Rightarrow> (string + string list) \<times> 'd"
  we_link :: "'d link_env"
  we_do :: "effect \<Rightarrow> 'd \<Rightarrow> 'd"
  we_first :: "(string \<Rightarrow> 'd \<Rightarrow> string option \<times> 'd) option"

definition on_redis :: "('w \<Rightarrow> 'a \<times> 'w) \<Rightarrow> ('w, 'd) pool \<Rightarrow> 'a \<times> ('w, 'd) pool" where
  "on_redis f p = (case f (sp_redis p) of (r, w) \<Rightarrow> (r, p\<lparr>sp_redis := w\<rparr>))"

definition on_db :: "('d \<Rightarrow> 'a \<times> 'd) \<Rightarrow> ('w, 'd) pool \<Rightarrow> 'a \<times> ('w, 'd) pool" where
  "on_db f p = (case f (sp_db p) of (r, d) \<Rightarrow> (r, p\<lparr>sp_db := d\<rparr>))"

definition perform :: "'d worker_env \<Rightarrow> effect \<Rightarrow> ('w, 'd) pool \<Rightarrow> ('w, 'd) pool" where
  "perform E e p = p\<lparr>sp_db := we_do E e (sp_db p)\<rparr>"

section \<open>Job information\<close>

definition jobInfoTTL :: time where
  "jobInfoTTL = 300 * second"

definition fetchJobInfo :: "'d worker_env \<Rightarrow> string \<Rightarrow> 'd \<Rightarrow> (string + job_info) \<times> 'd" where
  "fetchJobInfo E jobID d =
     (case we_fetch E jobID d of
        (Inl e, d1) \<Rightarrow> (Inl e, d1)
      | (Inr r, d1) \<Rightarrow>
          (let dflt = (\<lambda>c. case c of Some n \<Rightarrow> n | None \<Rightarrow> 0);
               info = \<lparr>ji_DomainID = ir_DomainID r, ji_DomainName = ir_DomainName r, ji_FindLinks = ir_FindLinks r,
                 ji_AllowCrossSubdomainLinks = ir_AllowCross r, ji_CrawlDelay = dflt (ir_CrawlDelay r),
                 ji_Concurrency = ir_Concurrency r, ji_AdaptiveDelay = dflt (ir_AdaptiveDelay r),
                 ji_AdaptiveDelayFloor = dflt (ir_AdaptiveFloor r), ji_RobotsRules = None\<rparr>
           in if \<not> we_jm E then (Inr info, d1)
              else case we_robots E (ir_DomainName r) d1 of
                (Inl _, d2) \<Rightarrow> (Inr info, d2)
              | (Inr rules, d2) \<Rightarrow> (Inr (info\<lparr>ji_RobotsRules := rules\<rparr>), d2)))"

definition loadJobInfo ::
  "'d worker_env \<Rightarrow> time \<Rightarrow> string \<Rightarrow> ('w, 'd) pool \<Rightarrow> (string + job_info) \<times> ('w, 'd) pool" where
  "loadJobInfo E now jobID p =
     (case sp_cache p jobID of
        Some (info, expiresAt) \<Rightarrow>
          if now < expiresAt then (Inr info, p)
          else (case on_db (fetchJobInfo E jobID) p of
                  (Inl e, p1) \<Rightarrow> (Inl e, p1)
                | (Inr i, p1) \<Rightarrow> (Inr i, p1\<lparr>sp_cache := (sp_cache p1)(jobID \<mapsto> (i, now + jobInfoTTL))\<rparr>))
      | None \<Rightarrow>
          (case on_db (fetchJobInfo E jobID) p of
             (Inl e, p1) \<Rightarrow> (Inl e, p1)
           | (Inr i, p1) \<Rightarrow> (Inr i, p1\<lparr>sp_cache := (sp_cache p1)(jobID \<mapsto> (i, now + jobInfoTTL))\<rparr>)))"

definition job_cap :: "64 word \<Rightarrow> int" where
  "job_cap c = (if sint c \<le> 0 then fallbackJobConcurrency else sint c)"

definition CanDispatch ::
  "'w redis \<Rightarrow> 'd worker_env \<Rightarrow> time \<Rightarrow> string \<Rightarrow> ('w, 'd) pool \<Rightarrow> (string + bool) \<times> ('w, 'd) pool" where
  "CanDispatch R E now jobID p =
     (case loadJobInfo E now jobID p of
        (Inl e, p1) \<Rightarrow> (Inl e, p1)
      | (Inr info, p1) \<Rightarrow>
          (case on_redis (Get R jobID) p1 of
             (Inl e, p2) \<Rightarrow> (Inl e, p2)
           | (Inr running, p2) \<Rightarrow> (Inr (running < job_cap (ji_Concurrency info)), p2)))"

definition buildTask ::
  "'d worker_env \<Rightarrow> time \<Rightarrow> stream_message \<Rightarrow> ('w, 'd) pool \<Rightarrow> (string + task) \<times> ('w, 'd) pool" where
  "buildTask E now msg p =
     (case loadJobInfo E now (sm_JobID msg) p of
        (Inl e, p1) \<Rightarrow> (Inl e, p1)
      | (Inr info, p1) \<Rightarrow>
          (Inr \<lparr>tk_ID = sm_TaskID msg, tk_JobID = sm_JobID msg, tk_PageID = sm_PageID msg, tk_Host = sm_Host msg,
             tk_Path = sm_Path msg, tk_DomainName = ji_DomainName info, tk_Status = Running, tk_CreatedAt = None,
             tk_StartedAt = Some now, tk_RetryCount = sm_RetryCount msg, tk_Error = [],
             tk_SourceType = sm_SourceType msg, tk_SourceURL = sm_SourceURL msg,
             tk_PriorityScore = sm_Priority msg, tk_FindLinks = ji_FindLinks info\<rparr>, p1))"

section \<open>Acting on an outcome\<close>

definition handleDiscoveredLinks :: "'d worker_env \<Rightarrow> time \<Rightarrow> task_outcome \<Rightarrow> ('w, 'd) pool \<Rightarrow> ('w, 'd) pool" where
  "handleDiscoveredLinks E now out p =
     (if \<not> we_jm E \<or> to_DiscoveredLinks out = [] then p
      else let t = to_Task out in
        (case loadJobInfo E now (dt_JobID t) p of
           (Inl _, p1) \<Rightarrow> p1
         | (Inr info, p1) \<Rightarrow>
             (let lt = \<lparr>lt_JobID = dt_JobID t, lt_Host = dt_Host t, lt_Path = dt_Path t, lt_DomainID = ji_DomainID info,
                        lt_DomainName = ji_DomainName info, lt_PriorityScore = dt_PriorityScore t,
                        lt_AllowCrossSubdomainLinks = ji_AllowCrossSubdomainLinks info\<rparr>;
                  src0 = ConstructTaskURL (we_lib E) (dt_Path t) (dt_Host t) (ji_DomainName info);
                  src = (case to_CrawlResult out of Some r \<Rightarrow> if cr_URL r \<noteq> [] then cr_URL r else src0 | None \<Rightarrow> src0);
                  L = (we_link E)\<lparr>le_MinPriority := linkDiscoveryMinPriorityFromEnv (we_env E)\<rparr>
              in p1\<lparr>sp_db := ProcessDiscoveredLinks L True lt (to_DiscoveredLinks out) src (ji_RobotsRules info)
                     (sp_db p1)\<rparr>)))"

text \<open>The zero time of Go, for a decision without a time.\<close>

definition zero_time :: time where
  "zero_time = - 62135596800 * second"

definition retry_entry :: "stream_message \<Rightarrow> db_task \<Rightarrow> retry_decision \<Rightarrow> schedule_entry" where
  "retry_entry msg t d =
     \<lparr>se_TaskID = dt_ID t, se_JobID = dt_JobID t, se_PageID = dt_PageID t, se_Host = sm_Host msg, se_Path = sm_Path msg,
      se_Priority = sm_Priority msg, se_RetryCount = dt_RetryCount t, se_SourceType = dt_SourceType t,
      se_SourceURL = dt_SourceURL t,
      se_RunAt = (case rd_NextRunAt d of Some x \<Rightarrow> x | None \<Rightarrow> zero_time), se_TaskType = [], se_LighthouseRunID = 0\<rparr>"

text \<open>The message leaves the pending entries, with its retry scheduled in the same transaction.\<close>

definition settle_message ::
  "'w redis \<Rightarrow> stream_message \<Rightarrow> task_outcome \<Rightarrow> 'w \<Rightarrow> bool \<times> 'w" where
  "settle_message R msg out w =
     (case to_Retry out of
        Some d \<Rightarrow>
          if rd_ShouldRetry d
          then (case ScheduleAndAck R (retry_entry msg (to_Task out) d) (sm_JobID msg) (sm_MessageID msg) w of
                  (err, w1) \<Rightarrow> (err = None, w1))
          else (case Ack R (sm_JobID msg) [sm_MessageID msg] w of (err, w1) \<Rightarrow> (err = None, w1))
      | None \<Rightarrow> (case Ack R (sm_JobID msg) [sm_MessageID msg] w of (err, w1) \<Rightarrow> (err = None, w1)))"

definition observe_outcome :: "'d worker_env \<Rightarrow> task_outcome \<Rightarrow> ('w, 'd) pool \<Rightarrow> ('w, 'd) pool" where
  "observe_outcome E out p =
     (case sp_breaker p of
        None \<Rightarrow> p
      | Some b \<Rightarrow>
          if \<not> we_jm E then p
          else (case MaybeTripFromOutcome True (Some out) b of
                  (c, b') \<Rightarrow> p\<lparr>sp_breaker := Some b',
                               sp_calls := sp_calls p @ (case c of None \<Rightarrow> [] | Some x \<Rightarrow> [x])\<rparr>))"

definition handleOutcome ::
  "'w redis \<Rightarrow> 'd worker_env \<Rightarrow> time \<Rightarrow> stream_message \<Rightarrow> task_outcome \<Rightarrow> ('w, 'd) pool \<Rightarrow> ('w, 'd) pool" where
  "handleOutcome R E now msg out p =
     (case on_redis (settle_message R msg out) p of
        (False, p1) \<Rightarrow> p1
      | (True, p1) \<Rightarrow>
          (case on_redis (Decrement R (sm_JobID msg)) p1 of (dec, p2) \<Rightarrow>
             (let p3 = (if isl dec \<or> \<not> we_queue E then p2 else perform E (Promote (sm_JobID msg)) p2);
                  p4 = snd (on_redis (Release R (we_pacer E) (sm_Host msg) (sm_JobID msg) (to_Success out) (to_RateLimited out)) p3);
                  p5 = (case to_HTMLUpload out of
                          Some u \<Rightarrow> if we_persist E then perform E (Upload (to_Task out) u) p4 else p4
                        | None \<Rightarrow> p4);
                  p6 = observe_outcome E out (perform E (QueueUpdate (to_Task out)) p5)
              in if to_DiscoveredLinks out \<noteq> [] then handleDiscoveredLinks E now out p6 else p6)))"

text \<open>A panic of the executor ends the process and leaves the message pending.\<close>

definition processMessage ::
  "'w redis \<Rightarrow> 'd worker_env \<Rightarrow> time \<Rightarrow> stream_message \<Rightarrow> ('w, 'd) pool \<Rightarrow> ('w, 'd) pool" where
  "processMessage R E now msg p =
     (case buildTask E now msg p of
        (Inl _, p1) \<Rightarrow> p1
      | (Inr t, p1) \<Rightarrow>
          (case on_db (Execute (we_lib E) (we_exec E) (we_warm E) now t) p1 of
             (None, p2) \<Rightarrow> p2
           | (Some out, p2) \<Rightarrow> handleOutcome R E now msg out p2))"

section \<open>The loops of the pool\<close>

fun process_all ::
  "'w redis \<Rightarrow> 'd worker_env \<Rightarrow> time \<Rightarrow> stream_message list \<Rightarrow> ('w, 'd) pool \<Rightarrow> ('w, 'd) pool" where
  "process_all R E now [] p = p"
| "process_all R E now (m # ms) p = process_all R E now ms (processMessage R E now m p)"

fun read_jobs ::
  "'w redis \<Rightarrow> 'd worker_env \<Rightarrow> time \<Rightarrow> string list \<Rightarrow> bool \<Rightarrow> ('w, 'd) pool \<Rightarrow> bool \<times> ('w, 'd) pool" where
  "read_jobs R E now [] processed p = (processed, p)"
| "read_jobs R E now (j # js) processed p =
     (case on_redis (ReadNonBlocking R (we_consumer E) j) p of
        (Inl _, p1) \<Rightarrow> read_jobs R E now js processed p1
      | (Inr msgs, p1) \<Rightarrow> read_jobs R E now js (processed \<or> msgs \<noteq> []) (process_all R E now msgs p1))"

text \<open>One pass of a worker over the active jobs.\<close>

definition worker_pass ::
  "'w redis \<Rightarrow> 'd worker_env \<Rightarrow> time \<Rightarrow> nat \<Rightarrow> ('w, 'd) pool \<Rightarrow> ('w, 'd) pool" where
  "worker_pass R E now workerID p =
     (let jobIDs = sp_active p in
      if jobIDs = [] then p
      else case read_jobs R E now jobIDs False p of
        (True, p1) \<Rightarrow> p1
      | (False, p1) \<Rightarrow>
          (case on_redis (Read R (we_consumer E) (jobIDs ! (workerID mod length jobIDs))) p1 of
             (Inl _, p2) \<Rightarrow> p2
           | (Inr msgs, p2) \<Rightarrow> process_all R E now msgs p2))"

definition dead_task :: "time \<Rightarrow> stream_message \<Rightarrow> db_task" where
  "dead_task now msg =
     \<lparr>dt_ID = sm_TaskID msg, dt_JobID = sm_JobID msg, dt_PageID = 0, dt_Host = [], dt_Path = [], dt_Status = Failed,
      dt_CreatedAt = None, dt_StartedAt = None, dt_CompletedAt = Some now, dt_RetryCount = sm_RetryCount msg,
      dt_Error = ''exceeded maximum delivery attempts'', dt_SourceType = [], dt_SourceURL = [], dt_StatusCode = 0,
      dt_ResponseTime = 0, dt_CacheStatus = [], dt_ContentType = [], dt_ContentLength = 0, dt_Headers = [],
      dt_RedirectURL = [], dt_Perf = no_perf, dt_SecondResponseTime = 0, dt_SecondCacheStatus = [],
      dt_SecondContentLength = 0, dt_SecondHeaders = [], dt_SecondPerf = no_perf, dt_CacheCheckAttempts = [],
      dt_RequestDiagnostics = [], dt_PriorityScore = 0, dt_HTML = no_html\<rparr>"

fun dead_letter ::
  "'w redis \<Rightarrow> 'd worker_env \<Rightarrow> time \<Rightarrow> string \<Rightarrow> stream_message list \<Rightarrow> ('w, 'd) pool \<Rightarrow> ('w, 'd) pool" where
  "dead_letter R E now jobID [] p = p"
| "dead_letter R E now jobID (m # ms) p =
     (case on_redis (Ack R jobID [sm_MessageID m]) p of
        (Some _, p1) \<Rightarrow> dead_letter R E now jobID ms p1
      | (None, p1) \<Rightarrow>
          (let p2 = snd (on_redis (Decrement R jobID) p1);
               p3 = snd (on_redis (Release R (we_pacer E) (sm_Host m) jobID False False) p2)
           in dead_letter R E now jobID ms (perform E (QueueUpdate (dead_task now m)) p3)))"

fun reclaim_jobs_loop ::
  "'w redis \<Rightarrow> 'd worker_env \<Rightarrow> time \<Rightarrow> string list \<Rightarrow> ('w, 'd) pool \<Rightarrow> ('w, 'd) pool" where
  "reclaim_jobs_loop R E now [] p = p"
| "reclaim_jobs_loop R E now (j # js) p =
     (case on_redis (ReclaimStale R (we_consumer E) j) p of
        (Inl _, p1) \<Rightarrow> reclaim_jobs_loop R E now js p1
      | (Inr (reclaimed, dead), p1) \<Rightarrow>
          reclaim_jobs_loop R E now js (dead_letter R E now j dead (process_all R E now reclaimed p1)))"

definition reclaimStaleMessages :: "'w redis \<Rightarrow> 'd worker_env \<Rightarrow> time \<Rightarrow> ('w, 'd) pool \<Rightarrow> ('w, 'd) pool" where
  "reclaimStaleMessages R E now p = reclaim_jobs_loop R E now (sp_active p) p"

text \<open>The jobs with a running count that the query did not return, in the order of the hash.\<close>

fun retain_running :: "(string \<times> int) list \<Rightarrow> string list \<Rightarrow> string list" where
  "retain_running [] ids = ids"
| "retain_running ((j, n) # cs) ids =
     (if n \<le> 0 then retain_running cs ids
      else if j \<in> set ids then retain_running cs ids
      else retain_running cs (ids @ [j]))"

definition refreshActiveJobs :: "'w redis \<Rightarrow> 'd worker_env \<Rightarrow> ('w, 'd) pool \<Rightarrow> ('w, 'd) pool" where
  "refreshActiveJobs R E p =
     (case on_db (we_active E (activeJobsLimit (we_env E))) p of
        (Inl _, p1) \<Rightarrow> p1
      | (Inr ids, p1) \<Rightarrow>
          (case on_redis (GetAll R) p1 of
             (Inl _, p2) \<Rightarrow> p2\<lparr>sp_active := ids\<rparr>
           | (Inr counters, p2) \<Rightarrow> p2\<lparr>sp_active := retain_running counters ids\<rparr>))"

fun probe_counts ::
  "'w redis \<Rightarrow> (string \<times> int) list \<Rightarrow> string list \<Rightarrow> (string \<times> int) list \<Rightarrow> 'w \<Rightarrow> (string \<times> int) list \<times> 'w" where
  "probe_counts R existing [] counts w = (counts, w)"
| "probe_counts R existing (j # js) counts w =
     (case ConsumerPendingCount R j w of
        (Inl _, w1) \<Rightarrow>
          (case map_of existing j of
             Some prev \<Rightarrow> probe_counts R existing js (AList.update j prev counts) w1
           | None \<Rightarrow> probe_counts R existing js counts w1)
      | (Inr n, w1) \<Rightarrow> probe_counts R existing js (if n > 0 then AList.update j n counts else counts) w1)"

definition reconcileCounters :: "'w redis \<Rightarrow> ('w, 'd) pool \<Rightarrow> ('w, 'd) pool" where
  "reconcileCounters R p =
     (case GetAll R (sp_redis p) of (r, w1) \<Rightarrow>
        (let existing = (case r of Inl _ \<Rightarrow> [] | Inr cs \<Rightarrow> cs);
             jobIDs = sp_active p @ filter (\<lambda>j. j \<notin> set (sp_active p)) (map fst existing)
         in case probe_counts R existing jobIDs [] w1 of
              (counts, w2) \<Rightarrow> p\<lparr>sp_redis := snd (Reconcile R counts w2)\<rparr>))"

text \<open>\<open>locked\<close>: another pass holds the mutex.\<close>

definition runReconcileSerialised :: "'w redis \<Rightarrow> bool \<Rightarrow> ('w, 'd) pool \<Rightarrow> bool \<times> ('w, 'd) pool" where
  "runReconcileSerialised R locked p = (if locked then (False, p) else (True, reconcileCounters R p))"

definition TriggerReconcile :: "'w redis \<Rightarrow> bool \<Rightarrow> ('w, 'd) pool \<Rightarrow> ('w, 'd) pool" where
  "TriggerReconcile R locked p = snd (runReconcileSerialised R locked p)"

section \<open>What the bookkeeping leaves alone\<close>

text \<open>\<open>calm s t\<close>: sorted sets, streams and pending entries are the same.\<close>

definition calm :: "rstore \<Rightarrow> rstore \<Rightarrow> bool" where
  "calm s t \<longleftrightarrow> zsets t = zsets s \<and> streams t = streams s \<and> pels t = pels s"

lemma calm_refl [simp]: "calm s s" and calm_tick [simp]: "calm s (tick n s)"
  by (simp_all add: calm_def)

lemma calm_trans: "calm s t \<Longrightarrow> calm t u \<Longrightarrow> calm s u"
  by (simp add: calm_def)

fun hash_cmd :: "cmd \<Rightarrow> bool" where
  "hash_cmd (HIncrBy k f n) = True"
| "hash_cmd (HDel k fs) = True"
| "hash_cmd (HGet k f) = True"
| "hash_cmd (HGetAll k) = True"
| "hash_cmd (HMGet k fs) = True"
| "hash_cmd (HSet k fvs) = True"
| "hash_cmd (Expire k n) = True"
| "hash_cmd _ = False"

lemma hash_cmd_calm: "hash_cmd c \<Longrightarrow> calm s (snd (redis_exec c s))"
  by (cases c) (auto simp: calm_def put_hash_def Let_def split: option.splits)

lemma success_script_calm: "calm s (snd (adaptiveDelayOnSuccessScript key th step s))"
  by (auto simp: script_defs calm_def split: option.splits)

lemma error_script_calm: "calm s (snd (adaptiveDelayOnErrorScript key step mx s))"
  by (auto simp: script_defs calm_def split: option.splits)

context redis_server
begin

lemma hash_cmd_now: "hash_cmd c \<Longrightarrow> calm (view w) (view (snd (r_cmd R c w)))"
  by (cases rule: cmd_cases [OF prod.collapse [symmetric, of "r_cmd R c w"]])
    (metis calm_tick calm_trans hash_cmd_calm)+

lemma calm_eval:
  assumes "\<And>s. calm s (snd (q s))"
  shows "calm (view w) (view (snd (r_eval R q w)))"
  by (cases rule: eval_cases [OF prod.collapse [symmetric, of "r_eval R q w"]])
    (metis assms calm_tick calm_trans)+

lemma decrement_calm: "calm (view w) (view (snd (Decrement R j w)))"
proof -
  have 1: "calm (view w) (view (snd (r_cmd R (HIncrBy RunningCountersKey j (-1)) w)))" by (rule hash_cmd_now) simp
  have 2: "calm (view v) (view (snd (r_cmd R (HDel RunningCountersKey [j]) v)))" for v by (rule hash_cmd_now) simp
  show ?thesis
    using 1 calm_trans [OF 1 2] by (simp add: Decrement_def case_prod_beta split: reply.splits)
qed

lemma decrement_inflight_calm: "calm (view w) (view (snd (DecrementInflight R h j w)))"
proof -
  have 1: "calm (view w) (view (snd (r_cmd R (HIncrBy (DomainInflightKey h) j (-1)) w)))" by (rule hash_cmd_now) simp
  have 2: "calm (view v) (view (snd (r_cmd R (HDel (DomainInflightKey h) [j]) v)))" for v by (rule hash_cmd_now) simp
  show ?thesis
    using 1 calm_trans [OF 1 2] by (simp add: DecrementInflight_def Let_def case_prod_beta split: reply.splits)
qed

lemma release_calm: "calm (view w) (view (snd (Release R cfg h j ok limited w)))"
proof -
  have 1: "calm (view w) (view (snd (r_eval R (adaptiveDelayOnSuccessScript k a b) w)))" for k a b
    by (intro calm_eval success_script_calm)
  have 2: "calm (view w) (view (snd (r_eval R (adaptiveDelayOnErrorScript k a b) w)))" for k a b
    by (intro calm_eval error_script_calm)
  show ?thesis
    using decrement_inflight_calm calm_trans [OF 1 decrement_inflight_calm] calm_trans [OF 2 decrement_inflight_calm] 1 2
    by (simp add: Release_def Let_def case_prod_beta split: option.splits)
qed

end

section \<open>No bookkeeping without acknowledgement\<close>

definition gone :: "stream_message \<Rightarrow> rstore \<Rightarrow> bool" where
  "gone msg s \<longleftrightarrow>
     sm_MessageID msg \<notin> pe_id ` set (pels s (StreamKey (sm_JobID msg)) (ConsumerGroup (sm_JobID msg)))"

definition rescheduled :: "stream_message \<Rightarrow> task_outcome \<Rightarrow> rstore \<Rightarrow> bool" where
  "rescheduled msg out s \<longleftrightarrow> (\<forall>d. to_Retry out = Some d \<and> rd_ShouldRetry d \<longrightarrow>
     Member (retry_entry msg (to_Task out) d) \<in> zs_members (zsets s (ScheduleKey (dt_JobID (to_Task out)))))"

lemma calm_gone: "calm s t \<Longrightarrow> gone msg t = gone msg s \<and> rescheduled msg out t = rescheduled msg out s"
  by (simp add: calm_def gone_def rescheduled_def)

lemma zs_add_member: "m \<in> zs_members (zs_add sc m z)"
  by (simp add: zs_add_def zs_members_def set_insort_key)

context redis_server
begin

lemma ack_gone:
  assumes "Ack R (sm_JobID msg) [sm_MessageID msg] w = (None, w')"
  shows "gone msg (view w')"
proof -
  let ?c = "XAck (StreamKey (sm_JobID msg)) (ConsumerGroup (sm_JobID msg)) [sm_MessageID msg]"
  obtain r where r: "r_cmd R ?c w = (r, w')" "\<not> is_err r"
    using assms by (auto simp: Ack_def err_of_None split: prod.splits)
  obtain d where "(r, view w') = redis_exec ?c (tick d (view w))" by (rule cmd_applied [OF r])
  then have "view w' = snd (redis_exec ?c (tick d (view w)))" by (metis snd_conv)
  then show ?thesis by (auto simp: gone_def)
qed

lemma settle_effect:
  assumes "settle_message R msg out w = (True, w')"
  shows "gone msg (view w') \<and> rescheduled msg out (view w')"
proof (cases "\<exists>d. to_Retry out = Some d \<and> rd_ShouldRetry d")
  case True
  then obtain d where d: "to_Retry out = Some d" "rd_ShouldRetry d" by blast
  let ?e = "retry_entry msg (to_Task out) d"
  have x: "ScheduleAndAck R ?e (sm_JobID msg) (sm_MessageID msg) w = (None, w')"
    using assms d by (auto simp: settle_message_def split: prod.splits)
  have j: "se_JobID ?e = dt_JobID (to_Task out)" by (simp add: retry_entry_def)
  show ?thesis
    using schedule_and_ack_step [OF redis_server_axioms x] d zs_add_member
    by (auto simp: gone_def rescheduled_def j)
next
  case False
  then have "Ack R (sm_JobID msg) [sm_MessageID msg] w = (None, w')"
    using assms by (auto simp: settle_message_def split: prod.splits option.splits if_splits)
  then show ?thesis using ack_gone False by (auto simp: rescheduled_def)
qed

end

lemma observe_outcome_sel [simp]:
  "sp_redis (observe_outcome E out p) = sp_redis p" "sp_db (observe_outcome E out p) = sp_db p"
  "sp_cache (observe_outcome E out p) = sp_cache p" "sp_active (observe_outcome E out p) = sp_active p"
  by (simp_all add: observe_outcome_def case_prod_beta split: option.splits)

lemma perform_sel [simp]:
  "sp_redis (perform E e p) = sp_redis p" "sp_db (perform E e p) = we_do E e (sp_db p)"
  by (simp_all add: perform_def)

lemma on_redis_sel [simp]:
  "fst (on_redis f p) = fst (f (sp_redis p))" "sp_redis (snd (on_redis f p)) = snd (f (sp_redis p))"
  "sp_db (snd (on_redis f p)) = sp_db p" "sp_cache (snd (on_redis f p)) = sp_cache p"
  "sp_breaker (snd (on_redis f p)) = sp_breaker p" "sp_calls (snd (on_redis f p)) = sp_calls p"
  "sp_active (snd (on_redis f p)) = sp_active p"
  by (simp_all add: on_redis_def case_prod_beta)

text \<open>What is done for a settled message.\<close>

definition bookkeeping :: "'d worker_env \<Rightarrow> stream_message \<Rightarrow> task_outcome \<Rightarrow> effect list \<Rightarrow> bool" where
  "bookkeeping E msg out es \<longleftrightarrow>
     (\<exists>pr. pr \<in> {[], [Promote (sm_JobID msg)]} \<and>
       es = pr @ (case to_HTMLUpload out of Some u \<Rightarrow> if we_persist E then [Upload (to_Task out) u] else [] | None \<Rightarrow> []) @
            [QueueUpdate (to_Task out)])"

lemma on_db_sel [simp]:
  "fst (on_db f p) = fst (f (sp_db p))" "sp_redis (snd (on_db f p)) = sp_redis p" "sp_cache (snd (on_db f p)) = sp_cache p"
  "sp_active (snd (on_db f p)) = sp_active p"
  by (simp_all add: on_db_def case_prod_beta)

lemma load_info_redis [simp]: "sp_redis (snd (loadJobInfo E now j p)) = sp_redis p"
proof -
  have "sp_redis (snd (case on_db (fetchJobInfo E j) p of (Inl e, p1) \<Rightarrow> (Inl e, p1)
      | (Inr i, p1) \<Rightarrow> (Inr i, p1\<lparr>sp_cache := (sp_cache p1)(j \<mapsto> (i, now + jobInfoTTL))\<rparr>))) = sp_redis p"
    by (simp add: case_prod_beta split: sum.splits)
  then show ?thesis by (simp add: loadJobInfo_def split: option.splits prod.splits)
qed

lemma discovered_links_redis [simp]: "sp_redis (handleDiscoveredLinks E now out p) = sp_redis p"
  by (simp add: handleDiscoveredLinks_def Let_def case_prod_beta split: sum.splits)

text \<open>C10: The outcome of a task is recorded only after its message has left the pending entries.
  Whatever call to Redis fails, either nothing but Redis has changed, or the message is acknowledged
  and its retry, if it has one, is in the sorted set of its job; then the effects on the database are
  at most one promotion, the upload of the page and the row of the task queued exactly once, in this
  order, and only after them are the discovered links of the page, if there are any, processed on
  the state they leave.\<close>

theorem bookkeeping_after_settling:
  assumes "redis_server R view" and "p' = handleOutcome R E now msg out p"
  shows "sp_db p' = sp_db p \<and> sp_cache p' = sp_cache p \<and> sp_breaker p' = sp_breaker p \<and> sp_calls p' = sp_calls p \<or>
    gone msg (view (sp_redis p')) \<and> rescheduled msg out (view (sp_redis p')) \<and>
      (\<exists>es p6. bookkeeping E msg out es \<and> sp_db p6 = foldl (\<lambda>d e. we_do E e d) (sp_db p) es \<and> sp_cache p6 = sp_cache p \<and>
         p' = (if to_DiscoveredLinks out = [] then p6 else handleDiscoveredLinks E now out p6))"
proof -
  obtain ok w1 where s: "settle_message R msg out (sp_redis p) = (ok, w1)" by force
  show ?thesis
  proof (cases ok)
    case False
    then show ?thesis using s assms(2) by (simp add: handleOutcome_def on_redis_def)
  next
    case True
    have s': "settle_message R msg out (sp_redis p) = (True, w1)" using s True by simp
    note e = redis_server.settle_effect [OF assms(1) s']
    obtain dec w2 where dec: "Decrement R (sm_JobID msg) w1 = (dec, w2)" by (rule prod.exhaust)
    let ?w3 = "snd (Release R (we_pacer E) (sm_Host msg) (sm_JobID msg) (to_Success out) (to_RateLimited out) w2)"
    have "calm (view w1) (view w2)" using redis_server.decrement_calm [OF assms(1), where j = "sm_JobID msg" and w = w1] dec by simp
    then have c: "calm (view w1) (view ?w3)" using calm_trans redis_server.release_calm [OF assms(1)] by blast
    let ?p2 = "p\<lparr>sp_redis := w2\<rparr>"
    let ?p3 = "if isl dec \<or> \<not> we_queue E then ?p2 else perform E (Promote (sm_JobID msg)) ?p2"
    let ?p4 = "snd (on_redis (Release R (we_pacer E) (sm_Host msg) (sm_JobID msg) (to_Success out) (to_RateLimited out)) ?p3)"
    let ?p5 = "case to_HTMLUpload out of Some u \<Rightarrow> if we_persist E then perform E (Upload (to_Task out) u) ?p4 else ?p4
        | None \<Rightarrow> ?p4"
    let ?p6 = "observe_outcome E out (perform E (QueueUpdate (to_Task out)) ?p5)"
    have p': "p' = (if to_DiscoveredLinks out = [] then ?p6 else handleDiscoveredLinks E now out ?p6)"
    proof -
      have 1: "on_redis (settle_message R msg out) p = (True, p\<lparr>sp_redis := w1\<rparr>)" using s' by (simp add: on_redis_def)
      have 2: "on_redis (Decrement R (sm_JobID msg)) (p\<lparr>sp_redis := w1\<rparr>) = (dec, ?p2)" using dec by (simp add: on_redis_def)
      show ?thesis unfolding assms(2) handleOutcome_def 1 prod.case bool.case 2 Let_def by (cases "to_DiscoveredLinks out = []") (simp_all only: simp_thms if_True if_False)
    qed
    let ?es = "(if isl dec \<or> \<not> we_queue E then [] else [Promote (sm_JobID msg)]) @
        (case to_HTMLUpload out of Some u \<Rightarrow> if we_persist E then [Upload (to_Task out) u] else [] | None \<Rightarrow> []) @
        [QueueUpdate (to_Task out)]"
    have es: "bookkeeping E msg out ?es" by (auto simp: bookkeeping_def)
    have db: "sp_db ?p6 = foldl (\<lambda>d e. we_do E e d) (sp_db p) ?es" by (simp split: option.splits)
    have cache: "sp_cache ?p6 = sp_cache p" by (simp add: perform_def split: option.splits)
    have "sp_redis ?p6 = ?w3" by (simp split: option.splits)
    then have r: "sp_redis p' = ?w3" unfolding p' by simp
    have "gone msg (view (sp_redis p'))" "rescheduled msg out (view (sp_redis p'))"
      using e calm_gone [OF c] unfolding r by simp_all
    then show ?thesis using es db cache p' by blast
  qed
qed

section \<open>The hooks of the dispatcher\<close>

text \<open>The pool is the \<open>ConcurrencyChecker\<close> and the \<open>Reconciler\<close> of the dispatcher, which works on the
  same Redis.\<close>

definition pool_redis :: "'w redis \<Rightarrow> ('w, 'd) pool redis" where
  "pool_redis R = \<lparr>r_cmd = (\<lambda>c. on_redis (r_cmd R c)), r_pipe = (\<lambda>cs. on_redis (r_pipe R cs)),
     r_tx = (\<lambda>cs. on_redis (r_tx R cs)), r_eval = (\<lambda>q. on_redis (r_eval R q))\<rparr>"

definition worker_hooks :: "'w redis \<Rightarrow> 'd worker_env \<Rightarrow> time \<Rightarrow> bool \<Rightarrow> ('w, 'd) pool hooks" where
  "worker_hooks R E now locked =
     \<lparr>h_CanDispatch = CanDispatch R E now,
      h_onFirstDispatch = map_option (\<lambda>f j. on_db (f j)) (we_first E),
      h_TriggerReconcile = Some (TriggerReconcile R locked)\<rparr>"

abbreviation pool_view :: "('w \<Rightarrow> rstore) \<Rightarrow> ('w, 'd) pool \<Rightarrow> rstore" where
  "pool_view view \<equiv> \<lambda>p. view (sp_redis p)"

lemma pool_redis_sel [simp]:
  "r_cmd (pool_redis R) c = on_redis (r_cmd R c)" "r_pipe (pool_redis R) cs = on_redis (r_pipe R cs)"
  "r_tx (pool_redis R) cs = on_redis (r_tx R cs)" "r_eval (pool_redis R) q = on_redis (r_eval R q)"
  by (simp_all add: pool_redis_def)

lemma pool_redis_server:
  assumes "redis_server R view"
  shows "redis_server (pool_redis R) (pool_view view)"
  using redis_server.cmd_law [OF assms] redis_server.pipe_law [OF assms] redis_server.pipe_err [OF assms]
    redis_server.tx_law [OF assms] redis_server.tx_err [OF assms] redis_server.eval_law [OF assms]
  by (intro redis_server.intro) simp_all

lemma pool_redis_reliable:
  assumes "redis_reliable R view"
  shows "redis_reliable (pool_redis R) (pool_view view)"
  using redis_reliable.cmd_exact [OF assms] redis_reliable.tx_exact [OF assms] redis_reliable.pipe_exact [OF assms]
    redis_reliable.eval_exact [OF assms] pool_redis_server [OF redis_reliable.axioms(1) [OF assms]]
  by (intro redis_reliable.intro redis_reliable_axioms.intro) simp_all

context redis_server
begin

lemma get_calm: "untouched (view w) (view (snd (Get R j w)))"
  using quiet_untouched [of "HGet RunningCountersKey j" w]
  by (simp add: Get_def case_prod_beta split: reply.splits option.splits)

lemma get_all_calm: "untouched (view w) (view (snd (GetAll R w)))"
  using quiet_untouched [of "HGetAll RunningCountersKey" w]
  by (simp add: GetAll_def case_prod_beta split: reply.splits)

lemma pending_count_calm: "untouched (view w) (view (snd (ConsumerPendingCount R j w)))"
  using quiet_untouched [of "XPending (StreamKey j) (ConsumerGroup j)" w]
  by (simp add: ConsumerPendingCount_def case_prod_beta split: reply.splits)

lemma probe_calm: "untouched (view w) (view (snd (probe_counts R existing js counts w)))"
proof (induction js arbitrary: counts w)
  case (Cons j js)
  obtain r w1 where c: "ConsumerPendingCount R j w = (r, w1)" by fastforce
  then have "untouched (view w) (view w1)" using pending_count_calm [of w j] by simp
  then show ?case using c Cons untouched_trans by (auto split: sum.splits option.splits)
qed simp

end

text \<open>The commands of a reconciliation change the hash of the counters only.\<close>

lemma del_counters_progress: "progress s (snd (redis_exec (Del [RunningCountersKey]) s))"
  by (auto simp: progress_def del_key_def)

lemma reconcile_script_progress: "progress s (snd (reconcileScript RunningCountersKey args s))"
  by (auto simp: progress_def reconcileScript_def Let_def del_key_def put_hash_def)

lemma progress_tick: "progress s (tick n s)"
  by (simp add: progress_def)

context redis_server
begin

lemma reconcile_progress: "progress (view w) (view (snd (Reconcile R counts w)))"
proof -
  have 1: "progress (view w) (view (snd (r_cmd R (Del [RunningCountersKey]) w)))"
    by (cases rule: cmd_cases [OF prod.collapse [symmetric, of "r_cmd R (Del [RunningCountersKey]) w"]])
      (metis progress_tick progress_trans del_counters_progress)+
  have 2: "progress (view w) (view (snd (r_eval R (reconcileScript RunningCountersKey args) w)))" for args
    by (cases rule: eval_cases [OF prod.collapse [symmetric, of "r_eval R (reconcileScript RunningCountersKey args) w"]])
      (metis progress_tick progress_trans reconcile_script_progress)+
  show ?thesis using 1 2 by (simp add: Reconcile_def Let_def case_prod_beta)
qed

lemma reconcile_counters_progress: "progress (view (sp_redis p)) (view (sp_redis (reconcileCounters R p)))"
proof -
  have "progress (view w) (view (snd (Reconcile R counts (snd (probe_counts R ex js cs (snd (GetAll R w)))))))"
    for w counts ex js cs
    using untouched_progress [OF untouched_trans [OF get_all_calm probe_calm]] reconcile_progress progress_trans by blast
  then show ?thesis by (simp add: reconcileCounters_def case_prod_beta Let_def)
qed

end

lemma can_dispatch_redis:
  "sp_redis (snd (CanDispatch R E now j p)) = sp_redis p \<or>
   sp_redis (snd (CanDispatch R E now j p)) = snd (Get R j (sp_redis p))"
  using load_info_redis [of E now j p]
  by (auto simp: CanDispatch_def case_prod_beta split: sum.splits)

lemma worker_dispatch_hooks:
  assumes "redis_server R view"
  shows "dispatch_hooks (pool_redis R) (pool_view view) (worker_hooks R E now locked)"
proof (intro dispatch_hooks.intro dispatch_hooks_axioms.intro)
  show "redis_server (pool_redis R) (pool_view view)" by (rule pool_redis_server [OF assms])
  show "untouched (pool_view view w) (pool_view view (snd (h_CanDispatch (worker_hooks R E now locked) j w)))" for j w
    using can_dispatch_redis [of R E now j w] redis_server.get_calm [OF assms]
    by (auto simp: worker_hooks_def)
  show "untouched (pool_view view w) (pool_view view (snd (f j w)))"
    if "h_onFirstDispatch (worker_hooks R E now locked) = Some f" for f j w
    using that by (auto simp: worker_hooks_def)
  show "progress (pool_view view w) (pool_view view (g w))"
    if "h_TriggerReconcile (worker_hooks R E now locked) = Some g" for g w
    using that redis_server.reconcile_counters_progress [OF assms]
    by (auto simp: worker_hooks_def TriggerReconcile_def runReconcileSerialised_def)
qed

section \<open>Capacity\<close>

text \<open>The jobs table as a function, and the concurrency it gives a job.\<close>

definition table_env :: "(string \<Rightarrow> string + info_row) \<Rightarrow> 'd worker_env \<Rightarrow> 'd worker_env" where
  "table_env T E = E\<lparr>we_fetch := \<lambda>j d. (T j, d)\<rparr>"

definition table_cap :: "(string \<Rightarrow> string + info_row) \<Rightarrow> string \<Rightarrow> int" where
  "table_cap T j = (case T j of Inr r \<Rightarrow> job_cap (ir_Concurrency r) | Inl _ \<Rightarrow> fallbackJobConcurrency)"

definition cache_ok :: "(string \<Rightarrow> string + info_row) \<Rightarrow> ('w, 'd) pool \<Rightarrow> bool" where
  "cache_ok T p \<longleftrightarrow> (\<forall>j info t. sp_cache p j = Some (info, t) \<longrightarrow> job_cap (ji_Concurrency info) = table_cap T j)"

lemma job_cap_int64: "in_int64 (job_cap c)"
  using sint_lt [of c] sint_ge [of c] by (auto simp: job_cap_def in_int64_def fallbackJobConcurrency_def)

lemma fetch_cap: "fst (fetchJobInfo (table_env T E) j d) = Inr info \<Longrightarrow> job_cap (ji_Concurrency info) = table_cap T j"
  by (auto simp: fetchJobInfo_def table_env_def table_cap_def Let_def case_prod_beta split: sum.splits if_splits)

lemma load_info_cap:
  assumes "cache_ok T p" and "loadJobInfo (table_env T E) now j p = (r, p')"
  shows "cache_ok T p' \<and> (\<forall>info. r = Inr info \<longrightarrow> job_cap (ji_Concurrency info) = table_cap T j)"
proof -
  let ?f = "case on_db (fetchJobInfo (table_env T E) j) p of (Inl e, p1) \<Rightarrow> (Inl e, p1)
      | (Inr i, p1) \<Rightarrow> (Inr i, p1\<lparr>sp_cache := (sp_cache p1)(j \<mapsto> (i, now + jobInfoTTL))\<rparr>)"
  have f: "cache_ok T p' \<and> (\<forall>info. r = Inr info \<longrightarrow> job_cap (ji_Concurrency info) = table_cap T j)"
    if "?f = (r, p')"
  proof (cases "fst (fetchJobInfo (table_env T E) j (sp_db p))")
    case (Inl e)
    then show ?thesis using that assms(1) by (auto simp: on_db_def case_prod_beta cache_ok_def)
  next
    case (Inr i)
    then show ?thesis
      using that assms(1) fetch_cap [OF Inr] by (auto simp: on_db_def case_prod_beta cache_ok_def split: if_splits)
  qed
  show ?thesis
  proof (cases "sp_cache p j")
    case None
    then show ?thesis using f assms(2) by (simp add: loadJobInfo_def)
  next
    case (Some x)
    obtain info t where x: "x = (info, t)" by force
    show ?thesis
    proof (cases "now < t")
      case True
      then show ?thesis using assms Some x by (auto simp: loadJobInfo_def cache_ok_def)
    next
      case False
      then show ?thesis using f assms(2) Some x by (simp add: loadJobInfo_def)
    qed
  qed
qed

lemma cache_ok_redis [simp]: "cache_ok T (snd (on_redis f p)) = cache_ok T p"
  and cache_ok_db [simp]: "cache_ok T (snd (on_db g p)) = cache_ok T p"
  by (simp_all add: cache_ok_def)

lemma can_dispatch_ok:
  assumes "cache_ok T p"
  shows "cache_ok T (snd (CanDispatch R (table_env T E) now j p))"
proof -
  obtain r p1 where l: "loadJobInfo (table_env T E) now j p = (r, p1)" by force
  then have "cache_ok T p1" using load_info_cap [OF assms] by blast
  then show ?thesis using l by (auto simp: CanDispatch_def case_prod_beta split: sum.splits)
qed

lemma worker_capacity_hooks:
  assumes "redis_reliable R view"
  shows "capacity_hooks (pool_redis R) (pool_view view) (worker_hooks R (table_env T E) now locked) (table_cap T) (cache_ok T)"
proof (intro capacity_hooks.intro capacity_hooks_axioms.intro)
  let ?H = "worker_hooks R (table_env T E) now locked"
  have srv: "redis_server R view" by (rule redis_reliable.axioms(1) [OF assms])
  have c: "h_CanDispatch ?H = CanDispatch R (table_env T E) now" by (simp add: worker_hooks_def)
  show "redis_reliable (pool_redis R) (pool_view view)" by (rule pool_redis_reliable [OF assms])
  show "dispatch_hooks (pool_redis R) (pool_view view) ?H" by (rule worker_dispatch_hooks [OF srv])
  show "in_int64 (table_cap T j)" for j
    using job_cap_int64 by (simp add: table_cap_def in_int64_def fallbackJobConcurrency_def split: sum.splits)
  show "cache_ok T (snd (r_cmd (pool_redis R) x w))" "cache_ok T (snd (r_tx (pool_redis R) cs w))"
    "cache_ok T (snd (r_eval (pool_redis R) q w))" if "cache_ok T w" for w x cs q
    using that by simp_all
  show "cache_ok T (snd (h_CanDispatch ?H j w))" if "cache_ok T w" for j w
    unfolding c by (rule can_dispatch_ok [OF that])
  show "cache_ok T (snd (f j w))"
    if "h_onFirstDispatch ?H = Some f" "cache_ok T w" for f j w
    using that by (auto simp: worker_hooks_def)
  show "counters_kept (pool_view view w) (pool_view view (snd (f j w)))" if "h_onFirstDispatch ?H = Some f" for f j w
    using that by (auto simp: worker_hooks_def)
  have g: "counters_kept (view w) (view (snd (Get R j w)))" for w j
    using redis_server.counter_free_cmd [OF srv, of "HGet RunningCountersKey j" w]
    by (simp add: Get_def case_prod_beta split: reply.splits option.splits)
  show "counters_kept (pool_view view w) (pool_view view (snd (h_CanDispatch ?H j w)))" for j w
    using can_dispatch_redis [of R "table_env T E" now j w] g unfolding c by auto
  show "counter_at (pool_view view w) j < table_cap T j"
    if can: "h_CanDispatch ?H j w = (Inr True, w')" "counters_inv (pool_view view w)" "cache_ok T w" for j w w'
  proof -
    obtain r p1 where l: "loadJobInfo (table_env T E) now j w = (r, p1)" by force
    have red: "sp_redis p1 = sp_redis w" using load_info_redis [of "table_env T E" now j w] l by simp
    obtain info where i: "r = Inr info" using can(1) l unfolding c by (auto simp: CanDispatch_def split: sum.splits)
    obtain x w1 where x: "Get R j (sp_redis w) = (x, w1)" by force
    have "x = Inr (counter_at (view (sp_redis w)) j)" by (rule redis_reliable.get_now(1) [OF assms can(2) x])
    then show ?thesis
      using can(1) l i x red load_info_cap [OF can(3) l] unfolding c
      by (auto simp: CanDispatch_def on_redis_def)
  qed
qed

text \<open>The laws of the dispatcher's interfaces hold for the pool, over the client in memory and over
  the one that fails.\<close>

interpretation pool: capacity_hooks "pool_redis mem_redis" "pool_view (\<lambda>s. s)"
  "worker_hooks mem_redis (table_env T E) now locked" "table_cap T" "cache_ok T"
  by (rule worker_capacity_hooks [OF mem.redis_reliable_axioms])

interpretation pool_sim: dispatch_hooks "pool_redis sim_redis" "pool_view sim_store"
  "worker_hooks sim_redis E now locked"
  by (rule worker_dispatch_hooks [OF sim.redis_server_axioms])

text \<open>C6: The dispatcher and the pool keep the concurrency of a job during one batch, when Redis answers
  every call, the row of the job in the jobs table does not change meanwhile and the cached rows agree
  with it.  The batch raises the running counter by exactly the number of tasks it reports as
  published, and this is no more than the concurrency leaves over the counter, however often the
  cached row expires; only the reconciliation that a refusal may trigger at the end of the batch can
  set the counter to something else.\<close>

theorem dispatch_within_concurrency:
  assumes "redis_reliable R view" and "counters_inv (view (sp_redis p))" and "cache_ok T p"
    and "dispatchJob (pool_redis R) cfg (worker_hooks R (table_env T E) now locked) opts j t (d, p) = (Inr n, dp')"
  shows "int n \<le> max 0 (table_cap T j - counter_at (view (sp_redis p)) j) \<and>
    (\<exists>d1 p1. counter_at (view (sp_redis p1)) j = counter_at (view (sp_redis p)) j + int n \<and>
       (dp' = (d1, p1) \<or> dp' = maybeTriggerReconcile (worker_hooks R (table_env T E) now locked) opts j t (d1, p1)))"
  using capacity_hooks.dispatch_job_capacity [OF worker_capacity_hooks [OF assms(1)] assms(2-4)]
  unfolding counted_then_healed_def .

text \<open>An environment whose state is the list of effects, with nothing to crawl.\<close>

definition log_env :: "(string \<Rightarrow> string + info_row) \<Rightarrow> effect list worker_env" where
  "log_env T = \<lparr>we_env = (\<lambda>_. []), we_lib = no_lib, we_exec = std_config,
     we_pacer = DefaultPacerConfig (\<lambda>_ d. d), we_consumer = DefaultConsumerOpts (\<lambda>_ d. d) ''c'',
     we_jm = False, we_persist = False, we_queue = True, we_warm = (\<lambda>u f d. ((None, Some ''timeout''), d)),
     we_fetch = (\<lambda>j d. (T j, d)), we_robots = (\<lambda>h d. (Inr None, d)), we_active = (\<lambda>n d. (Inr [], d)),
     we_link = \<lparr>le_MinPriority = 0, le_etld = (\<lambda>_. None), le_resolve = (\<lambda>_ u. u), le_string = (\<lambda>_. []),
       le_done = (\<lambda>_. True), le_remaining = (\<lambda>_. None), le_create = (\<lambda>_ _ _ _ d. (Inr [], d)),
       le_enqueue = (\<lambda>_ _ _ _ _ d. (None, d))\<rparr>,
     we_do = (\<lambda>e d. d @ [e]), we_first = None\<rparr>"

definition start_pool :: "'w \<Rightarrow> ('w, effect list) pool" where
  "start_pool w = \<lparr>sp_redis = w, sp_db = [], sp_cache = (\<lambda>_. None), sp_active = [], sp_breaker = None, sp_calls = []\<rparr>"

definition one_slot :: "string \<Rightarrow> string + info_row" where
  "one_slot j = Inr \<lparr>ir_DomainID = 1, ir_DomainName = ''h'', ir_CrawlDelay = None, ir_AdaptiveDelay = None,
     ir_AdaptiveFloor = None, ir_FindLinks = False, ir_AllowCross = False, ir_Concurrency = 1\<rparr>"

lemma table_log_env [simp]: "table_env T (log_env T) = log_env T"
  by (simp add: table_env_def log_env_def)

lemma cache_ok_start [simp]: "cache_ok T (start_pool w)"
  by (simp add: cache_ok_def start_pool_def)

lemma table_cap_one [simp]: "table_cap one_slot j = 1"
  by (simp add: table_cap_def one_slot_def job_cap_def)

theorem dispatch_within_concurrency_witness:
  "\<exists>r dp'. dispatchJob (pool_redis mem_redis) (DefaultPacerConfig (\<lambda>_ d. d))
       (worker_hooks mem_redis (log_env one_slot) 0 False) (DefaultDispatcherOpts (\<lambda>_ d. d)) ''j'' 5000000
       (new_dispatcher, start_pool (due_example\<lparr>hashes := hashes (counters_example 1)\<rparr>)) = (r, dp') \<and>
     (\<forall>n. r = Inr n \<longrightarrow> n = 0)"
proof -
  let ?s = "due_example\<lparr>hashes := hashes (counters_example 1)\<rparr>"
  obtain r dp' where x: "dispatchJob (pool_redis mem_redis) (DefaultPacerConfig (\<lambda>_ d. d))
       (worker_hooks mem_redis (log_env one_slot) 0 False) (DefaultDispatcherOpts (\<lambda>_ d. d)) ''j'' 5000000
       (new_dispatcher, start_pool ?s) = (r, dp')" by (rule prod.exhaust)
  have i: "itoa 1 = ''1''" by code_simp
  have h: "ttls ?s RunningCountersKey = None" "map_of (hash_at ?s RunningCountersKey) = [''j'' \<mapsto> ''1'']"
    by (simp_all add: due_example_def counters_example_def empty_store_def hash_at_def expired_def put_hash_def i)
  have c: "counters_inv ?s" "counter_at ?s ''j'' = 1"
    using h i lua_num_itoa [of 1]
    by (auto simp: counters_inv_def counter_at_def in_int64_def intro!: exI [of _ 1])
  have "n = 0" if "r = Inr n" for n
    using dispatch_within_concurrency [THEN conjunct1, OF mem.redis_reliable_axioms, of "start_pool ?s" one_slot _ "log_env one_slot" 0
        False _ "''j''" 5000000 new_dispatcher n dp'] x that c
    by (simp add: start_pool_def [of ?s] cache_ok_def)
  then show ?thesis using x by blast
qed

section \<open>Reconciliation\<close>

text \<open>The pending entries of the group of a job; none when there is no group.\<close>

definition pel_size :: "rstore \<Rightarrow> string \<Rightarrow> int" where
  "pel_size s j = (case map_of (groups s (StreamKey j)) (ConsumerGroup j) of
     None \<Rightarrow> 0 | Some _ \<Rightarrow> int (length (pels s (StreamKey j) (ConsumerGroup j))))"

lemma pel_size_nonneg: "0 \<le> pel_size s j"
  by (simp add: pel_size_def split: option.splits)

lemma pel_size_tick [simp]: "pel_size (tick d s) j = pel_size s j"
  by (simp add: pel_size_def split: option.splits)

lemma no_group_err: "isNoGroupErr (Some (''NOGROUP No such key '' @ x))"
proof -
  have "str_contains (''NOGROUP No such key '' @ x) ''NOGROUP''"
    by (simp add: str_contains_def has_prefix_def)
  then show ?thesis by (simp add: isNoGroupErr_def)
qed

lemma numeric_fields_keys:
  "set (map fst (numeric_fields kvs)) = {j. \<exists>v. (j, v) \<in> set kvs \<and> atoi v \<noteq> None}"
  by (induction kvs rule: numeric_fields.induct) (auto split: option.splits)

context redis_reliable
begin

lemma pending_now:
  "\<exists>d. view (snd (ConsumerPendingCount R j w)) = tick d (view w) \<and> fst (ConsumerPendingCount R j w) = Inr (pel_size (view w) j)"
proof -
  let ?c = "XPending (StreamKey j) (ConsumerGroup j)"
  obtain x w1 where c: "r_cmd R ?c w = (x, w1)" by (rule prod.exhaust)
  obtain d where d: "(x, view w1) = redis_exec ?c (tick d (view w))" by (rule cmd_now [OF c])
  show ?thesis
    using c d no_group_err
    by (cases "map_of (groups (view w) (StreamKey j)) (ConsumerGroup j)")
      (auto simp: ConsumerPendingCount_def no_group_def pel_size_def)
qed

lemma probe_now:
  "\<exists>d. view (snd (probe_counts R ex js cs w)) = tick d (view w) \<and>
     map_of (fst (probe_counts R ex js cs w)) =
       (\<lambda>j. if j \<in> set js \<and> 0 < pel_size (view w) j then Some (pel_size (view w) j) else map_of cs j) \<and>
     (distinct (map fst cs) \<longrightarrow> distinct (map fst (fst (probe_counts R ex js cs w))))"
proof (induction js arbitrary: cs w)
  case Nil
  show ?case by (rule exI [of _ 0]) simp
next
  case (Cons j js)
  obtain r w1 where c: "ConsumerPendingCount R j w = (r, w1)" by (rule prod.exhaust)
  obtain d where d: "view w1 = tick d (view w)" "r = Inr (pel_size (view w) j)"
    using pending_now [of j w] c by auto
  define cs1 where "cs1 = (if 0 < pel_size (view w) j then AList.update j (pel_size (view w) j) cs else cs)"
  have p: "probe_counts R ex (j # js) cs w = probe_counts R ex js cs1 w1" using c d by (simp add: cs1_def)
  obtain e where e: "view (snd (probe_counts R ex js cs1 w1)) = tick e (view w1)"
    "map_of (fst (probe_counts R ex js cs1 w1)) =
       (\<lambda>i. if i \<in> set js \<and> 0 < pel_size (view w1) i then Some (pel_size (view w1) i) else map_of cs1 i)"
    "distinct (map fst cs1) \<longrightarrow> distinct (map fst (fst (probe_counts R ex js cs1 w1)))"
    using Cons.IH [of cs1 w1] by blast
  show ?case
    unfolding p using e d
    by (intro exI [of _ "e + d"]) (auto simp: cs1_def fun_eq_iff distinct_update)
qed

lemma get_all_now:
  assumes "counters_inv (view w)"
  shows "\<exists>cs d. fst (GetAll R w) = Inr cs \<and> view (snd (GetAll R w)) = tick d (view w) \<and>
    set (map fst cs) = {j. map_of (hash_at (view w) RunningCountersKey) j \<noteq> None}"
proof -
  let ?h = "hash_at (view w) RunningCountersKey"
  obtain x w1 where c: "r_cmd R (HGetAll RunningCountersKey) w = (x, w1)" by (rule prod.exhaust)
  obtain d where d: "(x, view w1) = redis_exec (HGetAll RunningCountersKey) (tick d (view w))" by (rule cmd_now [OF c])
  have h: "hash_at (tick d (view w)) RunningCountersKey = ?h"
    using assms by (intro hash_at_tick_no_ttl) (simp add: counters_inv_def)
  have k: "(\<exists>v. (j, v) \<in> set ?h \<and> atoi v \<noteq> None) \<longleftrightarrow> map_of ?h j \<noteq> None" for j
  proof
    assume "map_of ?h j \<noteq> None"
    then obtain n where "map_of ?h j = Some (itoa n)" "in_int64 n" using assms by (auto simp: counters_inv_def)
    then show "\<exists>v. (j, v) \<in> set ?h \<and> atoi v \<noteq> None" using map_of_SomeD atoi_itoa by fastforce
  next
    assume "\<exists>v. (j, v) \<in> set ?h \<and> atoi v \<noteq> None"
    then have "j \<in> fst ` set ?h" by (auto intro: rev_image_eqI)
    then show "map_of ?h j \<noteq> None" by (simp add: map_of_eq_None_iff)
  qed
  have g: "GetAll R w = (Inr (numeric_fields ?h), w1)" "view w1 = tick d (view w)"
    using c d h by (simp_all add: GetAll_def)
  show ?thesis
    unfolding g(1) fst_conv snd_conv by (intro exI conjI) (rule refl, rule g(2), simp only: numeric_fields_keys k)
qed

lemma reconcile_counters_now:
  assumes "counters_inv (view (sp_redis p))" and "counters_clean (view (sp_redis p))"
    and "\<And>j. in_int64 (pel_size (view (sp_redis p)) j)"
  shows "counters_inv (view (sp_redis (reconcileCounters R p))) \<and> counters_clean (view (sp_redis (reconcileCounters R p))) \<and>
    counter_at (view (sp_redis (reconcileCounters R p))) j =
      (if j \<in> set (sp_active p) \<or> 0 < counter_at (view (sp_redis p)) j then pel_size (view (sp_redis p)) j else 0)"
proof -
  let ?s = "view (sp_redis p)"
  obtain ex d where ex: "fst (GetAll R (sp_redis p)) = Inr ex" "view (snd (GetAll R (sp_redis p))) = tick d ?s"
    "set (map fst ex) = {j. map_of (hash_at ?s RunningCountersKey) j \<noteq> None}"
    using get_all_now [OF assms(1)] by blast
  define w1 where "w1 = snd (GetAll R (sp_redis p))"
  define js where "js = sp_active p @ filter (\<lambda>j. j \<notin> set (sp_active p)) (map fst ex)"
  define cs where "cs = fst (probe_counts R ex js [] w1)"
  define w2 where "w2 = snd (probe_counts R ex js [] w1)"
  have v1: "pel_size (view w1) = pel_size ?s" using ex(2) by (simp add: w1_def fun_eq_iff)
  have m: "map_of cs = (\<lambda>j. if j \<in> set js \<and> 0 < pel_size ?s j then Some (pel_size ?s j) else None)" "distinct (map fst cs)"
    using probe_now [of ex js "[]" w1] by (auto simp: cs_def v1)
  have sp: "sp_redis (reconcileCounters R p) = snd (Reconcile R cs w2)"
    using ex(1) by (simp add: reconcileCounters_def case_prod_beta Let_def cs_def w2_def w1_def js_def)
  have i: "\<forall>(j, n)\<in>set cs. in_int64 n"
  proof (clarify)
    fix j n assume "(j, n) \<in> set cs"
    then have "map_of cs j = Some n" using m(2) by simp
    then show "in_int64 n" using assms(3) unfolding m(1) by (auto split: if_splits)
  qed
  have are: "counters_are cs (view (snd (Reconcile R cs w2)))"
    by (rule reconcile_now [OF m(2) i prod.collapse [symmetric]])
  have "map_of (hash_at ?s RunningCountersKey) j \<noteq> None \<longleftrightarrow> 0 < counter_at ?s j"
    using assms(1,2) counters_inv_value(1) [OF assms(1), of j] by (auto simp: counters_clean_def)
  then have "j \<in> set js \<longleftrightarrow> j \<in> set (sp_active p) \<or> 0 < counter_at ?s j"
    using ex(3) by (auto simp: js_def)
  then show ?thesis
    using are pel_size_nonneg [of ?s j] unfolding sp counters_are_def m(1) by auto
qed

end

text \<open>A reconciliation makes every running counter the number of messages pending for its job.
  That holds for the active jobs and for every job that had a counter; every other counter is
  zero afterwards, and the hash stays well formed.\<close>

theorem reconcile_counts_pel:
  assumes "redis_reliable R view" and "counters_inv (view (sp_redis p))" and "counters_clean (view (sp_redis p))"
    and "\<And>j. in_int64 (pel_size (view (sp_redis p)) j)"
  shows "counters_inv (view (sp_redis (reconcileCounters R p))) \<and> counters_clean (view (sp_redis (reconcileCounters R p))) \<and>
    counter_at (view (sp_redis (reconcileCounters R p))) j =
      (if j \<in> set (sp_active p) \<or> 0 < counter_at (view (sp_redis p)) j then pel_size (view (sp_redis p)) j else 0)"
  by (rule redis_reliable.reconcile_counters_now [OF assms])

text \<open>A job with one slot whose only task is published and not yet delivered.\<close>

definition undelivered :: rstore where
  "undelivered = (counters_example 1)\<lparr>
     streams := (\<lambda>_. [])(StreamKey ''j'' := [(''1-0'', publish_values due_entry)]),
     groups := (\<lambda>_. [])(StreamKey ''j'' := [(ConsumerGroup ''j'', 0)])\<rparr>"

lemma undelivered_ok: "counters_inv undelivered" "counters_clean undelivered" "counter_at undelivered ''j'' = 1"
  "pel_size undelivered i = 0"
  using counters_example_ok [of 1]
  by (simp_all add: undelivered_def counters_inv_def counters_clean_def counter_at_def hash_at_def expired_def in_int64_def)
    (simp add: pel_size_def counters_example_def empty_store_def put_hash_def)

theorem reconcile_counts_pel_witness:
  "counter_at (sp_redis (reconcileCounters mem_redis ((start_pool undelivered)\<lparr>sp_active := [''j'']\<rparr>))) ''j'' = 0"
  using reconcile_counts_pel [OF mem.redis_reliable_axioms, of "(start_pool undelivered)\<lparr>sp_active := [''j'']\<rparr>" "''j''"]
    undelivered_ok by (simp add: start_pool_def in_int64_def)

lemma can_dispatch_value:
  assumes "counters_inv (sp_redis p)" and "sp_cache p j = None"
  shows "fst (CanDispatch mem_redis (log_env one_slot) now j p) = Inr (counter_at (sp_redis p) j < 1)"
  using assms(2) get_value [OF assms(1), of j]
  by (auto simp: CanDispatch_def loadJobInfo_def fetchJobInfo_def on_db_def on_redis_def log_env_def one_slot_def
      job_cap_def Let_def case_prod_beta)

text \<open>Pending entries are not all that is under way.  A task that is published but not yet
  delivered is in no pending entry, so a reconciliation forgets it: a job with one slot that
  is taken by such a task may dispatch again, with the task still in its stream.\<close>

theorem reconcile_forgets_undelivered:
  "fst (CanDispatch mem_redis (log_env one_slot) 0 ''j'' (start_pool undelivered)) = Inr False \<and>
   fst (CanDispatch mem_redis (log_env one_slot) 0 ''j'' (reconcileCounters mem_redis (start_pool undelivered))) = Inr True \<and>
   (''1-0'', publish_values due_entry) \<in>
     set (streams (sp_redis (reconcileCounters mem_redis (start_pool undelivered))) (StreamKey ''j''))"
proof -
  let ?p = "start_pool undelivered" and ?q = "reconcileCounters mem_redis (start_pool undelivered)"
  have r: "sp_redis ?p = undelivered" "sp_cache ?p = (\<lambda>_. None)" by (simp_all add: start_pool_def)
  have q: "counters_inv (sp_redis ?q)" "counter_at (sp_redis ?q) ''j'' = 0"
    using mem.reconcile_counters_now [of ?p "''j''"] undelivered_ok by (simp_all add: r in_int64_def)
  have c: "sp_cache ?q = (\<lambda>_. None)" by (simp add: reconcileCounters_def case_prod_beta Let_def r)
  have "progress undelivered (sp_redis ?q)" using mem.reconcile_counters_progress [of ?p] r by simp
  then have "set (streams undelivered (StreamKey ''j'')) \<subseteq> set (streams (sp_redis ?q) (StreamKey ''j''))"
    unfolding progress_def by (simp add: key_defs)
  moreover have "(''1-0'', publish_values due_entry) \<in> set (streams undelivered (StreamKey ''j''))"
    by (simp add: undelivered_def)
  ultimately show ?thesis
    using can_dispatch_value [of ?p "''j''" 0] can_dispatch_value [of ?q "''j''" 0] undelivered_ok q c r by auto
qed

section \<open>The active jobs\<close>

lemma retain_running_set: "set (retain_running cs ids) = set ids \<union> {j. \<exists>n. (j, n) \<in> set cs \<and> 0 < n}"
  by (induction cs ids rule: retain_running.induct) auto

lemma retain_running_order:
  "distinct ids \<Longrightarrow> distinct (retain_running cs ids) \<and> (\<exists>xs. retain_running cs ids = ids @ xs)"
proof (induction cs ids rule: retain_running.induct)
  case (2 j n cs ids)
  then show ?case by (cases "n \<le> 0 \<or> j \<in> set ids") auto
qed simp

lemma numeric_fields_values:
  "(j, n) \<in> set (numeric_fields kvs) \<longleftrightarrow> (\<exists>v. (j, v) \<in> set kvs \<and> atoi v = Some n)"
  by (induction kvs rule: numeric_fields.induct) (auto split: option.splits)

context redis_reliable
begin

lemma get_all_values:
  assumes "counters_inv (view w)" and "distinct (map fst (hash_at (view w) RunningCountersKey))"
  shows "\<exists>cs. fst (GetAll R w) = Inr cs \<and> (\<forall>j. (\<exists>n. (j, n) \<in> set cs \<and> 0 < n) \<longleftrightarrow> 0 < counter_at (view w) j)"
proof -
  let ?h = "hash_at (view w) RunningCountersKey"
  obtain x w1 where c: "r_cmd R (HGetAll RunningCountersKey) w = (x, w1)" by (rule prod.exhaust)
  obtain d where d: "(x, view w1) = redis_exec (HGetAll RunningCountersKey) (tick d (view w))" by (rule cmd_now [OF c])
  have "hash_at (tick d (view w)) RunningCountersKey = ?h"
    using assms(1) by (intro hash_at_tick_no_ttl) (simp add: counters_inv_def)
  then have g: "fst (GetAll R w) = Inr (numeric_fields ?h)" using c d by (simp add: GetAll_def)
  have "(\<exists>n. (j, n) \<in> set (numeric_fields ?h) \<and> 0 < n) \<longleftrightarrow> 0 < counter_at (view w) j" for j
  proof -
    have v: "(j, x) \<in> set ?h \<longleftrightarrow> map_of ?h j = Some x" for x
      using assms(2) by simp
    show ?thesis
      unfolding numeric_fields_values v
      using counters_inv_value [OF assms(1), of j] by (auto dest: atoi_in_int64)
  qed
  then show ?thesis using g by blast
qed

end

text \<open>A refresh never drops a job with work in flight.  When the query answers, the active jobs
  are those it returned, in its order, followed by every other job whose running counter is
  positive, each once; when it fails they stay as they were.\<close>

theorem refresh_keeps_running:
  assumes "redis_reliable R view" and "counters_inv (view (sp_redis p))"
    and "distinct (map fst (hash_at (view (sp_redis p)) RunningCountersKey))"
  shows "case fst (we_active E (activeJobsLimit (we_env E)) (sp_db p)) of
      Inl _ \<Rightarrow> sp_active (refreshActiveJobs R E p) = sp_active p
    | Inr ids \<Rightarrow> set (sp_active (refreshActiveJobs R E p)) = set ids \<union> {j. 0 < counter_at (view (sp_redis p)) j} \<and>
        (distinct ids \<longrightarrow> distinct (sp_active (refreshActiveJobs R E p)) \<and>
          (\<exists>xs. sp_active (refreshActiveJobs R E p) = ids @ xs))"
proof -
  obtain cs where cs: "fst (GetAll R (sp_redis p)) = Inr cs"
    "\<forall>j. (\<exists>n. (j, n) \<in> set cs \<and> 0 < n) \<longleftrightarrow> 0 < counter_at (view (sp_redis p)) j"
    using redis_reliable.get_all_values [OF assms] by blast
  show ?thesis
  proof (cases "fst (we_active E (activeJobsLimit (we_env E)) (sp_db p))")
    case (Inl e)
    then show ?thesis by (simp add: refreshActiveJobs_def on_db_def case_prod_beta)
  next
    case (Inr ids)
    then have "sp_active (refreshActiveJobs R E p) = retain_running cs ids"
      using cs(1) by (simp add: refreshActiveJobs_def on_db_def on_redis_def case_prod_beta)
    then show ?thesis using Inr cs(2) retain_running_set [of cs ids] retain_running_order [of ids cs] by simp
  qed
qed

theorem refresh_keeps_running_witness:
  "set (sp_active (refreshActiveJobs mem_redis (log_env one_slot) (start_pool undelivered))) = {j. 0 < counter_at undelivered j}"
proof -
  have d: "distinct (map fst (hash_at (sp_redis (start_pool undelivered)) RunningCountersKey))"
    by (simp add: start_pool_def undelivered_def counters_example_def hash_at_def expired_def put_hash_def empty_store_def)
  show ?thesis
    using refresh_keeps_running [OF mem.redis_reliable_axioms, of "start_pool undelivered" "log_env one_slot"] undelivered_ok d
    by (simp add: start_pool_def log_env_def)
qed

definition example_message :: stream_message where
  "example_message = \<lparr>sm_MessageID = ''1-0'', sm_TaskID = ''t'', sm_JobID = ''j'', sm_PageID = 1, sm_Host = ''h'',
     sm_Path = ''/'', sm_Priority = 1, sm_RetryCount = 0, sm_SourceType = [], sm_SourceURL = []\<rparr>"

definition example_outcome :: task_outcome where
  "example_outcome = \<lparr>to_Task = taskToDBTask example_task, to_CrawlResult = None, to_Retry = Some permanent_failure,
     to_DiscoveredLinks = [], to_HTMLUpload = None, to_RateLimited = False, to_Success = False\<rparr>"

definition linked_outcome :: task_outcome where
  "linked_outcome = example_outcome\<lparr>to_DiscoveredLinks := [(''body'', [''/a''])]\<rparr>"

theorem bookkeeping_after_settling_witness:
  "gone example_message (sim_store (sp_redis (handleOutcome sim_redis (log_env one_slot) 0 example_message linked_outcome
     (start_pool \<lparr>sim_store = undelivered, sim_plan = [(0, 0), (0, 1)]\<rparr>))))"
proof -
  let ?w = "\<lparr>sim_store = undelivered, sim_plan = [(0, 0), (0, 1)]\<rparr>"
  have settled: "fst (settle_message sim_redis example_message linked_outcome ?w) = True"
    by (simp add: settle_message_def linked_outcome_def example_outcome_def permanent_failure_def Ack_def sim_redis_def
        sim_run_def sim_pop_def Let_def case_prod_beta err_of_None split: option.splits)
  let ?q = "handleOutcome sim_redis (log_env one_slot) 0 example_message linked_outcome (start_pool ?w)"
  have "sp_db ?q \<noteq> []"
    using settled by (simp add: handleOutcome_def on_redis_def case_prod_beta Let_def start_pool_def log_env_def handleDiscoveredLinks_def
        linked_outcome_def example_outcome_def)
  then show ?thesis
    using bookkeeping_after_settling [OF sim.redis_server_axioms refl, of "log_env one_slot" 0 example_message linked_outcome "start_pool ?w"]
    by (auto simp: start_pool_def)
qed

end
