(* ===== verification/Db_Pressure.thy ===== *)
theory Db_Pressure
  imports Go_Prelude "HOL-Library.Word"
begin

text \<open>
  \<open>internal/db/pressure.go\<close>: the controller that lowers the number of concurrent transactions when
  they get slow and raises it again when they get fast.  Limits and steps are signed 32-bit
  integers, so an addition can wrap round; the moving average is a rational number.
\<close>

section \<open>The controller\<close>

record pressure =
  pc_ema :: rat
  pc_samples :: int
  pc_lastScaleDown :: "time option"
  pc_lastScaleUp :: "time option"
  pc_limit :: "32 word"
  pc_maxLimit :: "32 word"
  pc_highMark :: rat
  pc_lowMark :: rat
  pc_stepDown :: "32 word"
  pc_stepUp :: "32 word"
  pc_cooldownDown :: time
  pc_cooldownUp :: time
  pc_minLimit :: "32 word"

definition pressureEMAAlpha :: rat where
  "pressureEMAAlpha = 15 / 100"

definition pressureWarmupSamples :: int where
  "pressureWarmupSamples = 5"

definition parsePressureFloat :: "(string \<Rightarrow> string) \<Rightarrow> string \<Rightarrow> rat \<Rightarrow> rat" where
  "parsePressureFloat env key fallback =
     (let raw = trim_space (env key) in
      if raw \<noteq> [] then (case parse_float raw of Some v \<Rightarrow> if v > 0 then v else fallback | None \<Rightarrow> fallback)
      else fallback)"

text \<open>\<open>strconv.ParseInt(raw, 10, 32)\<close> fails outside the 32-bit range.\<close>

definition parsePressureInt32 :: "(string \<Rightarrow> string) \<Rightarrow> string \<Rightarrow> 32 word \<Rightarrow> 32 word" where
  "parsePressureInt32 env key fallback =
     (let raw = trim_space (env key) in
      if raw \<noteq> []
      then (case atoi raw of
              Some v \<Rightarrow> if v < 2 ^ 31 \<and> v > 0 then word_of_int v else fallback
            | None \<Rightarrow> fallback)
      else fallback)"

definition smin :: "32 word \<Rightarrow> 32 word \<Rightarrow> 32 word" where
  "smin a b = (if sint a \<le> sint b then a else b)"

definition smax :: "32 word \<Rightarrow> 32 word \<Rightarrow> 32 word" where
  "smax a b = (if sint a \<le> sint b then b else a)"

definition newPressureController :: "(string \<Rightarrow> string) \<Rightarrow> int \<Rightarrow> pressure" where
  "newPressureController env maxLimit =
     (let safeMax = word_of_int (if maxLimit \<le> 2 ^ 31 - 1 then maxLimit else 2 ^ 31 - 1);
          high0 = parsePressureFloat env ''GNH_PRESSURE_HIGH_MARK_MS'' 500;
          low0 = parsePressureFloat env ''GNH_PRESSURE_LOW_MARK_MS'' 100;
          lowMark = (if low0 \<ge> high0 then 100 else low0);
          highMark = (if low0 \<ge> high0 then 500 else high0);
          min0 = parsePressureInt32 env ''GNH_PRESSURE_MIN_LIMIT'' 30;
          min1 = (if sint safeMax < sint min0 then safeMax else min0);
          minLimit = (if sint min1 < 1 then 1 else min1);
          init0 = parsePressureInt32 env ''GNH_PRESSURE_INITIAL_LIMIT'' safeMax;
          init1 = (if sint init0 > sint safeMax then safeMax else init0);
          initial = (if sint init1 < sint minLimit then minLimit else init1);
          step0 = parsePressureInt32 env ''GNH_PRESSURE_STEP_DOWN'' 5;
          stepDown = (if sint step0 < 1 then 5 else step0)
      in \<lparr>pc_ema = 0, pc_samples = 0, pc_lastScaleDown = None, pc_lastScaleUp = None, pc_limit = initial,
          pc_maxLimit = safeMax, pc_highMark = highMark, pc_lowMark = lowMark, pc_stepDown = stepDown,
          pc_stepUp = 3, pc_cooldownDown = 10 * second, pc_cooldownUp = 30 * second, pc_minLimit = minLimit\<rparr>)"

definition EffectiveLimit :: "pressure \<Rightarrow> int" where
  "EffectiveLimit pc = sint (pc_limit pc)"

text \<open>A time that was never set is the zero time, long before any cooldown.\<close>

definition cooling :: "time \<Rightarrow> time option \<Rightarrow> time \<Rightarrow> bool" where
  "cooling now lastTime cooldown = (case lastTime of None \<Rightarrow> False | Some t \<Rightarrow> now - t < cooldown)"

text \<open>The result also names the direction \<open>OnAdjust\<close> is told.\<close>

definition maybeAdjust :: "time \<Rightarrow> pressure \<Rightarrow> string option \<times> pressure" where
  "maybeAdjust now pc =
     (let current = pc_limit pc in
      if pc_ema pc > pc_highMark pc \<and> sint current > sint (pc_minLimit pc) then
        if cooling now (pc_lastScaleDown pc) (pc_cooldownDown pc) then (None, pc)
        else (Some ''down'', pc\<lparr>pc_limit := smax (current - pc_stepDown pc) (pc_minLimit pc),
                               pc_lastScaleDown := Some now\<rparr>)
      else if pc_ema pc < pc_lowMark pc \<and> sint current < sint (pc_maxLimit pc) then
        if cooling now (pc_lastScaleUp pc) (pc_cooldownUp pc) then (None, pc)
        else (Some ''up'', pc\<lparr>pc_limit := smin (current + pc_stepUp pc) (pc_maxLimit pc),
                             pc_lastScaleUp := Some now\<rparr>)
      else (None, pc))"

definition Record :: "time \<Rightarrow> rat \<Rightarrow> pressure \<Rightarrow> string option \<times> pressure" where
  "Record now execMs pc =
     (let pc' = pc\<lparr>pc_ema := (if pc_samples pc = 0 then execMs
                            else pressureEMAAlpha * execMs + (1 - pressureEMAAlpha) * pc_ema pc),
                   pc_samples := pc_samples pc + 1\<rparr>
      in if pc_samples pc' < pressureWarmupSamples then (None, pc') else maybeAdjust now pc')"

section \<open>Bounds\<close>

text \<open>The limits a controller keeps.  The room of three below the largest integer is what the step
  up needs so as not to wrap round.\<close>

definition pressure_ok :: "pressure \<Rightarrow> bool" where
  "pressure_ok pc \<longleftrightarrow>
     1 \<le> sint (pc_minLimit pc) \<and> sint (pc_minLimit pc) \<le> sint (pc_limit pc) \<and>
     sint (pc_limit pc) \<le> sint (pc_maxLimit pc) \<and> sint (pc_maxLimit pc) < 2 ^ 31 - 3 \<and>
     1 \<le> sint (pc_stepDown pc) \<and> pc_stepUp pc = 3"

lemma sint_of_int32: "- (2 ^ 31) \<le> i \<Longrightarrow> i < 2 ^ 31 \<Longrightarrow> sint (word_of_int i :: 32 word) = i"
  by transfer (simp add: signed_take_bit_int_eq_self)

lemma sint_range32: "- (2 ^ 31) \<le> sint (w :: 32 word) \<and> sint w < 2 ^ 31"
  using sint_lt [of w] sint_ge [of w] by simp

lemma sint_add32:
  assumes "- (2 ^ 31) \<le> sint a + sint b" "sint a + sint b < 2 ^ 31"
  shows "sint (a + b :: 32 word) = sint a + sint b"
proof -
  have "a + b = word_of_int (sint a + sint b)" by simp
  then show ?thesis using sint_of_int32 [OF assms] by simp
qed

lemma sint_diff32:
  assumes "- (2 ^ 31) \<le> sint a - sint b" "sint a - sint b < 2 ^ 31"
  shows "sint (a - b :: 32 word) = sint a - sint b"
proof -
  have "a - b = word_of_int (sint a - sint b)" by simp
  then show ?thesis using sint_of_int32 [OF assms] by simp
qed

lemma sint_one32 [simp]: "sint (1 :: 32 word) = 1"
  by simp

lemma smax_smin [simp]:
  "sint (smax a b) = max (sint a) (sint b)" "sint (smin a b) = min (sint a) (sint b)"
  by (simp_all add: smax_def smin_def)

lemma step_down:
  assumes "pressure_ok pc" "sint (pc_minLimit pc) < sint (pc_limit pc)"
  shows "sint (smax (pc_limit pc - pc_stepDown pc) (pc_minLimit pc)) =
    max (EffectiveLimit pc - sint (pc_stepDown pc)) (sint (pc_minLimit pc))"
proof -
  have "sint (pc_limit pc - pc_stepDown pc) = sint (pc_limit pc) - sint (pc_stepDown pc)"
    using assms sint_range32 [of "pc_stepDown pc"] by (intro sint_diff32) (auto simp: pressure_ok_def)
  then show ?thesis by (simp add: EffectiveLimit_def)
qed

lemma step_up:
  assumes "pressure_ok pc"
  shows "sint (smin (pc_limit pc + pc_stepUp pc) (pc_maxLimit pc)) =
    min (EffectiveLimit pc + 3) (sint (pc_maxLimit pc))"
proof -
  have "sint (pc_limit pc + 3) = sint (pc_limit pc) + sint (3 :: 32 word)"
    using assms by (intro sint_add32) (auto simp: pressure_ok_def)
  then show ?thesis using assms by (simp add: EffectiveLimit_def pressure_ok_def)
qed

lemma adjust_ok:
  assumes "pressure_ok pc"
  shows "pressure_ok (snd (maybeAdjust now pc))"
  using assms step_down [OF assms] step_up [OF assms]
  by (auto simp: maybeAdjust_def pressure_ok_def Let_def EffectiveLimit_def)

lemma record_ok:
  assumes "pressure_ok pc"
  shows "pressure_ok (snd (Record now ms pc))"
proof -
  have "pressure_ok (pc\<lparr>pc_ema := e, pc_samples := n\<rparr>)" for e n
    using assms by (simp add: pressure_ok_def)
  then show ?thesis by (simp add: Record_def Let_def adjust_ok)
qed

fun record_all :: "(time \<times> rat) list \<Rightarrow> pressure \<Rightarrow> pressure" where
  "record_all [] pc = pc"
| "record_all ((t, ms) # rs) pc = record_all rs (snd (Record t ms pc))"

lemma record_all_ok: "pressure_ok pc \<Longrightarrow> pressure_ok (record_all rs pc)"
  by (induction rs pc rule: record_all.induct) (simp_all add: record_ok)

lemma record_keeps [simp]:
  "pc_maxLimit (snd (Record t ms pc)) = pc_maxLimit pc" "pc_minLimit (snd (Record t ms pc)) = pc_minLimit pc"
  by (simp_all add: Record_def maybeAdjust_def Let_def)

lemma record_all_keeps [simp]:
  "pc_maxLimit (record_all rs pc) = pc_maxLimit pc" "pc_minLimit (record_all rs pc) = pc_minLimit pc"
  by (induction rs pc rule: record_all.induct) simp_all

lemma parse_int32_pos: "1 \<le> sint d \<Longrightarrow> 1 \<le> sint (parsePressureInt32 env key d)"
  using sint_of_int32 by (auto simp: parsePressureInt32_def Let_def split: option.splits)

lemma new_ok:
  assumes "1 \<le> n" "n < 2 ^ 31 - 3"
  shows "pressure_ok (newPressureController env n)" "sint (pc_maxLimit (newPressureController env n)) = n"
proof -
  have n: "sint (word_of_int n :: 32 word) = n" using assms by (intro sint_of_int32) auto
  then show "sint (pc_maxLimit (newPressureController env n)) = n"
    using assms by (simp add: newPressureController_def Let_def)
  show "pressure_ok (newPressureController env n)"
    using assms n parse_int32_pos [of "30" env "''GNH_PRESSURE_MIN_LIMIT''"]
      parse_int32_pos [of "5" env "''GNH_PRESSURE_STEP_DOWN''"]
      parse_int32_pos [of "word_of_int n" env "''GNH_PRESSURE_INITIAL_LIMIT''"]
    by (auto simp: newPressureController_def pressure_ok_def Let_def)
qed

text \<open>The effective limit stays between the floor and the ceiling whatever times are recorded;
  the floor is at least one and at most the ceiling the controller was made with, so the queue
  is never shut off and never opened further than its size.\<close>

theorem pressure_bounded:
  assumes "1 \<le> n" "n < 2 ^ 31 - 3"
  shows "let pc = record_all rs (newPressureController env n)
    in 1 \<le> sint (pc_minLimit pc) \<and> sint (pc_minLimit pc) \<le> EffectiveLimit pc \<and> EffectiveLimit pc \<le> n"
  using record_all_ok [OF new_ok(1) [OF assms], of rs env] new_ok(2) [OF assms, of env]
  by (simp add: Let_def pressure_ok_def EffectiveLimit_def)

theorem pressure_bounded_witness:
  "let pc = record_all [(0, 900)] (newPressureController (\<lambda>k. []) 40)
   in 1 \<le> sint (pc_minLimit pc) \<and> sint (pc_minLimit pc) \<le> EffectiveLimit pc \<and> EffectiveLimit pc \<le> 40"
  using pressure_bounded [of 40 "[(0, 900)]" "\<lambda>k. []"] by simp

section \<open>Speed of the adjustments\<close>

text \<open>The limit falls by at most a step per ten seconds.\<close>

lemma adjust_down_rate:
  assumes "fst (maybeAdjust now pc) = Some ''down''"
  shows "\<not> cooling now (pc_lastScaleDown pc) (pc_cooldownDown pc) \<and>
    pc_lastScaleDown (snd (maybeAdjust now pc)) = Some now \<and> pc_ema pc > pc_highMark pc"
  using assms by (auto simp: maybeAdjust_def Let_def split: if_splits)

lemma adjust_down_exact:
  assumes "pressure_ok pc" "fst (maybeAdjust now pc) = Some ''down''"
  shows "EffectiveLimit (snd (maybeAdjust now pc)) =
    max (EffectiveLimit pc - sint (pc_stepDown pc)) (sint (pc_minLimit pc))"
  using assms step_down [OF assms(1)]
  by (auto simp: maybeAdjust_def Let_def EffectiveLimit_def split: if_splits)

text \<open>A queue no larger than the floor is never throttled: with the default of twelve bulk slots and
  the default floor of thirty the controller does nothing.\<close>

lemma maybeAdjust_at_floor:
  assumes "pressure_ok pc" "sint (pc_maxLimit pc) \<le> sint (pc_minLimit pc)"
  shows "maybeAdjust now pc = (None, pc)"
  using assms by (auto simp: maybeAdjust_def Let_def pressure_ok_def)

lemma record_inert:
  assumes "pressure_ok pc" "sint (pc_maxLimit pc) \<le> sint (pc_minLimit pc)"
  shows "pc_limit (snd (Record now ms pc)) = pc_limit pc"
proof -
  let ?p = "pc\<lparr>pc_ema := (if pc_samples pc = 0 then ms else pressureEMAAlpha * ms + (1 - pressureEMAAlpha) * pc_ema pc),
    pc_samples := pc_samples pc + 1\<rparr>"
  have "pressure_ok ?p" "sint (pc_maxLimit ?p) \<le> sint (pc_minLimit ?p)"
    using assms by (simp_all add: pressure_ok_def)
  from maybeAdjust_at_floor [OF this] show ?thesis by (simp add: Record_def Let_def)
qed

text \<open>With a ceiling at the top of the range the step up wraps round to a negative limit.\<close>

lemma step_up_wraps:
  "sint (smin (word_of_int (2 ^ 31 - 2) + 3 :: 32 word) (word_of_int (2 ^ 31 - 1))) < 0"
  by (simp add: smin_def)

end
