(* ===== verification/Db_Execute.thy ===== *)
theory Db_Execute
  imports Db_Pressure
begin

named_theorems tx_keeps \<open>transactions that keep an invariant\<close>

text \<open>
  How the database is used: errors and their classes (\<open>internal/db/queue.go\<close>,
  \<open>internal/db/batch.go\<close>), the connection at start-up (\<open>internal/db/retry.go\<close>), and the
  transactions of the queue with their lanes, semaphores and retries.  A transaction is a function
  of the statements that fail in it and of the database; \<open>attempt\<close> says what the environment does
  to one attempt, including a commit whose reply is lost after it was applied.
\<close>

section \<open>Errors\<close>

text \<open>An error is its text, and what \<open>errors.Is\<close> and \<open>errors.As\<close> find in its chain; wrapping with
  \<open>%w\<close> changes the text only.  The database is opened with the driver \<open>pgx\<close> (\<open>db.go\<close>), whose errors are
  of type \<open>pgconn.PgError\<close>; \<open>PqErr\<close> is the type \<open>*pq.Error\<close> of another driver, which \<open>batch.go\<close> looks for.\<close>

datatype err_kind = Plain | CtxCanceled | DeadlineExceeded | PoolSaturated | NoRows | ConcurrencyBlocked
  | ConnDone | NetErr bool | PqErr string | PgError string | BlockRaceLost

record go_error =
  ge_text :: string
  ge_kind :: err_kind

definition wrap :: "string \<Rightarrow> go_error \<Rightarrow> go_error" where
  "wrap prefix e = e\<lparr>ge_text := prefix @ ge_text e\<rparr>"

definition ErrPoolSaturated :: go_error where
  "ErrPoolSaturated = \<lparr>ge_text = ''database connection pool saturated'', ge_kind = PoolSaturated\<rparr>"

definition classifyError :: "go_error option \<Rightarrow> string" where
  "classifyError err =
     (case err of
        None \<Rightarrow> ''none''
      | Some e \<Rightarrow>
          (case ge_kind e of
             CtxCanceled \<Rightarrow> ''context_cancelled''
           | DeadlineExceeded \<Rightarrow> ''deadline_exceeded''
           | PoolSaturated \<Rightarrow> ''pool_saturated''
           | NetErr timeout \<Rightarrow> if timeout then ''network_timeout'' else ''network_error''
           | _ \<Rightarrow>
               let s = to_lower (ge_text e) in
               if str_contains s ''sqlstate'' then ''postgres_error''
               else if str_contains s ''too many clients'' then ''too_many_clients''
               else if str_contains s ''connection reset'' then ''connection_reset''
               else if str_contains s ''connection refused'' then ''connection_refused''
               else if str_contains s ''timeout'' then ''timeout''
               else ''unknown''))"

definition retrySnippets :: "string list" where
  "retrySnippets = [''failed to begin transaction'', ''failed to commit transaction'', ''too many clients'',
     ''connection reset'', ''connection refused'', ''timeout'', ''connection pool saturated'',
     ''deadlock detected'']"

definition shouldRetry :: "go_error \<Rightarrow> bool" where
  "shouldRetry e =
     (case ge_kind e of
        CtxCanceled \<Rightarrow> False
      | DeadlineExceeded \<Rightarrow> True
      | PoolSaturated \<Rightarrow> True
      | k \<Rightarrow> k = NetErr True \<or> list_ex (str_contains (to_lower (ge_text e))) retrySnippets)"

text \<open>\<open>isRetryableError\<close> of \<open>batch.go\<close>.  Its search for words in the text decides nothing: what it
  does not find is retryable as well.\<close>

definition pq_class :: "string \<Rightarrow> string" where
  "pq_class code = take 2 code"

definition connectionErrors :: "string list" where
  "connectionErrors = [''connection refused'', ''connection reset'', ''broken pipe'', ''no such host'',
     ''timeout'', ''too many clients'', ''pool'']"

definition dbRetryable :: "go_error option \<Rightarrow> bool" where
  "dbRetryable err =
     (case err of
        None \<Rightarrow> False
      | Some e \<Rightarrow>
          (case ge_kind e of
             PqErr code \<Rightarrow>
               if pq_class code \<in> {''08'', ''53'', ''57'', ''58''} then True
               else if pq_class code = ''23'' then False
               else if pq_class code = ''22'' then False
               else True
           | ConnDone \<Rightarrow> True
           | DeadlineExceeded \<Rightarrow> True
           | CtxCanceled \<Rightarrow> True
           | _ \<Rightarrow> if list_ex (str_contains (ge_text e)) connectionErrors then True else True))"

lemma dbRetryable_iff:
  "dbRetryable err \<longleftrightarrow> (\<exists>e. err = Some e \<and> \<not> (\<exists>code. ge_kind e = PqErr code \<and> pq_class code \<in> {''22'', ''23''}))"
  by (cases err) (auto simp: dbRetryable_def split: err_kind.splits)

lemma wrap_sel [simp]: "ge_kind (wrap p e) = ge_kind e" "ge_text (wrap p e) = p @ ge_text e"
  by (simp_all add: wrap_def)

lemma dbRetryable_wrap [simp]: "dbRetryable (Some (wrap p e)) = dbRetryable (Some e)"
  by (simp add: dbRetryable_iff)

section \<open>Settings\<close>

definition parseThresholdEnv :: "(string \<Rightarrow> string) \<Rightarrow> string \<Rightarrow> rat \<Rightarrow> rat" where
  "parseThresholdEnv env key fallback =
     (let v = trim_space (env key) in
      if v \<noteq> [] then (case parse_float v of Some x \<Rightarrow> x | None \<Rightarrow> fallback) else fallback)"

definition parseReservedConnections :: "(string \<Rightarrow> string) \<Rightarrow> int" where
  "parseReservedConnections env =
     (let v = trim_space (env ''DB_POOL_RESERVED_CONNECTIONS'') in
      if v \<noteq> [] then (case atoi v of Some n \<Rightarrow> if n < 0 then 0 else n | None \<Rightarrow> 4) else 4)"

definition parseIntEnv :: "(string \<Rightarrow> string) \<Rightarrow> string \<Rightarrow> int \<Rightarrow> int" where
  "parseIntEnv env key fallback =
     (let v = trim_space (env key) in
      if v \<noteq> [] then (case atoi v of Some n \<Rightarrow> n | None \<Rightarrow> fallback) else fallback)"

text \<open>\<open>time.Duration(n) * time.Millisecond\<close> wraps at 64 bits.\<close>

definition wrap64 :: "int \<Rightarrow> int" where
  "wrap64 i = sint (word_of_int i :: 64 word)"

definition parseDurationEnvMS :: "(string \<Rightarrow> string) \<Rightarrow> string \<Rightarrow> time \<Rightarrow> time" where
  "parseDurationEnvMS env key fallback =
     (let v = trim_space (env key) in
      if v \<noteq> [] then (case atoi v of Some n \<Rightarrow> if n < 0 then fallback else wrap64 (n * millisecond) | None \<Rightarrow> fallback)
      else fallback)"

definition defaultControlConcurrency :: int where
  "defaultControlConcurrency = 4"

definition defaultRetryBaseDelay :: time where
  "defaultRetryBaseDelay = 200 * millisecond"

record queue =
  dq_warn :: rat
  dq_reject :: rat
  dq_preserve :: int
  dq_maxConcurrent :: int
  dq_controlConcurrent :: int
  dq_maxTxRetries :: int
  dq_retryBaseDelay :: time
  dq_retryMaxDelay :: time

definition pool_thresholds :: "rat \<Rightarrow> rat \<Rightarrow> rat \<times> rat" where
  "pool_thresholds warn0 reject0 =
     (let reject = (if reject0 \<le> 0 \<or> reject0 > 1 then 95 / 100 else reject0);
          warn1 = (if reject - 5 / 100 \<le> 0 then 90 / 100 else reject - 5 / 100)
      in (if warn0 \<le> 0 \<or> warn0 \<ge> reject then warn1 else warn0, reject))"

text \<open>How the connections are split between the lanes, by \<open>MaxOpenConns\<close> of the configuration when
  there is one.\<close>

definition lane_split :: "int option \<Rightarrow> int \<Rightarrow> int \<Rightarrow> int \<times> int" where
  "lane_split maxOpen reserve queueLimit =
     (let (bulk, control) =
        (case maxOpen of
           Some m \<Rightarrow>
             if m > 0 then
               let available = max (m - reserve) 1;
                   bulkCapacity = max (available - defaultControlConcurrency) 1;
                   bulk = (if queueLimit > 0 \<and> queueLimit < bulkCapacity then queueLimit else bulkCapacity)
               in (bulk, max (available - bulk) 1)
             else (queueLimit, defaultControlConcurrency)
         | None \<Rightarrow> (queueLimit, defaultControlConcurrency))
      in (max bulk 1, max control 1))"

definition NewDbQueue :: "(string \<Rightarrow> string) \<Rightarrow> int option \<Rightarrow> queue \<times> pressure" where
  "NewDbQueue env maxOpen =
     (let (warn, reject) = pool_thresholds (parseThresholdEnv env ''DB_POOL_WARN_THRESHOLD'' (90 / 100))
                             (parseThresholdEnv env ''DB_POOL_REJECT_THRESHOLD'' (95 / 100));
          reserve = parseReservedConnections env;
          baseDelay = parseDurationEnvMS env ''DB_TX_BACKOFF_BASE_MS'' defaultRetryBaseDelay;
          (bulk, control) = lane_split maxOpen reserve (parseIntEnv env ''DB_QUEUE_MAX_CONCURRENCY'' 12)
      in (\<lparr>dq_warn = warn, dq_reject = reject, dq_preserve = reserve, dq_maxConcurrent = bulk,
           dq_controlConcurrent = control, dq_maxTxRetries = parseIntEnv env ''DB_TX_MAX_RETRIES'' 3,
           dq_retryBaseDelay = baseDelay,
           dq_retryMaxDelay = max (parseDurationEnvMS env ''DB_TX_BACKOFF_MAX_MS'' (1500 * millisecond)) baseDelay\<rparr>,
          newPressureController env bulk))"

lemma lane_split_pos: "1 \<le> fst (lane_split m r q)" "1 \<le> snd (lane_split m r q)"
  by (simp_all add: lane_split_def case_prod_beta Let_def)

text \<open>The two lanes together fit into what is left of the connections after the reserve, when at
  least two are left.\<close>

lemma lane_split_fits:
  assumes "0 < m" "2 \<le> m - r"
  shows "fst (lane_split (Some m) r q) + snd (lane_split (Some m) r q) \<le> m - r"
  using assms by (auto simp: lane_split_def defaultControlConcurrency_def Let_def max_def)

section \<open>Waiting between attempts\<close>

text \<open>The shift is of a machine integer, and so is the product; \<open>rnd\<close> is what the random source
  returns for a bound.\<close>

definition randInt63n :: "(int \<Rightarrow> int) \<Rightarrow> int \<Rightarrow> int" where
  "randInt63n rnd n = (if n \<le> 0 then 0 else rnd n)"

definition computeBackoff :: "queue \<Rightarrow> (int \<Rightarrow> int) \<Rightarrow> nat \<Rightarrow> time" where
  "computeBackoff q rnd n =
     (let base = (if dq_retryBaseDelay q \<le> 0 then defaultRetryBaseDelay else dq_retryBaseDelay q);
          mx = (if dq_retryMaxDelay q < base then base else dq_retryMaxDelay q);
          factor = push_bit n 1 :: 64 word;
          delay = min (sint (factor * word_of_int base)) mx;
          jitterRange = delay div 5
      in if jitterRange \<le> 0 then delay else delay - jitterRange + randInt63n rnd (jitterRange * 2))"

text \<open>As long as nothing wraps, the wait lies within a fifth of the doubled base or the maximum.\<close>

lemma backoff_window:
  assumes rnd: "\<And>n. 0 < n \<Longrightarrow> 0 \<le> rnd n \<and> rnd n < n"
    and base: "0 < dq_retryBaseDelay q" "dq_retryBaseDelay q \<le> dq_retryMaxDelay q"
    and room: "dq_retryBaseDelay q * 2 ^ n < 2 ^ 63"
  defines "delay \<equiv> min (dq_retryBaseDelay q * 2 ^ n) (dq_retryMaxDelay q)"
  shows "delay - delay div 5 \<le> computeBackoff q rnd n \<and> computeBackoff q rnd n \<le> delay + delay div 5"
proof -
  let ?b = "dq_retryBaseDelay q"
  have "push_bit n 1 * word_of_int ?b = (word_of_int (?b * 2 ^ n) :: 64 word)"
    by (simp add: push_bit_eq_mult mult.commute)
  moreover have "sint (word_of_int (?b * 2 ^ n) :: 64 word) = ?b * 2 ^ n"
  proof -
    have "0 < ?b * 2 ^ n" using base by simp
    then show ?thesis using room by transfer (simp add: signed_take_bit_int_eq_self)
  qed
  ultimately have s: "sint (push_bit n 1 * word_of_int ?b :: 64 word) = ?b * 2 ^ n" by metis
  have pos: "0 < delay" using base by (simp add: delay_def)
  have "computeBackoff q rnd n = (let j = delay div 5 in
      if j \<le> 0 then delay else delay - j + randInt63n rnd (j * 2))"
    using base s by (simp add: computeBackoff_def delay_def Let_def)
  then show ?thesis
    using pos rnd [of "delay div 5 * 2"] by (auto simp: Let_def randInt63n_def)
qed

section \<open>One attempt\<close>

datatype lane = Bulk | Control

record db_pool =
  dp_bulk :: nat
  dp_control :: nat
  dp_pressure :: pressure

type_synonym faults = "nat \<Rightarrow> go_error option"

text \<open>What the environment does to an attempt: whether the semaphore is entered when a slot is free,
  the use of file descriptors, failures of \<open>BEGIN\<close>, of the statement timeout, of single
  statements and of the commit (with whether it was applied all the same), the milliseconds it took,
  and the error of a context that ends during the wait after it.\<close>

record attempt =
  at_slot :: bool
  at_fd :: "rat option"
  at_begin :: "go_error option"
  at_timeout :: "go_error option"
  at_stmts :: faults
  at_commit :: "(go_error \<times> bool) option"
  at_ms :: rat
  at_now :: time
  at_wait :: "go_error option"

definition lane_used :: "lane \<Rightarrow> db_pool \<Rightarrow> nat" where
  "lane_used l p = (case l of Bulk \<Rightarrow> dp_bulk p | Control \<Rightarrow> dp_control p)"

definition lane_capacity :: "lane \<Rightarrow> queue \<Rightarrow> int" where
  "lane_capacity l q = (case l of Bulk \<Rightarrow> dq_maxConcurrent q | Control \<Rightarrow> dq_controlConcurrent q)"

definition take_slot :: "lane \<Rightarrow> db_pool \<Rightarrow> db_pool" where
  "take_slot l p = (case l of Bulk \<Rightarrow> p\<lparr>dp_bulk := dp_bulk p + 1\<rparr> | Control \<Rightarrow> p\<lparr>dp_control := dp_control p + 1\<rparr>)"

definition release_slot :: "lane \<Rightarrow> db_pool \<Rightarrow> db_pool" where
  "release_slot l p = (case l of Bulk \<Rightarrow> p\<lparr>dp_bulk := dp_bulk p - 1\<rparr> | Control \<Rightarrow> p\<lparr>dp_control := dp_control p - 1\<rparr>)"

text \<open>The numbers of the pool only feed logs.\<close>

definition ensurePoolCapacity :: "queue \<Rightarrow> lane \<Rightarrow> attempt \<Rightarrow> db_pool \<Rightarrow> go_error option \<times> db_pool" where
  "ensurePoolCapacity q l A p =
     (if l = Bulk \<and> int (lane_used l p) \<ge> EffectiveLimit (dp_pressure p) then (Some ErrPoolSaturated, p)
      else if \<not> (at_slot A \<and> int (lane_used l p) < lane_capacity l q) then (Some ErrPoolSaturated, p)
      else let p' = take_slot l p in
        (case at_fd A of
           Some r \<Rightarrow> if r > 90 / 100 then (Some ErrPoolSaturated, release_slot l p') else (None, p')
         | None \<Rightarrow> (None, p')))"

type_synonym ('a, 'd) tx = "faults \<Rightarrow> 'd \<Rightarrow> (go_error + 'a) \<times> 'd"

definition executeOnceWithContext :: "attempt \<Rightarrow> ('a, 'd) tx \<Rightarrow> 'd \<Rightarrow> (go_error + 'a) \<times> 'd" where
  "executeOnceWithContext A fn d =
     (case at_begin A of
        Some e \<Rightarrow> (Inl (wrap ''failed to begin transaction: '' e), d)
      | None \<Rightarrow>
          (case at_timeout A of
             Some e \<Rightarrow> (Inl (wrap ''failed to set local statement timeout: '' e), d)
           | None \<Rightarrow>
               (case fn (at_stmts A) d of
                  (Inl e, d') \<Rightarrow> (Inl e, d)
                | (Inr x, d') \<Rightarrow>
                    (case at_commit A of
                       Some (e, applied) \<Rightarrow> (Inl (wrap ''failed to commit transaction: '' e), if applied then d' else d)
                     | None \<Rightarrow> (Inr x, d')))))"

section \<open>Attempts until one decides\<close>

definition record_exec :: "lane \<Rightarrow> attempt \<Rightarrow> rat \<Rightarrow> db_pool \<Rightarrow> db_pool" where
  "record_exec l A execTotal p =
     (if l = Bulk then p\<lparr>dp_pressure := snd (Record (at_now A) execTotal (dp_pressure p))\<rparr> else p)"

text \<open>\<open>n\<close> attempts are left, \<open>k\<close> is the number of the next one.\<close>

fun execute_attempts :: "queue \<Rightarrow> lane \<Rightarrow> (nat \<Rightarrow> attempt) \<Rightarrow> ('a, 'd) tx \<Rightarrow> nat \<Rightarrow> nat \<Rightarrow> rat \<Rightarrow> go_error
    \<Rightarrow> db_pool \<Rightarrow> 'd \<Rightarrow> (go_error + 'a) \<times> db_pool \<times> 'd" where
  "execute_attempts q l P fn 0 k execTotal lastErr p d = (Inl lastErr, p, d)"
| "execute_attempts q l P fn (Suc n) k execTotal lastErr p d =
     (let A = P k in
      case ensurePoolCapacity q l A p of
        (Some e, p1) \<Rightarrow>
          if \<not> shouldRetry e \<or> n = 0 then (Inl e, p1, d)
          else (case at_wait A of
                  Some e' \<Rightarrow> (Inl e', p1, d)
                | None \<Rightarrow> execute_attempts q l P fn n (k + 1) execTotal lastErr p1 d)
      | (None, p1) \<Rightarrow>
          let total = execTotal + at_ms A; p2 = release_slot l p1 in
          (case executeOnceWithContext A fn d of
             (Inr x, d') \<Rightarrow> (Inr x, record_exec l A total p2, d')
           | (Inl e, d') \<Rightarrow>
               if ge_kind e = NoRows then (Inl e, record_exec l A total p2, d')
               else if ge_kind e = ConcurrencyBlocked then (Inl e, record_exec l A total p2, d')
               else if \<not> shouldRetry e \<or> n = 0 then (Inl e, record_exec l A total p2, d')
               else (case at_wait A of
                       Some e' \<Rightarrow> (Inl e', p2, d')
                     | None \<Rightarrow> execute_attempts q l P fn n (k + 1) total e p2 d')))"

definition executeWithContextLane :: "queue \<Rightarrow> lane \<Rightarrow> (nat \<Rightarrow> attempt) \<Rightarrow> ('a, 'd) tx
    \<Rightarrow> db_pool \<Rightarrow> 'd \<Rightarrow> (go_error + 'a) \<times> db_pool \<times> 'd" where
  "executeWithContextLane q l P fn p d =
     execute_attempts q l P fn (nat (max (dq_maxTxRetries q) 1)) 0 0 \<lparr>ge_text = [], ge_kind = Plain\<rparr> p d"

definition Execute_tx :: "queue \<Rightarrow> (nat \<Rightarrow> attempt) \<Rightarrow> ('a, 'd) tx \<Rightarrow> db_pool \<Rightarrow> 'd \<Rightarrow> (go_error + 'a) \<times> db_pool \<times> 'd" where
  "Execute_tx q P fn p d = executeWithContextLane q Bulk P fn p d"

definition ExecuteControl :: "queue \<Rightarrow> (nat \<Rightarrow> attempt) \<Rightarrow> ('a, 'd) tx \<Rightarrow> db_pool \<Rightarrow> 'd \<Rightarrow> (go_error + 'a) \<times> db_pool \<times> 'd" where
  "ExecuteControl q P fn p d = executeWithContextLane q Control P fn p d"

text \<open>Maintenance has no semaphore and no second attempt, and a failed statement timeout is ignored.\<close>

definition ExecuteMaintenance :: "attempt \<Rightarrow> ('a, 'd) tx \<Rightarrow> 'd \<Rightarrow> (go_error + 'a) \<times> 'd" where
  "ExecuteMaintenance A fn d =
     (case at_begin A of
        Some e \<Rightarrow> (Inl (wrap ''failed to begin maintenance transaction: '' e), d)
      | None \<Rightarrow>
          (case fn (at_stmts A) d of
             (Inl e, d') \<Rightarrow> (Inl e, d)
           | (Inr x, d') \<Rightarrow>
               (case at_commit A of
                  Some (e, applied) \<Rightarrow> (Inl (wrap ''failed to commit maintenance transaction: '' e), if applied then d' else d)
                | None \<Rightarrow> (Inr x, d'))))"

section \<open>Atomicity\<close>

text \<open>One run of the transaction applied to the database, with the statements that do not fail.\<close>

definition applied_once :: "('a, 'd) tx \<Rightarrow> 'd \<Rightarrow> 'd \<Rightarrow> bool" where
  "applied_once fn d d' \<longleftrightarrow> (\<exists>F x. fn F d = (Inr x, d'))"

inductive applied :: "('a, 'd) tx \<Rightarrow> 'd \<Rightarrow> 'd \<Rightarrow> bool" for fn where
  none: "applied fn d d"
| more: "applied fn d d1 \<Longrightarrow> applied_once fn d1 d2 \<Longrightarrow> applied fn d d2"

lemma applied_front: "applied fn d1 d2 \<Longrightarrow> applied_once fn d d1 \<Longrightarrow> applied fn d d2"
  by (induction rule: applied.induct) (auto intro: applied.intros)

lemma once_cases:
  assumes "executeOnceWithContext A fn d = (r, d')"
  shows "(\<exists>x. r = Inr x \<and> (\<exists>F. fn F d = (Inr x, d')))
    \<or> (\<exists>e. r = Inl e \<and> (d' = d \<or> (\<exists>x F c. fn F d = (Inr x, d') \<and> at_commit A = Some (c, True))))"
  using assms
  by (auto simp: executeOnceWithContext_def split: option.splits prod.splits sum.splits if_splits)

text \<open>The attempts among the first \<open>n\<close> whose commit is applied while its reply is lost, and what a list
  of attempts makes of the database when each of them runs the function to its end.\<close>

definition lost_commits :: "(nat \<Rightarrow> attempt) \<Rightarrow> nat \<Rightarrow> nat set" where
  "lost_commits P n = {k. k < n \<and> (\<exists>c. at_commit (P k) = Some (c, True))}"

fun whole_runs :: "(nat \<Rightarrow> attempt) \<Rightarrow> ('a, 'd) tx \<Rightarrow> nat list \<Rightarrow> 'd \<Rightarrow> 'd \<Rightarrow> bool" where
  "whole_runs P fn [] d d' \<longleftrightarrow> d' = d"
| "whole_runs P fn (k # ks) d d' \<longleftrightarrow> (\<exists>x d1. fn (at_stmts (P k)) d = (Inr x, d1) \<and> whole_runs P fn ks d1 d')"

definition run_of_attempts :: "(nat \<Rightarrow> attempt) \<Rightarrow> ('a, 'd) tx \<Rightarrow> nat \<Rightarrow> nat list \<Rightarrow> 'd \<Rightarrow> go_error + 'a \<Rightarrow> 'd \<Rightarrow> bool" where
  "run_of_attempts P fn n ks d r d' \<longleftrightarrow>
     (case r of
        Inl e \<Rightarrow> whole_runs P fn ks d d'
      | Inr x \<Rightarrow> \<exists>k d1. k < n \<and> at_commit (P k) = None \<and> whole_runs P fn ks d d1 \<and> fn (at_stmts (P k)) d1 = (Inr x, d'))"

lemma run_of_attempts_front:
  assumes "run_of_attempts P fn n ks d1 r d'" "fn (at_stmts (P k)) d = (Inr x, d1)"
  shows "run_of_attempts P fn n (k # ks) d r d'"
  using assms by (cases r) (fastforce simp: run_of_attempts_def)+

lemma once_runs:
  assumes "executeOnceWithContext A fn d = (r, d')"
  shows "(\<exists>x. r = Inr x \<and> at_commit A = None \<and> fn (at_stmts A) d = (Inr x, d'))
    \<or> (\<exists>e. r = Inl e \<and> (d' = d \<or> (\<exists>x c. fn (at_stmts A) d = (Inr x, d') \<and> at_commit A = Some (c, True))))"
  using assms
  by (auto simp: executeOnceWithContext_def split: option.splits prod.splits sum.splits if_splits)

lemma execute_atomic_aux:
  assumes "execute_attempts q l P fn n k t e p d = (r, p', d')"
  shows "\<exists>ks. sorted_wrt (<) ks \<and> set ks \<subseteq> lost_commits P (k + n) \<inter> {k..} \<and> run_of_attempts P fn (k + n) ks d r d'"
  using assms
proof (induction n arbitrary: k t e p d)
  case 0
  then show ?case by (intro exI [of _ "[]"]) (auto simp: run_of_attempts_def)
next
  case (Suc n)
  obtain c p1 where cap: "ensurePoolCapacity q l (P k) p = (c, p1)" by (rule prod.exhaust)
  obtain r1 d1 where once: "executeOnceWithContext (P k) fn d = (r1, d1)" by (rule prod.exhaust)
  have stop: ?case if "r = Inl e'" "d' = d" for e'
    using that by (intro exI [of _ "[]"]) (auto simp: run_of_attempts_def)
  have later: "\<exists>ks. sorted_wrt (<) ks \<and> set ks \<subseteq> lost_commits P (k + Suc n) \<inter> {Suc k..} \<and> run_of_attempts P fn (k + Suc n) ks d2 r d'"
    if "execute_attempts q l P fn n (k + 1) t' e' p2 d2 = (r, p', d')" for t' e' p2 d2
    using Suc.IH [OF that] by (auto simp: run_of_attempts_def)
  have weaker: ?case if "\<exists>ks. sorted_wrt (<) ks \<and> set ks \<subseteq> lost_commits P (k + Suc n) \<inter> {Suc k..} \<and> run_of_attempts P fn (k + Suc n) ks d r d'"
    using that by fastforce
  show ?case
  proof (cases c)
    case (Some e1)
    then show ?thesis using Suc.prems cap stop weaker [OF later]
      by (auto simp: Let_def split: if_splits option.splits)
  next
    case None
    show ?thesis
    proof (cases r1)
      case (Inr x)
      then have x: "fn (at_stmts (P k)) d = (Inr x, d1)" "at_commit (P k) = None" using once_runs [OF once] by auto
      have "r = Inr x" "d' = d1" using Suc.prems cap once None Inr by (auto simp: Let_def)
      then show ?thesis using x by (intro exI [of _ "[]"]) (auto simp: run_of_attempts_def intro!: exI [of _ k])
    next
      case (Inl e1)
      have cont: "(\<exists>e'. r = Inl e' \<and> d' = d1) \<or> (\<exists>t' e' p2. execute_attempts q l P fn n (k + 1) t' e' p2 d1 = (r, p', d'))"
        using Suc.prems cap once None Inl by (auto simp: Let_def split: if_splits option.splits)
      consider "d1 = d" | x c where "fn (at_stmts (P k)) d = (Inr x, d1)" "at_commit (P k) = Some (c, True)"
        using once_runs [OF once] Inl by auto
      then show ?thesis
      proof cases
        case 1
        then show ?thesis using cont stop weaker [OF later] by blast
      next
        case 2
        have here: "k \<in> lost_commits P (k + Suc n)" using 2(2) by (simp add: lost_commits_def)
        from cont obtain ks where ks: "sorted_wrt (<) ks" "set ks \<subseteq> lost_commits P (k + Suc n) \<inter> {Suc k..}"
            "run_of_attempts P fn (k + Suc n) ks d1 r d'"
        proof (elim disjE exE conjE)
          fix e' assume "r = Inl e'" "d' = d1"
          then show ?thesis using that [of "[]"] by (simp add: run_of_attempts_def)
        next
          fix t' e' p2 assume "execute_attempts q l P fn n (k + 1) t' e' p2 d1 = (r, p', d')"
          then show ?thesis using later that by blast
        qed
        have "sorted_wrt (<) (k # ks)" "set (k # ks) \<subseteq> lost_commits P (k + Suc n) \<inter> {k..}"
          using ks(1,2) here by auto
        then show ?thesis using run_of_attempts_front [OF ks(3) 2(1)] by blast
      qed
    qed
  qed
qed

lemma execute_applied_aux:
  assumes "execute_attempts q l P fn n k t e p d = (r, p', d')"
  shows "applied fn d d'"
  using assms
proof (induction n arbitrary: k t e p d)
  case 0
  then show ?case by (simp add: applied.none)
next
  case (Suc n)
  obtain c p1 where cap: "ensurePoolCapacity q l (P k) p = (c, p1)" by (rule prod.exhaust)
  obtain r1 d1 where once: "executeOnceWithContext (P k) fn d = (r1, d1)" by (rule prod.exhaust)
  have step: "d1 = d \<or> applied_once fn d d1"
    using once_cases [OF once] by (auto simp: applied_once_def)
  then have one: "applied fn d d1" by (auto intro: applied.intros)
  show ?case
  proof (cases c)
    case (Some e1)
    then show ?thesis using Suc.prems cap Suc.IH
      by (auto simp: Let_def applied.none split: if_splits option.splits)
  next
    case None
    show ?thesis
    proof (cases r1)
      case (Inr x)
      then show ?thesis using Suc.prems cap once None one by (auto simp: Let_def)
    next
      case (Inl e1)
      have rec: "applied fn d d'" if "execute_attempts q l P fn n k' t' e' p2 d1 = (r, p', d')" for k' t' e' p2
        using Suc.IH [OF that] step by (auto intro: applied_front)
      show ?thesis using Suc.prems cap once None Inl one rec
        by (auto simp: Let_def split: if_splits option.splits)
    qed
  qed
qed

section \<open>Slots\<close>

definition pool_ok :: "queue \<Rightarrow> db_pool \<Rightarrow> bool" where
  "pool_ok q p \<longleftrightarrow> int (dp_bulk p) \<le> dq_maxConcurrent q \<and> int (dp_control p) \<le> dq_controlConcurrent q"

definition same_slots :: "db_pool \<Rightarrow> db_pool \<Rightarrow> bool" where
  "same_slots p p' \<longleftrightarrow> dp_bulk p' = dp_bulk p \<and> dp_control p' = dp_control p"

lemma slot_take_release [simp]: "release_slot l (take_slot l p) = p"
  by (cases l) (simp_all add: release_slot_def take_slot_def)

lemma capacity_slots:
  assumes "ensurePoolCapacity q l A p = (c, p1)"
  shows "(c = None \<longrightarrow> p1 = take_slot l p \<and> int (lane_used l p1) \<le> lane_capacity l q
      \<and> (l = Bulk \<longrightarrow> int (lane_used l p1) \<le> EffectiveLimit (dp_pressure p)))
    \<and> (c \<noteq> None \<longrightarrow> p1 = p \<and> c = Some ErrPoolSaturated)"
  using assms
  by (auto simp: ensurePoolCapacity_def Let_def lane_used_def take_slot_def release_slot_def split: if_splits option.splits lane.splits)

lemma record_slots [simp]: "same_slots p (record_exec l A t p)"
  by (simp add: record_exec_def same_slots_def)

lemma same_slots_trans: "same_slots p p1 \<Longrightarrow> same_slots p1 p2 \<Longrightarrow> same_slots p p2"
  by (simp add: same_slots_def)

lemma execute_slots:
  assumes "execute_attempts q l P fn n k t e p d = (r, p', d')"
  shows "same_slots p p'"
  using assms
proof (induction n arbitrary: k t e p d)
  case 0
  then show ?case by (simp add: same_slots_def)
next
  case (Suc n)
  obtain c p1 where cap: "ensurePoolCapacity q l (P k) p = (c, p1)" by (rule prod.exhaust)
  obtain r1 d1 where once: "executeOnceWithContext (P k) fn d = (r1, d1)" by (rule prod.exhaust)
  have refl: "same_slots p p" by (simp add: same_slots_def)
  show ?case
  proof (cases c)
    case (Some e1)
    then have "p1 = p" using capacity_slots [OF cap] by simp
    then show ?thesis using Suc.prems cap Some Suc.IH refl
      by (auto simp: Let_def split: if_splits option.splits)
  next
    case None
    then have "release_slot l p1 = p" using capacity_slots [OF cap] by simp
    then show ?thesis using Suc.prems cap once None Suc.IH refl
      by (cases r1) (auto simp: Let_def split: if_splits option.splits)
  qed
qed

text \<open>C1: A transaction is atomic over all its attempts, whatever fails in them.  There is a list of
  attempts, each one whose commit was applied while its reply was lost, such that after an error the
  database is what whole runs of the function in just these attempts made of it, and after a success
  what one more whole run in a committed attempt made of that, whose result is returned.  So without
  a lost reply an error leaves the database as it was and success is exactly one run.  In every case
  each slot of the semaphores is given back.\<close>

theorem execute_atomic:
  "case executeWithContextLane q l P fn p d of (r, p', d') \<Rightarrow>
     same_slots p p' \<and>
     (\<exists>ks. sorted_wrt (<) ks \<and> set ks \<subseteq> lost_commits P (nat (max (dq_maxTxRetries q) 1)) \<and>
        (case r of
           Inl e \<Rightarrow> whole_runs P fn ks d d'
         | Inr x \<Rightarrow> \<exists>k d1. k < nat (max (dq_maxTxRetries q) 1) \<and> at_commit (P k) = None \<and>
             whole_runs P fn ks d d1 \<and> fn (at_stmts (P k)) d1 = (Inr x, d')))"
proof -
  obtain r p' d' where e: "executeWithContextLane q l P fn p d = (r, p', d')" by (rule prod_cases3)
  then have run: "execute_attempts q l P fn (nat (max (dq_maxTxRetries q) 1)) 0 0 \<lparr>ge_text = [], ge_kind = Plain\<rparr> p d = (r, p', d')"
    by (simp add: executeWithContextLane_def)
  show ?thesis
    using execute_slots [OF run] execute_atomic_aux [OF run] e by (simp add: run_of_attempts_def)
qed

definition calm_attempt :: attempt where
  "calm_attempt = \<lparr>at_slot = True, at_fd = None, at_begin = None, at_timeout = None, at_stmts = (\<lambda>i. None),
     at_commit = None, at_ms = 1, at_now = 0, at_wait = None\<rparr>"

definition std_queue :: queue where
  "std_queue = \<lparr>dq_warn = 9 / 10, dq_reject = 95 / 100, dq_preserve = 4, dq_maxConcurrent = 12,
     dq_controlConcurrent = 4, dq_maxTxRetries = 3, dq_retryBaseDelay = 200 * millisecond,
     dq_retryMaxDelay = 1500 * millisecond\<rparr>"

definition idle_pool :: db_pool where
  "idle_pool = \<lparr>dp_bulk = 0, dp_control = 0, dp_pressure = newPressureController (\<lambda>k. []) 12\<rparr>"

definition add_one :: "(unit, int) tx" where
  "add_one F d = (case F 0 of Some e \<Rightarrow> (Inl e, d) | None \<Rightarrow> (Inr (), d + 1))"

definition deadlock :: go_error where
  "deadlock = \<lparr>ge_text = ''ERROR: deadlock detected (SQLSTATE 40P01)'', ge_kind = PgError ''40P01''\<rparr>"

text \<open>A deadlock in the first attempt is retried, and the database is changed once.\<close>

lemma deadlock_retried:
  "case executeWithContextLane std_queue Control (\<lambda>i. if i = 0 then calm_attempt\<lparr>at_stmts := (\<lambda>i. Some deadlock)\<rparr> else calm_attempt)
     add_one idle_pool 5 of (r, p', d') \<Rightarrow> r = Inr () \<and> d' = 6"
  by code_simp

lemma contains_prefix: "has_prefix s p \<Longrightarrow> str_contains s p"
  by (cases s) (auto simp: str_contains_def has_prefix_def)

lemma commit_retried:
  assumes "ge_kind e = Plain"
  shows "shouldRetry (wrap ''failed to commit transaction: '' e)"
proof -
  have "to_lower (ge_text (wrap ''failed to commit transaction: '' e)) =
      ''failed to commit transaction'' @ '': '' @ to_lower (ge_text e)"
    by (simp add: to_lower_def lower_char_def)
  then have "str_contains (to_lower (ge_text (wrap ''failed to commit transaction: '' e))) ''failed to commit transaction''"
    by (metis contains_prefix has_prefix_append)
  then have "list_ex (str_contains (to_lower (ge_text (wrap ''failed to commit transaction: '' e)))) retrySnippets"
    by (simp add: retrySnippets_def)
  then show ?thesis using assms by (simp add: shouldRetry_def)
qed

text \<open>A commit whose reply is lost is run again.  The error of the commit is among those to retry,
  so a transaction that was applied without the client knowing is applied a second time; nothing but
  the number of attempts bounds this.\<close>

theorem lost_commit_runs_twice:
  assumes "P 0 = calm_attempt\<lparr>at_commit := Some (e, True)\<rparr>" "P 1 = calm_attempt"
    and "2 \<le> dq_maxTxRetries q" "ge_kind e = Plain" "int (dp_control p) < dq_controlConcurrent q"
    and run: "fn (\<lambda>i. None) d = (Inr x, d1)" "fn (\<lambda>i. None) d1 = (Inr y, d2)"
  shows "fst (ExecuteControl q P fn p d) = Inr y \<and> snd (snd (ExecuteControl q P fn p d)) = d2"
proof -
  have retry: "shouldRetry (wrap ''failed to commit transaction: '' e)"
    using assms(4) by (rule commit_retried)
  have cap: "ensurePoolCapacity q Control calm_attempt p = (None, take_slot Control p)"
    "ensurePoolCapacity q Control (calm_attempt\<lparr>at_commit := Some (e, True)\<rparr>) p = (None, take_slot Control p)"
    using assms(5) by (simp_all add: ensurePoolCapacity_def calm_attempt_def lane_used_def lane_capacity_def)
  have "2 \<le> nat (max (dq_maxTxRetries q) 1)" using assms(3) by linarith
  then obtain m where "nat (max (dq_maxTxRetries q) 1) = 2 + m" using le_Suc_ex by blast
  then have m: "nat (max (dq_maxTxRetries q) 1) = Suc (Suc m)" by simp
  have once: "executeOnceWithContext (calm_attempt\<lparr>at_commit := Some (e, True)\<rparr>) fn d =
      (Inl (wrap ''failed to commit transaction: '' e), d1)"
    "executeOnceWithContext calm_attempt fn d1 = (Inr y, d2)"
    using run by (simp_all add: executeOnceWithContext_def calm_attempt_def)
  have wait: "at_wait (calm_attempt\<lparr>at_commit := Some (e, True)\<rparr>) = None"
    by (simp add: calm_attempt_def)
  have one: "P (Suc 0) = calm_attempt" using assms(2) by simp
  show ?thesis
    using assms(4) retry
    by (simp add: ExecuteControl_def executeWithContextLane_def m Let_def assms(1) one cap once wait record_exec_def)
qed

theorem lost_commit_runs_twice_witness:
  "fst (ExecuteControl std_queue (\<lambda>i. if i = 0 then calm_attempt\<lparr>at_commit := Some (\<lparr>ge_text = ''EOF'', ge_kind = Plain\<rparr>, True)\<rparr>
       else calm_attempt) add_one idle_pool 5) = Inr ()
   \<and> snd (snd (ExecuteControl std_queue (\<lambda>i. if i = 0 then calm_attempt\<lparr>at_commit := Some (\<lparr>ge_text = ''EOF'', ge_kind = Plain\<rparr>, True)\<rparr>
       else calm_attempt) add_one idle_pool 5)) = 7"
  by (rule lost_commit_runs_twice [where e = "\<lparr>ge_text = ''EOF'', ge_kind = Plain\<rparr>" and x = "()" and ?d1.0 = 6])
     (simp_all add: std_queue_def idle_pool_def add_one_def)

section \<open>Building transactions\<close>

text \<open>A transaction is put together from numbered statements; the number says which entry of the faults
  makes the statement fail.\<close>

definition tx_stmt :: "nat \<Rightarrow> ('d \<Rightarrow> (go_error + 'a) \<times> 'd) \<Rightarrow> ('a, 'd) tx" where
  "tx_stmt i g F d = (case F i of Some e \<Rightarrow> (Inl e, d) | None \<Rightarrow> g d)"

definition tx_exec :: "nat \<Rightarrow> ('d \<Rightarrow> 'd) \<Rightarrow> (unit, 'd) tx" where
  "tx_exec i g = tx_stmt i (\<lambda>d. (Inr (), g d))"

definition tx_query :: "nat \<Rightarrow> ('d \<Rightarrow> go_error + 'a) \<Rightarrow> ('a, 'd) tx" where
  "tx_query i g = tx_stmt i (\<lambda>d. (g d, d))"

definition tx_bind :: "('a, 'd) tx \<Rightarrow> ('a \<Rightarrow> ('b, 'd) tx) \<Rightarrow> ('b, 'd) tx" where
  "tx_bind m k F d = (case m F d of (Inl e, d') \<Rightarrow> (Inl e, d') | (Inr x, d') \<Rightarrow> k x F d')"

definition tx_return :: "'a \<Rightarrow> ('a, 'd) tx" where
  "tx_return x F d = (Inr x, d)"

definition tx_fail :: "go_error \<Rightarrow> ('a, 'd) tx" where
  "tx_fail e F d = (Inl e, d)"

text \<open>\<open>fmt.Errorf\<close> around the error of a step.\<close>

definition tx_wrap :: "string \<Rightarrow> ('a, 'd) tx \<Rightarrow> ('a, 'd) tx" where
  "tx_wrap prefix m F d = (case m F d of (Inl e, d') \<Rightarrow> (Inl (wrap prefix e), d') | (Inr x, d') \<Rightarrow> (Inr x, d'))"

lemmas tx_defs = tx_stmt_def tx_exec_def tx_query_def tx_bind_def tx_return_def tx_fail_def tx_wrap_def

definition keeps :: "('d \<Rightarrow> bool) \<Rightarrow> ('a, 'd) tx \<Rightarrow> bool" where
  "keeps P m \<longleftrightarrow> (\<forall>F d. P d \<longrightarrow> P (snd (m F d)))"

lemma keeps_bind [tx_keeps]: "keeps P m \<Longrightarrow> (\<And>x. keeps P (k x)) \<Longrightarrow> keeps P (tx_bind m k)"
  by (auto simp: keeps_def tx_bind_def split: prod.splits sum.splits) (metis snd_conv)+

lemma keeps_stmt [tx_keeps]: "(\<And>d. P d \<Longrightarrow> P (snd (g d))) \<Longrightarrow> keeps P (tx_stmt i g)"
  by (simp add: keeps_def tx_stmt_def split: option.splits)

lemma keeps_exec [tx_keeps]: "(\<And>d. P d \<Longrightarrow> P (g d)) \<Longrightarrow> keeps P (tx_exec i g)"
  by (simp add: keeps_def tx_exec_def tx_stmt_def split: option.splits)

lemma keeps_query [tx_keeps]: "keeps P (tx_query i g)"
  by (simp add: keeps_def tx_query_def tx_stmt_def split: option.splits)

lemma keeps_return [tx_keeps]: "keeps P (tx_return x)"
  by (simp add: keeps_def tx_return_def)

lemma keeps_fail [tx_keeps]: "keeps P (tx_fail e)"
  by (simp add: keeps_def tx_fail_def)

lemma keeps_wrap [tx_keeps]: "keeps P m \<Longrightarrow> keeps P (tx_wrap p m)"
  by (auto simp: keeps_def tx_wrap_def split: prod.splits sum.splits) (metis snd_conv)+

lemma keeps_if [tx_keeps]: "(b \<Longrightarrow> keeps P m) \<Longrightarrow> (\<not> b \<Longrightarrow> keeps P n) \<Longrightarrow> keeps P (if b then m else n)"
  by simp

text \<open>What a transaction keeps, all its attempts keep, whatever is lost.\<close>

lemma execute_keeps:
  assumes "keeps P fn" "P d"
  shows "P (snd (snd (executeWithContextLane q l A fn p d)))"
proof -
  obtain r p' d' where e: "executeWithContextLane q l A fn p d = (r, p', d')" by (rule prod_cases3)
  then have "applied fn d d'" by (auto simp: executeWithContextLane_def dest: execute_applied_aux)
  then have "P d'"
    using assms(2)
  proof (induction rule: applied.induct)
    case (none d)
    then show ?case .
  next
    case (more d d1 d2)
    then obtain F x where "fn F d1 = (Inr x, d2)" by (auto simp: applied_once_def)
    then show ?case using assms(1) more.IH [OF more.prems] by (metis keeps_def snd_conv)
  qed
  then show ?thesis using e by simp
qed

section \<open>A transaction that succeeds\<close>

lemma execute_success_aux:
  assumes "execute_attempts q l A fn n k t e p d = (Inr x, p', d')"
  shows "\<exists>d1 F. applied fn d d1 \<and> fn F d1 = (Inr x, d')"
  using assms
proof (induction n arbitrary: k t e p d)
  case (Suc n)
  obtain err p1 where c: "ensurePoolCapacity q l (A k) p = (err, p1)" by (rule prod.exhaust)
  show ?case
  proof (cases err)
    case (Some e1)
    then show ?thesis using Suc c by (auto simp: Let_def split: if_splits option.splits)
  next
    case None
    obtain r d2 where o: "executeOnceWithContext (A k) fn d = (r, d2)" by (rule prod.exhaust)
    show ?thesis
    proof (cases r)
      case (Inr y)
      then have "y = x" "d2 = d'" using Suc.prems c None o by (auto simp: Let_def)
      moreover have "fn (at_stmts (A k)) d = (Inr y, d2)" using o Inr
        by (auto simp: executeOnceWithContext_def split: option.splits prod.splits sum.splits)
      ultimately show ?thesis using applied.none by metis
    next
      case (Inl e1)
      have "d2 = d \<or> applied_once fn d d2" using o Inl
        by (auto simp: executeOnceWithContext_def applied_once_def split: option.splits prod.splits sum.splits if_splits)
      moreover obtain t' e' p'' where "execute_attempts q l A fn n (k + 1) t' e' p'' d2 = (Inr x, p', d')"
        using Suc.prems c None o Inl by (auto simp: Let_def split: if_splits option.splits)
      then obtain d1 F where "applied fn d2 d1" "fn F d1 = (Inr x, d')" using Suc.IH by blast
      ultimately show ?thesis by (metis applied_front)
    qed
  qed
qed simp

lemma execute_success:
  assumes "Execute_tx q A fn p d = (Inr x, p', d')"
  shows "\<exists>d1 F. applied fn d d1 \<and> fn F d1 = (Inr x, d')"
  using assms unfolding Execute_tx_def executeWithContextLane_def by (rule execute_success_aux)

lemma applied_invariant:
  assumes "applied fn d d1" "\<And>F a x b. P a \<Longrightarrow> fn F a = (Inr x, b) \<Longrightarrow> P b" "P d"
  shows "P d1"
  using assms by (induction rule: applied.induct) (auto simp: applied_once_def)

lemma idle_capacity: "at_slot A \<Longrightarrow> at_fd A = None \<Longrightarrow> ensurePoolCapacity std_queue Bulk A idle_pool = (None, take_slot Bulk idle_pool)"
proof -
  have "0 < EffectiveLimit (dp_pressure idle_pool)" by code_simp
  then show "at_slot A \<Longrightarrow> at_fd A = None \<Longrightarrow> ensurePoolCapacity std_queue Bulk A idle_pool = (None, take_slot Bulk idle_pool)"
    by (simp add: ensurePoolCapacity_def lane_used_def lane_capacity_def idle_pool_def std_queue_def)
qed

lemma calm_execute:
  assumes "fn (\<lambda>i. None) d = (Inr x, d')"
  shows "\<exists>p'. Execute_tx std_queue (\<lambda>i. calm_attempt) fn idle_pool d = (Inr x, p', d')"
proof -
  have cap: "ensurePoolCapacity std_queue Bulk calm_attempt idle_pool = (None, take_slot Bulk idle_pool)"
    by (rule idle_capacity) (simp_all add: calm_attempt_def)
  have n: "nat (max (dq_maxTxRetries std_queue) 1) = Suc (Suc (Suc 0))" by (simp add: std_queue_def)
  have "executeOnceWithContext calm_attempt fn d = (Inr x, d')"
    using assms by (simp add: executeOnceWithContext_def calm_attempt_def)
  then show ?thesis unfolding Execute_tx_def executeWithContextLane_def n by (simp add: cap Let_def)
qed

section \<open>Attempts that nothing disturbs\<close>

definition disturbed :: "attempt \<Rightarrow> bool" where
  "disturbed A \<longleftrightarrow> \<not> at_slot A \<or> at_fd A \<noteq> None \<or> at_begin A \<noteq> None \<or> at_timeout A \<noteq> None \<or>
     (\<exists>i. at_stmts A i \<noteq> None) \<or> at_commit A \<noteq> None \<or> at_wait A \<noteq> None"

text \<open>Without disturbance a transaction gives the result of its function, or the pool is saturated.\<close>

definition undisturbed_result :: "(go_error + 'a) \<times> 'd \<Rightarrow> 'd \<Rightarrow> (go_error + 'a) \<times> 'd" where
  "undisturbed_result m d = (case m of (Inl e, d1) \<Rightarrow> (Inl e, d) | (Inr x, d1) \<Rightarrow> (Inr x, d1))"

lemma undisturbed_once:
  assumes "\<not> disturbed A"
  shows "executeOnceWithContext A fn d = undisturbed_result (fn (\<lambda>i. None) d) d"
proof -
  have "at_stmts A = (\<lambda>i. None)" using assms by (auto simp: disturbed_def)
  moreover have "at_begin A = None" "at_timeout A = None" "at_commit A = None"
    using assms unfolding disturbed_def by blast+
  ultimately show ?thesis
    by (simp add: executeOnceWithContext_def undisturbed_result_def split: prod.split sum.split)
qed

lemma undisturbed_attempts:
  assumes "\<And>k. \<not> disturbed (A k)" "0 < n" "execute_attempts q l A fn n k t err p d = (r, p', d')"
  shows "(r, d') = undisturbed_result (fn (\<lambda>i. None) d) d \<or> (r, d') = (Inl ErrPoolSaturated, d)"
  using assms(2,3)
proof (induction n arbitrary: k t err p)
  case (Suc n)
  obtain c p1 where cap: "ensurePoolCapacity q l (A k) p = (c, p1)" by (rule prod.exhaust)
  have wait: "at_wait (A k) = None" using assms(1) by (auto simp: disturbed_def)
  obtain res d2 where m: "fn (\<lambda>i. None) d = (res, d2)" by (rule prod.exhaust)
  have once: "executeOnceWithContext (A k) fn d = undisturbed_result (res, d2) d"
    using undisturbed_once [OF assms(1)] m by metis
  have again: "(r, d') = undisturbed_result (res, d2) d \<or> (r, d') = (Inl ErrPoolSaturated, d)"
    if "execute_attempts q l A fn n k' t' err' p2 d = (r, p', d')" "n \<noteq> 0" for k' t' err' p2
    using Suc.IH [OF _ that(1)] that(2) m by simp
  show ?case
  proof (cases c)
    case (Some e)
    then have "e = ErrPoolSaturated" using capacity_slots [OF cap] by simp
    then show ?thesis using Suc.prems(2) cap Some wait again m by (auto simp: Let_def split: if_splits)
  next
    case None
    then show ?thesis using Suc.prems(2) cap once wait again m
      by (cases res) (auto simp: Let_def undisturbed_result_def split: if_splits)
  qed
qed simp

lemma undisturbed_lane:
  assumes "\<And>k. \<not> disturbed (A k)" "executeWithContextLane q l A fn p d = (r, p', d')"
  shows "(r, d') = undisturbed_result (fn (\<lambda>i. None) d) d \<or> (r, d') = (Inl ErrPoolSaturated, d)"
  using assms(2) unfolding executeWithContextLane_def by (rule undisturbed_attempts [OF assms(1), rotated]) simp

section \<open>Attempts that always fail\<close>

lemma no_slot_attempts:
  assumes "\<And>k. \<not> at_slot (A k)" "0 < n"
  shows "\<exists>e p'. execute_attempts q l A fn n k t err p d = (Inl e, p', d)"
  using assms(2)
proof (induction n arbitrary: k t err p)
  case (Suc n)
  have "\<exists>p1. ensurePoolCapacity q l (A k) p = (Some ErrPoolSaturated, p1)"
    using assms(1) by (auto simp: ensurePoolCapacity_def)
  then obtain p1 where c: "ensurePoolCapacity q l (A k) p = (Some ErrPoolSaturated, p1)" ..
  show ?case
  proof (cases "n = 0")
    case False
    then show ?thesis using Suc.IH [of "k + 1" t err p1] by (auto simp: c Let_def split: option.split)
  qed (simp add: c Let_def)
qed simp

lemma no_slot:
  assumes "\<And>k. \<not> at_slot (A k)"
  shows "\<exists>e p'. Execute_tx q A fn p d = (Inl e, p', d)"
  unfolding Execute_tx_def executeWithContextLane_def by (rule no_slot_attempts [OF assms]) simp

text \<open>No error that the environment makes has the type \<open>batch.go\<close> looks for.\<close>

definition no_pq :: "go_error \<Rightarrow> bool" where
  "no_pq e \<longleftrightarrow> (case ge_kind e of PqErr code \<Rightarrow> False | _ \<Rightarrow> True)"

definition pgx_attempt :: "attempt \<Rightarrow> bool" where
  "pgx_attempt A \<longleftrightarrow> pred_option no_pq (at_begin A) \<and> pred_option no_pq (at_timeout A) \<and> pred_option no_pq (at_wait A) \<and>
     pred_option no_pq (map_option fst (at_commit A)) \<and> (\<forall>i. pred_option no_pq (at_stmts A i))"

lemma no_pq_wrap [simp]: "no_pq (wrap s e) = no_pq e"
  by (simp add: no_pq_def)

lemma no_pq_retryable: "no_pq e \<Longrightarrow> dbRetryable (Some e)"
  by (auto simp: dbRetryable_iff no_pq_def)

lemma failing_attempts:
  assumes fails: "\<And>k. \<exists>e. executeOnceWithContext (A k) fn d = (Inl e, d) \<and> no_pq e" and "\<And>k. pgx_attempt (A k)" "0 < n"
  shows "\<exists>e p'. execute_attempts q l A fn n k t err p d = (Inl e, p', d) \<and> no_pq e"
  using assms(3)
proof (induction n arbitrary: k t err p)
  case (Suc n)
  obtain c p1 where cap: "ensurePoolCapacity q l (A k) p = (c, p1)" by (rule prod.exhaust)
  obtain e where e: "executeOnceWithContext (A k) fn d = (Inl e, d)" "no_pq e" using fails by blast
  have wait: "pred_option no_pq (at_wait (A k))" using assms(2) by (simp add: pgx_attempt_def)
  have sat: "c = Some ErrPoolSaturated" if "c \<noteq> None" using capacity_slots [OF cap] that by simp
  have "no_pq ErrPoolSaturated" by (simp add: no_pq_def ErrPoolSaturated_def)
  then show ?case
    using Suc.IH cap e wait sat
    by (cases c; cases n) (auto simp: Let_def split: option.split)
qed simp

end
