(* ===== verification/Db_Model.thy ===== *)
theory Db_Model
  imports Db_Execute Broker_Outbox Jobs_Executor
begin

text \<open>
  The tables of the database the queue and the job manager work on (\<open>supabase/migrations\<close>), with
  the triggers that keep the counters of a job: \<open>update_job_counters_status_batch\<close> after an
  \<open>UPDATE\<close> of tasks, \<open>update_job_counters_insert_batch\<close> after an \<open>INSERT\<close>, and the two
  \<open>BEFORE\<close> triggers on \<open>jobs\<close>.  Columns that only feed displays (\<open>stats\<close>,
  \<open>updated_at\<close>, the generated durations) and the triggers that write notifications are left out.
  The lemmas show that every statement keeps the counters equal to the counts of the tasks, and when
  a job becomes \<open>completed\<close>.
\<close>

section \<open>Rows\<close>

datatype job_status = JPending | JInitialising | JRunning | JPaused | JCompleted | JFailed | JCancelled
  | JArchived | JBlocked

record job_row =
  jr_DomainID :: int
  jr_UserID :: "string option"
  jr_OrgID :: "string option"
  jr_Status :: job_status
  jr_Progress :: rat
  jr_Total :: int
  jr_Completed :: int
  jr_Failed :: int
  jr_Skipped :: int
  jr_Pending :: int
  jr_Waiting :: int
  jr_Running :: int
  jr_Sitemap :: int
  jr_Found :: int
  jr_CreatedAt :: time
  jr_StartedAt :: "time option"
  jr_CompletedAt :: "time option"
  jr_Concurrency :: int
  jr_FindLinks :: bool
  jr_MaxPages :: int
  jr_IncludePaths :: "string list"
  jr_ExcludePaths :: "string list"
  jr_RequiredWorkers :: int
  jr_CrossSubdomain :: bool
  jr_SitemapFound :: int
  jr_Error :: "string option"

text \<open>The columns a completed task fills are kept as the row the worker sent.\<close>

record task_row =
  tr_ID :: string
  tr_JobID :: string
  tr_PageID :: int
  tr_Host :: string
  tr_Path :: string
  tr_Status :: task_status
  tr_CreatedAt :: time
  tr_StartedAt :: "time option"
  tr_CompletedAt :: "time option"
  tr_RetryCount :: int
  tr_SourceType :: string
  tr_SourceURL :: string
  tr_Priority :: rat
  tr_Error :: "string option"
  tr_Result :: "db_task option"
  tr_Diagnostics :: "string option"
  tr_HTML :: html_meta

record domain_row =
  dm_ID :: int
  dm_Name :: string
  dm_CrawlDelay :: "int option"
  dm_WafBlocked :: bool
  dm_WafVendor :: "string option"
  dm_WafBlockedAt :: "time option"

record page_row =
  pr_ID :: int
  pr_DomainID :: int
  pr_Host :: string
  pr_Path :: string

record hover_db =
  db_jobs :: "string \<Rightarrow> job_row option"
  db_domains :: "domain_row list"
  db_pages :: "page_row list"
  db_tasks :: "task_row list"
  db_outbox :: outbox_db
  db_usage :: "string \<Rightarrow> int"

section \<open>Triggers on jobs\<close>

text \<open>\<open>set_job_started_at\<close> and \<open>set_job_completed_at\<close>, on the old and the new row of an
  \<open>UPDATE\<close>; there is no old row on an \<open>INSERT\<close>.\<close>

definition set_job_started_at :: "time \<Rightarrow> job_row option \<Rightarrow> job_row \<Rightarrow> job_row" where
  "set_job_started_at now old r =
     (if 0 < jr_Completed r \<and> (case old of None \<Rightarrow> True | Some p \<Rightarrow> jr_StartedAt p = None) \<and> jr_StartedAt r = None
      then r\<lparr>jr_StartedAt := Some now\<rparr> else r)"

definition set_job_completed_at :: "time \<Rightarrow> job_row option \<Rightarrow> job_row \<Rightarrow> job_row" where
  "set_job_completed_at now old r =
     (if 100 \<le> jr_Progress r \<and> (case old of None \<Rightarrow> True | Some p \<Rightarrow> jr_CompletedAt p = None) \<and> jr_CompletedAt r = None
      then r\<lparr>jr_CompletedAt := Some now\<rparr> else r)"

definition before_write :: "time \<Rightarrow> job_row option \<Rightarrow> job_row \<Rightarrow> job_row" where
  "before_write now old r = set_job_completed_at now old (set_job_started_at now old r)"

lemma before_write_sel [simp]:
  "jr_Status (before_write now old r) = jr_Status r" "jr_Total (before_write now old r) = jr_Total r"
  "jr_Completed (before_write now old r) = jr_Completed r" "jr_Failed (before_write now old r) = jr_Failed r"
  "jr_Skipped (before_write now old r) = jr_Skipped r" "jr_Pending (before_write now old r) = jr_Pending r"
  "jr_Waiting (before_write now old r) = jr_Waiting r" "jr_Running (before_write now old r) = jr_Running r"
  "jr_Concurrency (before_write now old r) = jr_Concurrency r" "jr_MaxPages (before_write now old r) = jr_MaxPages r"
  "jr_DomainID (before_write now old r) = jr_DomainID r" "jr_OrgID (before_write now old r) = jr_OrgID r"
  "jr_Error (before_write now old r) = jr_Error r"
  by (simp_all add: before_write_def set_job_completed_at_def set_job_started_at_def)

definition update_job :: "time \<Rightarrow> (job_row \<Rightarrow> bool) \<Rightarrow> (job_row \<Rightarrow> job_row) \<Rightarrow> string \<Rightarrow> hover_db \<Rightarrow> nat \<times> hover_db" where
  "update_job now sel f jobID d =
     (case db_jobs d jobID of
        Some r \<Rightarrow> if sel r then (1, d\<lparr>db_jobs := (db_jobs d)(jobID \<mapsto> before_write now (Some r) (f r))\<rparr>) else (0, d)
      | None \<Rightarrow> (0, d))"

section \<open>Counter triggers\<close>

text \<open>The rows of a job whose status a statement changed, before and after.\<close>

definition changed :: "string \<Rightarrow> task_row list \<Rightarrow> task_row list \<Rightarrow> (task_row \<times> task_row) list" where
  "changed jobID olds news =
     filter (\<lambda>(p, n). tr_JobID p = jobID \<and> tr_Status p \<noteq> tr_Status n) (zip olds news)"

definition count_status :: "task_status \<Rightarrow> task_row list \<Rightarrow> int" where
  "count_status st ts = int (length (filter (\<lambda>t. tr_Status t = st) ts))"

definition delta :: "task_status \<Rightarrow> (task_row \<times> task_row) list \<Rightarrow> int" where
  "delta st ps = count_status st (map snd ps) - count_status st (map fst ps)"

definition job_progress :: "int \<Rightarrow> int \<Rightarrow> int \<Rightarrow> int \<Rightarrow> rat" where
  "job_progress tot completed failed skipped =
     (if tot > 0 \<and> tot - skipped > 0 then of_int (completed + failed) / of_int (tot - skipped) * 100 else 0)"

definition update_job_counters_status_batch :: "time \<Rightarrow> (task_row \<times> task_row) list \<Rightarrow> job_row \<Rightarrow> job_row" where
  "update_job_counters_status_batch now ps r =
     (let c = max 0 (jr_Completed r + delta Completed ps);
          f = max 0 (jr_Failed r + delta Failed ps);
          s = max 0 (jr_Skipped r + delta Skipped ps);
          full = (jr_Total r > 0 \<and> c + f + s \<ge> jr_Total r)
      in r\<lparr>jr_Completed := c, jr_Failed := f, jr_Skipped := s,
           jr_Pending := max 0 (jr_Pending r + delta Pending ps),
           jr_Waiting := max 0 (jr_Waiting r + delta Waiting ps),
           jr_Progress := job_progress (jr_Total r) c f s,
           jr_StartedAt := (if jr_StartedAt r = None \<and> list_ex (\<lambda>(p, n). tr_Status n = Running) ps
                            then Some now else jr_StartedAt r),
           jr_CompletedAt := (if jr_CompletedAt r = None \<and> full then Some now else jr_CompletedAt r),
           jr_Status := (if jr_Status r \<in> {JCancelled, JFailed, JBlocked} then jr_Status r
                         else if full then JCompleted else jr_Status r)\<rparr>)"

definition fire_update :: "time \<Rightarrow> task_row list \<Rightarrow> task_row list \<Rightarrow> (string \<Rightarrow> job_row option) \<Rightarrow> string \<Rightarrow> job_row option" where
  "fire_update now olds news jobs jobID =
     (case jobs jobID of
        None \<Rightarrow> None
      | Some r \<Rightarrow>
          let ps = changed jobID olds news in
          if ps = [] then Some r else Some (before_write now (Some r) (update_job_counters_status_batch now ps r)))"

text \<open>\<open>UPDATE tasks SET ... WHERE ...\<close>.  The updates of the code never change the key or the job
  of a row.\<close>

definition update_tasks :: "time \<Rightarrow> (task_row \<Rightarrow> bool) \<Rightarrow> (task_row \<Rightarrow> task_row) \<Rightarrow> hover_db \<Rightarrow> hover_db" where
  "update_tasks now sel f d =
     (let news = map (\<lambda>t. if sel t then f t else t) (db_tasks d)
      in d\<lparr>db_tasks := news, db_jobs := fire_update now (db_tasks d) news (db_jobs d)\<rparr>)"

definition update_job_counters_insert_batch :: "task_row list \<Rightarrow> job_row \<Rightarrow> job_row" where
  "update_job_counters_insert_batch ts r =
     (let sitemap = int (length (filter (\<lambda>t. tr_SourceType t = ''sitemap'') ts)) in
      r\<lparr>jr_Total := jr_Total r + int (length ts),
        jr_Sitemap := jr_Sitemap r + sitemap,
        jr_Found := jr_Found r + (int (length ts) - sitemap),
        jr_Pending := jr_Pending r + count_status Pending ts,
        jr_Waiting := jr_Waiting r + count_status Waiting ts,
        jr_Skipped := jr_Skipped r + count_status Skipped ts\<rparr>)"

definition fire_insert :: "time \<Rightarrow> task_row list \<Rightarrow> (string \<Rightarrow> job_row option) \<Rightarrow> string \<Rightarrow> job_row option" where
  "fire_insert now ts jobs jobID =
     (case jobs jobID of
        None \<Rightarrow> None
      | Some r \<Rightarrow>
          let mine = filter (\<lambda>t. tr_JobID t = jobID) ts in
          if mine = [] then Some r
          else Some (before_write now (Some r) (update_job_counters_insert_batch mine r)))"

definition insert_tasks :: "time \<Rightarrow> task_row list \<Rightarrow> hover_db \<Rightarrow> hover_db" where
  "insert_tasks now ts d = d\<lparr>db_tasks := db_tasks d @ ts, db_jobs := fire_insert now ts (db_jobs d)\<rparr>"

section \<open>Counters\<close>

definition tasks_of :: "string \<Rightarrow> hover_db \<Rightarrow> task_row list" where
  "tasks_of jobID d = filter (\<lambda>t. tr_JobID t = jobID) (db_tasks d)"

definition row_counts :: "task_row list \<Rightarrow> job_row \<Rightarrow> bool" where
  "row_counts ts r \<longleftrightarrow>
     jr_Total r = int (length ts) \<and> jr_Completed r = count_status Completed ts \<and>
     jr_Failed r = count_status Failed ts \<and> jr_Skipped r = count_status Skipped ts \<and>
     jr_Pending r = count_status Pending ts \<and> jr_Waiting r = count_status Waiting ts"

definition counters_ok :: "hover_db \<Rightarrow> bool" where
  "counters_ok d \<longleftrightarrow> (\<forall>jobID r. db_jobs d jobID = Some r \<longrightarrow> row_counts (tasks_of jobID d) r)"

lemma count_status_simps [simp]:
  "count_status st [] = 0" "count_status st (t # ts) = (if tr_Status t = st then 1 else 0) + count_status st ts"
  "count_status st (ts @ us) = count_status st ts + count_status st us" "0 \<le> count_status st ts"
  by (simp_all add: count_status_def)

lemma delta_changed:
  assumes "\<And>t. t \<in> set ts \<Longrightarrow> tr_JobID (g t) = tr_JobID t"
  shows "count_status st (filter (\<lambda>t. tr_JobID t = j) (map g ts)) =
    count_status st (filter (\<lambda>t. tr_JobID t = j) ts) + delta st (changed j ts (map g ts))"
  using assms by (induction ts) (auto simp: changed_def delta_def)

lemma filter_job_map:
  assumes "\<And>t. t \<in> set ts \<Longrightarrow> tr_JobID (g t) = tr_JobID t"
  shows "length (filter (\<lambda>t. tr_JobID t = j) (map g ts)) = length (filter (\<lambda>t. tr_JobID t = j) ts)"
  using assms by (induction ts) auto

lemma delta_nil [simp]: "delta st [] = 0"
  by (simp add: delta_def)

lemma status_batch_sel [simp]:
  "jr_Total (update_job_counters_status_batch now ps r) = jr_Total r"
  "jr_Completed (update_job_counters_status_batch now ps r) = max 0 (jr_Completed r + delta Completed ps)"
  "jr_Failed (update_job_counters_status_batch now ps r) = max 0 (jr_Failed r + delta Failed ps)"
  "jr_Skipped (update_job_counters_status_batch now ps r) = max 0 (jr_Skipped r + delta Skipped ps)"
  "jr_Pending (update_job_counters_status_batch now ps r) = max 0 (jr_Pending r + delta Pending ps)"
  "jr_Waiting (update_job_counters_status_batch now ps r) = max 0 (jr_Waiting r + delta Waiting ps)"
  "jr_Running (update_job_counters_status_batch now ps r) = jr_Running r"
  "jr_Concurrency (update_job_counters_status_batch now ps r) = jr_Concurrency r"
  "jr_MaxPages (update_job_counters_status_batch now ps r) = jr_MaxPages r"
  "jr_DomainID (update_job_counters_status_batch now ps r) = jr_DomainID r"
  by (simp_all add: update_job_counters_status_batch_def Let_def)

definition same_key :: "(task_row \<Rightarrow> task_row) \<Rightarrow> bool" where
  "same_key f \<longleftrightarrow> (\<forall>t. tr_JobID (f t) = tr_JobID t \<and> tr_ID (f t) = tr_ID t \<and> tr_PageID (f t) = tr_PageID t)"

lemma update_tasks_counts:
  assumes "same_key f" "counters_ok d"
  shows "counters_ok (update_tasks now sel f d)"
proof -
  let ?g = "\<lambda>t. if sel t then f t else t"
  have key: "tr_JobID (?g t) = tr_JobID t" for t using assms(1) by (simp add: same_key_def)
  let ?news = "map ?g (db_tasks d)"
  have "row_counts (filter (\<lambda>t. tr_JobID t = j) ?news) r'"
    if r': "fire_update now (db_tasks d) ?news (db_jobs d) j = Some r'" for j r'
  proof -
    from r' obtain r where r: "db_jobs d j = Some r" by (auto simp: fire_update_def split: option.splits)
    let ?ps = "changed j (db_tasks d) ?news"
    have c: "row_counts (filter (\<lambda>t. tr_JobID t = j) (db_tasks d)) r"
      using assms(2) r by (auto simp: counters_ok_def tasks_of_def)
    have n: "count_status st (filter (\<lambda>t. tr_JobID t = j) ?news) =
        count_status st (filter (\<lambda>t. tr_JobID t = j) (db_tasks d)) + delta st ?ps" for st
      by (rule delta_changed) (rule key)
    have pos: "0 \<le> count_status st (filter (\<lambda>t. tr_JobID t = j) (db_tasks d)) + delta st ?ps" for st
      using n [of st] count_status_simps(4) by metis
    have len: "length (filter (\<lambda>t. tr_JobID t = j) ?news) = length (filter (\<lambda>t. tr_JobID t = j) (db_tasks d))"
      by (rule filter_job_map) (rule key)
    show ?thesis
    proof (cases "?ps = []")
      case True
      then show ?thesis using r' r c n len by (simp add: fire_update_def row_counts_def)
    next
      case False
      then have "r' = before_write now (Some r) (update_job_counters_status_batch now ?ps r)"
        using r' r by (simp add: fire_update_def Let_def)
      then show ?thesis using c n len pos by (simp add: row_counts_def max_def)
    qed
  qed
  then show ?thesis by (simp add: counters_ok_def update_tasks_def tasks_of_def Let_def)
qed

text \<open>The insert trigger does not count completed, failed or running rows: the code inserts none.\<close>

lemma insert_tasks_counts:
  assumes "counters_ok d" "\<forall>t \<in> set ts. tr_Status t \<in> {Pending, Waiting, Skipped}"
  shows "counters_ok (insert_tasks now ts d)"
proof -
  have z: "count_status st (filter (\<lambda>t. tr_JobID t = j) ts) = 0" if "st \<in> {Completed, Failed}" for st j
    using assms(2) that by (auto simp: count_status_def filter_empty_conv)
  have "row_counts (filter (\<lambda>t. tr_JobID t = j) (db_tasks d @ ts)) r'"
    if r': "fire_insert now ts (db_jobs d) j = Some r'" for j r'
  proof -
    from r' obtain r where r: "db_jobs d j = Some r" by (auto simp: fire_insert_def split: option.splits)
    have c: "row_counts (filter (\<lambda>t. tr_JobID t = j) (db_tasks d)) r"
      using assms(1) r by (auto simp: counters_ok_def tasks_of_def)
    show ?thesis
    proof (cases "filter (\<lambda>t. tr_JobID t = j) ts = []")
      case True
      then show ?thesis using r' r c by (simp add: fire_insert_def)
    next
      case False
      then have "r' = before_write now (Some r) (update_job_counters_insert_batch (filter (\<lambda>t. tr_JobID t = j) ts) r)"
        using r' r by (simp add: fire_insert_def Let_def)
      then show ?thesis
        using c z [of Completed j] z [of Failed j]
        by (simp add: row_counts_def update_job_counters_insert_batch_def Let_def)
    qed
  qed
  then show ?thesis by (simp add: counters_ok_def insert_tasks_def tasks_of_def)
qed

text \<open>An update of a job row that leaves the counters alone.\<close>

definition same_counters :: "(job_row \<Rightarrow> job_row) \<Rightarrow> bool" where
  "same_counters f \<longleftrightarrow>
     (\<forall>r. jr_Total (f r) = jr_Total r \<and> jr_Completed (f r) = jr_Completed r \<and> jr_Failed (f r) = jr_Failed r \<and>
          jr_Skipped (f r) = jr_Skipped r \<and> jr_Pending (f r) = jr_Pending r \<and> jr_Waiting (f r) = jr_Waiting r)"

lemma update_job_tasks [simp]:
  "db_tasks (snd (update_job now sel f jobID d)) = db_tasks d"
  "db_outbox (snd (update_job now sel f jobID d)) = db_outbox d"
  "db_domains (snd (update_job now sel f jobID d)) = db_domains d"
  "db_pages (snd (update_job now sel f jobID d)) = db_pages d"
  "db_usage (snd (update_job now sel f jobID d)) = db_usage d"
  by (simp_all add: update_job_def split: option.splits)

lemma update_job_counts:
  assumes "same_counters f" "counters_ok d"
  shows "counters_ok (snd (update_job now sel f jobID d))"
  using assms
  by (auto simp: counters_ok_def update_job_def tasks_of_def row_counts_def same_counters_def split: option.splits)

lemma update_tasks_sel [simp]:
  "db_outbox (update_tasks now sel f d) = db_outbox d" "db_domains (update_tasks now sel f d) = db_domains d"
  "db_pages (update_tasks now sel f d) = db_pages d" "db_usage (update_tasks now sel f d) = db_usage d"
  "db_tasks (update_tasks now sel f d) = map (\<lambda>t. if sel t then f t else t) (db_tasks d)"
  "db_outbox (insert_tasks now ts d) = db_outbox d" "db_domains (insert_tasks now ts d) = db_domains d"
  "db_pages (insert_tasks now ts d) = db_pages d" "db_usage (insert_tasks now ts d) = db_usage d"
  "db_tasks (insert_tasks now ts d) = db_tasks d @ ts"
  by (simp_all add: update_tasks_def insert_tasks_def Let_def)

lemma outbox_only_counts:
  "counters_ok (d\<lparr>db_outbox := ob\<rparr>) \<longleftrightarrow> counters_ok d" "counters_ok (d\<lparr>db_domains := ds\<rparr>) \<longleftrightarrow> counters_ok d"
  "counters_ok (d\<lparr>db_pages := ps\<rparr>) \<longleftrightarrow> counters_ok d" "counters_ok (d\<lparr>db_usage := us\<rparr>) \<longleftrightarrow> counters_ok d"
  by (simp_all add: counters_ok_def tasks_of_def)

section \<open>When a job completes\<close>

definition terminal_task :: "task_row \<Rightarrow> bool" where
  "terminal_task t \<longleftrightarrow> tr_Status t \<in> {Completed, Failed, Skipped}"

lemma terminal_count:
  "count_status Completed ts + count_status Failed ts + count_status Skipped ts = int (length (filter terminal_task ts))"
  by (induction ts) (auto simp: terminal_task_def)

lemma all_terminal_iff:
  "int (length ts) \<le> count_status Completed ts + count_status Failed ts + count_status Skipped ts
    \<longleftrightarrow> (\<forall>t \<in> set ts. terminal_task t)"
  unfolding terminal_count
  by (metis filter_True length_filter_le length_filter_less linorder_not_less nat_int_comparison(3) order_refl of_nat_le_iff)

text \<open>A statement that changes a task of a live job completes the job exactly when it leaves no task
  of the job open.\<close>

lemma update_completes:
  assumes ok: "same_key f" "counters_ok d" and r: "db_jobs d j = Some r"
    and live: "jr_Status r \<notin> {JCancelled, JFailed, JBlocked, JCompleted}"
    and touched: "t \<in> set (db_tasks d)" "tr_JobID t = j" "sel t" "tr_Status (f t) \<noteq> tr_Status t"
  shows "\<exists>r'. db_jobs (update_tasks now sel f d) j = Some r' \<and>
    (jr_Status r' = JCompleted \<longleftrightarrow> (\<forall>u \<in> set (tasks_of j (update_tasks now sel f d)). terminal_task u)) \<and>
    (jr_Status r' \<noteq> JCompleted \<longrightarrow> jr_Status r' = jr_Status r)"
proof -
  let ?g = "\<lambda>t. if sel t then f t else t"
  let ?ps = "changed j (db_tasks d) (map ?g (db_tasks d))"
  have "(t, f t) \<in> set ?ps"
  proof -
    obtain i where "i < length (db_tasks d)" "db_tasks d ! i = t" using touched(1) by (auto simp: in_set_conv_nth)
    then have "(t, f t) \<in> set (zip (db_tasks d) (map ?g (db_tasks d)))"
      using touched(3) by (auto simp: in_set_zip)
    then show ?thesis using touched by (auto simp: changed_def)
  qed
  then have ne: "?ps \<noteq> []" by auto
  let ?r = "before_write now (Some r) (update_job_counters_status_batch now ?ps r)"
  have new: "db_jobs (update_tasks now sel f d) j = Some ?r"
    using r ne by (simp add: update_tasks_def fire_update_def Let_def)
  have "row_counts (tasks_of j (update_tasks now sel f d)) ?r"
    using update_tasks_counts [OF ok, of now sel] new by (simp add: counters_ok_def)
  moreover have "tasks_of j (update_tasks now sel f d) \<noteq> []"
  proof -
    have "?g t \<in> set (db_tasks (update_tasks now sel f d))" "tr_JobID (?g t) = j"
      using touched ok(1) by (auto simp: same_key_def)
    then show ?thesis by (auto simp: tasks_of_def filter_empty_conv)
  qed
  ultimately have full: "(jr_Total r > 0 \<and> max 0 (jr_Completed r + delta Completed ?ps) + max 0 (jr_Failed r + delta Failed ?ps)
      + max 0 (jr_Skipped r + delta Skipped ?ps) \<ge> jr_Total r)
    \<longleftrightarrow> (\<forall>u \<in> set (tasks_of j (update_tasks now sel f d)). terminal_task u)"
    using all_terminal_iff [of "tasks_of j (update_tasks now sel f d)"] by (simp add: row_counts_def)
  have st: "jr_Status ?r = (if \<forall>u \<in> set (tasks_of j (update_tasks now sel f d)). terminal_task u
      then JCompleted else jr_Status r)"
    using live unfolding full [symmetric] by (simp add: update_job_counters_status_batch_def Let_def)
  show ?thesis using new st live by auto
qed

end
