(* ===== verification/Db_Queue.thy ===== *)
theory Db_Queue
  imports Db_Model Jobs_LinkDiscovery
begin

text \<open>
  \<open>internal/db/queue.go\<close>, the operations on tasks: \<open>EnqueueURLs\<close> with the limits it
  observes, the promotion of waiting tasks (\<open>promote_waiting_with_outbox\<close> in the migrations), the
  repair of stuck jobs and the single-task updates.  Each is a transaction over the tables of
  \<open>Db_Model\<close>; its statements are numbered in the order of the code.
\<close>

section \<open>Limits of an enqueue\<close>

definition terminalJobStatuses :: "job_status list" where
  "terminalJobStatuses = [JCompleted, JFailed, JCancelled, JArchived, JBlocked]"

definition IsTerminalJobStatus :: "job_status \<Rightarrow> bool" where
  "IsTerminalJobStatus s = list_ex (\<lambda>t. s = t) terminalJobStatuses"

text \<open>Pages without an id are dropped; of several with one id the first stays, with the highest
  priority of all.\<close>

definition dedup_step :: "page list \<Rightarrow> page \<Rightarrow> page list" where
  "dedup_step acc p =
     (if pg_ID p = 0 then acc
      else if pg_ID p \<in> set (map pg_ID acc)
      then map (\<lambda>q. if pg_ID q = pg_ID p \<and> pg_Priority p > pg_Priority q then q\<lparr>pg_Priority := pg_Priority p\<rparr> else q) acc
      else acc @ [p])"

definition deduplicatePages :: "page list \<Rightarrow> page list" where
  "deduplicatePages pages = foldl dedup_step [] pages"

text \<open>\<open>override\<close> is the callback of the domain limiter, when there is one.\<close>

definition calculateEffectiveConcurrency ::
  "(string \<Rightarrow> string \<Rightarrow> int) option \<Rightarrow> string \<Rightarrow> int option \<Rightarrow> string option \<Rightarrow> int option" where
  "calculateEffectiveConcurrency override jobID concurrency domainName =
     (case (override, domainName) of
        (Some f, Some name) \<Rightarrow>
          (let ov = f jobID name in
           if ov \<le> 0 then concurrency
           else case concurrency of
             None \<Rightarrow> Some ov
           | Some c \<Rightarrow> if c = 0 then Some ov else if ov < c then Some ov else Some c)
      | _ \<Rightarrow> concurrency)"

definition maxPendingQueueSize :: int where
  "maxPendingQueueSize = 100"

definition calculateAvailableSlots :: "int option \<Rightarrow> int \<Rightarrow> int \<Rightarrow> int option \<Rightarrow> int \<times> bool" where
  "calculateAvailableSlots effective running pending quotaRemaining =
     (let used = running + pending;
          capacity = (case effective of None \<Rightarrow> maxPendingQueueSize | Some c \<Rightarrow> if c = 0 then maxPendingQueueSize else c);
          slots = max (capacity - used) 0
      in case quotaRemaining of
           None \<Rightarrow> (slots, False)
         | Some remaining \<Rightarrow>
             if remaining \<le> 0 then (0, True)
             else if remaining < slots then (remaining, True)
             else (slots, False))"

datatype disposition = EnqueuePending | EnqueueWaiting | EnqueueDrop

definition classifyEnqueuedTask :: "int \<Rightarrow> int \<Rightarrow> int \<Rightarrow> int \<Rightarrow> int \<Rightarrow> disposition" where
  "classifyEnqueuedTask maxPages current pendingCount waitingCount slots =
     (if maxPages \<noteq> 0 \<and> current + pendingCount + waitingCount \<ge> maxPages then EnqueueDrop
      else if pendingCount < slots then EnqueuePending
      else EnqueueWaiting)"

record enqueue_config =
  eq_maxPages :: int
  eq_concurrency :: "int option"
  eq_running :: int
  eq_pending :: int
  eq_domainID :: int
  eq_domainName :: "string option"
  eq_orgID :: "string option"
  eq_quotaRemaining :: "int option"
  eq_current :: int
  eq_status :: job_status

section \<open>Rows of an enqueue\<close>

definition empty_html :: html_meta where
  "empty_html = no_html"

text \<open>The loop over the pages: \<open>uuid\<close> supplies the fresh keys; \<open>pp\<close> and \<open>pw\<close> count the
  pending and the waiting rows so far.\<close>

fun enqueue_rows :: "(nat \<Rightarrow> string) \<Rightarrow> enqueue_config \<Rightarrow> string \<Rightarrow> string \<Rightarrow> string \<Rightarrow> time \<Rightarrow> int
    \<Rightarrow> int \<Rightarrow> int \<Rightarrow> page list \<Rightarrow> task_row list" where
  "enqueue_rows uuid cfg jobID srcType srcURL now slots pp pw [] = []"
| "enqueue_rows uuid cfg jobID srcType srcURL now slots pp pw (p # ps) =
     (let host = (if pg_Host p \<noteq> [] then pg_Host p else case eq_domainName cfg of Some n \<Rightarrow> n | None \<Rightarrow> []);
          dp = classifyEnqueuedTask (eq_maxPages cfg) (eq_current cfg) pp pw slots;
          row = (\<lambda>st. \<lparr>tr_ID = uuid (nat (pp + pw)), tr_JobID = jobID, tr_PageID = pg_ID p, tr_Host = host, tr_Path = pg_Path p,
                   tr_Status = st, tr_CreatedAt = now, tr_StartedAt = None, tr_CompletedAt = None, tr_RetryCount = 0,
                   tr_SourceType = srcType, tr_SourceURL = (if srcType = ''link'' then srcURL else []),
                   tr_Priority = pg_Priority p, tr_Error = None, tr_Result = None, tr_Diagnostics = None,
                   tr_HTML = empty_html\<rparr>)
      in if pg_ID p = 0 \<or> host = [] then enqueue_rows uuid cfg jobID srcType srcURL now slots pp pw ps
         else case dp of
           EnqueueDrop \<Rightarrow> enqueue_rows uuid cfg jobID srcType srcURL now slots pp pw ps
         | EnqueuePending \<Rightarrow> row Pending # enqueue_rows uuid cfg jobID srcType srcURL now slots (pp + 1) pw ps
         | EnqueueWaiting \<Rightarrow> row Waiting # enqueue_rows uuid cfg jobID srcType srcURL now slots pp (pw + 1) ps)"

definition same_page :: "task_row \<Rightarrow> task_row \<Rightarrow> bool" where
  "same_page a b \<longleftrightarrow> tr_JobID a = tr_JobID b \<and> tr_PageID a = tr_PageID b"

definition reopenable :: "task_row \<Rightarrow> bool" where
  "reopenable t \<longleftrightarrow> tr_Status t \<in> {Pending, Waiting, Skipped}"

text \<open>\<open>ON CONFLICT (job_id, page_id) DO UPDATE\<close>.\<close>

definition merge_conflict :: "task_row \<Rightarrow> task_row \<Rightarrow> task_row" where
  "merge_conflict new t =
     t\<lparr>tr_Status := tr_Status new, tr_Host := tr_Host new, tr_CreatedAt := tr_CreatedAt new,
       tr_RetryCount := tr_RetryCount new, tr_SourceType := tr_SourceType new, tr_SourceURL := tr_SourceURL new,
       tr_Priority := max (tr_Priority t) (tr_Priority new), tr_StartedAt := None, tr_CompletedAt := None,
       tr_Error := None\<rparr>"

definition conflict_of :: "task_row list \<Rightarrow> task_row \<Rightarrow> task_row option" where
  "conflict_of rows t = find (\<lambda>r. same_page r t) rows"

definition task_outbox_row :: "time \<Rightarrow> task_row \<Rightarrow> outbox_row" where
  "task_outbox_row runAt t =
     \<lparr>ob_id = 0, ob_taskID = tr_ID t, ob_jobID = tr_JobID t, ob_pageID = tr_PageID t, ob_host = tr_Host t,
      ob_path = tr_Path t, ob_priority = tr_Priority t, ob_retryCount = tr_RetryCount t,
      ob_sourceType = tr_SourceType t, ob_sourceURL = tr_SourceURL t, ob_runAt = runAt, ob_attempts = 0,
      ob_taskType = ''crawl'', ob_lighthouseRunID = None\<rparr>"

text \<open>\<open>INSERT INTO task_outbox ... ON CONFLICT (task_id) DO NOTHING\<close>, with the next serial number.\<close>

definition next_serial :: "outbox_row list \<Rightarrow> int" where
  "next_serial rows = foldr (\<lambda>r m. max (ob_id r) m) rows 0 + 1"

definition outbox_add :: "outbox_db \<Rightarrow> outbox_row \<Rightarrow> outbox_db" where
  "outbox_add ob r =
     (if ob_taskID r \<in> set (map ob_taskID (od_rows ob)) then ob
      else ob\<lparr>od_rows := od_rows ob @ [r\<lparr>ob_id := next_serial (od_rows ob)\<rparr>]\<rparr>)"

text \<open>The statement that inserts or reopens the tasks and mirrors them into the outbox.\<close>

definition upserted :: "task_row list \<Rightarrow> task_row list \<Rightarrow> task_row list" where
  "upserted old rows =
     List.map_filter (\<lambda>t. case conflict_of rows t of Some r \<Rightarrow> if reopenable t then Some (merge_conflict r t) else None
                                             | None \<Rightarrow> None) old
     @ filter (\<lambda>r. \<not> list_ex (same_page r) old) rows"

definition upsert_tasks :: "time \<Rightarrow> task_row list \<Rightarrow> hover_db \<Rightarrow> hover_db" where
  "upsert_tasks now rows d =
     (let old = db_tasks d;
          d1 = update_tasks now (\<lambda>t. reopenable t \<and> conflict_of rows t \<noteq> None)
                 (\<lambda>t. case conflict_of rows t of Some r \<Rightarrow> merge_conflict r t | None \<Rightarrow> t) d;
          d2 = insert_tasks now (filter (\<lambda>r. \<not> list_ex (same_page r) old) rows) d1
      in d2\<lparr>db_outbox := foldl outbox_add (db_outbox d2) (map (\<lambda>t. task_outbox_row (tr_CreatedAt t) t) (upserted old rows))\<rparr>)"

section \<open>EnqueueURLs\<close>

text \<open>What the code reads outside the tables: the quota function of the database, the limiter, the
  traffic scores, and the source of fresh keys.\<close>

record enqueue_env =
  ee_override :: "(string \<Rightarrow> string \<Rightarrow> int) option"
  ee_quota :: "string \<Rightarrow> hover_db \<Rightarrow> int"
  ee_traffic :: "string \<Rightarrow> int \<Rightarrow> string \<Rightarrow> rat option"
  ee_uuid :: "nat \<Rightarrow> string"

definition no_rows :: go_error where
  "no_rows = \<lparr>ge_text = ''sql: no rows in result set'', ge_kind = NoRows\<rparr>"

definition enqueue_config_of :: "enqueue_env \<Rightarrow> string \<Rightarrow> hover_db \<Rightarrow> go_error + enqueue_config" where
  "enqueue_config_of E jobID d =
     (case db_jobs d jobID of
        None \<Rightarrow> Inl no_rows
      | Some r \<Rightarrow> Inr
          \<lparr>eq_maxPages = jr_MaxPages r, eq_concurrency = Some (jr_Concurrency r), eq_running = jr_Running r,
           eq_pending = jr_Pending r, eq_domainID = jr_DomainID r,
           eq_domainName = map_option dm_Name (find (\<lambda>m. dm_ID m = jr_DomainID r) (db_domains d)),
           eq_orgID = jr_OrgID r, eq_quotaRemaining = map_option (\<lambda>org. ee_quota E org d) (jr_OrgID r),
           eq_current = jr_Total r - jr_Skipped r, eq_status = jr_Status r\<rparr>)"

definition enqueue_slots :: "enqueue_env \<Rightarrow> string \<Rightarrow> enqueue_config \<Rightarrow> nat \<Rightarrow> int" where
  "enqueue_slots E jobID cfg n =
     min (fst (calculateAvailableSlots (calculateEffectiveConcurrency (ee_override E) jobID (eq_concurrency cfg) (eq_domainName cfg))
            (eq_running cfg) (eq_pending cfg) (eq_quotaRemaining cfg)))
         (int n)"

text \<open>The result is the configuration, for the scores; there is none when no page has an id.\<close>

definition enqueue_tx :: "enqueue_env \<Rightarrow> string \<Rightarrow> page list \<Rightarrow> string \<Rightarrow> string \<Rightarrow> time \<Rightarrow> (enqueue_config option, hover_db) tx" where
  "enqueue_tx E jobID pages srcType srcURL now =
     (let unique = sort_key pg_ID (deduplicatePages pages) in
      if unique = [] then tx_return None
      else tx_bind (tx_wrap ''failed to get job configuration and task count: '' (tx_query 0 (enqueue_config_of E jobID)))
        (\<lambda>cfg.
           if IsTerminalJobStatus (eq_status cfg) then tx_return (Some cfg)
           else let rows = enqueue_rows (ee_uuid E) cfg jobID srcType srcURL now
                             (enqueue_slots E jobID cfg (length unique)) 0 0 unique in
             if rows = [] then tx_return (Some cfg)
             else tx_bind (tx_wrap ''failed to insert tasks: '' (tx_exec 1 (upsert_tasks now rows))) (\<lambda>u. tx_return (Some cfg))))"

definition minPriorityForTrafficScore :: rat where
  "minPriorityForTrafficScore = 729 / 1000"

definition eligible_pages :: "string \<Rightarrow> page list \<Rightarrow> int list" where
  "eligible_pages srcType pages =
     map pg_ID (filter (\<lambda>p. srcType \<noteq> ''link'' \<or> pg_Priority p \<ge> minPriorityForTrafficScore) pages)"

definition traffic_score :: "enqueue_env \<Rightarrow> string \<Rightarrow> int \<Rightarrow> hover_db \<Rightarrow> task_row \<Rightarrow> rat" where
  "traffic_score E org domainID d t =
     (case find (\<lambda>p. pr_ID p = tr_PageID t) (db_pages d) of
        Some p \<Rightarrow> (case ee_traffic E org domainID (pr_Path p) of Some x \<Rightarrow> x | None \<Rightarrow> 0)
      | None \<Rightarrow> 0)"

definition traffic_tx :: "enqueue_env \<Rightarrow> string \<Rightarrow> string \<Rightarrow> int \<Rightarrow> int list \<Rightarrow> time \<Rightarrow> (unit, hover_db) tx" where
  "traffic_tx E jobID org domainID ids now =
     tx_exec 0 (\<lambda>d. update_tasks now
       (\<lambda>t. tr_JobID t = jobID \<and> tr_PageID t \<in> set ids \<and> tr_Status t \<in> {Pending, Waiting}
            \<and> traffic_score E org domainID d t > tr_Priority t)
       (\<lambda>t. t\<lparr>tr_Priority := max (tr_Priority t) (traffic_score E org domainID d t)\<rparr>) d)"

text \<open>The scores are a second transaction, whose failure is only logged.  \<open>P\<close> and \<open>P'\<close> are the
  attempts of the two.\<close>

definition EnqueueURLs :: "queue \<Rightarrow> enqueue_env \<Rightarrow> (nat \<Rightarrow> attempt) \<Rightarrow> (nat \<Rightarrow> attempt) \<Rightarrow> string \<Rightarrow> page list \<Rightarrow> string
    \<Rightarrow> string \<Rightarrow> time \<Rightarrow> db_pool \<Rightarrow> hover_db \<Rightarrow> go_error option \<times> db_pool \<times> hover_db" where
  "EnqueueURLs q E P P' jobID pages srcType srcURL now p d =
     (if pages = [] then (None, p, d)
      else case Execute_tx q P (enqueue_tx E jobID pages srcType srcURL now) p d of
        (Inl e, p1, d1) \<Rightarrow> (Some e, p1, d1)
      | (Inr cfg, p1, d1) \<Rightarrow>
          (case (cfg, eligible_pages srcType pages) of
             (Some c, i # ids) \<Rightarrow>
               (case eq_orgID c of
                  Some org \<Rightarrow> (None, snd (Execute_tx q P' (traffic_tx E jobID org (eq_domainID c) (i # ids) now) p1 d1))
                | None \<Rightarrow> (None, p1, d1))
           | _ \<Rightarrow> (None, p1, d1)))"

section \<open>Promotion of waiting tasks\<close>

text \<open>\<open>ORDER BY priority_score DESC, created_at ASC, id ASC LIMIT p_slots FOR UPDATE SKIP LOCKED\<close>;
  the ties by id are broken in the order of the list.\<close>

definition promote_picked :: "(string \<Rightarrow> bool) \<Rightarrow> string \<Rightarrow> int \<Rightarrow> hover_db \<Rightarrow> string list" where
  "promote_picked locked jobID slots d =
     map tr_ID (take (nat slots) (sort_key (\<lambda>t. - tr_Priority t) (sort_key tr_CreatedAt
       (filter (\<lambda>t. tr_JobID t = jobID \<and> tr_Status t = Waiting \<and> \<not> locked (tr_ID t)) (db_tasks d)))))"

definition promote_waiting_with_outbox :: "time \<Rightarrow> (string \<Rightarrow> bool) \<Rightarrow> string \<Rightarrow> int \<Rightarrow> hover_db \<Rightarrow> int \<times> hover_db" where
  "promote_waiting_with_outbox now locked jobID slots d =
     (if slots \<le> 0 then (0, d)
      else let ids = promote_picked locked jobID slots d;
               d1 = update_tasks now (\<lambda>t. tr_ID t \<in> set ids) (\<lambda>t. t\<lparr>tr_Status := Pending\<rparr>) d;
               updated = filter (\<lambda>t. tr_ID t \<in> set ids) (db_tasks d1)
           in (int (length updated), d1\<lparr>db_outbox := foldl outbox_add (db_outbox d1) (map (task_outbox_row now) updated)\<rparr>))"

definition promote_tx :: "time \<Rightarrow> (string \<Rightarrow> bool) \<Rightarrow> string \<Rightarrow> int \<Rightarrow> (int, hover_db) tx" where
  "promote_tx now locked jobID limit =
     tx_stmt 0 (\<lambda>d. case promote_waiting_with_outbox now locked jobID limit d of (n, d') \<Rightarrow> (Inr n, d'))"

definition PromoteWaitingToPending :: "queue \<Rightarrow> (nat \<Rightarrow> attempt) \<Rightarrow> time \<Rightarrow> (string \<Rightarrow> bool) \<Rightarrow> string \<Rightarrow> int \<Rightarrow> db_pool
    \<Rightarrow> hover_db \<Rightarrow> (go_error + int) \<times> db_pool \<times> hover_db" where
  "PromoteWaitingToPending q P now locked jobID limit p d =
     (if limit \<le> 0 then (Inr 0, p, d)
      else case Execute_tx q P (promote_tx now locked jobID limit) p d of
        (Inl e, r) \<Rightarrow> (Inl (wrap (''promote waiting->pending for job '' @ jobID @ '': '') e), r)
      | (Inr n, r) \<Rightarrow> (Inr n, r))"

section \<open>Stuck jobs\<close>

definition stuck :: "job_row \<Rightarrow> bool" where
  "stuck r \<longleftrightarrow> jr_Status r \<in> {JPending, JRunning} \<and> jr_Total r > 0 \<and>
     jr_Total r = jr_Completed r + jr_Failed r + jr_Skipped r"

definition unstick :: "time \<Rightarrow> job_row \<Rightarrow> job_row" where
  "unstick now r =
     r\<lparr>jr_Status := JCompleted, jr_CompletedAt := Some (case jr_CompletedAt r of Some t \<Rightarrow> t | None \<Rightarrow> now), jr_Progress := 100\<rparr>"

text \<open>One statement without a transaction around it.\<close>

definition CleanupStuckJobs :: "go_error option \<Rightarrow> time \<Rightarrow> hover_db \<Rightarrow> go_error option \<times> hover_db" where
  "CleanupStuckJobs fault now d =
     (case fault of
        Some e \<Rightarrow> (Some (wrap ''failed to cleanup stuck jobs: '' e), d)
      | None \<Rightarrow> (None, d\<lparr>db_jobs := (\<lambda>j. case db_jobs d j of
                   Some r \<Rightarrow> Some (if stuck r then before_write now (Some r) (unstick now r) else r)
                 | None \<Rightarrow> None)\<rparr>))"

section \<open>Updates of one task\<close>

definition go_zero_time :: time where
  "go_zero_time = - 62135596800 * second"

text \<open>A zero \<open>time.Time\<close> is written as it is, not as \<open>NULL\<close>.\<close>

definition sql_time :: "time option \<Rightarrow> time" where
  "sql_time t = (case t of Some x \<Rightarrow> x | None \<Rightarrow> go_zero_time)"

definition json_or :: "string \<Rightarrow> string \<Rightarrow> string" where
  "json_or fallback s = (if s = [] then fallback else s)"

definition keep_unless_set :: "string \<Rightarrow> string \<Rightarrow> string" where
  "keep_unless_set old new = (if new = [] then old else new)"

text \<open>The \<open>html_\<close> columns keep their value where the update has none.\<close>

definition merge_html :: "html_meta \<Rightarrow> html_meta \<Rightarrow> html_meta" where
  "merge_html old new =
     \<lparr>hm_StorageBucket = keep_unless_set (hm_StorageBucket old) (hm_StorageBucket new),
      hm_StoragePath = keep_unless_set (hm_StoragePath old) (hm_StoragePath new),
      hm_ContentType = keep_unless_set (hm_ContentType old) (hm_ContentType new),
      hm_ContentEncoding = keep_unless_set (hm_ContentEncoding old) (hm_ContentEncoding new),
      hm_SizeBytes = (if hm_SizeBytes new > 0 then hm_SizeBytes new else hm_SizeBytes old),
      hm_CompressedSizeBytes = (if hm_CompressedSizeBytes new > 0 then hm_CompressedSizeBytes new else hm_CompressedSizeBytes old),
      hm_SHA256 = keep_unless_set (hm_SHA256 old) (hm_SHA256 new),
      hm_CapturedAt = (case hm_CapturedAt new of Some t \<Rightarrow> Some t | None \<Rightarrow> hm_CapturedAt old),
      hm_ArchivedAt = (case hm_ArchivedAt new of Some t \<Rightarrow> Some t | None \<Rightarrow> hm_ArchivedAt old)\<rparr>"

text \<open>The columns of a result, with valid JSON in the four documents.\<close>

definition json_defaults :: "db_task \<Rightarrow> db_task" where
  "json_defaults t =
     t\<lparr>dt_Headers := json_or ''{}'' (dt_Headers t), dt_SecondHeaders := json_or ''{}'' (dt_SecondHeaders t),
       dt_CacheCheckAttempts := json_or ''[]'' (dt_CacheCheckAttempts t),
       dt_RequestDiagnostics := json_or ''{}'' (dt_RequestDiagnostics t)\<rparr>"

definition with_timestamps :: "time \<Rightarrow> db_task \<Rightarrow> db_task" where
  "with_timestamps now t =
     t\<lparr>dt_StartedAt := (if dt_Status t = Running \<and> dt_StartedAt t = None then Some now else dt_StartedAt t),
       dt_CompletedAt := (if dt_Status t \<in> {Completed, Failed} \<and> dt_CompletedAt t = None then Some now else dt_CompletedAt t)\<rparr>"

text \<open>What \<open>UpdateTaskStatus\<close> sets, by the status of the task.\<close>

definition status_update :: "db_task \<Rightarrow> task_row \<Rightarrow> task_row" where
  "status_update t r =
     (let r' = r\<lparr>tr_Status := dt_Status t\<rparr>; diag = Some (json_or ''{}'' (dt_RequestDiagnostics t)) in
      case dt_Status t of
        Running \<Rightarrow> r'\<lparr>tr_StartedAt := Some (sql_time (dt_StartedAt t))\<rparr>
      | Completed \<Rightarrow> r'\<lparr>tr_CompletedAt := Some (sql_time (dt_CompletedAt t)), tr_Result := Some (json_defaults t),
                      tr_RetryCount := dt_RetryCount t, tr_Diagnostics := diag, tr_HTML := merge_html (tr_HTML r) ((dt_HTML t)\<lparr>hm_ArchivedAt := None\<rparr>)\<rparr>
      | Failed \<Rightarrow> r'\<lparr>tr_CompletedAt := Some (sql_time (dt_CompletedAt t)), tr_Error := Some (dt_Error t),
                   tr_RetryCount := dt_RetryCount t, tr_Diagnostics := diag\<rparr>
      | Waiting \<Rightarrow> r'\<lparr>tr_StartedAt := None, tr_Error := Some (dt_Error t), tr_RetryCount := dt_RetryCount t,
                    tr_Diagnostics := diag\<rparr>
      | Skipped \<Rightarrow> r'
      | Pending \<Rightarrow> r'\<lparr>tr_RetryCount := dt_RetryCount t, tr_StartedAt := Some (sql_time (dt_StartedAt t))\<rparr>)"

definition has_task :: "string \<Rightarrow> hover_db \<Rightarrow> bool" where
  "has_task taskID d \<longleftrightarrow> taskID \<in> set (map tr_ID (db_tasks d))"

definition job_of_task :: "string \<Rightarrow> hover_db \<Rightarrow> string" where
  "job_of_task taskID d = (case find (\<lambda>t. tr_ID t = taskID) (db_tasks d) of Some t \<Rightarrow> tr_JobID t | None \<Rightarrow> [])"

definition update_task_tx :: "time \<Rightarrow> db_task \<Rightarrow> (unit, hover_db) tx" where
  "update_task_tx now t0 =
     (let t = with_timestamps now t0 in
      tx_wrap ''failed to update task status: '' (tx_stmt 0 (\<lambda>d.
        if \<not> has_task (dt_ID t) d then (Inl no_rows, d)
        else let d1 = update_tasks now (\<lambda>r. tr_ID r = dt_ID t) (status_update t) d in
          (Inr (), if dt_Status t = Running
                   then snd (update_job now (\<lambda>r. True) (\<lambda>r. r\<lparr>jr_Running := jr_Running r + 1\<rparr>) (job_of_task (dt_ID t) d) d1)
                   else d1))))"

definition UpdateTaskStatus :: "queue \<Rightarrow> (nat \<Rightarrow> attempt) \<Rightarrow> time \<Rightarrow> db_task option \<Rightarrow> db_pool \<Rightarrow> hover_db
    \<Rightarrow> go_error option \<times> db_pool \<times> hover_db" where
  "UpdateTaskStatus q P now task p d =
     (case task of
        None \<Rightarrow> (Some \<lparr>ge_text = ''cannot update nil task'', ge_kind = Plain\<rparr>, p, d)
      | Some t \<Rightarrow> (case Execute_tx q P (update_task_tx now t) p d of
          (Inl e, r) \<Rightarrow> (Some e, r) | (Inr u, r) \<Rightarrow> (None, r)))"

section \<open>Metadata of stored pages\<close>

datatype html_error = EmptyTaskID | EmptyBucket | EmptyPath | HtmlDb go_error | TaskNotFound string
  | NotReadyForHTML string | NotEligible string task_status

definition html_eligible :: "task_row \<Rightarrow> bool" where
  "html_eligible t \<longleftrightarrow> tr_Status t \<in> {Running, Completed}"

definition html_tx :: "time \<Rightarrow> string \<Rightarrow> html_meta \<Rightarrow> (html_error option, hover_db) tx" where
  "html_tx now taskID meta =
     tx_bind (tx_wrap ''failed to update task HTML metadata: '' (tx_stmt 0 (\<lambda>d.
         (Inr (list_ex (\<lambda>t. tr_ID t = taskID \<and> html_eligible t) (db_tasks d)),
          update_tasks now (\<lambda>t. tr_ID t = taskID \<and> html_eligible t) (\<lambda>t. t\<lparr>tr_HTML := merge_html (tr_HTML t) meta\<rparr>) d))))
       (\<lambda>hit. if hit then tx_return None
              else tx_wrap ''failed to inspect task HTML metadata state: '' (tx_query 1 (\<lambda>d.
                Inr (case find (\<lambda>t. tr_ID t = taskID) (db_tasks d) of
                       None \<Rightarrow> Some (TaskNotFound taskID)
                     | Some t \<Rightarrow> if tr_Status t \<in> {Pending, Waiting} then Some (NotReadyForHTML taskID)
                               else Some (NotEligible taskID (tr_Status t))))))"

text \<open>An error of the function rolls the transaction back; the update matched no row then, so there is
  nothing to undo.\<close>

definition UpdateTaskHTMLMetadata :: "queue \<Rightarrow> (nat \<Rightarrow> attempt) \<Rightarrow> time \<Rightarrow> string \<Rightarrow> html_meta \<Rightarrow> db_pool \<Rightarrow> hover_db
    \<Rightarrow> html_error option \<times> db_pool \<times> hover_db" where
  "UpdateTaskHTMLMetadata q P now taskID meta p d =
     (if trim_space taskID = [] then (Some EmptyTaskID, p, d)
      else if trim_space (hm_StorageBucket meta) = [] then (Some EmptyBucket, p, d)
      else if trim_space (hm_StoragePath meta) = [] then (Some EmptyPath, p, d)
      else case Execute_tx q P (html_tx now taskID (meta\<lparr>hm_ArchivedAt := None\<rparr>)) p d of
        (Inl e, r) \<Rightarrow> (Some (HtmlDb e), r)
      | (Inr x, r) \<Rightarrow> (x, r))"

text \<open>Of several rows for one task in a batch the database takes one; the list has the first win.\<close>

definition BatchUpsertTaskHTMLMetadata :: "queue \<Rightarrow> (nat \<Rightarrow> attempt) \<Rightarrow> time \<Rightarrow> (string \<times> html_meta) list \<Rightarrow> db_pool \<Rightarrow> hover_db
    \<Rightarrow> go_error option \<times> db_pool \<times> hover_db" where
  "BatchUpsertTaskHTMLMetadata q P now rows p d =
     (if rows = [] then (None, p, d)
      else case Execute_tx q P (tx_wrap ''batch upsert task html metadata: '' (tx_exec 0
             (update_tasks now (\<lambda>t. tr_ID t \<in> set (map fst rows) \<and> html_eligible t)
                (\<lambda>t. case map_of rows (tr_ID t) of Some m \<Rightarrow> t\<lparr>tr_HTML := merge_html (tr_HTML t) m\<rparr> | None \<Rightarrow> t)))) p d of
        (Inl e, r) \<Rightarrow> (Some e, r) | (Inr u, r) \<Rightarrow> (None, r))"

section \<open>Deduplication\<close>

lemma dedup_ids: "map pg_ID (dedup_step acc p) = map pg_ID acc @ (if pg_ID p = 0 \<or> pg_ID p \<in> set (map pg_ID acc) then [] else [pg_ID p])"
  by (simp add: dedup_step_def)

lemma dedup_distinct_aux:
  "distinct (map pg_ID acc) \<Longrightarrow> 0 \<notin> set (map pg_ID acc) \<Longrightarrow>
    distinct (map pg_ID (foldl dedup_step acc ps)) \<and>
    set (map pg_ID (foldl dedup_step acc ps)) = set (map pg_ID acc) \<union> (set (map pg_ID ps) - {0})"
proof (induction ps arbitrary: acc)
  case (Cons p ps)
  have "distinct (map pg_ID (dedup_step acc p))" "0 \<notin> set (map pg_ID (dedup_step acc p))"
    "set (map pg_ID (dedup_step acc p)) = set (map pg_ID acc) \<union> ({pg_ID p} - {0})"
    using Cons.prems unfolding dedup_ids by auto
  then show ?case using Cons.IH [of "dedup_step acc p"] by auto
qed simp

lemma dedup_distinct:
  "distinct (map pg_ID (deduplicatePages ps))" "set (map pg_ID (deduplicatePages ps)) = set (map pg_ID ps) - {0}"
  using dedup_distinct_aux [of "[]" ps] by (simp_all add: deduplicatePages_def)

section \<open>Counting the rows of an enqueue\<close>

lemma enqueue_rows_jobs:
  "r \<in> set (enqueue_rows uuid cfg jobID st su now slots pp pw ps) \<Longrightarrow> tr_JobID r = jobID \<and> tr_Status r \<in> {Pending, Waiting}"
  by (induction uuid cfg jobID st su now slots pp pw ps rule: enqueue_rows.induct)
     (auto simp: Let_def split: if_splits disposition.splits)

definition count_if :: "(task_row \<Rightarrow> bool) \<Rightarrow> task_row list \<Rightarrow> nat" where
  "count_if Q ts = length (filter Q ts)"

lemma count_if_simps [simp]:
  "count_if Q [] = 0" "count_if Q (t # ts) = (if Q t then 1 else 0) + count_if Q ts"
  "count_if Q (ts @ us) = count_if Q ts + count_if Q us"
  by (simp_all add: count_if_def)

lemma count_if_mono: "(\<And>t. t \<in> set ts \<Longrightarrow> Q t \<Longrightarrow> R t) \<Longrightarrow> count_if Q ts \<le> count_if R ts"
  by (induction ts) (auto simp: le_SucI)

lemma count_if_strict:
  "(\<And>t. t \<in> set ts \<Longrightarrow> Q t \<Longrightarrow> R t) \<Longrightarrow> r \<in> set ts \<Longrightarrow> R r \<Longrightarrow> \<not> Q r \<Longrightarrow> count_if Q ts < count_if R ts"
proof (induction ts)
  case (Cons t ts)
  have le: "count_if Q ts \<le> count_if R ts" using Cons.prems(1) by (intro count_if_mono) simp
  show ?case
  proof (cases "r \<in> set ts")
    case True
    then have "count_if Q ts < count_if R ts" using Cons by simp
    then show ?thesis using Cons.prems(1) [of t] by auto
  next
    case False
    then have "r = t" using Cons.prems(2) by simp
    then show ?thesis using Cons.prems le by auto
  qed
qed simp

definition after_conflict :: "task_row list \<Rightarrow> task_row \<Rightarrow> task_row" where
  "after_conflict rows t =
     (case conflict_of rows t of Some r \<Rightarrow> if reopenable t then merge_conflict r t else t | None \<Rightarrow> t)"

lemma conflict_of_Some: "conflict_of rows t = Some r \<Longrightarrow> r \<in> set rows \<and> same_page r t"
  by (auto simp: conflict_of_def find_Some_iff)

text \<open>No two tasks of a job are for one page: the unique index the conflict clause names.\<close>

definition pages_unique :: "hover_db \<Rightarrow> bool" where
  "pages_unique d \<longleftrightarrow> distinct (map (\<lambda>t. (tr_JobID t, tr_PageID t)) (db_tasks d))"

text \<open>A property of rows that a merged row has exactly when the inserted row has it.\<close>

definition status_like :: "(task_row \<Rightarrow> bool) \<Rightarrow> bool" where
  "status_like Q \<longleftrightarrow> (\<forall>r t. same_page r t \<longrightarrow> Q (merge_conflict r t) = Q r)"

lemma merged_count:
  assumes "status_like Q" "distinct (map (\<lambda>t. (tr_JobID t, tr_PageID t)) old)"
  shows "count_if Q (map (after_conflict rows) old) \<le> count_if Q old + count_if (\<lambda>r. Q r \<and> list_ex (same_page r) old) rows"
  using assms(2)
proof (induction old)
  case (Cons t old)
  let ?R = "\<lambda>r. Q r \<and> list_ex (same_page r) old" and ?S = "\<lambda>r. Q r \<and> list_ex (same_page r) (t # old)"
  have IH: "count_if Q (map (after_conflict rows) old) \<le> count_if Q old + count_if ?R rows" using Cons by simp
  have mono: "count_if ?R rows \<le> count_if ?S rows" by (rule count_if_mono) auto
  show ?case
  proof (cases "Q (after_conflict rows t) \<and> \<not> Q t")
    case True
    then obtain r where r: "conflict_of rows t = Some r" "reopenable t"
      by (auto simp: after_conflict_def split: option.splits if_splits)
    then have "same_page r t" "r \<in> set rows" using conflict_of_Some by auto
    moreover have "Q r" using True r assms(1) \<open>same_page r t\<close> by (auto simp: after_conflict_def status_like_def)
    moreover have "\<not> list_ex (same_page r) old"
      using Cons.prems \<open>same_page r t\<close> by (auto simp: same_page_def list_ex_iff image_iff)
    ultimately have "count_if ?R rows < count_if ?S rows"
      by (intro count_if_strict [of rows _ _ r]) auto
    then show ?thesis using IH True by simp
  next
    case False
    then show ?thesis using IH mono by auto
  qed
qed simp

lemma count_split: "count_if (\<lambda>r. Q r \<and> P r) rows + count_if Q (filter (\<lambda>r. \<not> P r) rows) = count_if Q rows"
  by (induction rows) auto

lemma upsert_db_tasks:
  "db_tasks (upsert_tasks now rows d) =
    map (after_conflict rows) (db_tasks d) @ filter (\<lambda>r. \<not> list_ex (same_page r) (db_tasks d)) rows"
  by (auto simp: upsert_tasks_def Let_def after_conflict_def split: option.splits)

lemma upsert_count:
  assumes "status_like Q" "pages_unique d"
  shows "count_if Q (db_tasks (upsert_tasks now rows d)) \<le> count_if Q (db_tasks d) + count_if Q rows"
  using merged_count [OF assms(1), of "db_tasks d" rows] assms(2)
    count_split [of Q "\<lambda>r. list_ex (same_page r) (db_tasks d)" rows]
  by (simp add: upsert_db_tasks pages_unique_def)

section \<open>Counters, limits and the outbox\<close>

lemma upsert_counts:
  assumes "counters_ok d" "\<forall>r \<in> set rows. tr_Status r \<in> {Pending, Waiting}"
  shows "counters_ok (upsert_tasks now rows d)"
proof -
  have key: "same_key (\<lambda>t. case conflict_of rows t of Some r \<Rightarrow> merge_conflict r t | None \<Rightarrow> t)"
    by (simp add: same_key_def merge_conflict_def split: option.splits)
  show ?thesis
    unfolding upsert_tasks_def Let_def
    by (simp only: outbox_only_counts)
       (intro insert_tasks_counts update_tasks_counts key assms(1), use assms(2) in auto)
qed

text \<open>The rows of one enqueue, from the state of the job it reads.\<close>

definition rows_of_enqueue :: "enqueue_env \<Rightarrow> string \<Rightarrow> page list \<Rightarrow> string \<Rightarrow> string \<Rightarrow> time \<Rightarrow> enqueue_config \<Rightarrow> task_row list" where
  "rows_of_enqueue E jobID pages srcType srcURL now cfg =
     (let unique = sort_key pg_ID (deduplicatePages pages)
      in enqueue_rows (ee_uuid E) cfg jobID srcType srcURL now (enqueue_slots E jobID cfg (length unique)) 0 0 unique)"

lemma enqueue_tx_cases:
  assumes "enqueue_tx E jobID pages srcType srcURL now F d = (res, d')"
  obtains "d' = d"
  | cfg where "enqueue_config_of E jobID d = Inr cfg" "\<not> IsTerminalJobStatus (eq_status cfg)"
      "d' = upsert_tasks now (rows_of_enqueue E jobID pages srcType srcURL now cfg) d"
proof (cases "sort_key pg_ID (deduplicatePages pages) = [] \<or> F 0 \<noteq> None")
  case True
  then have "d' = d" using assms
    by (cases "sort_key pg_ID (deduplicatePages pages) = []") (auto simp: enqueue_tx_def tx_defs Let_def)
  then show ?thesis by (rule that)
next
  case False
  show ?thesis
  proof (cases "enqueue_config_of E jobID d")
    case (Inl e)
    then have "d' = d" using assms False by (simp add: enqueue_tx_def tx_defs Let_def)
    then show ?thesis by (rule that)
  next
    case (Inr cfg)
    let ?rows = "rows_of_enqueue E jobID pages srcType srcURL now cfg"
    show ?thesis
    proof (cases "IsTerminalJobStatus (eq_status cfg) \<or> ?rows = [] \<or> F 1 \<noteq> None")
      case True
      then have "d' = d" using assms False Inr
        by (cases "IsTerminalJobStatus (eq_status cfg)"; cases "?rows = []")
           (auto simp: enqueue_tx_def tx_defs Let_def rows_of_enqueue_def)
      then show ?thesis by (rule that)
    next
      case F1: False
      then have "d' = upsert_tasks now ?rows d" using assms False Inr
        by (simp add: enqueue_tx_def tx_defs Let_def rows_of_enqueue_def)
      then show ?thesis using Inr F1 that(2) by blast
    qed
  qed
qed

lemma enqueue_keeps_counters [tx_keeps]: "keeps counters_ok (enqueue_tx E jobID pages srcType srcURL now)"
proof -
  have "counters_ok d \<Longrightarrow> counters_ok (upsert_tasks now (enqueue_rows u cfg jobID srcType srcURL now n pp pw ps) d)"
    for d u cfg n pp pw ps
    by (rule upsert_counts) (use enqueue_rows_jobs in blast)+
  then show ?thesis unfolding enqueue_tx_def Let_def by (intro tx_keeps)
qed

lemma enqueue_rows_limit:
  "0 \<le> pp \<Longrightarrow> 0 \<le> pw \<Longrightarrow>
    pp + int (count_if (\<lambda>r. tr_Status r = Pending) (enqueue_rows uuid cfg jobID ty url now slots pp pw ps)) \<le> max slots pp \<and>
    (eq_maxPages cfg \<noteq> 0 \<longrightarrow>
      eq_current cfg + pp + pw + int (length (enqueue_rows uuid cfg jobID ty url now slots pp pw ps))
        \<le> max (eq_maxPages cfg) (eq_current cfg + pp + pw))"
proof (induction ps arbitrary: pp pw)
  case (Cons p ps)
  let ?host = "if pg_Host p \<noteq> [] then pg_Host p else case eq_domainName cfg of Some n \<Rightarrow> n | None \<Rightarrow> []"
  let ?dp = "classifyEnqueuedTask (eq_maxPages cfg) (eq_current cfg) pp pw slots"
  show ?case
  proof (cases "pg_ID p = 0 \<or> ?host = [] \<or> ?dp = EnqueueDrop")
    case True
    then have "enqueue_rows uuid cfg jobID ty url now slots pp pw (p # ps) = enqueue_rows uuid cfg jobID ty url now slots pp pw ps"
      by (auto simp: Let_def)
    then show ?thesis using Cons.IH [OF Cons.prems] by (simp del: enqueue_rows.simps)
  next
    case False
    then have room: "eq_maxPages cfg \<noteq> 0 \<longrightarrow> eq_current cfg + pp + pw < eq_maxPages cfg"
      by (auto simp: classifyEnqueuedTask_def split: if_splits)
    show ?thesis
    proof (cases ?dp)
      case EnqueuePending
      then have "pp < slots" by (auto simp: classifyEnqueuedTask_def split: if_splits)
      then show ?thesis using Cons.IH [of "pp + 1" pw] Cons.prems False EnqueuePending room
        by (cases "eq_maxPages cfg = 0") (simp_all add: Let_def max_def split: if_splits)
    next
      case EnqueueWaiting
      then show ?thesis using Cons.IH [of pp "pw + 1"] Cons.prems False room
        by (cases "eq_maxPages cfg = 0") (simp_all add: Let_def max_def split: if_splits)
    qed (use False in simp)
  qed
qed simp

section \<open>What an enqueue keeps\<close>

lemma execute_tx_keeps: "keeps P fn \<Longrightarrow> P d \<Longrightarrow> P (snd (snd (Execute_tx q A fn p d)))"
  unfolding Execute_tx_def by (rule execute_keeps)

lemma enqueue_urls_keeps:
  assumes "keeps P (enqueue_tx E jobID pages srcType srcURL now)" "\<And>org domID ids. keeps P (traffic_tx E jobID org domID ids now)" "P d"
  shows "P (snd (snd (EnqueueURLs q E A A' jobID pages srcType srcURL now p d)))"
proof (cases "Execute_tx q A (enqueue_tx E jobID pages srcType srcURL now) p d")
  case (fields res p1 d1)
  then have d1: "P d1" using execute_tx_keeps [OF assms(1,3), of q A p] by simp
  have d2: "P (snd (snd (Execute_tx q A' (traffic_tx E jobID org domID ids now) p1 d1)))" for org domID ids
    by (rule execute_tx_keeps [OF assms(2) d1])
  show ?thesis using fields d1 d2 assms(3)
    by (auto simp: EnqueueURLs_def split: sum.splits option.splits list.splits)
qed

lemma same_status_jobs:
  assumes "\<And>t. tr_Status (f t) = tr_Status t"
  shows "db_jobs (update_tasks now sel f d) = db_jobs d"
proof -
  have "changed j ts (map (\<lambda>t. if sel t then f t else t) ts) = []" for j and ts :: "task_row list"
    using assms by (induction ts) (auto simp: changed_def)
  then show ?thesis by (auto simp: update_tasks_def fire_update_def Let_def split: option.splits)
qed

lemma enqueue_keeps:
  assumes "\<And>d cfg. P d \<Longrightarrow> enqueue_config_of E jobID d = Inr cfg \<Longrightarrow> \<not> IsTerminalJobStatus (eq_status cfg) \<Longrightarrow>
     P (upsert_tasks now (rows_of_enqueue E jobID pages srcType srcURL now cfg) d)"
  shows "keeps P (enqueue_tx E jobID pages srcType srcURL now)"
  unfolding keeps_def
proof (intro allI impI)
  fix F d assume "P d"
  obtain res d' where r: "enqueue_tx E jobID pages srcType srcURL now F d = (res, d')" by (rule prod.exhaust)
  then show "P (snd (enqueue_tx E jobID pages srcType srcURL now F d))"
    using \<open>P d\<close> assms by (cases rule: enqueue_tx_cases) (auto simp: r)
qed

text \<open>A terminal job gets no task.  Its waiting tasks may still get a traffic score.\<close>

definition but_priority :: "task_row \<Rightarrow> task_row" where
  "but_priority t = t\<lparr>tr_Priority := 0\<rparr>"

definition same_but_priority :: "hover_db \<Rightarrow> hover_db \<Rightarrow> bool" where
  "same_but_priority d d' \<longleftrightarrow> db_jobs d' = db_jobs d \<and> db_outbox d' = db_outbox d \<and> db_domains d' = db_domains d \<and>
     map but_priority (db_tasks d') = map but_priority (db_tasks d)"

lemma traffic_same: "same_but_priority d (update_tasks now sel (\<lambda>t. t\<lparr>tr_Priority := g t\<rparr>) d)"
  by (simp add: same_but_priority_def same_status_jobs but_priority_def)

lemma same_but_priority_trans: "same_but_priority a b \<Longrightarrow> same_but_priority b c \<Longrightarrow> same_but_priority a c"
  by (simp add: same_but_priority_def)

lemma traffic_keeps:
  assumes "\<And>d d'. P d \<Longrightarrow> same_but_priority d d' \<Longrightarrow> P d'"
  shows "keeps P (traffic_tx E jobID org domID ids now)"
  unfolding traffic_tx_def by (intro tx_keeps) (rule assms, assumption, rule traffic_same)

text \<open>What the scores may do: raise the priority of open tasks of the job, and nothing else.\<close>

definition rescored :: "string \<Rightarrow> task_row \<Rightarrow> task_row \<Rightarrow> bool" where
  "rescored jobID t t' \<longleftrightarrow> t' = t \<or>
     tr_JobID t = jobID \<and> tr_Status t \<in> {Pending, Waiting} \<and> tr_Priority t < tr_Priority t' \<and>
     t' = t\<lparr>tr_Priority := tr_Priority t'\<rparr>"

definition only_rescored :: "string \<Rightarrow> hover_db \<Rightarrow> hover_db \<Rightarrow> bool" where
  "only_rescored jobID d d' \<longleftrightarrow> d'\<lparr>db_tasks := []\<rparr> = d\<lparr>db_tasks := []\<rparr> \<and>
     list_all2 (rescored jobID) (db_tasks d) (db_tasks d')"

lemma rescored_trans: "rescored j a b \<Longrightarrow> rescored j b c \<Longrightarrow> rescored j a c"
  by (cases a, cases b, cases c) (auto simp: rescored_def)

lemma only_rescored_trans:
  assumes "only_rescored j a b" "only_rescored j b c"
  shows "only_rescored j a c"
  using assms list_all2_trans [of "rescored j" "rescored j" "rescored j"] rescored_trans
  unfolding only_rescored_def by metis

lemma only_rescored_refl: "only_rescored j d d"
  by (auto simp: only_rescored_def rescored_def intro: list.rel_refl)

lemma traffic_rescores:
  "keeps (only_rescored jobID d) (traffic_tx E jobID org domID ids now)"
  unfolding traffic_tx_def
proof (intro tx_keeps)
  fix d1 assume d1: "only_rescored jobID d d1"
  let ?sel = "\<lambda>t. tr_JobID t = jobID \<and> tr_PageID t \<in> set ids \<and> tr_Status t \<in> {Pending, Waiting} \<and>
      tr_Priority t < traffic_score E org domID d1 t"
  let ?f = "\<lambda>t. t\<lparr>tr_Priority := max (tr_Priority t) (traffic_score E org domID d1 t)\<rparr>"
  have "rescored jobID t (if ?sel t then ?f t else t)" for t
    by (simp add: rescored_def max_def)
  then have "list_all2 (rescored jobID) (db_tasks d1) (db_tasks (update_tasks now ?sel ?f d1))"
    by (simp add: update_tasks_def Let_def list_all2_conv_all_nth)
  moreover have "(update_tasks now ?sel ?f d1)\<lparr>db_tasks := []\<rparr> = d1\<lparr>db_tasks := []\<rparr>"
    using same_status_jobs [of ?f now ?sel d1] by (simp add: update_tasks_def Let_def)
  ultimately have "only_rescored jobID d1 (update_tasks now ?sel ?f d1)" by (simp add: only_rescored_def)
  with d1 show "only_rescored jobID d (update_tasks now ?sel ?f d1)" by (rule only_rescored_trans)
qed

lemma ended_job_untouched:
  assumes "db_jobs d jobID = Some r" "IsTerminalJobStatus (jr_Status r)"
  shows "only_rescored jobID d (snd (snd (EnqueueURLs q E A A' jobID pages srcType srcURL now p d)))"
proof (rule enqueue_urls_keeps [where P = "only_rescored jobID d"])
  show "keeps (only_rescored jobID d) (enqueue_tx E jobID pages srcType srcURL now)"
  proof (rule enqueue_keeps)
    fix d1 cfg assume k: "only_rescored jobID d d1"
      and cfg: "enqueue_config_of E jobID d1 = Inr cfg" "\<not> IsTerminalJobStatus (eq_status cfg)"
    have "db_jobs (d1\<lparr>db_tasks := []\<rparr>) = db_jobs (d\<lparr>db_tasks := []\<rparr>)" using k unfolding only_rescored_def by metis
    then have False using assms cfg by (auto simp: enqueue_config_of_def)
    then show "only_rescored jobID d (upsert_tasks now (rows_of_enqueue E jobID pages srcType srcURL now cfg) d1)" ..
  qed
  show "keeps (only_rescored jobID d) (traffic_tx E jobID org domID ids now)" for org domID ids
    by (rule traffic_rescores)
qed (rule only_rescored_refl)

lemma ended_enqueue_tx:
  assumes "db_jobs d jobID = Some r" "IsTerminalJobStatus (jr_Status r)"
  shows "\<exists>cfg. enqueue_tx E jobID pages srcType srcURL now (\<lambda>i. None) d = (Inr cfg, d)"
  using assms by (simp add: enqueue_tx_def enqueue_config_of_def tx_defs Let_def)

text \<open>A job all of whose tasks have ended too is left alone entirely, and the caller is told nothing.\<close>

lemma ended_job_silent:
  assumes "db_jobs d jobID = Some r" "IsTerminalJobStatus (jr_Status r)"
    and run: "EnqueueURLs q E A A' jobID pages srcType srcURL now p d = (e, p', d')"
    and ended: "\<forall>u \<in> set (tasks_of jobID d). terminal_task u"
  shows "d' = d \<and> (e = None \<or> (\<exists>k. disturbed (A k)) \<or> e = Some ErrPoolSaturated)"
proof
  have k: "only_rescored jobID d d'" using ended_job_untouched [OF assms(1,2)] run by (metis snd_conv)
  have same: "t = t'" if "t \<in> set (db_tasks d)" "rescored jobID t t'" for t t'
    using ended that by (auto simp: rescored_def tasks_of_def terminal_task_def)
  have "list_all2 (rescored jobID) (db_tasks d) (db_tasks d')" using k by (simp add: only_rescored_def)
  then have "list_all2 (=) (db_tasks d) (db_tasks d')" by (rule list.rel_mono_strong) (rule same)
  then have "db_tasks d' = db_tasks d" by (simp add: list.rel_eq)
  then show "d' = d" using k by (cases d, cases d') (simp add: only_rescored_def)
next
  obtain res p1 d1 where x: "Execute_tx q A (enqueue_tx E jobID pages srcType srcURL now) p d = (res, p1, d1)"
    by (rule prod_cases3)
  obtain cfg where m: "enqueue_tx E jobID pages srcType srcURL now (\<lambda>i. None) d = (Inr cfg, d)"
    using ended_enqueue_tx [OF assms(1,2)] by blast
  show "e = None \<or> (\<exists>k. disturbed (A k)) \<or> e = Some ErrPoolSaturated"
  proof (cases "\<exists>k. disturbed (A k)")
    case False
    then have "(res, d1) = (Inr cfg, d) \<or> (res, d1) = (Inl ErrPoolSaturated, d)"
      using undisturbed_lane [of A q Bulk] x m by (fastforce simp: Execute_tx_def undisturbed_result_def)
    then show ?thesis using run x by (auto simp: EnqueueURLs_def split: if_splits list.splits option.splits)
  qed simp
qed

text \<open>C20: No task is created or reopened for a job that has ended, however often the transaction is
  retried and whatever reply is lost.  Everything in the database but the tasks is as it was (the
  jobs, the outbox, the pages, the domains and the usage), and of the tasks only open ones of this
  job are touched, whose priority the traffic scores may raise.\<close>

theorem enqueue_spares_ended_job:
  assumes "db_jobs d jobID = Some r" "jr_Status r \<in> {JCompleted, JFailed, JCancelled, JArchived, JBlocked}"
    "EnqueueURLs q E A A' jobID pages srcType srcURL now p d = (e, p', d')"
  shows "d'\<lparr>db_tasks := []\<rparr> = d\<lparr>db_tasks := []\<rparr> \<and> list_all2 (rescored jobID) (db_tasks d) (db_tasks d')"
proof -
  have "IsTerminalJobStatus (jr_Status r)" using assms(2) by (auto simp: IsTerminalJobStatus_def terminalJobStatuses_def)
  from ended_job_untouched [OF assms(1) this, of q E A A' pages srcType srcURL now p] show ?thesis
    unfolding assms(3) by (simp add: only_rescored_def)
qed

section \<open>Every task enqueued is mirrored in the outbox\<close>

definition outbox_tasks :: "hover_db \<Rightarrow> string set" where
  "outbox_tasks d = ob_taskID ` set (od_rows (db_outbox d))"

lemma outbox_add_tasks: "ob_taskID ` set (od_rows (outbox_add ob r)) = insert (ob_taskID r) (ob_taskID ` set (od_rows ob))"
  by (auto simp: outbox_add_def)

lemma outbox_adds_tasks:
  "ob_taskID ` set (od_rows (foldl outbox_add ob rs)) = ob_taskID ` set rs \<union> ob_taskID ` set (od_rows ob)"
  by (induction rs arbitrary: ob) (auto simp: outbox_add_tasks)

lemma outbox_mirrors:
  "ob_taskID ` set (od_rows (foldl outbox_add ob (map (task_outbox_row now) ts))) = tr_ID ` set ts \<union> ob_taskID ` set (od_rows ob)"
  by (simp add: outbox_adds_tasks image_image task_outbox_row_def)

definition mirrored :: "hover_db \<Rightarrow> hover_db \<Rightarrow> bool" where
  "mirrored d d' \<longleftrightarrow> outbox_tasks d \<subseteq> outbox_tasks d' \<and>
     (\<forall>t \<in> set (db_tasks d'). but_priority t \<in> but_priority ` set (db_tasks d) \<or> tr_ID t \<in> outbox_tasks d')"

lemma upsert_outbox:
  "outbox_tasks (upsert_tasks now rows d) = tr_ID ` set (upserted (db_tasks d) rows) \<union> outbox_tasks d"
  by (simp add: upsert_tasks_def Let_def outbox_tasks_def outbox_adds_tasks image_image task_outbox_row_def)

lemma in_map_filter: "y \<in> set (List.map_filter f xs) \<longleftrightarrow> (\<exists>x \<in> set xs. f x = Some y)"
  by (induction xs) (auto simp: List.map_filter_simps split: option.splits)

lemma upsert_mirrored: "mirrored d d1 \<Longrightarrow> mirrored d (upsert_tasks now rows d1)"
proof -
  have "t \<in> set (db_tasks d1) \<or> tr_ID t \<in> tr_ID ` set (upserted (db_tasks d1) rows)"
    if "t \<in> set (db_tasks (upsert_tasks now rows d1))" for t
    using that by (force simp: upsert_db_tasks upserted_def after_conflict_def in_map_filter split: option.splits if_splits)
  then show "mirrored d d1 \<Longrightarrow> mirrored d (upsert_tasks now rows d1)"
    unfolding mirrored_def upsert_outbox by blast
qed

text \<open>C21: Every task an enqueue inserts or reopens has a row in the outbox when it returns, so the
  dispatcher hears of it: a task without one is as it was, its priority apart.\<close>

theorem enqueue_mirrors_tasks:
  "mirrored d (snd (snd (EnqueueURLs q E A A' jobID pages srcType srcURL now p d)))"
proof (rule enqueue_urls_keeps [where P = "mirrored d"])
  show "keeps (mirrored d) (enqueue_tx E jobID pages srcType srcURL now)"
    by (intro enqueue_keeps upsert_mirrored)
  have "mirrored d b" if "mirrored d a" "same_but_priority a b" for a b
  proof -
    have "but_priority ` set (db_tasks b) = but_priority ` set (db_tasks a)" "outbox_tasks a = outbox_tasks b"
      using that(2) by (simp_all add: same_but_priority_def outbox_tasks_def flip: set_map)
    moreover have "\<exists>s \<in> set (db_tasks a). but_priority t = but_priority s \<and> tr_ID t = tr_ID s"
      if t: "t \<in> set (db_tasks b)" for t
    proof -
      from t have "but_priority t \<in> but_priority ` set (db_tasks a)" using calculation(1) by blast
      then obtain s where "s \<in> set (db_tasks a)" "but_priority t = but_priority s" by blast
      moreover from this(2) have "tr_ID t = tr_ID s"
        by (metis but_priority_def task_row.select_convs(1) task_row.surjective task_row.update_convs(13))
      ultimately show ?thesis by blast
    qed
    ultimately show ?thesis using that(1) unfolding mirrored_def by metis
  qed
  then show "keeps (mirrored d) (traffic_tx E jobID org domID ids now)" for org domID ids
    by (rule traffic_keeps)
qed (simp add: mirrored_def)

section \<open>Limits of a job\<close>

definition job_capacity :: "enqueue_env \<Rightarrow> string \<Rightarrow> hover_db \<Rightarrow> job_row \<Rightarrow> int" where
  "job_capacity E jobID d r =
     (case calculateEffectiveConcurrency (ee_override E) jobID (Some (jr_Concurrency r))
             (map_option dm_Name (find (\<lambda>m. dm_ID m = jr_DomainID r) (db_domains d))) of
        None \<Rightarrow> maxPendingQueueSize
      | Some c \<Rightarrow> if c = 0 then maxPendingQueueSize else c)"

definition within_limits :: "enqueue_env \<Rightarrow> string \<Rightarrow> hover_db \<Rightarrow> bool" where
  "within_limits E jobID d \<longleftrightarrow> (\<forall>r. db_jobs d jobID = Some r \<longrightarrow>
     jr_Pending r + jr_Running r \<le> job_capacity E jobID d r \<and>
     (jr_MaxPages r \<noteq> 0 \<longrightarrow> jr_Total r - jr_Skipped r \<le> jr_MaxPages r))"

definition queue_ok :: "enqueue_env \<Rightarrow> string \<Rightarrow> hover_db \<Rightarrow> bool" where
  "queue_ok E jobID d \<longleftrightarrow> counters_ok d \<and> pages_unique d \<and> within_limits E jobID d"

definition same_terms :: "job_row \<Rightarrow> job_row \<Rightarrow> bool" where
  "same_terms r r' \<longleftrightarrow> jr_Running r' = jr_Running r \<and> jr_Concurrency r' = jr_Concurrency r \<and>
     jr_MaxPages r' = jr_MaxPages r \<and> jr_DomainID r' = jr_DomainID r"

lemma update_terms:
  assumes "db_jobs (update_tasks now sel f d) j = Some r'"
  shows "\<exists>r. db_jobs d j = Some r \<and> same_terms r r'"
  using assms by (auto simp: update_tasks_def fire_update_def Let_def same_terms_def split: option.splits if_splits)

lemma insert_terms:
  assumes "db_jobs (insert_tasks now ts d) j = Some r'"
  shows "\<exists>r. db_jobs d j = Some r \<and> same_terms r r'"
  using assms
  by (auto simp: insert_tasks_def fire_insert_def update_job_counters_insert_batch_def Let_def same_terms_def
      split: option.splits if_splits)

lemma upsert_terms:
  assumes "db_jobs (upsert_tasks now rows d) j = Some r'"
  shows "\<exists>r. db_jobs d j = Some r \<and> same_terms r r'"
proof -
  from assms obtain f sel ts where "db_jobs (insert_tasks now ts (update_tasks now sel f d)) j = Some r'"
    by (auto simp: upsert_tasks_def Let_def)
  then obtain r1 where "db_jobs (update_tasks now sel f d) j = Some r1" "same_terms r1 r'" using insert_terms by blast
  then show ?thesis using update_terms [of now sel f d j r1] by (auto simp: same_terms_def)
qed

lemma upsert_domains [simp]: "db_domains (upsert_tasks now rows d) = db_domains d"
  by (simp add: upsert_tasks_def Let_def)

lemma counters_pending:
  assumes "counters_ok d" "db_jobs d j = Some r"
  shows "jr_Pending r = int (count_if (\<lambda>t. tr_JobID t = j \<and> tr_Status t = Pending) (db_tasks d))"
    and "jr_Total r - jr_Skipped r = int (count_if (\<lambda>t. tr_JobID t = j \<and> tr_Status t \<noteq> Skipped) (db_tasks d))"
proof -
  have c: "row_counts (tasks_of j d) r" using assms by (auto simp: counters_ok_def)
  have "count_status Pending (filter (\<lambda>t. tr_JobID t = j) ts) = int (count_if (\<lambda>t. tr_JobID t = j \<and> tr_Status t = Pending) ts)" for ts
    by (induction ts) auto
  then show "jr_Pending r = int (count_if (\<lambda>t. tr_JobID t = j \<and> tr_Status t = Pending) (db_tasks d))"
    using c by (simp add: row_counts_def tasks_of_def)
  have "int (length (filter (\<lambda>t. tr_JobID t = j) ts)) - count_status Skipped (filter (\<lambda>t. tr_JobID t = j) ts)
      = int (count_if (\<lambda>t. tr_JobID t = j \<and> tr_Status t \<noteq> Skipped) ts)" for ts
    by (induction ts) auto
  then show "jr_Total r - jr_Skipped r = int (count_if (\<lambda>t. tr_JobID t = j \<and> tr_Status t \<noteq> Skipped) (db_tasks d))"
    using c by (simp add: row_counts_def tasks_of_def)
qed

lemma count_if_cong: "(\<And>t. t \<in> set ts \<Longrightarrow> Q t = R t) \<Longrightarrow> count_if Q ts = count_if R ts"
  by (induction ts) auto

lemma count_if_le: "count_if Q ts \<le> length ts"
  by (simp add: count_if_def)

lemma enqueue_rows_step:
  "enqueue_rows uuid cfg jobID ty url now slots pp pw (p # ps) = enqueue_rows uuid cfg jobID ty url now slots pp pw ps \<or>
    (\<exists>r a b. enqueue_rows uuid cfg jobID ty url now slots pp pw (p # ps) = r # enqueue_rows uuid cfg jobID ty url now slots a b ps \<and>
       tr_PageID r = pg_ID p)"
proof (cases "classifyEnqueuedTask (eq_maxPages cfg) (eq_current cfg) pp pw slots")
  case EnqueuePending
  show ?thesis unfolding enqueue_rows.simps Let_def EnqueuePending disposition.case
    by (simp split: if_split) force
next
  case EnqueueWaiting
  show ?thesis unfolding enqueue_rows.simps Let_def EnqueueWaiting disposition.case
    by (simp split: if_split) force
qed (simp add: Let_def)

lemma enqueue_rows_pages:
  "distinct (map pg_ID ps) \<Longrightarrow>
    distinct (map tr_PageID (enqueue_rows uuid cfg jobID ty url now slots pp pw ps)) \<and>
    tr_PageID ` set (enqueue_rows uuid cfg jobID ty url now slots pp pw ps) \<subseteq> pg_ID ` set ps"
proof (induction ps arbitrary: pp pw)
  case (Cons p ps)
  have IH: "distinct (map tr_PageID (enqueue_rows uuid cfg jobID ty url now slots a b ps))"
    "tr_PageID ` set (enqueue_rows uuid cfg jobID ty url now slots a b ps) \<subseteq> pg_ID ` set ps" for a b
    using Cons by auto
  have "pg_ID p \<notin> pg_ID ` set ps" using Cons.prems by auto
  then have new: "pg_ID p \<notin> tr_PageID ` set (enqueue_rows uuid cfg jobID ty url now slots a b ps)" for a b
    using IH(2) by blast
  consider "enqueue_rows uuid cfg jobID ty url now slots pp pw (p # ps) = enqueue_rows uuid cfg jobID ty url now slots pp pw ps"
    | r a b where "enqueue_rows uuid cfg jobID ty url now slots pp pw (p # ps) = r # enqueue_rows uuid cfg jobID ty url now slots a b ps"
        "tr_PageID r = pg_ID p"
    using enqueue_rows_step by metis
  then show ?case
  proof cases
    case 1
    show ?thesis unfolding 1 using IH(1,2) [of pp pw] by auto
  next
    case (2 r a b)
    show ?thesis unfolding 2(1) using IH(1,2) [of a b] new [of a b] 2(2) by auto
  qed
qed simp

lemma rows_distinct: "distinct (map tr_PageID (rows_of_enqueue E jobID pages ty url now cfg))"
proof -
  have "distinct (map pg_ID (sort_key pg_ID (deduplicatePages pages)))"
    using dedup_distinct(1) [of pages] by (simp add: distinct_map)
  then show ?thesis unfolding rows_of_enqueue_def Let_def using enqueue_rows_pages by blast
qed

lemma upsert_pages_unique:
  assumes "pages_unique d" "distinct (map tr_PageID rows)"
  shows "pages_unique (upsert_tasks now rows d)"
proof -
  let ?k = "\<lambda>t. (tr_JobID t, tr_PageID t)"
  let ?new = "filter (\<lambda>r. \<not> list_ex (same_page r) (db_tasks d)) rows"
  have k: "map ?k (map (after_conflict rows) ts) = map ?k ts" for ts
    by (induction ts) (auto simp: after_conflict_def merge_conflict_def split: option.splits)
  have "distinct (map ?k rows)" using assms(2) by (induction rows) auto
  then have "distinct (map ?k ?new)" by (simp add: distinct_map_filter)
  moreover have "?k ` set (db_tasks d) \<inter> ?k ` set ?new = {}" by (auto simp: same_page_def list_ex_iff)
  moreover have "?k ` after_conflict rows ` set (db_tasks d) = ?k ` set (db_tasks d)"
    using k [of "db_tasks d"] by (metis list.set_map)
  ultimately show ?thesis using assms(1)
    unfolding pages_unique_def upsert_db_tasks map_append distinct_append k by (simp add: image_comp)
qed

lemma slots_room:
  assumes "0 \<le> slots" "slots \<le> fst (calculateAvailableSlots eff running pend quota)"
    "pend + running \<le> (case eff of None \<Rightarrow> maxPendingQueueSize | Some c \<Rightarrow> if c = 0 then maxPendingQueueSize else c)"
  shows "pend + running + slots \<le> (case eff of None \<Rightarrow> maxPendingQueueSize | Some c \<Rightarrow> if c = 0 then maxPendingQueueSize else c)"
  using assms by (auto simp: calculateAvailableSlots_def Let_def split: option.splits if_splits)

lemma slots_nonneg: "0 \<le> enqueue_slots E jobID cfg n"
  by (auto simp: enqueue_slots_def calculateAvailableSlots_def Let_def split: option.splits)

lemma enqueue_config_sel:
  assumes "enqueue_config_of E jobID d = Inr cfg"
  obtains r where "db_jobs d jobID = Some r" "eq_maxPages cfg = jr_MaxPages r" "eq_running cfg = jr_Running r"
    "eq_pending cfg = jr_Pending r" "eq_current cfg = jr_Total r - jr_Skipped r" "eq_status cfg = jr_Status r"
    "job_capacity E jobID d r =
      (case calculateEffectiveConcurrency (ee_override E) jobID (eq_concurrency cfg) (eq_domainName cfg) of
         None \<Rightarrow> maxPendingQueueSize | Some c \<Rightarrow> if c = 0 then maxPendingQueueSize else c)"
  using assms by (auto simp: enqueue_config_of_def job_capacity_def split: option.splits)

lemma rows_job: "r \<in> set (rows_of_enqueue E jobID pages ty url now cfg) \<Longrightarrow> tr_JobID r = jobID \<and> tr_Status r \<in> {Pending, Waiting}"
  unfolding rows_of_enqueue_def Let_def by (rule enqueue_rows_jobs)

lemma upsert_count_job:
  assumes "pages_unique d"
  shows "count_if (\<lambda>t. tr_JobID t = j \<and> Q (tr_Status t)) (db_tasks (upsert_tasks now rows d))
    \<le> count_if (\<lambda>t. tr_JobID t = j \<and> Q (tr_Status t)) (db_tasks d) + count_if (\<lambda>t. tr_JobID t = j \<and> Q (tr_Status t)) rows"
  by (rule upsert_count) (use assms in \<open>auto simp: status_like_def merge_conflict_def same_page_def\<close>)

lemma upsert_queue_ok:
  assumes ok: "queue_ok E jobID d" and cfg: "enqueue_config_of E jobID d = Inr cfg"
  shows "queue_ok E jobID (upsert_tasks now (rows_of_enqueue E jobID pages ty url now cfg) d)"
proof -
  let ?rows = "rows_of_enqueue E jobID pages ty url now cfg" and ?n = "length (sort_key pg_ID (deduplicatePages pages))"
  let ?d = "upsert_tasks now ?rows d"
  have inv: "counters_ok d" "pages_unique d" "within_limits E jobID d" using ok by (simp_all add: queue_ok_def)
  have c: "counters_ok ?d" by (rule upsert_counts [OF inv(1)]) (use rows_job in blast)
  have u: "pages_unique ?d" by (rule upsert_pages_unique [OF inv(2) rows_distinct])
  obtain r where r: "db_jobs d jobID = Some r" "eq_maxPages cfg = jr_MaxPages r" "eq_running cfg = jr_Running r"
    "eq_pending cfg = jr_Pending r" "eq_current cfg = jr_Total r - jr_Skipped r"
    "job_capacity E jobID d r =
      (case calculateEffectiveConcurrency (ee_override E) jobID (eq_concurrency cfg) (eq_domainName cfg) of
         None \<Rightarrow> maxPendingQueueSize | Some c \<Rightarrow> if c = 0 then maxPendingQueueSize else c)"
    using cfg by (rule enqueue_config_sel)
  have w: "jr_Pending r + jr_Running r \<le> job_capacity E jobID d r" "jr_MaxPages r \<noteq> 0 \<longrightarrow> jr_Total r - jr_Skipped r \<le> jr_MaxPages r"
    using inv(3) r(1) by (simp_all add: within_limits_def)
  have lim: "int (count_if (\<lambda>r. tr_Status r = Pending) ?rows) \<le> enqueue_slots E jobID cfg ?n"
    "eq_maxPages cfg \<noteq> 0 \<longrightarrow> eq_current cfg + int (length ?rows) \<le> max (eq_maxPages cfg) (eq_current cfg)"
    using enqueue_rows_limit [of 0 0 "ee_uuid E" cfg jobID ty url now "enqueue_slots E jobID cfg ?n"
        "sort_key pg_ID (deduplicatePages pages)"] slots_nonneg [of E jobID cfg ?n]
    by (simp_all add: rows_of_enqueue_def)
  have slots: "enqueue_slots E jobID cfg ?n
      \<le> fst (calculateAvailableSlots (calculateEffectiveConcurrency (ee_override E) jobID (eq_concurrency cfg) (eq_domainName cfg))
          (jr_Running r) (jr_Pending r) (eq_quotaRemaining cfg))"
    by (simp add: enqueue_slots_def r)
  have cap: "jr_Pending r + jr_Running r + enqueue_slots E jobID cfg ?n \<le> job_capacity E jobID d r"
    unfolding r(6) by (rule slots_room [OF slots_nonneg slots]) (use w(1) r(6) in simp)
  have "within_limits E jobID ?d"
    unfolding within_limits_def
  proof (intro allI impI)
    fix r' assume r': "db_jobs ?d jobID = Some r'"
    then have terms: "same_terms r r'" using upsert_terms r(1) by fastforce
    have "jr_Pending r' \<le> jr_Pending r + int (count_if (\<lambda>t. tr_JobID t = jobID \<and> tr_Status t = Pending) ?rows)"
      using counters_pending(1) [OF c r'] counters_pending(1) [OF inv(1) r(1)]
        upsert_count_job [OF inv(2), where rows = ?rows and j = jobID and now = now and Q = "\<lambda>s. s = Pending"] by simp
    moreover have "count_if (\<lambda>t. tr_JobID t = jobID \<and> tr_Status t = Pending) ?rows \<le> count_if (\<lambda>r. tr_Status r = Pending) ?rows"
      by (rule count_if_mono) simp
    moreover have "jr_Total r' - jr_Skipped r' \<le> jr_Total r - jr_Skipped r + int (count_if (\<lambda>t. tr_JobID t = jobID \<and> tr_Status t \<noteq> Skipped) ?rows)"
      using counters_pending(2) [OF c r'] counters_pending(2) [OF inv(1) r(1)]
        upsert_count_job [OF inv(2), where rows = ?rows and j = jobID and now = now and Q = "\<lambda>s. s \<noteq> Skipped"] by simp
    moreover have "count_if (\<lambda>t. tr_JobID t = jobID \<and> tr_Status t \<noteq> Skipped) ?rows \<le> length ?rows" by (rule count_if_le)
    moreover have "job_capacity E jobID ?d r' = job_capacity E jobID d r" "jr_Running r' = jr_Running r" "jr_MaxPages r' = jr_MaxPages r"
      using terms by (simp_all add: same_terms_def job_capacity_def)
    ultimately show "jr_Pending r' + jr_Running r' \<le> job_capacity E jobID ?d r' \<and>
        (jr_MaxPages r' \<noteq> 0 \<longrightarrow> jr_Total r' - jr_Skipped r' \<le> jr_MaxPages r')"
      using lim cap w(2) r(2,5) by auto
  qed
  then show ?thesis using c u by (simp add: queue_ok_def)
qed

lemma same_but_priority_queue_ok:
  assumes "queue_ok E jobID d" "same_but_priority d d'"
  shows "queue_ok E jobID d'"
proof -
  have m: "map but_priority (db_tasks d') = map but_priority (db_tasks d)" "db_jobs d' = db_jobs d" "db_domains d' = db_domains d"
    using assms(2) by (simp_all add: same_but_priority_def)
  have eq: "map but_priority (tasks_of j d') = map but_priority (tasks_of j d)" for j
  proof -
    have "map but_priority (tasks_of j x) = filter (\<lambda>t. tr_JobID t = j) (map but_priority (db_tasks x))" for x
      by (simp add: tasks_of_def filter_map but_priority_def o_def)
    then show ?thesis using m(1) by simp
  qed
  have "count_status st ts = count_status st (map but_priority ts)" for st and ts :: "task_row list"
    by (simp add: count_status_def filter_map but_priority_def o_def)
  then have cs: "count_status st (tasks_of j d') = count_status st (tasks_of j d)" for st j using eq by metis
  have len: "length (tasks_of j d') = length (tasks_of j d)" for j using eq by (metis length_map)
  have "map (\<lambda>t. (tr_JobID t, tr_PageID t)) ts = map (\<lambda>t. (tr_JobID t, tr_PageID t)) (map but_priority ts)" for ts :: "task_row list"
    by (simp add: but_priority_def)
  then have "map (\<lambda>t. (tr_JobID t, tr_PageID t)) (db_tasks d') = map (\<lambda>t. (tr_JobID t, tr_PageID t)) (db_tasks d)"
    using m(1) by metis
  then have "pages_unique d'" using assms(1) by (simp add: queue_ok_def pages_unique_def)
  moreover have "counters_ok d'" using assms(1) by (simp add: queue_ok_def counters_ok_def row_counts_def m cs len)
  moreover have "within_limits E jobID d'"
    using assms(1) unfolding queue_ok_def within_limits_def job_capacity_def m(2,3) by blast
  ultimately show ?thesis by (simp add: queue_ok_def)
qed

text \<open>C4: Enqueueing keeps a job within its limits, whatever is retried or lost: its counters are the
  counts of its tasks, a page has one task, the pending and running tasks stay within the concurrency
  (or 100 where the job sets none), and the tasks that count stay within \<open>max_pages\<close>.\<close>

theorem enqueue_respects_limits:
  assumes "queue_ok E jobID d"
  shows "queue_ok E jobID (snd (snd (EnqueueURLs q E A A' jobID pages srcType srcURL now p d)))"
proof (rule enqueue_urls_keeps [where P = "queue_ok E jobID"])
  show "keeps (queue_ok E jobID) (enqueue_tx E jobID pages srcType srcURL now)"
    by (intro enqueue_keeps upsert_queue_ok)
  show "keeps (queue_ok E jobID) (traffic_tx E jobID org domID ids now)" for org domID ids
    by (rule traffic_keeps) (rule same_but_priority_queue_ok)
qed (rule assms)

section \<open>Promotion and stuck jobs\<close>

lemma promote_picked_bound: "length (promote_picked locked jobID slots d) \<le> nat slots"
  by (simp add: promote_picked_def)

lemma promote_picked_waiting:
  assumes "x \<in> set (promote_picked locked jobID slots d)"
  shows "\<exists>t \<in> set (db_tasks d). tr_ID t = x \<and> tr_JobID t = jobID \<and> tr_Status t = Waiting \<and> \<not> locked x"
  using assms set_take_subset by (fastforce simp: promote_picked_def)

lemma promote_counts:
  assumes "counters_ok d"
  shows "counters_ok (snd (promote_waiting_with_outbox now locked jobID slots d))"
  using assms update_tasks_counts [of "\<lambda>t. t\<lparr>tr_Status := Pending\<rparr>" d]
  by (simp add: promote_waiting_with_outbox_def Let_def outbox_only_counts same_key_def)

text \<open>Keys are unique: the primary key.\<close>

definition ids_unique :: "hover_db \<Rightarrow> bool" where
  "ids_unique d \<longleftrightarrow> distinct (map tr_ID (db_tasks d))"

lemma ids_pick:
  assumes "distinct (map tr_ID ts)"
  shows "length (filter (\<lambda>t. tr_ID t \<in> set ids) ts) \<le> length ids"
proof -
  have "distinct (map tr_ID (filter (\<lambda>t. tr_ID t \<in> set ids) ts))" using assms by (simp add: distinct_map_filter)
  moreover have "set (map tr_ID (filter (\<lambda>t. tr_ID t \<in> set ids) ts)) \<subseteq> set ids" by auto
  ultimately show ?thesis
    by (metis card_length card_mono distinct_card finite_set length_map order_trans)
qed

text \<open>Promotion moves at most the asked number of tasks, each a waiting task of the job that nobody
  has locked, to pending; every one of them has an outbox row afterwards, and every other task and the
  counters of the job are as the tasks say.\<close>

theorem promotion_is_exact:
  assumes "counters_ok d" "ids_unique d" "promote_waiting_with_outbox now locked jobID slots d = (n, d')"
  shows "counters_ok d' \<and> n \<le> max 0 slots \<and>
    (\<exists>ids. db_tasks d' = map (\<lambda>t. if tr_ID t \<in> ids then t\<lparr>tr_Status := Pending\<rparr> else t) (db_tasks d) \<and>
       ids \<subseteq> outbox_tasks d' \<and> (\<forall>t \<in> set (db_tasks d). tr_ID t \<in> ids \<longrightarrow> tr_JobID t = jobID \<and> tr_Status t = Waiting \<and> \<not> locked (tr_ID t)))"
proof (cases "slots \<le> 0")
  case True
  then have "d' = d" "n = 0" using assms(3) by (auto simp: promote_waiting_with_outbox_def)
  then show ?thesis using assms(1) by (auto intro!: exI [of _ "{}"])
next
  case False
  let ?ids = "promote_picked locked jobID slots d"
  let ?ts = "map (\<lambda>t. if tr_ID t \<in> set ?ids then t\<lparr>tr_Status := Pending\<rparr> else t) (db_tasks d)"
  have ok: "counters_ok d'" using promote_counts [OF assms(1), of now locked jobID slots] assms(3) by simp
  have t: "db_tasks d' = ?ts" using False assms(3) by (auto simp: promote_waiting_with_outbox_def Let_def)
  have n: "n = int (length (filter (\<lambda>t. tr_ID t \<in> set ?ids) ?ts))" using False assms(3)
    by (auto simp: promote_waiting_with_outbox_def Let_def)
  have m: "map tr_ID ?ts = map tr_ID (db_tasks d)" by simp
  have "distinct (map tr_ID ?ts)" unfolding m using assms(2) by (simp add: ids_unique_def)
  then have "n \<le> int (length ?ids)" unfolding n of_nat_le_iff by (rule ids_pick)
  then have bound: "n \<le> max 0 slots" using promote_picked_bound [of locked jobID slots d] by linarith
  have sel: "tr_JobID t = jobID \<and> tr_Status t = Waiting \<and> \<not> locked (tr_ID t)" if "t \<in> set (db_tasks d)" "tr_ID t \<in> set ?ids" for t
  proof -
    from promote_picked_waiting [OF that(2)]
    obtain u where u: "u \<in> set (db_tasks d)" "tr_ID u = tr_ID t" "tr_JobID u = jobID" "tr_Status u = Waiting" "\<not> locked (tr_ID t)"
      by blast
    then have "u = t" using assms(2) that(1) by (auto simp: ids_unique_def distinct_map inj_on_def)
    then show ?thesis using u by simp
  qed
  have "set ?ids \<subseteq> outbox_tasks d'"
  proof
    fix x assume x: "x \<in> set ?ids"
    then obtain t where "t \<in> set (db_tasks d)" "tr_ID t = x" using promote_picked_waiting by blast
    then have "x \<in> tr_ID ` set (filter (\<lambda>t. tr_ID t \<in> set ?ids) ?ts)" using x by (auto simp: image_iff intro!: bexI [of _ t])
    moreover have "outbox_tasks d' = tr_ID ` set (filter (\<lambda>t. tr_ID t \<in> set ?ids) ?ts) \<union> outbox_tasks d"
    proof -
      have "db_outbox d' = foldl outbox_add (db_outbox d) (map (task_outbox_row now) (filter (\<lambda>t. tr_ID t \<in> set ?ids) ?ts))"
        using False assms(3) by (auto simp: promote_waiting_with_outbox_def Let_def)
      then show ?thesis unfolding outbox_tasks_def by (simp only: outbox_mirrors)
    qed
    ultimately show "x \<in> outbox_tasks d'" by blast
  qed
  then show ?thesis using ok bound t sel by blast
qed

text \<open>The repair of stuck jobs completes exactly the pending and running jobs that have tasks and
  whose tasks have all ended; it touches nothing else.\<close>

theorem cleanup_completes_ended_jobs:
  assumes "counters_ok d" "db_jobs d j = Some r" "CleanupStuckJobs None now d = (None, d')"
  shows "\<exists>r'. db_jobs d' j = Some r' \<and>
    (jr_Status r \<in> {JPending, JRunning} \<and> tasks_of j d \<noteq> [] \<and> (\<forall>t \<in> set (tasks_of j d). terminal_task t)
       \<longrightarrow> jr_Status r' = JCompleted \<and> jr_CompletedAt r' \<noteq> None) \<and>
    (\<not> (jr_Status r \<in> {JPending, JRunning} \<and> tasks_of j d \<noteq> [] \<and> (\<forall>t \<in> set (tasks_of j d). terminal_task t)) \<longrightarrow> r' = r)"
proof -
  let ?ts = "tasks_of j d"
  have c: "row_counts ?ts r" using assms(1,2) by (simp add: counters_ok_def)
  have "jr_Completed r + jr_Failed r + jr_Skipped r \<le> jr_Total r"
    using c terminal_count [of ?ts] by (simp add: row_counts_def)
  then have "jr_Total r = jr_Completed r + jr_Failed r + jr_Skipped r \<longleftrightarrow> (\<forall>t \<in> set ?ts. terminal_task t)"
    using c all_terminal_iff [of ?ts] by (auto simp: row_counts_def)
  moreover have "jr_Total r > 0 \<longleftrightarrow> ?ts \<noteq> []" using c by (simp add: row_counts_def)
  ultimately have st: "stuck r \<longleftrightarrow> jr_Status r \<in> {JPending, JRunning} \<and> ?ts \<noteq> [] \<and> (\<forall>t \<in> set ?ts. terminal_task t)"
    unfolding stuck_def by blast
  have "db_jobs d' j = Some (if stuck r then before_write now (Some r) (unstick now r) else r)"
    using assms(2,3) by (auto simp: CleanupStuckJobs_def)
  moreover have "jr_CompletedAt (before_write now (Some r) (unstick now r)) \<noteq> None"
    by (simp add: before_write_def set_job_completed_at_def set_job_started_at_def unstick_def split: option.splits)
  ultimately show ?thesis unfolding st [symmetric] by (simp add: unstick_def)
qed

section \<open>A concrete database\<close>

definition demo_job :: job_row where
  "demo_job = \<lparr>jr_DomainID = 1, jr_UserID = None, jr_OrgID = None, jr_Status = JRunning, jr_Progress = 0, jr_Total = 2,
     jr_Completed = 0, jr_Failed = 0, jr_Skipped = 0, jr_Pending = 1, jr_Waiting = 1, jr_Running = 0, jr_Sitemap = 0,
     jr_Found = 2, jr_CreatedAt = 0, jr_StartedAt = None, jr_CompletedAt = None, jr_Concurrency = 2, jr_FindLinks = True,
     jr_MaxPages = 3, jr_IncludePaths = [], jr_ExcludePaths = [], jr_RequiredWorkers = 1, jr_CrossSubdomain = False,
     jr_SitemapFound = 0, jr_Error = None\<rparr>"

definition demo_task :: "string \<Rightarrow> int \<Rightarrow> task_status \<Rightarrow> task_row" where
  "demo_task key page st = \<lparr>tr_ID = key, tr_JobID = ''j'', tr_PageID = page, tr_Host = ''a.com'', tr_Path = ''/'', tr_Status = st,
     tr_CreatedAt = 0, tr_StartedAt = None, tr_CompletedAt = None, tr_RetryCount = 0, tr_SourceType = ''link'',
     tr_SourceURL = [], tr_Priority = 1, tr_Error = None, tr_Result = None, tr_Diagnostics = None, tr_HTML = no_html\<rparr>"

definition demo_db :: "job_row \<Rightarrow> task_row list \<Rightarrow> hover_db" where
  "demo_db r ts = \<lparr>db_jobs = [''j'' \<mapsto> r], db_domains = [\<lparr>dm_ID = 1, dm_Name = ''a.com'', dm_CrawlDelay = None,
     dm_WafBlocked = False, dm_WafVendor = None, dm_WafBlockedAt = None\<rparr>], db_pages = [], db_tasks = ts,
     db_outbox = \<lparr>od_rows = [], od_dead = []\<rparr>, db_usage = (\<lambda>k. 0)\<rparr>"

definition demo_env :: enqueue_env where
  "demo_env = \<lparr>ee_override = None, ee_quota = (\<lambda>k d. 0), ee_traffic = (\<lambda>a b c. None), ee_uuid = (\<lambda>n. ''t'' @ itoa (int n))\<rparr>"

lemmas demo_defs = demo_job_def demo_task_def demo_db_def demo_env_def

definition demo_pages :: "page list" where
  "demo_pages = [\<lparr>pg_ID = 5, pg_Host = ''a.com'', pg_Path = ''/b'', pg_Priority = 1\<rparr>]"

definition open_db :: hover_db where
  "open_db = demo_db demo_job [demo_task ''x'' 1 Pending, demo_task ''y'' 2 Waiting]"

lemma open_db_ok: "queue_ok demo_env ''j'' open_db" "ids_unique open_db"
  by (simp_all add: queue_ok_def counters_ok_def row_counts_def tasks_of_def pages_unique_def within_limits_def job_capacity_def
      calculateEffectiveConcurrency_def ids_unique_def open_db_def demo_defs)

theorem enqueue_respects_limits_witness:
  "queue_ok demo_env ''j'' (snd (snd (EnqueueURLs std_queue demo_env (\<lambda>i. calm_attempt) (\<lambda>i. calm_attempt) ''j'' demo_pages
     ''link'' ''/'' 9 idle_pool open_db)))"
  by (rule enqueue_respects_limits [OF open_db_ok(1)])

definition ended_db :: hover_db where
  "ended_db = demo_db (demo_job\<lparr>jr_Status := JCompleted\<rparr>) [demo_task ''x'' 1 Completed]"

theorem enqueue_spares_ended_job_witness:
  "db_tasks (snd (snd (EnqueueURLs std_queue demo_env (\<lambda>i. calm_attempt) (\<lambda>i. calm_attempt) ''j'' demo_pages ''link'' ''/'' 9
     idle_pool ended_db))) = db_tasks ended_db"
proof (cases "EnqueueURLs std_queue demo_env (\<lambda>i. calm_attempt) (\<lambda>i. calm_attempt) ''j'' demo_pages ''link'' ''/'' 9 idle_pool ended_db")
  case (fields e p' d')
  have "list_all2 (rescored ''j'') (db_tasks ended_db) (db_tasks d')"
    using enqueue_spares_ended_job [OF _ _ fields, of "demo_job\<lparr>jr_Status := JCompleted\<rparr>"]
    by (simp add: ended_db_def demo_db_def)
  then have "db_tasks d' = db_tasks ended_db"
    by (auto simp: ended_db_def demo_db_def demo_task_def rescored_def list_all2_Cons1)
  then show ?thesis unfolding fields by simp
qed

theorem promotion_is_exact_witness:
  "fst (promote_waiting_with_outbox 9 (\<lambda>k. False) ''j'' 1 open_db) \<le> (1 :: int)"
  using promotion_is_exact [OF _ open_db_ok(2) prod.collapse [symmetric], of 9 "\<lambda>k. False" "''j''" 1] open_db_ok(1)
  by (simp add: queue_ok_def)

theorem cleanup_completes_ended_jobs_witness:
  "db_jobs (snd (CleanupStuckJobs None 9 open_db)) ''j'' = Some demo_job"
proof -
  have a: "counters_ok open_db" using open_db_ok(1) by (simp add: queue_ok_def)
  have b: "db_jobs open_db ''j'' = Some demo_job" by (simp add: open_db_def demo_db_def)
  have c: "CleanupStuckJobs None 9 open_db = (None, snd (CleanupStuckJobs None 9 open_db))" by (simp add: CleanupStuckJobs_def)
  have "\<not> (\<forall>t \<in> set (tasks_of ''j'' open_db). terminal_task t)"
    by (simp add: tasks_of_def open_db_def demo_db_def demo_task_def terminal_task_def)
  then show ?thesis using cleanup_completes_ended_jobs [OF a b c] by blast
qed

end
