(* ===== verification/Db_Batch.thy ===== *)
theory Db_Batch
  imports Db_Queue "HOL-Library.AList" "HOL-Library.Multiset"
begin

text \<open>
  \<open>internal/db/batch.go\<close>: the batch manager, which collects the results of tasks in a channel,
  coalesces what does not fit in an overflow map, and writes batches in one transaction, falling back
  to single updates after three data errors in a row.  A data error is one of the type \<open>*pq.Error\<close>,
  which the connections of the program, those of \<open>pgx\<close>, never return; the model keeps both, and the
  last section shows what follows.  The manager is a state machine over the events
  of its goroutine (an update arrives, the ticker fires, the manager stops) and of the workers (an
  update is queued).  \<open>fe_pick\<close> is the row the database takes when an \<open>UPDATE ... FROM\<close>
  joins several rows to one task; \<open>rank\<close> is the order in which Go walks a map.
\<close>

section \<open>Settings\<close>

record batch_settings =
  bs_MaxBatchSize :: int
  bs_MaxBatchInterval :: time
  bs_ChannelSize :: int

definition MaxConsecutiveFailures :: nat where
  "MaxConsecutiveFailures = 3"

definition MaxShutdownRetries :: nat where
  "MaxShutdownRetries = 5"

definition clamped_env :: "(string \<Rightarrow> string) \<Rightarrow> string \<Rightarrow> int \<Rightarrow> int \<Rightarrow> int option" where
  "clamped_env env key lo hi =
     (let v = trim_space (env key) in
      if v = [] then None
      else map_option (\<lambda>n. if n < lo then lo else if n > hi then hi else n) (atoi v))"

definition or_default :: "'a \<Rightarrow> 'a option \<Rightarrow> 'a" where
  "or_default x v = (case v of Some y \<Rightarrow> y | None \<Rightarrow> x)"

definition batch_init :: "(string \<Rightarrow> string) \<Rightarrow> batch_settings" where
  "batch_init env =
     (let size = or_default 2000 (clamped_env env ''GNH_BATCH_CHANNEL_SIZE'' 500 20000);
          batch = or_default 100 (clamped_env env ''GNH_RUNNING_TASK_BATCH_SIZE'' 1 1000);
          interval = or_default (2 * second) (map_option (\<lambda>n. n * millisecond) (clamped_env env ''GNH_RUNNING_TASK_FLUSH_INTERVAL_MS'' 100 10000));
          interval' = or_default interval (map_option (\<lambda>n. n * millisecond) (clamped_env env ''GNH_BATCH_MAX_INTERVAL_MS'' 100 10000))
      in \<lparr>bs_MaxBatchSize = batch, bs_MaxBatchInterval = interval', bs_ChannelSize = size\<rparr>)"

section \<open>Statements\<close>

text \<open>\<open>UPDATE tasks ... FROM (unnest ...) AS updates WHERE tasks.id = updates.id\<close>.\<close>

definition join_update :: "(db_task list \<Rightarrow> db_task) \<Rightarrow> time \<Rightarrow> db_task list \<Rightarrow> (db_task \<Rightarrow> task_row \<Rightarrow> task_row) \<Rightarrow> hover_db \<Rightarrow> hover_db" where
  "join_update pick now ts f =
     update_tasks now (\<lambda>r. tr_ID r \<in> set (map dt_ID ts)) (\<lambda>r. f (pick (filter (\<lambda>t. dt_ID t = tr_ID r) ts)) r)"

definition started_or_completed :: "db_task \<Rightarrow> time" where
  "started_or_completed t = (case dt_StartedAt t of Some s \<Rightarrow> s | None \<Rightarrow> sql_time (dt_CompletedAt t))"

definition coalesce :: "'a option \<Rightarrow> 'a \<Rightarrow> 'a option" where
  "coalesce a b = (case a of Some x \<Rightarrow> Some x | None \<Rightarrow> Some b)"

definition completed_row :: "db_task \<Rightarrow> task_row \<Rightarrow> task_row" where
  "completed_row t r =
     r\<lparr>tr_Status := Completed, tr_StartedAt := coalesce (tr_StartedAt r) (started_or_completed t),
       tr_CompletedAt := Some (sql_time (dt_CompletedAt t)), tr_RetryCount := dt_RetryCount t,
       tr_Result := Some (json_defaults t), tr_Diagnostics := Some (json_or ''{}'' (dt_RequestDiagnostics t)),
       tr_HTML := merge_html (tr_HTML r) ((dt_HTML t)\<lparr>hm_ArchivedAt := None\<rparr>)\<rparr>"

definition failed_update :: "db_task \<Rightarrow> task_row \<Rightarrow> task_row" where
  "failed_update t r =
     r\<lparr>tr_Status := dt_Status t, tr_StartedAt := coalesce (tr_StartedAt r) (started_or_completed t),
       tr_CompletedAt := Some (sql_time (dt_CompletedAt t)), tr_RetryCount := dt_RetryCount t,
       tr_Error := Some (dt_Error t), tr_Diagnostics := Some (json_or ''{}'' (dt_RequestDiagnostics t))\<rparr>"

definition waiting_row :: "db_task \<Rightarrow> task_row \<Rightarrow> task_row" where
  "waiting_row t r =
     r\<lparr>tr_Status := dt_Status t, tr_StartedAt := None, tr_RetryCount := dt_RetryCount t,
       tr_Error := Some (dt_Error t), tr_Diagnostics := Some (json_or ''{}'' (dt_RequestDiagnostics t))\<rparr>"

definition pending_row :: "db_task \<Rightarrow> task_row \<Rightarrow> task_row" where
  "pending_row t r =
     r\<lparr>tr_Status := Pending, tr_StartedAt := Some (sql_time (dt_StartedAt t)), tr_RetryCount := dt_RetryCount t\<rparr>"

definition skipped_row :: "db_task \<Rightarrow> task_row \<Rightarrow> task_row" where
  "skipped_row t r = r\<lparr>tr_Status := Skipped\<rparr>"

text \<open>Each returns at once for an empty list; \<open>i\<close> is the number of the statement in the transaction.\<close>

definition batch_update :: "(db_task \<Rightarrow> task_row \<Rightarrow> task_row) \<Rightarrow> (db_task list \<Rightarrow> db_task) \<Rightarrow> time \<Rightarrow> nat \<Rightarrow> db_task list
    \<Rightarrow> (unit, hover_db) tx" where
  "batch_update f pick now i ts = (if ts = [] then tx_return () else tx_exec i (join_update pick now ts f))"

definition batchUpdateCompleted :: "(db_task list \<Rightarrow> db_task) \<Rightarrow> time \<Rightarrow> nat \<Rightarrow> db_task list \<Rightarrow> (unit, hover_db) tx" where
  "batchUpdateCompleted = batch_update completed_row"

definition batchUpdateFailed :: "(db_task list \<Rightarrow> db_task) \<Rightarrow> time \<Rightarrow> nat \<Rightarrow> db_task list \<Rightarrow> (unit, hover_db) tx" where
  "batchUpdateFailed = batch_update failed_update"

definition batchUpdateWaiting :: "(db_task list \<Rightarrow> db_task) \<Rightarrow> time \<Rightarrow> nat \<Rightarrow> db_task list \<Rightarrow> (unit, hover_db) tx" where
  "batchUpdateWaiting = batch_update waiting_row"

definition batchUpdateSkipped :: "(db_task list \<Rightarrow> db_task) \<Rightarrow> time \<Rightarrow> nat \<Rightarrow> db_task list \<Rightarrow> (unit, hover_db) tx" where
  "batchUpdateSkipped = batch_update skipped_row"

definition batchUpdatePending :: "(db_task list \<Rightarrow> db_task) \<Rightarrow> time \<Rightarrow> nat \<Rightarrow> db_task list \<Rightarrow> (unit, hover_db) tx" where
  "batchUpdatePending = batch_update pending_row"

definition with_status :: "task_status \<Rightarrow> db_task list \<Rightarrow> db_task list" where
  "with_status st ts = filter (\<lambda>t. dt_Status t = st) ts"

section \<open>Daily usage\<close>

text \<open>\<open>increment_daily_usage\<close> of the migrations, without the date and the flag of an exhausted quota.\<close>

definition increment_daily_usage :: "string \<Rightarrow> int \<Rightarrow> hover_db \<Rightarrow> hover_db" where
  "increment_daily_usage org pages d = d\<lparr>db_usage := (db_usage d)(org := db_usage d org + pages)\<rparr>"

definition org_of_task :: "hover_db \<Rightarrow> db_task \<Rightarrow> string option" where
  "org_of_task d t = (case db_jobs d (dt_JobID t) of Some r \<Rightarrow> jr_OrgID r | None \<Rightarrow> None)"

definition orgCounts :: "hover_db \<Rightarrow> db_task list \<Rightarrow> (string \<times> int) list" where
  "orgCounts d ts =
     map (\<lambda>org. (org, int (length (filter (\<lambda>t. org_of_task d t = Some org) ts))))
       (remdups (List.map_filter (org_of_task d) ts))"

fun increment_each :: "nat \<Rightarrow> (string \<times> int) list \<Rightarrow> (unit, hover_db) tx" where
  "increment_each i [] = tx_return ()"
| "increment_each i ((org, n) # xs) =
     tx_bind (tx_wrap (''increment daily usage for org '' @ org @ '' ('' @ itoa n @ '' pages): '') (tx_exec i (increment_daily_usage org n)))
       (\<lambda>u. increment_each (Suc i) xs)"

definition incrementDailyUsageForTasks :: "nat \<Rightarrow> db_task list \<Rightarrow> db_task list \<Rightarrow> (unit, hover_db) tx" where
  "incrementDailyUsageForTasks i completed failed =
     (if completed @ failed = [] then tx_return ()
      else tx_bind (tx_wrap ''fetch job organisations for quota increment: '' (tx_query i (\<lambda>d. Inr (orgCounts d (completed @ failed)))))
        (\<lambda>counts. increment_each (Suc i) counts))"

section \<open>Flushing\<close>

definition flush_tx :: "(db_task list \<Rightarrow> db_task) \<Rightarrow> time \<Rightarrow> db_task list \<Rightarrow> (unit, hover_db) tx" where
  "flush_tx pick now ts =
     tx_bind (tx_wrap ''failed to batch update completed tasks: '' (batchUpdateCompleted pick now 0 (with_status Completed ts))) (\<lambda>u.
     tx_bind (tx_wrap ''failed to batch update failed tasks: '' (batchUpdateFailed pick now 1 (with_status Failed ts))) (\<lambda>u.
     tx_bind (tx_wrap ''failed to batch update skipped tasks: '' (batchUpdateSkipped pick now 2 (with_status Skipped ts))) (\<lambda>u.
     tx_bind (tx_wrap ''failed to batch update pending tasks: '' (batchUpdatePending pick now 3 (with_status Pending ts))) (\<lambda>u.
     tx_bind (tx_wrap ''failed to batch update waiting tasks: '' (batchUpdateWaiting pick now 4 (with_status Waiting ts))) (\<lambda>u.
     tx_wrap ''failed to increment daily usage: '' (incrementDailyUsageForTasks 5 (with_status Completed ts) (with_status Failed ts)))))))"

text \<open>The job ids handed to the callback.\<close>

definition uniqueJobIDsForMilestone :: "db_task list \<Rightarrow> db_task list \<Rightarrow> db_task list \<Rightarrow> string list" where
  "uniqueJobIDsForMilestone completed failed skipped = remdups (map dt_JobID (completed @ failed @ skipped))"

record task_update =
  tu_Task :: db_task
  tu_UpdatedAt :: time

definition stamp :: "time \<Rightarrow> task_update \<Rightarrow> task_update" where
  "stamp now u =
     (let t = tu_Task u in
      if dt_Status t \<in> {Completed, Failed} \<and> dt_CompletedAt t = None
      then u\<lparr>tu_Task := t\<lparr>dt_CompletedAt := Some now\<rparr>\<rparr> else u)"

text \<open>What the environment does to one flush: the attempts of the batch, of each single update, and
  the row a join takes.\<close>

record flush_env =
  fe_now :: time
  fe_batch :: "nat \<Rightarrow> attempt"
  fe_single :: "nat \<Rightarrow> nat \<Rightarrow> attempt"
  fe_pick :: "db_task list \<Rightarrow> db_task"

text \<open>The updates are stamped in place: a batch that stays keeps its times.  The third component is
  what the callback is told.\<close>

definition flushTaskUpdates :: "queue \<Rightarrow> flush_env \<Rightarrow> task_update list \<Rightarrow> db_pool \<Rightarrow> hover_db
    \<Rightarrow> go_error option \<times> task_update list \<times> string list \<times> db_pool \<times> hover_db" where
  "flushTaskUpdates q E us p d =
     (if us = [] then (None, us, [], p, d)
      else let us' = map (stamp (fe_now E)) us; ts = map tu_Task us' in
        case Execute_tx q (fe_batch E) (flush_tx (fe_pick E) (fe_now E) ts) p d of
          (Inl e, p', d') \<Rightarrow> (Some e, us', [], p', d')
        | (Inr x, p', d') \<Rightarrow>
            (None, us', uniqueJobIDsForMilestone (with_status Completed ts) (with_status Failed ts) (with_status Skipped ts), p', d'))"

definition single_tx :: "(db_task list \<Rightarrow> db_task) \<Rightarrow> time \<Rightarrow> db_task \<Rightarrow> (unit, hover_db) tx" where
  "single_tx pick now t =
     (case dt_Status t of
        Completed \<Rightarrow> batchUpdateCompleted pick now 0 [t]
      | Failed \<Rightarrow> batchUpdateFailed pick now 0 [t]
      | Skipped \<Rightarrow> batchUpdateSkipped pick now 0 [t]
      | Pending \<Rightarrow> batchUpdatePending pick now 0 [t]
      | Waiting \<Rightarrow> batchUpdateWaiting pick now 0 [t]
      | Running \<Rightarrow> tx_fail \<lparr>ge_text = ''unknown status: running'', ge_kind = Plain\<rparr>)"

text \<open>The counts are of the updates written and of those skipped.\<close>

fun flush_singles :: "queue \<Rightarrow> flush_env \<Rightarrow> nat \<Rightarrow> task_update list \<Rightarrow> nat \<times> nat \<Rightarrow> db_pool \<Rightarrow> hover_db
    \<Rightarrow> (nat \<times> nat) \<times> db_pool \<times> hover_db" where
  "flush_singles q E i [] c p d = (c, p, d)"
| "flush_singles q E i (u # us) (ok, bad) p d =
     (case Execute_tx q (fe_single E i) (single_tx (fe_pick E) (fe_now E) (tu_Task u)) p d of
        (Inl e, p', d') \<Rightarrow> flush_singles q E (Suc i) us (ok, Suc bad) p' d'
      | (Inr x, p', d') \<Rightarrow> flush_singles q E (Suc i) us (Suc ok, bad) p' d')"

definition flushIndividualUpdates :: "queue \<Rightarrow> flush_env \<Rightarrow> task_update list \<Rightarrow> db_pool \<Rightarrow> hover_db \<Rightarrow> (nat \<times> nat) \<times> db_pool \<times> hover_db" where
  "flushIndividualUpdates q E us p d = flush_singles q E 0 us (0, 0) p d"

section \<open>The manager\<close>

text \<open>\<open>bm_updates\<close> is the channel, oldest first; \<open>bm_batch\<close> the batch of the goroutine.\<close>

record batch_manager =
  bm_updates :: "task_update list"
  bm_overflow :: "(string \<times> task_update) list"
  bm_batch :: "task_update list"
  bm_fails :: nat

definition NewBatchManager :: batch_manager where
  "NewBatchManager = \<lparr>bm_updates = [], bm_overflow = [], bm_batch = [], bm_fails = 0\<rparr>"

definition QueueTaskUpdate :: "batch_settings \<Rightarrow> time \<Rightarrow> db_task \<Rightarrow> batch_manager \<Rightarrow> batch_manager" where
  "QueueTaskUpdate S now t bm =
     (let u = \<lparr>tu_Task = t, tu_UpdatedAt = now\<rparr> in
      if int (length (bm_updates bm)) < bs_ChannelSize S then bm\<lparr>bm_updates := bm_updates bm @ [u]\<rparr>
      else bm\<lparr>bm_overflow := AList.update (dt_ID t) u (bm_overflow bm)\<rparr>)"

definition popOverflowBatch :: "(string \<Rightarrow> nat) \<Rightarrow> int \<Rightarrow> (string \<times> task_update) list \<Rightarrow> task_update list \<times> (string \<times> task_update) list" where
  "popOverflowBatch rank limit ov =
     (if limit \<le> 0 then ([], ov)
      else let xs = sort_key (\<lambda>x. rank (fst x)) ov in (map snd (take (nat limit) xs), drop (nat limit) xs))"

text \<open>The closure \<open>flush\<close>.  A retryable error keeps the batch, and so do the first two data errors
  in a row; the third makes the fallback, after which the batch is dropped.\<close>

definition flush :: "queue \<Rightarrow> flush_env \<Rightarrow> batch_manager \<Rightarrow> db_pool \<Rightarrow> hover_db \<Rightarrow> batch_manager \<times> string list \<times> db_pool \<times> hover_db" where
  "flush q E bm p d =
     (if bm_batch bm = [] then (bm, [], p, d)
      else case flushTaskUpdates q E (bm_batch bm) p d of
        (None, us, jobs, p', d') \<Rightarrow> (bm\<lparr>bm_batch := [], bm_fails := 0\<rparr>, jobs, p', d')
      | (Some e, us, jobs, p', d') \<Rightarrow>
          if dbRetryable (Some e) then (bm\<lparr>bm_batch := us\<rparr>, jobs, p', d')
          else if Suc (bm_fails bm) \<ge> MaxConsecutiveFailures
          then (case flushIndividualUpdates q E us p' d' of
                  (c, p2, d2) \<Rightarrow> (bm\<lparr>bm_batch := [], bm_fails := 0\<rparr>, jobs, p2, d2))
          else (bm\<lparr>bm_batch := us, bm_fails := Suc (bm_fails bm)\<rparr>, jobs, p', d'))"

text \<open>The three cases of the loop.\<close>

definition on_update :: "batch_settings \<Rightarrow> queue \<Rightarrow> flush_env \<Rightarrow> batch_manager \<Rightarrow> db_pool \<Rightarrow> hover_db
    \<Rightarrow> batch_manager \<times> string list \<times> db_pool \<times> hover_db" where
  "on_update S q E bm p d =
     (case bm_updates bm of
        [] \<Rightarrow> (bm, [], p, d)
      | u # us \<Rightarrow>
          let bm' = bm\<lparr>bm_updates := us, bm_batch := bm_batch bm @ [u]\<rparr> in
          if int (length (bm_batch bm')) \<ge> bs_MaxBatchSize S then flush q E bm' p d else (bm', [], p, d))"

definition on_tick :: "batch_settings \<Rightarrow> queue \<Rightarrow> flush_env \<Rightarrow> (string \<Rightarrow> nat) \<Rightarrow> batch_manager \<Rightarrow> db_pool \<Rightarrow> hover_db
    \<Rightarrow> batch_manager \<times> string list \<times> db_pool \<times> hover_db" where
  "on_tick S q E rank bm p d =
     (case popOverflowBatch rank (bs_MaxBatchSize S - int (length (bm_batch bm))) (bm_overflow bm) of
        (us, rest) \<Rightarrow> flush q E (bm\<lparr>bm_batch := bm_batch bm @ us, bm_overflow := rest\<rparr>) p d)"

function drain_overflow :: "int \<Rightarrow> (string \<Rightarrow> nat) \<Rightarrow> task_update list \<Rightarrow> (string \<times> task_update) list \<Rightarrow> task_update list" where
  "drain_overflow maxb rank batch ov =
     (let limit = (if maxb - int (length batch) \<le> 0 then maxb else maxb - int (length batch));
          popped = popOverflowBatch rank limit ov
      in if fst popped = [] then batch else drain_overflow maxb rank (batch @ fst popped) (snd popped))"
  by pat_completeness auto

lemma pop_length:
  "length (fst (popOverflowBatch rank limit ov)) + length (snd (popOverflowBatch rank limit ov)) = length ov"
  by (auto simp: popOverflowBatch_def Let_def min_def)

termination drain_overflow
proof (relation "measure (\<lambda>(maxb, rank, batch, ov). length ov)")
  fix maxb :: int and rank :: "string \<Rightarrow> nat" and batch :: "task_update list" and ov x xa
  assume "xa = popOverflowBatch rank x ov" "fst xa \<noteq> []"
  then show "((maxb, rank, batch @ fst xa, snd xa), (maxb, rank, batch, ov)) \<in> measure (\<lambda>(maxb, rank, batch, ov). length ov)"
    using pop_length [of rank x ov] by (simp add: length_greater_0_conv [symmetric] del: length_greater_0_conv)
qed simp

declare drain_overflow.simps [simp del]

text \<open>The attempts of the final flush; the second component is the last error.\<close>

fun shutdown_flush :: "queue \<Rightarrow> flush_env list \<Rightarrow> task_update list \<Rightarrow> go_error option \<Rightarrow> db_pool \<Rightarrow> hover_db
    \<Rightarrow> task_update list \<times> go_error option \<times> db_pool \<times> hover_db" where
  "shutdown_flush q [] batch err p d = (batch, err, p, d)"
| "shutdown_flush q (E # Es) batch err p d =
     (if batch = [] then (batch, err, p, d)
      else case flushTaskUpdates q E batch p d of
        (None, us, jobs, p', d') \<Rightarrow> ([], None, p', d')
      | (Some e, us, jobs, p', d') \<Rightarrow> shutdown_flush q Es us (Some e) p' d')"

text \<open>\<open>Es\<close> holds one environment for each attempt, at most \<open>MaxShutdownRetries\<close> of which are used;
  \<open>E\<close> is that of the fallback.  The batch that remains is what the process loses.\<close>

definition on_stop :: "batch_settings \<Rightarrow> queue \<Rightarrow> (nat \<Rightarrow> flush_env) \<Rightarrow> flush_env \<Rightarrow> (string \<Rightarrow> nat) \<Rightarrow> batch_manager \<Rightarrow> db_pool \<Rightarrow> hover_db
    \<Rightarrow> batch_manager \<times> db_pool \<times> hover_db" where
  "on_stop S q Es E rank bm p d =
     (let batch = drain_overflow (bs_MaxBatchSize S) rank (bm_batch bm @ bm_updates bm) (bm_overflow bm);
          bm' = bm\<lparr>bm_updates := [], bm_overflow := []\<rparr>
      in case shutdown_flush q (map Es [0..<MaxShutdownRetries]) batch None p d of
        (us, None, p', d') \<Rightarrow> (bm'\<lparr>bm_batch := us\<rparr>, p', d')
      | (us, Some e, p', d') \<Rightarrow>
          if us = [] \<or> dbRetryable (Some e) then (bm'\<lparr>bm_batch := us\<rparr>, p', d')
          else (case flushIndividualUpdates q E us p' d' of (c, p2, d2) \<Rightarrow> (bm'\<lparr>bm_batch := []\<rparr>, p2, d2)))"

section \<open>Runs\<close>

datatype batch_event =
    Queued time db_task
  | Arrived flush_env
  | Ticked flush_env "string \<Rightarrow> nat"

definition batch_step :: "batch_settings \<Rightarrow> queue \<Rightarrow> batch_event \<Rightarrow> batch_manager \<times> db_pool \<times> hover_db \<Rightarrow> batch_manager \<times> db_pool \<times> hover_db" where
  "batch_step S q e s =
     (case (e, s) of
        (Queued now t, bm, p, d) \<Rightarrow> (QueueTaskUpdate S now t bm, p, d)
      | (Arrived E, bm, p, d) \<Rightarrow> (case on_update S q E bm p d of (bm', jobs, r) \<Rightarrow> (bm', r))
      | (Ticked E rank, bm, p, d) \<Rightarrow> (case on_tick S q E rank bm p d of (bm', jobs, r) \<Rightarrow> (bm', r)))"

section \<open>Statements keep the counters\<close>

lemma row_updates_same_key:
  "same_key (\<lambda>r. completed_row (g r) r)" "same_key (\<lambda>r. failed_update (g r) r)" "same_key (\<lambda>r. waiting_row (g r) r)"
  "same_key (\<lambda>r. pending_row (g r) r)" "same_key (\<lambda>r. skipped_row (g r) r)"
  by (simp_all add: same_key_def completed_row_def failed_update_def waiting_row_def pending_row_def skipped_row_def)

lemma batch_updates_keep [tx_keeps]:
  "keeps counters_ok (batchUpdateCompleted pick now i ts)" "keeps counters_ok (batchUpdateFailed pick now i ts)"
  "keeps counters_ok (batchUpdateWaiting pick now i ts)" "keeps counters_ok (batchUpdateSkipped pick now i ts)"
  "keeps counters_ok (batchUpdatePending pick now i ts)"
  unfolding batchUpdateCompleted_def batchUpdateFailed_def batchUpdateWaiting_def batchUpdateSkipped_def
    batchUpdatePending_def batch_update_def join_update_def
  by (intro tx_keeps update_tasks_counts row_updates_same_key, assumption)+

lemma increment_keeps [tx_keeps]: "keeps counters_ok (increment_each i xs)"
proof (induction xs arbitrary: i)
  case (Cons x xs)
  obtain org n where "x = (org, n)" by (rule prod.exhaust)
  then show ?case using Cons by (simp, intro tx_keeps) (simp add: increment_daily_usage_def outbox_only_counts)
qed (simp add: tx_keeps)

lemma usage_keeps [tx_keeps]: "keeps counters_ok (incrementDailyUsageForTasks i c f)"
  unfolding incrementDailyUsageForTasks_def by (intro tx_keeps)

lemma flush_tx_keeps: "keeps counters_ok (flush_tx pick now ts)"
  unfolding flush_tx_def by (intro tx_keeps)

lemma single_tx_keeps: "keeps counters_ok (single_tx pick now t)"
  unfolding single_tx_def by (cases "dt_Status t") (simp_all add: tx_keeps)

lemma flush_singles_keep:
  assumes "\<And>t. keeps P (single_tx (fe_pick E) (fe_now E) t)" "P d"
  shows "P (snd (snd (flush_singles q E i us c p d)))"
  using assms(2)
proof (induction us arbitrary: i c p d)
  case (Cons u us)
  obtain ok bad where c: "c = (ok, bad)" by (rule prod.exhaust)
  obtain r p' d' where r: "Execute_tx q (fe_single E i) (single_tx (fe_pick E) (fe_now E) (tu_Task u)) p d = (r, p', d')"
    by (rule prod_cases3)
  then have "P d'" using execute_tx_keeps [OF assms(1) Cons.prems, of q "fe_single E i" "tu_Task u" p] by simp
  then show ?case using Cons.IH by (cases r) (simp_all add: c r)
qed simp

lemma flush_batch_keeps:
  assumes "\<And>ts. keeps P (flush_tx (fe_pick E) (fe_now E) ts)" "P d"
  shows "P (snd (snd (snd (snd (flushTaskUpdates q E us p d)))))"
proof -
  have "P (snd (snd (Execute_tx q (fe_batch E) (flush_tx (fe_pick E) (fe_now E) ts) p d)))" for ts
    by (rule execute_tx_keeps [OF assms])
  then show ?thesis using assms(2)
    by (simp add: flushTaskUpdates_def Let_def split: prod.split sum.split) (metis snd_conv)
qed

lemma flush_keeps:
  assumes "\<And>ts. keeps P (flush_tx (fe_pick E) (fe_now E) ts)" "\<And>t. keeps P (single_tx (fe_pick E) (fe_now E) t)" "P d"
  shows "P (snd (snd (snd (flush q E bm p d))))"
proof (cases "bm_batch bm = []")
  case False
  obtain err us jobs p' d' where r: "flushTaskUpdates q E (bm_batch bm) p d = (err, us, jobs, p', d')" by (rule prod_cases5)
  then have d': "P d'" using flush_batch_keeps [OF assms(1,3), of q "bm_batch bm" p] by simp
  have "P (snd (snd (flushIndividualUpdates q E us p' d')))"
    unfolding flushIndividualUpdates_def by (rule flush_singles_keep [OF assms(2) d'])
  then show ?thesis using d' False
    by (cases err) (simp_all add: flush_def r case_prod_beta)
qed (simp add: flush_def assms(3))

lemma step_keeps_counters:
  assumes "counters_ok (snd (snd s))"
  shows "counters_ok (snd (snd (batch_step S q e s)))"
proof -
  obtain bm p d where s: "s = (bm, p, d)" by (rule prod_cases3)
  have fl: "counters_ok (snd (snd (snd (flush q E b p d))))" for E b
    by (rule flush_keeps) (use assms s flush_tx_keeps single_tx_keeps in auto)
  show ?thesis
  proof (cases e)
    case (Arrived E)
    then show ?thesis using assms fl
      by (simp add: batch_step_def s on_update_def Let_def case_prod_beta split: list.split)
  next
    case (Ticked E rank)
    then show ?thesis using fl by (simp add: batch_step_def s on_tick_def case_prod_beta)
  qed (use assms in \<open>simp add: batch_step_def s\<close>)
qed

text \<open>C3: Whatever the batch manager writes, however its transactions fail, are repeated or fall back to
  single updates, the counters of every job stay the counts of its tasks.\<close>

theorem batches_keep_counters:
  assumes "counters_ok d"
  shows "counters_ok (snd (snd (foldl (\<lambda>s e. batch_step S q e s) (bm, p, d) es)))"
proof -
  have "counters_ok (snd (snd s)) \<Longrightarrow> counters_ok (snd (snd (foldl (\<lambda>s e. batch_step S q e s) s es)))" for s
    by (induction es arbitrary: s) (simp_all add: step_keeps_counters)
  then show ?thesis using assms by simp
qed

section \<open>No update is lost while the manager runs\<close>

definition unstamped :: "task_update \<Rightarrow> db_task" where
  "unstamped u = (tu_Task u)\<lparr>dt_CompletedAt := None\<rparr>"

lemma unstamped_stamp [simp]: "unstamped (stamp now u) = unstamped u"
  by (simp add: unstamped_def stamp_def Let_def)

definition held :: "batch_manager \<Rightarrow> db_task multiset" where
  "held bm = mset (map unstamped (bm_updates bm @ map snd (bm_overflow bm) @ bm_batch bm))"

text \<open>The flush of just these updates under this event's environment reports success, and has left the
  database the event ends with; or it reports an error that counts as bad data.\<close>

definition flush_done :: "queue \<Rightarrow> flush_env \<Rightarrow> task_update list \<Rightarrow> db_pool \<Rightarrow> hover_db \<Rightarrow> hover_db \<Rightarrow> bool" where
  "flush_done q E us p d d' \<longleftrightarrow> (\<exists>us' jobs p'. flushTaskUpdates q E us p d = (None, us', jobs, p', d'))"

definition flush_rejected :: "queue \<Rightarrow> flush_env \<Rightarrow> task_update list \<Rightarrow> db_pool \<Rightarrow> hover_db \<Rightarrow> bool" where
  "flush_rejected q E us p d \<longleftrightarrow>
     (\<exists>e us' jobs r. flushTaskUpdates q E us p d = (Some e, us', jobs, r) \<and> \<not> dbRetryable (Some e))"

lemma flush_stamps:
  assumes "flushTaskUpdates q E us p d = (err, us', jobs, r)"
  shows "mset (map unstamped us') = mset (map unstamped us)"
  using assms by (auto simp: flushTaskUpdates_def Let_def image_mset.compositionality comp_def split: if_splits prod.splits sum.splits)

lemma flush_holds:
  assumes "flush q E bm p d = (bm', js, p2, d2)"
  shows "held bm' = held bm \<or>
    held bm = held bm' + mset (map unstamped (bm_batch bm)) \<and> bm_batch bm' = [] \<and>
      (flush_done q E (bm_batch bm) p d d2 \<or> flush_rejected q E (bm_batch bm) p d \<and> 2 \<le> bm_fails bm)"
proof (cases "bm_batch bm = []")
  case False
  obtain err us jobs p' d' where f: "flushTaskUpdates q E (bm_batch bm) p d = (err, us, jobs, p', d')" by (rule prod_cases5)
  then have us: "mset (map unstamped us) = mset (map unstamped (bm_batch bm))" by (rule flush_stamps)
  show ?thesis
  proof (cases err)
    case None
    then show ?thesis using assms f False by (auto simp: flush_def held_def flush_done_def)
  next
    case (Some e)
    show ?thesis
    proof (cases "dbRetryable (Some e)")
      case True
      then have "bm' = bm\<lparr>bm_batch := us\<rparr>" using assms f False Some by (auto simp: flush_def)
      then show ?thesis using us by (simp add: held_def)
    next
      case bad: False
      show ?thesis
      proof (cases "Suc (bm_fails bm) \<ge> MaxConsecutiveFailures")
        case True
        then have "bm' = bm\<lparr>bm_batch := [], bm_fails := 0\<rparr>" using assms f False Some bad
          by (auto simp: flush_def split: prod.splits)
        then show ?thesis using bad f Some True by (auto simp: held_def flush_rejected_def MaxConsecutiveFailures_def)
      next
        case few: False
        then have "bm' = bm\<lparr>bm_batch := us, bm_fails := Suc (bm_fails bm)\<rparr>" using assms f False Some bad
          by (auto simp: flush_def)
        then show ?thesis using us by (simp add: held_def)
      qed
    qed
  qed
qed (use assms in \<open>simp add: flush_def\<close>)

lemma pop_holds:
  assumes "popOverflowBatch rank limit ov = (us, rest)"
  shows "mset (map unstamped us) + mset (map unstamped (map snd rest)) = mset (map unstamped (map snd ov))"
proof (cases "limit \<le> 0")
  case False
  let ?xs = "sort_key (\<lambda>x. rank (fst x)) ov"
  have "us = map snd (take (nat limit) ?xs)" "rest = drop (nat limit) ?xs"
    using assms False by (simp_all add: popOverflowBatch_def Let_def)
  then have "mset (map unstamped us) + mset (map unstamped (map snd rest)) =
      mset (map (unstamped \<circ> snd) (take (nat limit) ?xs @ drop (nat limit) ?xs))"
    by (simp only: map_append mset_append map_map)
  then show ?thesis unfolding append_take_drop_id by simp
qed (use assms in \<open>simp add: popOverflowBatch_def\<close>)

lemma update_holds:
  assumes "on_update S q E bm p d = (bm', js, p2, d2)"
  shows "held bm' = held bm \<or> (\<exists>us. held bm = held bm' + mset (map unstamped us) \<and> bm_batch bm' = [] \<and>
     (flush_done q E us p d d2 \<or> flush_rejected q E us p d \<and> 2 \<le> bm_fails bm))"
proof (cases "bm_updates bm")
  case Nil
  then show ?thesis using assms by (simp add: on_update_def)
next
  case (Cons u us)
  let ?bm = "bm\<lparr>bm_updates := us, bm_batch := bm_batch bm @ [u]\<rparr>"
  have h: "held ?bm = held bm" by (simp add: held_def Cons)
  show ?thesis
  proof (cases "int (length (bm_batch ?bm)) \<ge> bs_MaxBatchSize S")
    case True
    then have "flush q E ?bm p d = (bm', js, p2, d2)" using assms by (simp add: on_update_def Cons Let_def)
    from flush_holds [OF this] show ?thesis unfolding h by auto
  next
    case False
    then have "bm' = ?bm" using assms by (simp add: on_update_def Cons Let_def)
    then show ?thesis using h by simp
  qed
qed

lemma tick_holds:
  assumes "on_tick S q E rank bm p d = (bm', js, p2, d2)"
  shows "held bm' = held bm \<or> (\<exists>us. held bm = held bm' + mset (map unstamped us) \<and> bm_batch bm' = [] \<and>
     (flush_done q E us p d d2 \<or> flush_rejected q E us p d \<and> 2 \<le> bm_fails bm))"
proof -
  obtain us rest where pop: "popOverflowBatch rank (bs_MaxBatchSize S - int (length (bm_batch bm))) (bm_overflow bm) = (us, rest)"
    by (rule prod.exhaust)
  let ?bm = "bm\<lparr>bm_batch := bm_batch bm @ us, bm_overflow := rest\<rparr>"
  have h: "held ?bm = held bm" using pop_holds [OF pop] by (simp add: held_def ac_simps)
  have "flush q E ?bm p d = (bm', js, p2, d2)" using assms by (simp add: on_tick_def pop)
  from flush_holds [OF this] show ?thesis unfolding h by auto
qed

text \<open>The older update of the same task that a queued one replaces: only the overflow map replaces, when
  the channel is full.\<close>

definition superseded :: "batch_settings \<Rightarrow> db_task \<Rightarrow> batch_manager \<Rightarrow> db_task multiset" where
  "superseded S t bm =
     (if int (length (bm_updates bm)) < bs_ChannelSize S then {#}
      else case map_of (bm_overflow bm) (dt_ID t) of None \<Rightarrow> {#} | Some u \<Rightarrow> {# unstamped u #})"

lemma overflow_update:
  "mset (map (\<lambda>x. unstamped (snd x)) (AList.update k u al)) +
     (case map_of al k of None \<Rightarrow> {#} | Some v \<Rightarrow> {# unstamped v #}) =
   mset (map (\<lambda>x. unstamped (snd x)) al) + {# unstamped u #}"
  by (induction al) auto

lemma queued_holds:
  "held (QueueTaskUpdate S now t bm) + superseded S t bm = held bm + {# t\<lparr>dt_CompletedAt := None\<rparr> #}"
  using overflow_update [of "dt_ID t" "\<lparr>tu_Task = t, tu_UpdatedAt = now\<rparr>" "bm_overflow bm"]
  by (simp add: QueueTaskUpdate_def superseded_def Let_def held_def unstamped_def comp_def ac_simps)

definition leaves_by_flush :: "queue \<Rightarrow> flush_env \<Rightarrow> batch_manager \<Rightarrow> db_pool \<Rightarrow> hover_db \<Rightarrow> batch_manager \<Rightarrow> hover_db \<Rightarrow> bool" where
  "leaves_by_flush q E bm p d bm' d' \<longleftrightarrow>
     held bm' = held bm \<or>
     (\<exists>us. held bm = held bm' + mset (map unstamped us) \<and> bm_batch bm' = [] \<and>
        (flush_done q E us p d d' \<or> flush_rejected q E us p d \<and> 2 \<le> bm_fails bm))"

text \<open>C7: What the running manager holds, event by event.  An update that is queued is held, and takes
  the place of an older update only when the channel is full and the overflow map has one of the same
  task.  When an update arrives at the goroutine or the ticker fires, everything stays held, or the
  updates of one batch leave: the flush of exactly this batch in this very event reports success and
  leaves the database of the event, or it is the third flush in a row that the database rejects as
  bad data.  A retryable error or a full batch never drops an update.\<close>

theorem batch_holds_until_flushed:
  "case batch_step S q e (bm, p, d) of (bm', p', d') \<Rightarrow>
     (case e of
        Queued now t \<Rightarrow> held bm' + superseded S t bm = held bm + {# t\<lparr>dt_CompletedAt := None\<rparr> #} \<and> d' = d
      | Arrived E \<Rightarrow> leaves_by_flush q E bm p d bm' d'
      | Ticked E rank \<Rightarrow> leaves_by_flush q E bm p d bm' d')"
proof (cases e)
  case (Queued now t)
  then show ?thesis by (simp add: batch_step_def queued_holds)
next
  case (Arrived E)
  obtain bm' jobs p' d' where o: "on_update S q E bm p d = (bm', jobs, p', d')" by (rule prod_cases4)
  then show ?thesis using update_holds [OF o] by (simp add: batch_step_def Arrived leaves_by_flush_def)
next
  case (Ticked E rank)
  obtain bm' jobs p' d' where o: "on_tick S q E rank bm p d = (bm', jobs, p', d')" by (rule prod_cases4)
  then show ?thesis using tick_holds [OF o] by (simp add: batch_step_def Ticked leaves_by_flush_def)
qed

section \<open>What a successful flush writes\<close>

text \<open>A fault can only make a transaction fail: one that succeeds has met none.\<close>

definition faults_fail :: "('a, 'd) tx \<Rightarrow> bool" where
  "faults_fail m \<longleftrightarrow> (\<forall>F d x d'. m F d = (Inr x, d') \<longrightarrow> m (\<lambda>i. None) d = (Inr x, d'))"

lemma faults_fail_exec: "faults_fail (tx_exec i g)"
  by (simp add: faults_fail_def tx_exec_def tx_stmt_def split: option.splits)

lemma faults_fail_query: "faults_fail (tx_query i g)"
  by (auto simp: faults_fail_def tx_query_def tx_stmt_def split: option.splits)

lemma faults_fail_return: "faults_fail (tx_return x)"
  by (simp add: faults_fail_def tx_return_def)

lemma faults_fail_bind: "faults_fail m \<Longrightarrow> (\<And>x. faults_fail (k x)) \<Longrightarrow> faults_fail (tx_bind m k)"
  by (fastforce simp: faults_fail_def tx_bind_def split: prod.splits sum.splits)

lemma faults_fail_wrap: "faults_fail m \<Longrightarrow> faults_fail (tx_wrap p m)"
  by (fastforce simp: faults_fail_def tx_wrap_def split: prod.splits sum.splits)

lemma faults_fail_if: "(b \<Longrightarrow> faults_fail m) \<Longrightarrow> (\<not> b \<Longrightarrow> faults_fail n) \<Longrightarrow> faults_fail (if b then m else n)"
  by simp

lemmas faults_fail_rules = faults_fail_exec faults_fail_query faults_fail_return faults_fail_bind faults_fail_wrap faults_fail_if

lemma faults_fail_increment: "faults_fail (increment_each i xs)"
proof (induction xs arbitrary: i)
  case (Cons x xs)
  obtain org n where "x = (org, n)" by (rule prod.exhaust)
  then show ?case using Cons by (simp, intro faults_fail_rules)
qed (simp add: faults_fail_return)

lemma flush_faults_fail: "faults_fail (flush_tx pick now ts)"
  unfolding flush_tx_def incrementDailyUsageForTasks_def batchUpdateCompleted_def batchUpdateFailed_def
    batchUpdateSkipped_def batchUpdatePending_def batchUpdateWaiting_def batch_update_def
  by (intro faults_fail_rules faults_fail_increment)

lemma changed_same [simp]: "changed j ts ts = []"
  by (induction ts) (auto simp: changed_def)

lemma join_nil: "join_update pick now [] f d = d"
proof -
  have "fire_update now (db_tasks d) (db_tasks d) (db_jobs d) = db_jobs d"
    by (auto simp: fire_update_def split: option.splits)
  then show ?thesis by (simp add: join_update_def update_tasks_def)
qed

definition written :: "(db_task list \<Rightarrow> db_task) \<Rightarrow> time \<Rightarrow> db_task list \<Rightarrow> hover_db \<Rightarrow> hover_db" where
  "written pick now ts d =
     (let d1 = join_update pick now (with_status Completed ts) completed_row d;
          d2 = join_update pick now (with_status Failed ts) failed_update d1;
          d3 = join_update pick now (with_status Skipped ts) skipped_row d2;
          d4 = join_update pick now (with_status Pending ts) pending_row d3
      in join_update pick now (with_status Waiting ts) waiting_row d4)"

definition billed :: "(string \<times> int) list \<Rightarrow> hover_db \<Rightarrow> hover_db" where
  "billed xs d = foldl (\<lambda>d (org, n). increment_daily_usage org n d) d xs"

lemma batch_update_clean: "batch_update f pick now i ts (\<lambda>i. None) d = (Inr (), join_update pick now ts f d)"
  by (simp add: batch_update_def tx_defs join_nil)

lemma increment_clean: "increment_each i xs (\<lambda>i. None) d = (Inr (), billed xs d)"
  by (induction xs arbitrary: i d) (auto simp: billed_def tx_defs)

lemma orgCounts_nil: "orgCounts d [] = []"
  by (simp add: orgCounts_def List.map_filter_simps)

lemma usage_clean:
  "incrementDailyUsageForTasks i c f (\<lambda>i. None) d = (Inr (), billed (orgCounts d (c @ f)) d)"
  by (cases "c @ f = []")
     (auto simp: incrementDailyUsageForTasks_def tx_defs increment_clean orgCounts_nil billed_def)

lemma flush_clean:
  "flush_tx pick now ts (\<lambda>i. None) d =
    (Inr (), billed (orgCounts (written pick now ts d) (with_status Completed ts @ with_status Failed ts)) (written pick now ts d))"
  unfolding flush_tx_def batchUpdateCompleted_def batchUpdateFailed_def batchUpdateSkipped_def
    batchUpdatePending_def batchUpdateWaiting_def
  by (simp add: tx_bind_def tx_wrap_def batch_update_clean usage_clean written_def Let_def)

lemma flush_success:
  assumes "flush_tx pick now ts F d = (Inr x, d')"
  shows "d' = billed (orgCounts (written pick now ts d) (with_status Completed ts @ with_status Failed ts)) (written pick now ts d)"
proof -
  have "flush_tx pick now ts (\<lambda>i. None) d = (Inr x, d')" using assms flush_faults_fail unfolding faults_fail_def by blast
  then show ?thesis by (simp add: flush_clean)
qed

lemma billed_sel [simp]: "db_tasks (billed xs d) = db_tasks d" "db_jobs (billed xs d) = db_jobs d"
  by (induction xs arbitrary: d) (auto simp: billed_def increment_daily_usage_def)

lemma join_tasks [simp]:
  "db_tasks (join_update pick now ts f d) =
    map (\<lambda>r. if tr_ID r \<in> dt_ID ` set ts then f (pick (filter (\<lambda>t. dt_ID t = tr_ID r) ts)) r else r) (db_tasks d)"
  by (simp add: join_update_def)

definition picks :: "(db_task list \<Rightarrow> db_task) \<Rightarrow> bool" where
  "picks pick \<longleftrightarrow> (\<forall>ts. ts \<noteq> [] \<longrightarrow> pick ts \<in> set ts)"

lemma picked:
  assumes "picks pick" "k \<in> dt_ID ` set ts"
  shows "pick (filter (\<lambda>t. dt_ID t = k) ts) \<in> set ts"
proof -
  have "filter (\<lambda>t. dt_ID t = k) ts \<noteq> []" using assms(2) by (auto simp: filter_empty_conv)
  then show ?thesis using assms(1) unfolding picks_def by (metis filter_is_subset subset_iff)
qed

text \<open>C33: Within one flush a retry always wins over a result: if a batch holds a waiting update of a
  task, the task ends up waiting, even when the batch also holds the completion that came after it.\<close>

theorem stale_retry_wins:
  assumes "picks pick" "w \<in> set ts" "dt_Status w = Waiting" "flush_tx pick now ts F d = (Inr x, d')"
    "r \<in> set (db_tasks d')" "tr_ID r = dt_ID w"
  shows "tr_Status r = Waiting"
proof -
  have w: "dt_ID w \<in> dt_ID ` set (with_status Waiting ts)" using assms(2,3) by (auto simp: with_status_def)
  obtain d4 where d4: "db_tasks d' = db_tasks (join_update pick now (with_status Waiting ts) waiting_row d4)"
    unfolding flush_success [OF assms(4)] billed_sel written_def Let_def by blast
  then obtain r0 where r0: "r = (if tr_ID r0 \<in> dt_ID ` set (with_status Waiting ts)
      then waiting_row (pick (filter (\<lambda>t. dt_ID t = tr_ID r0) (with_status Waiting ts))) r0 else r0)"
    using assms(5) unfolding d4 join_tasks set_map by blast
  then have "tr_ID r0 = dt_ID w" using assms(6) by (auto simp: waiting_row_def split: if_splits)
  moreover have "pick (filter (\<lambda>t. dt_ID t = dt_ID w) (with_status Waiting ts)) \<in> set (with_status Waiting ts)"
    by (rule picked [OF assms(1) w])
  ultimately show ?thesis using r0 w by (auto simp: waiting_row_def with_status_def)
qed

section \<open>Billing\<close>

lemma update_org: "map_option jr_OrgID (db_jobs (update_tasks now sel f d) j) = map_option jr_OrgID (db_jobs d j)"
  by (auto simp: update_tasks_def fire_update_def update_job_counters_status_batch_def Let_def split: option.splits)

lemma org_same:
  assumes "\<And>j. map_option jr_OrgID (db_jobs d' j) = map_option jr_OrgID (db_jobs d j)"
  shows "org_of_task d' t = org_of_task d t"
  using assms [of "dt_JobID t"] by (auto simp: org_of_task_def split: option.splits)

lemma written_org: "org_of_task (written pick now ts d) t = org_of_task d t"
  by (rule org_same) (simp add: written_def Let_def join_update_def update_org)

lemma written_usage: "db_usage (written pick now ts d) = db_usage d"
  by (simp add: written_def Let_def join_update_def)

lemma billed_usage: "db_usage (billed xs d) org = db_usage d org + sum_list (map snd (filter (\<lambda>x. fst x = org) xs))"
  by (induction xs arbitrary: d) (auto simp: billed_def increment_daily_usage_def)

lemma orgs_of: "set (List.map_filter f xs) = {y. \<exists>x \<in> set xs. f x = Some y}"
  by (induction xs) (auto simp: List.map_filter_simps split: option.splits)

lemma one_per_org:
  "distinct os \<Longrightarrow> sum_list (map snd (filter (\<lambda>x. fst x = org) (map (\<lambda>k. (k, g k)) os))) = (if org \<in> set os then g org else (0 :: int))"
  by (induction os) auto

lemma orgCounts_org:
  "sum_list (map snd (filter (\<lambda>x. fst x = org) (orgCounts d ts))) = int (length (filter (\<lambda>t. org_of_task d t = Some org) ts))"
proof -
  have "org \<notin> set (List.map_filter (org_of_task d) ts) \<Longrightarrow> filter (\<lambda>t. org_of_task d t = Some org) ts = []"
    by (auto simp: orgs_of filter_empty_conv)
  then show ?thesis unfolding orgCounts_def by (subst one_per_org) auto
qed

lemma finished_count:
  "length (filter Q (with_status Completed ts @ with_status Failed ts)) =
    length (filter (\<lambda>t. dt_Status t \<in> {Completed, Failed} \<and> Q t) ts)"
  by (induction ts) (auto simp: with_status_def)

text \<open>A flush that succeeds bills each organisation one page for every completed or failed update of
  its jobs, and nobody else.\<close>

theorem flush_bills_each_page:
  assumes "flush_tx pick now ts F d = (Inr x, d')"
  shows "db_usage d' org = db_usage d org +
    int (length (filter (\<lambda>t. dt_Status t \<in> {Completed, Failed} \<and> org_of_task d t = Some org) ts))"
  unfolding flush_success [OF assms] billed_usage orgCounts_org finished_count written_org written_usage by (rule refl)

lemma single_usage: "keeps (\<lambda>d. db_usage d = u) (single_tx pick now t)"
proof -
  have "keeps (\<lambda>d. db_usage d = u) (batch_update f pick now i ts)" for f i ts
    unfolding batch_update_def join_update_def by (intro tx_keeps) simp
  then show ?thesis unfolding single_tx_def batchUpdateCompleted_def batchUpdateFailed_def batchUpdateSkipped_def
      batchUpdatePending_def batchUpdateWaiting_def by (cases "dt_Status t") (simp_all add: keeps_fail)
qed

text \<open>What the fallback writes is never billed: it leaves the usage of every organisation alone.\<close>

theorem fallback_bills_nothing: "db_usage (snd (snd (flushIndividualUpdates q E us p d))) = db_usage d"
  unfolding flushIndividualUpdates_def by (rule flush_singles_keep [where P = "\<lambda>x. db_usage x = db_usage d", OF single_usage refl])

section \<open>A flush that overtakes the links\<close>

lemma written_completed_only:
  assumes "dt_Status home = Completed"
  shows "written pick now [home] d = join_update pick now [home] completed_row d"
  using assms by (simp add: written_def with_status_def join_nil Let_def)

text \<open>C32: The result of a task is queued before the links of its page are enqueued.  When the flush
  comes first and every other task of the running job has ended, the trigger completes the job.  The
  links that are enqueued afterwards are then dropped: the database stays exactly as it is, and no
  error is returned unless the attempts of the transaction are disturbed or the pool is saturated.\<close>

theorem early_flush_drops_links:
  assumes "counters_ok d" "db_jobs d j = Some r" "jr_Status r = JRunning" "t \<in> set (tasks_of j d)" "tr_Status t = Pending"
    and others: "\<And>u. u \<in> set (tasks_of j d) \<Longrightarrow> tr_ID u \<noteq> tr_ID t \<Longrightarrow> terminal_task u"
    and home: "dt_ID home = tr_ID t" "dt_Status home = Completed"
    and flushed: "flush_tx pick now [home] F d = (Inr x, d1)"
    and links: "EnqueueURLs q E A A' j pages srcType srcURL now' p d1 = (e, p', d2)"
  shows "(\<exists>r1. db_jobs d1 j = Some r1 \<and> jr_Status r1 = JCompleted) \<and> d2 = d1 \<and>
    (e = None \<or> (\<exists>k. disturbed (A k)) \<or> e = Some ErrPoolSaturated)"
proof -
  let ?f = "\<lambda>r. completed_row (pick (filter (\<lambda>t. dt_ID t = tr_ID r) [home])) r"
  let ?u = "update_tasks now (\<lambda>r. tr_ID r \<in> set (map dt_ID [home])) ?f d"
  have d1: "db_jobs d1 = db_jobs ?u" "db_tasks d1 = db_tasks ?u"
    unfolding flush_success [OF flushed] billed_sel written_completed_only [OF home(2)] join_update_def by (rule refl)+
  have t: "t \<in> set (db_tasks d)" "tr_JobID t = j" using assms(4) by (auto simp: tasks_of_def)
  have all: "terminal_task u" if "u \<in> set (tasks_of j ?u)" for u
  proof -
    obtain v where v: "v \<in> set (db_tasks d)" "u = (if tr_ID v \<in> set (map dt_ID [home]) then ?f v else v)" "tr_JobID u = j"
      using \<open>u \<in> set (tasks_of j ?u)\<close> by (auto simp: tasks_of_def)
    then have "v \<in> set (tasks_of j d)" by (auto simp: tasks_of_def completed_row_def split: if_splits)
    then show ?thesis using v(2) others home(1) by (auto simp: terminal_task_def completed_row_def split: if_splits)
  qed
  have "\<exists>r'. db_jobs ?u j = Some r' \<and> (jr_Status r' = JCompleted \<longleftrightarrow> (\<forall>u \<in> set (tasks_of j ?u). terminal_task u)) \<and>
      (jr_Status r' \<noteq> JCompleted \<longrightarrow> jr_Status r' = jr_Status r)"
    by (rule update_completes [OF row_updates_same_key(1) assms(1,2) _ t])
       (use assms(3,5) home(1) in \<open>simp_all add: completed_row_def\<close>)
  then obtain r1 where r1: "db_jobs d1 j = Some r1" "jr_Status r1 = JCompleted" unfolding d1 using all by blast
  then have ended: "IsTerminalJobStatus (jr_Status r1)" by (simp add: IsTerminalJobStatus_def terminalJobStatuses_def)
  have "\<forall>u \<in> set (tasks_of j d1). terminal_task u" using all by (simp add: tasks_of_def d1)
  then show ?thesis using r1 ended_job_silent [OF r1(1) ended links] by blast
qed

section \<open>An update the database refuses\<close>

text \<open>The database refuses the statement for the updates of one status, in every attempt of the flush.  No
  error has the type \<open>*pq.Error\<close>: the connections are those of \<open>pgx\<close>.\<close>

definition status_stmt :: "task_status \<Rightarrow> nat" where
  "status_stmt st = (case st of Completed \<Rightarrow> 0 | Failed \<Rightarrow> 1 | Skipped \<Rightarrow> 2 | Pending \<Rightarrow> 3 | Waiting \<Rightarrow> 4 | Running \<Rightarrow> 5)"

definition refuses :: "task_status \<Rightarrow> flush_env \<Rightarrow> bool" where
  "refuses st E \<longleftrightarrow> (\<forall>k. pgx_attempt (fe_batch E k) \<and> at_stmts (fe_batch E k) (status_stmt st) \<noteq> None)"

text \<open>Transactions whose errors all come from their statements.\<close>

definition stmt_errors :: "('a, 'd) tx \<Rightarrow> bool" where
  "stmt_errors m \<longleftrightarrow> (\<forall>F d e d'. m F d = (Inl e, d') \<longrightarrow> (\<forall>i. pred_option no_pq (F i)) \<longrightarrow> no_pq e)"

lemma stmt_errors_exec: "stmt_errors (tx_exec i g)"
  by (auto simp: stmt_errors_def tx_exec_def tx_stmt_def split: option.splits) (metis option.pred_inject(2))

lemma stmt_errors_query: "(\<And>d e. g d \<noteq> Inl e) \<Longrightarrow> stmt_errors (tx_query i g)"
  by (auto simp: stmt_errors_def tx_query_def tx_stmt_def split: option.splits) (metis option.pred_inject(2))

lemma stmt_errors_return: "stmt_errors (tx_return x)"
  by (simp add: stmt_errors_def tx_return_def)

lemma stmt_errors_bind: "stmt_errors m \<Longrightarrow> (\<And>x. stmt_errors (k x)) \<Longrightarrow> stmt_errors (tx_bind m k)"
  by (fastforce simp: stmt_errors_def tx_bind_def split: prod.splits sum.splits)

lemma stmt_errors_wrap: "stmt_errors m \<Longrightarrow> stmt_errors (tx_wrap s m)"
  by (fastforce simp: stmt_errors_def tx_wrap_def split: prod.splits sum.splits)

lemma stmt_errors_if: "stmt_errors m \<Longrightarrow> stmt_errors n \<Longrightarrow> stmt_errors (if b then m else n)"
  by simp

lemmas stmt_errors_rules = stmt_errors_exec stmt_errors_query stmt_errors_return stmt_errors_bind stmt_errors_wrap stmt_errors_if

lemma increment_stmt_errors: "stmt_errors (increment_each i xs)"
proof (induction xs arbitrary: i)
  case (Cons x xs)
  obtain org n where "x = (org, n)" by (rule prod.exhaust)
  then show ?case using Cons by (simp, intro stmt_errors_rules)
qed (simp add: stmt_errors_return)

lemma flush_stmt_errors: "stmt_errors (flush_tx pick now ts)"
  unfolding flush_tx_def incrementDailyUsageForTasks_def batchUpdateCompleted_def batchUpdateFailed_def
    batchUpdateSkipped_def batchUpdatePending_def batchUpdateWaiting_def batch_update_def
  by (intro stmt_errors_rules increment_stmt_errors) simp

lemma refused_statement:
  assumes "F (status_stmt st) \<noteq> None" "t \<in> set ts" "dt_Status t = st" "st \<noteq> Running"
  shows "\<exists>e d'. flush_tx pick now ts F d = (Inl e, d')"
proof -
  have ne: "with_status st ts \<noteq> []" using assms(2,3) by (auto simp: with_status_def filter_empty_conv)
  have stop: "\<exists>e d'. tx_bind m k F d = (Inl e, d')" if "\<And>x d. \<exists>e d'. k x F d = (Inl e, d')"
    for m :: "(unit, hover_db) tx" and k :: "unit \<Rightarrow> (unit, hover_db) tx" and d
    using that by (cases "m F d") (auto simp: tx_bind_def split: sum.split)
  have here: "\<exists>e d'. tx_bind (tx_wrap s (batch_update f pick now (status_stmt st) (with_status st ts))) k F d = (Inl e, d')"
    for s f and k :: "unit \<Rightarrow> (unit, hover_db) tx" and d
    using assms(1) ne by (auto simp: tx_bind_def tx_wrap_def batch_update_def tx_exec_def tx_stmt_def)
  show ?thesis
  proof (cases st)
    case Pending
    note h = here [unfolded Pending status_stmt_def task_status.case]
    show ?thesis unfolding flush_tx_def batchUpdatePending_def by (intro h stop)
  next
    case Running
    then show ?thesis using assms(4) by simp
  next
    case Waiting
    note h = here [unfolded Waiting status_stmt_def task_status.case]
    show ?thesis unfolding flush_tx_def batchUpdateWaiting_def by (intro h stop)
  next
    case Completed
    note h = here [unfolded Completed status_stmt_def task_status.case]
    show ?thesis unfolding flush_tx_def batchUpdateCompleted_def by (intro h stop)
  next
    case Failed
    note h = here [unfolded Failed status_stmt_def task_status.case]
    show ?thesis unfolding flush_tx_def batchUpdateFailed_def by (intro h stop)
  next
    case Skipped
    note h = here [unfolded Skipped status_stmt_def task_status.case]
    show ?thesis unfolding flush_tx_def batchUpdateSkipped_def by (intro h stop)
  qed
qed

lemma refused_flush:
  assumes "refuses st E" "u \<in> set us" "dt_Status (tu_Task u) = st" "st \<noteq> Running"
  shows "\<exists>e p'. flushTaskUpdates q E us p d = (Some e, map (stamp (fe_now E)) us, [], p', d) \<and> no_pq e"
proof -
  let ?ts = "map tu_Task (map (stamp (fe_now E)) us)"
  let ?fn = "flush_tx (fe_pick E) (fe_now E) ?ts"
  have A: "pgx_attempt (fe_batch E k)" "at_stmts (fe_batch E k) (status_stmt st) \<noteq> None" for k
    using assms(1) by (simp_all add: refuses_def)
  have t: "tu_Task (stamp (fe_now E) u) \<in> set ?ts" "dt_Status (tu_Task (stamp (fe_now E) u)) = st"
    using assms(2,3) by (simp, simp add: stamp_def Let_def)
  have "\<exists>e. executeOnceWithContext (fe_batch E k) ?fn d = (Inl e, d) \<and> no_pq e" for k
  proof -
    obtain e d' where m: "?fn (at_stmts (fe_batch E k)) d = (Inl e, d')"
      using refused_statement [where F = "at_stmts (fe_batch E k)", OF A(2) t assms(4)] by blast
    then have "no_pq e" using flush_stmt_errors A(1) [of k] unfolding stmt_errors_def pgx_attempt_def by blast
    then show ?thesis using A(1) [of k] m
      by (auto simp: executeOnceWithContext_def pgx_attempt_def split: option.split)
  qed
  then have "\<exists>e p'. Execute_tx q (fe_batch E) ?fn p d = (Inl e, p', d) \<and> no_pq e"
    unfolding Execute_tx_def executeWithContextLane_def by (rule failing_attempts) (use A(1) in simp_all)
  moreover have "us \<noteq> []" using assms(2) by auto
  ultimately show ?thesis by (auto simp: flushTaskUpdates_def Let_def)
qed

text \<open>The batch still starts with the updates it had, the database is untouched, and the count of data
  errors, which would start the fallback, has not moved.\<close>

definition stuck_behind :: "batch_manager \<Rightarrow> hover_db \<Rightarrow> batch_manager \<times> db_pool \<times> hover_db \<Rightarrow> bool" where
  "stuck_behind bm d s \<longleftrightarrow>
     (case s of (bm', p', d') \<Rightarrow> d' = d \<and> bm_fails bm' = bm_fails bm \<and>
        (\<exists>vs. map unstamped (bm_batch bm') = map unstamped (bm_batch bm) @ vs))"

definition event_env :: "batch_event \<Rightarrow> flush_env option" where
  "event_env e = (case e of Queued now t \<Rightarrow> None | Arrived E \<Rightarrow> Some E | Ticked E rank \<Rightarrow> Some E)"

lemma unstamped_status: "dt_Status (unstamped u) = dt_Status (tu_Task u)"
  by (simp add: unstamped_def)

lemma stuck_status:
  assumes "map unstamped us' = map unstamped us @ vs" "u \<in> set us"
  shows "\<exists>u' \<in> set us'. dt_Status (tu_Task u') = dt_Status (tu_Task u)"
proof -
  have "unstamped u \<in> set (map unstamped us')" using assms by auto
  then obtain u' where "u' \<in> set us'" "unstamped u' = unstamped u" by auto
  then show ?thesis using unstamped_status by metis
qed

lemma refused_flush_keeps:
  assumes "refuses st E" "u \<in> set (bm_batch bm)" "dt_Status (tu_Task u) = st" "st \<noteq> Running"
  shows "\<exists>p'. flush q E bm p d = (bm\<lparr>bm_batch := map (stamp (fe_now E)) (bm_batch bm)\<rparr>, [], p', d)"
proof -
  obtain e p' where f: "flushTaskUpdates q E (bm_batch bm) p d = (Some e, map (stamp (fe_now E)) (bm_batch bm), [], p', d)" "no_pq e"
    using refused_flush [OF assms] by blast
  have "bm_batch bm \<noteq> []" using assms(2) by auto
  then show ?thesis using f no_pq_retryable [OF f(2)] by (auto simp: flush_def)
qed

lemma stuck_step:
  assumes stuck: "stuck_behind bm d s" and u: "u \<in> set (bm_batch bm)" "dt_Status (tu_Task u) = st" "st \<noteq> Running"
    and E: "pred_option (refuses st) (event_env e)"
  shows "stuck_behind bm d (batch_step S q e s)"
proof -
  obtain bm1 p1 vs where s: "s = (bm1, p1, d)" "bm_fails bm1 = bm_fails bm"
      "map unstamped (bm_batch bm1) = map unstamped (bm_batch bm) @ vs"
    using stuck by (cases s) (auto simp: stuck_behind_def)
  have keep: "stuck_behind bm d (case flush q E' b p1 d of (bm', jobs, r) \<Rightarrow> (bm', r))"
    if "refuses st E'" "bm_batch b = bm_batch bm1 @ zs" "bm_fails b = bm_fails bm1" for E' b zs
  proof -
    obtain u' where u': "u' \<in> set (bm_batch bm1)" "dt_Status (tu_Task u') = st" using stuck_status [OF s(3) u(1)] u(2) by auto
    then have "u' \<in> set (bm_batch b)" using that(2) by simp
    from refused_flush_keeps [OF that(1) this u'(2) u(3)] obtain p' where
      "flush q E' b p1 d = (b\<lparr>bm_batch := map (stamp (fe_now E')) (bm_batch b)\<rparr>, [], p', d)" by blast
    then show ?thesis using s(2,3) that(2,3) by (simp add: stuck_behind_def comp_def)
  qed
  show ?thesis
  proof (cases e)
    case (Queued now t)
    then show ?thesis using s by (auto simp: batch_step_def stuck_behind_def QueueTaskUpdate_def Let_def)
  next
    case (Arrived E')
    then have r: "refuses st E'" using E by (simp add: event_env_def)
    show ?thesis
    proof (cases "bm_updates bm1")
      case (Cons v us)
      let ?b = "bm1\<lparr>bm_updates := us, bm_batch := bm_batch bm1 @ [v]\<rparr>"
      have "stuck_behind bm d (?b, p1, d)" using s by (simp add: stuck_behind_def)
      then show ?thesis using keep [OF r, where b = ?b and zs = "[v]"] s(1) Arrived Cons
        by (simp add: batch_step_def on_update_def Let_def)
    qed (use s Arrived in \<open>simp add: batch_step_def stuck_behind_def on_update_def\<close>)
  next
    case (Ticked E' rank)
    then have r: "refuses st E'" using E by (simp add: event_env_def)
    obtain us rest where pop: "popOverflowBatch rank (bs_MaxBatchSize S - int (length (bm_batch bm1))) (bm_overflow bm1) = (us, rest)"
      by (rule prod.exhaust)
    show ?thesis
      using keep [OF r, where b = "bm1\<lparr>bm_batch := bm_batch bm1 @ us, bm_overflow := rest\<rparr>" and zs = us] s(1) Ticked pop
      by (simp add: batch_step_def on_tick_def)
  qed
qed

text \<open>C34: One update that the database refuses blocks the manager for good.  The search for the bad
  update starts after three errors that are not retryable, but \<open>isRetryableError\<close> knows those only by
  the type \<open>*pq.Error\<close>, which no connection of the program ever returns.  So whatever is queued and
  however often the ticker fires, as long as the database refuses the statement with the bad update,
  nothing is written, every update of the batch stays where it is, all that arrives is put behind it,
  and the number of data errors that would start the fallback never moves.\<close>

theorem poison_batch_blocks_writes:
  assumes "u \<in> set (bm_batch bm)" "dt_Status (tu_Task u) = st" "st \<noteq> Running"
    and "\<And>e E. e \<in> set es \<Longrightarrow> event_env e = Some E \<Longrightarrow> refuses st E"
  shows "stuck_behind bm d (foldl (\<lambda>s e. batch_step S q e s) (bm, p, d) es)"
proof -
  have "stuck_behind bm d s \<Longrightarrow> \<forall>e \<in> set es. pred_option (refuses st) (event_env e) \<Longrightarrow>
      stuck_behind bm d (foldl (\<lambda>s e. batch_step S q e s) s es)" for s
    by (induction es arbitrary: s) (simp_all add: stuck_step [OF _ assms(1-3)])
  moreover have "stuck_behind bm d (bm, p, d)" by (simp add: stuck_behind_def)
  moreover have "\<forall>e \<in> set es. pred_option (refuses st) (event_env e)"
    using assms(4) by (metis option.pred_inject(1) option.pred_inject(2) option.exhaust)
  ultimately show ?thesis by blast
qed

section \<open>Bounds of the settings\<close>

text \<open>Whatever the environment holds, a batch has 1 to 1000 updates, the interval between flushes is
  0.1 to 10 seconds, and the channel has room for 500 to 20000 updates.\<close>

theorem batch_settings_bounded:
  "1 \<le> bs_MaxBatchSize (batch_init env) \<and> bs_MaxBatchSize (batch_init env) \<le> 1000 \<and>
   100 * millisecond \<le> bs_MaxBatchInterval (batch_init env) \<and> bs_MaxBatchInterval (batch_init env) \<le> 10 * second \<and>
   500 \<le> bs_ChannelSize (batch_init env) \<and> bs_ChannelSize (batch_init env) \<le> 20000"
proof -
  have b: "lo \<le> n \<and> n \<le> hi" if "clamped_env env k lo hi = Some n" "lo \<le> hi" for k lo hi n
    using that by (auto simp: clamped_env_def Let_def split: if_splits option.splits)
  have i: "100 * millisecond \<le> or_default v (map_option (\<lambda>n. n * millisecond) (clamped_env env k 100 10000)) \<and>
      or_default v (map_option (\<lambda>n. n * millisecond) (clamped_env env k 100 10000)) \<le> 10 * second"
    if "100 * millisecond \<le> v" "v \<le> 10 * second" for v k
    using that b [of k 100 10000] by (auto simp: or_default_def second_def millisecond_def split: option.splits)
  show ?thesis
    using b [of "''GNH_BATCH_CHANNEL_SIZE''" 500 20000] b [of "''GNH_RUNNING_TASK_BATCH_SIZE''" 1 1000]
      i [OF i [of "2 * second" "''GNH_RUNNING_TASK_FLUSH_INTERVAL_MS''", THEN conjunct1]
          i [of "2 * second" "''GNH_RUNNING_TASK_FLUSH_INTERVAL_MS''", THEN conjunct2], of "''GNH_BATCH_MAX_INTERVAL_MS''"]
    by (auto simp: batch_init_def Let_def or_default_def second_def millisecond_def split: option.splits)
qed

section \<open>A concrete batch\<close>

definition demo_result :: "string \<Rightarrow> task_status \<Rightarrow> db_task" where
  "demo_result key st = \<lparr>dt_ID = key, dt_JobID = ''j'', dt_PageID = 1, dt_Host = ''a.com'', dt_Path = ''/'', dt_Status = st,
     dt_CreatedAt = None, dt_StartedAt = None, dt_CompletedAt = None, dt_RetryCount = 0, dt_Error = [], dt_SourceType = ''link'',
     dt_SourceURL = [], dt_StatusCode = 200, dt_ResponseTime = 0, dt_CacheStatus = [], dt_ContentType = [], dt_ContentLength = 0,
     dt_Headers = [], dt_RedirectURL = [], dt_Perf = no_perf, dt_SecondResponseTime = 0, dt_SecondCacheStatus = [],
     dt_SecondContentLength = 0, dt_SecondHeaders = [], dt_SecondPerf = no_perf, dt_CacheCheckAttempts = [],
     dt_RequestDiagnostics = [], dt_PriorityScore = 0, dt_HTML = no_html\<rparr>"

definition demo_update :: "string \<Rightarrow> task_status \<Rightarrow> task_update" where
  "demo_update key st = \<lparr>tu_Task = demo_result key st, tu_UpdatedAt = 0\<rparr>"

definition demo_flush :: flush_env where
  "demo_flush = \<lparr>fe_now = 9, fe_batch = (\<lambda>i. calm_attempt), fe_single = (\<lambda>i k. calm_attempt), fe_pick = hd\<rparr>"

lemma hd_picks: "picks hd"
  by (simp add: picks_def)

theorem batches_keep_counters_witness:
  "counters_ok (snd (snd (foldl (\<lambda>s e. batch_step (batch_init (\<lambda>k. [])) std_queue e s) (NewBatchManager, idle_pool, open_db)
     [Queued 0 (demo_result ''x'' Completed), Arrived demo_flush, Ticked demo_flush length])))"
  by (rule batches_keep_counters) (use open_db_ok(1) in \<open>simp add: queue_ok_def\<close>)

definition demo_manager :: batch_manager where
  "demo_manager = NewBatchManager\<lparr>bm_batch := [demo_update ''x'' Completed]\<rparr>"

theorem stale_retry_wins_witness:
  "tr_Status (hd (db_tasks (snd (flush_tx hd 9 [demo_result ''x'' Waiting, demo_result ''x'' Completed] (\<lambda>i. None) open_db)))) = Waiting"
proof -
  let ?ts = "[demo_result ''x'' Waiting, demo_result ''x'' Completed]"
  let ?r = "hd (db_tasks (snd (flush_tx hd 9 ?ts (\<lambda>i. None) open_db)))"
  have r: "?r \<in> set (db_tasks (snd (flush_tx hd 9 ?ts (\<lambda>i. None) open_db)))" "tr_ID ?r = ''x''"
    by (simp_all add: flush_clean written_def Let_def with_status_def demo_result_def open_db_def demo_db_def demo_task_def
        completed_row_def waiting_row_def)
  have f: "flush_tx hd 9 ?ts (\<lambda>i. None) open_db = (Inr (), snd (flush_tx hd 9 ?ts (\<lambda>i. None) open_db))"
    by (simp add: flush_clean)
  show ?thesis
    by (rule stale_retry_wins [OF hd_picks _ _ f r(1), of "demo_result ''x'' Waiting"]) (use r(2) in \<open>simp_all add: demo_result_def\<close>)
qed

theorem flush_bills_each_page_witness:
  "db_usage (snd (flush_tx hd 9 [demo_result ''x'' Completed] (\<lambda>i. None) (demo_db (demo_job\<lparr>jr_OrgID := Some ''o''\<rparr>) []))) ''o'' = 1"
proof -
  let ?d = "demo_db (demo_job\<lparr>jr_OrgID := Some ''o''\<rparr>) []"
  have f: "flush_tx hd 9 [demo_result ''x'' Completed] (\<lambda>i. None) ?d =
      (Inr (), snd (flush_tx hd 9 [demo_result ''x'' Completed] (\<lambda>i. None) ?d))"
    by (simp add: flush_clean)
  show ?thesis unfolding flush_bills_each_page [OF f] by (simp add: demo_result_def org_of_task_def demo_defs)
qed

definition lone_db :: hover_db where
  "lone_db = demo_db (demo_job\<lparr>jr_Total := 2, jr_Pending := 1, jr_Waiting := 0, jr_Completed := 1\<rparr>)
     [demo_task ''x'' 1 Pending, demo_task ''y'' 2 Completed]"

theorem early_flush_drops_links_witness:
  "case flush_tx hd 9 [demo_result ''x'' Completed] (\<lambda>i. None) lone_db of (r, d1) \<Rightarrow>
     (\<exists>r1. db_jobs d1 ''j'' = Some r1 \<and> jr_Status r1 = JCompleted) \<and>
     snd (snd (EnqueueURLs std_queue demo_env (\<lambda>i. calm_attempt) (\<lambda>i. calm_attempt) ''j'' demo_pages ''link'' ''/'' 9 idle_pool d1)) = d1 \<and>
     fst (EnqueueURLs std_queue demo_env (\<lambda>i. calm_attempt) (\<lambda>i. calm_attempt) ''j'' demo_pages ''link'' ''/'' 9 idle_pool d1)
       \<in> {None, Some ErrPoolSaturated}"
proof -
  let ?d1 = "snd (flush_tx hd 9 [demo_result ''x'' Completed] (\<lambda>i. None) lone_db)"
  have f: "flush_tx hd 9 [demo_result ''x'' Completed] (\<lambda>i. None) lone_db = (Inr (), ?d1)" by (simp add: flush_clean)
  let ?r = "demo_job\<lparr>jr_Total := 2, jr_Pending := 1, jr_Waiting := 0, jr_Completed := 1\<rparr>"
  have d: "counters_ok lone_db" "db_jobs lone_db ''j'' = Some ?r"
    by (simp_all add: counters_ok_def row_counts_def tasks_of_def lone_db_def demo_defs)
  have ts: "tasks_of ''j'' lone_db = [demo_task ''x'' 1 Pending, demo_task ''y'' 2 Completed]"
    by (simp add: tasks_of_def lone_db_def demo_defs)
  obtain e p' d2 where l: "EnqueueURLs std_queue demo_env (\<lambda>i. calm_attempt) (\<lambda>i. calm_attempt) ''j'' demo_pages ''link'' ''/'' 9
      idle_pool ?d1 = (e, p', d2)" by (rule prod_cases3)
  have "(\<exists>r1. db_jobs ?d1 ''j'' = Some r1 \<and> jr_Status r1 = JCompleted) \<and> d2 = ?d1 \<and>
      (e = None \<or> (\<exists>k :: nat. disturbed calm_attempt) \<or> e = Some ErrPoolSaturated)"
    by (rule early_flush_drops_links [OF d _ _ _ _ _ _ f l, of "demo_task ''x'' 1 Pending"])
       (auto simp: ts demo_job_def demo_task_def demo_result_def terminal_task_def)
  moreover have "\<not> disturbed calm_attempt" by (simp add: disturbed_def calm_attempt_def)
  ultimately show ?thesis unfolding case_prod_beta using l by auto
qed

definition bad_value :: go_error where
  "bad_value = \<lparr>ge_text = ''ERROR: value too long for type character varying(255) (SQLSTATE 22001)'', ge_kind = PgError ''22001''\<rparr>"

definition refusing_flush :: flush_env where
  "refusing_flush = demo_flush\<lparr>fe_batch := (\<lambda>k. calm_attempt\<lparr>at_stmts := (\<lambda>i. if i = 0 then Some bad_value else None)\<rparr>)\<rparr>"

theorem poison_batch_blocks_writes_witness:
  "snd (snd (foldl (\<lambda>s e. batch_step (batch_init (\<lambda>k. [])) std_queue e s) (demo_manager, idle_pool, open_db)
     [Ticked refusing_flush length, Queued 0 (demo_result ''y'' Failed), Arrived refusing_flush, Ticked refusing_flush length,
      Ticked refusing_flush length, Ticked refusing_flush length])) = open_db"
proof -
  let ?es = "[Ticked refusing_flush length, Queued 0 (demo_result ''y'' Failed), Arrived refusing_flush, Ticked refusing_flush length,
      Ticked refusing_flush length, Ticked refusing_flush length]"
  have "refuses Completed refusing_flush"
    by (simp add: refuses_def refusing_flush_def pgx_attempt_def calm_attempt_def status_stmt_def no_pq_def bad_value_def)
  then have "E = refusing_flush \<Longrightarrow> refuses Completed E" for E by simp
  then have "stuck_behind demo_manager open_db
      (foldl (\<lambda>s e. batch_step (batch_init (\<lambda>k. [])) std_queue e s) (demo_manager, idle_pool, open_db) ?es)"
    by (intro poison_batch_blocks_writes [where u = "demo_update ''x'' Completed" and st = Completed])
       (auto simp: demo_manager_def demo_update_def demo_result_def event_env_def)
  then show ?thesis by (auto simp: stuck_behind_def split: prod.splits)
qed

end
