(* ===== verification/Db_Pages.thy ===== *)
theory Db_Pages
  imports Db_Queue "HOL-Library.List_Lexorder" "HOL-Library.Char_ord" "HOL-Library.Multiset" "HOL-Library.AList"
begin

text \<open>
  \<open>internal/db/pages.go\<close>: from the URLs of a sitemap or of a page to rows of the table
  \<open>pages\<close>.  \<open>resolve\<close> is \<open>URL.ResolveReference\<close>.  A reference that is not absolute
  panics when the domain itself is no valid host: the base is then nil.  The table
  \<open>domain_hosts\<close> is not modelled, its statement may fail.
\<close>

section \<open>Normal forms of URLs\<close>

datatype norm_error = ParseError | EmptyHost

datatype normalised = PagePath string string | BadUrl norm_error | NilBase

definition page_path :: "string \<Rightarrow> string" where
  "page_path path =
     (let p = (if path = [] then ''/'' else path)
      in if p \<noteq> ''/'' \<and> has_suffix p ''/'' then trim_suffix p ''/'' else p)"

definition page_host :: "string \<Rightarrow> string" where
  "page_host h = trim_prefix (to_lower h) ''www.''"

definition normaliseURLPath :: "(url \<Rightarrow> url \<Rightarrow> url) \<Rightarrow> string \<Rightarrow> string \<Rightarrow> normalised" where
  "normaliseURLPath resolve u domain =
     (case url_parse u of
        None \<Rightarrow> BadUrl ParseError
      | Some ru \<Rightarrow>
          (case (if IsAbs ru then Some ru
                 else map_option (\<lambda>base. resolve base ru) (url_parse (''https://'' @ domain))) of
             None \<Rightarrow> NilBase
           | Some v \<Rightarrow>
               let h = page_host (Hostname v);
                   host = (if h = [] then page_host (trim_space domain) else h)
               in if host = [] then BadUrl EmptyHost else PagePath host (page_path (u_Path v))))"

definition classifyURLNormalisationError :: "norm_error option \<Rightarrow> string" where
  "classifyURLNormalisationError e =
     (case e of None \<Rightarrow> ''unknown'' | Some ParseError \<Rightarrow> ''invalid_url_parse'' | Some EmptyHost \<Rightarrow> ''empty_host'')"

section \<open>One batch\<close>

definition maxPageRecordBatchSize :: nat where
  "maxPageRecordBatchSize = 250"

type_synonym page_key = string

definition buildPageKey :: "string \<Rightarrow> string \<Rightarrow> page_key" where
  "buildPageKey host path = host @ ''|'' @ path"

text \<open>The pages of a batch that are not seen, each once, in the order of the conflict key.\<close>

definition unique_step :: "(page_key \<times> int) list \<Rightarrow> (string \<times> string) list \<Rightarrow> string \<times> string \<Rightarrow> (string \<times> string) list" where
  "unique_step seen acc p =
     (let key = buildPageKey (fst p) (snd p) in
      if map_of seen key \<noteq> None then acc
      else if key \<in> set (map (\<lambda>q. buildPageKey (fst q) (snd q)) acc) then acc
      else acc @ [p])"

definition unique_pages :: "(page_key \<times> int) list \<Rightarrow> (string \<times> string) list \<Rightarrow> (string \<times> string) list" where
  "unique_pages seen batch = sort_key fst (sort_key snd (foldl (unique_step seen) [] batch))"

text \<open>\<open>INSERT INTO pages ... ON CONFLICT DO UPDATE ... RETURNING host, path, id\<close>.\<close>

definition next_page_id :: "page_row list \<Rightarrow> int" where
  "next_page_id rows = foldr (\<lambda>r m. max (pr_ID r) m) rows 0 + 1"

definition find_page :: "int \<Rightarrow> string \<Rightarrow> string \<Rightarrow> page_row list \<Rightarrow> page_row option" where
  "find_page domainID host path rows = find (\<lambda>r. pr_DomainID r = domainID \<and> pr_Host r = host \<and> pr_Path r = path) rows"

fun upsert_pages :: "int \<Rightarrow> (string \<times> string) list \<Rightarrow> page_row list \<Rightarrow> (page_key \<times> int) list \<times> page_row list" where
  "upsert_pages domainID [] rows = ([], rows)"
| "upsert_pages domainID ((host, path) # ps) rows =
     (case find_page domainID host path rows of
        Some r \<Rightarrow> (case upsert_pages domainID ps rows of (ks, rows') \<Rightarrow> ((buildPageKey host path, pr_ID r) # ks, rows'))
      | None \<Rightarrow>
          let new = \<lparr>pr_ID = next_page_id rows, pr_DomainID = domainID, pr_Host = host, pr_Path = path\<rparr> in
          (case upsert_pages domainID ps (rows @ [new]) of (ks, rows') \<Rightarrow> ((buildPageKey host path, pr_ID new) # ks, rows')))"

definition page_batch_tx :: "int \<Rightarrow> (string \<times> string) list \<Rightarrow> ((page_key \<times> int) list, hover_db) tx" where
  "page_batch_tx domainID unique =
     tx_bind (tx_wrap ''failed to upsert page batch: '' (tx_stmt 0 (\<lambda>d.
         case upsert_pages domainID unique (db_pages d) of (ks, rows) \<Rightarrow> (Inr ks, d\<lparr>db_pages := rows\<rparr>))))
       (\<lambda>ks. tx_bind (tx_wrap ''failed to upsert domain hosts: '' (tx_exec 1 (\<lambda>d. d))) (\<lambda>u. tx_return ks))"

definition ensurePageBatch :: "queue \<Rightarrow> (nat \<Rightarrow> attempt) \<Rightarrow> int \<Rightarrow> (string \<times> string) list \<Rightarrow> (page_key \<times> int) list
    \<Rightarrow> db_pool \<Rightarrow> hover_db \<Rightarrow> (go_error + (page_key \<times> int) list) \<times> db_pool \<times> hover_db" where
  "ensurePageBatch q P domainID batch seen p d =
     (let unique = unique_pages seen batch in
      if unique = [] then (Inr seen, p, d)
      else case Execute_tx q P (page_batch_tx domainID unique) p d of
        (Inl e, r) \<Rightarrow> (Inl e, r)
      | (Inr ks, r) \<Rightarrow> (Inr (foldl (\<lambda>m (k, i). AList.update k i m) seen ks), r))"

section \<open>All URLs\<close>

text \<open>The loop: \<open>P i\<close> are the attempts of the \<open>i\<close>th batch.  The result is the list of ids,
  hosts and paths.  A page without an id in \<open>seen\<close> is left out.\<close>

type_synonym page_records = "(int \<times> string \<times> string) list"

definition batch_records :: "(page_key \<times> int) list \<Rightarrow> (string \<times> string) list \<Rightarrow> page_records" where
  "batch_records seen batch =
     List.map_filter (\<lambda>(host, path). map_option (\<lambda>i. (i, host, path)) (map_of seen (buildPageKey host path))) batch"

definition flush_pages :: "queue \<Rightarrow> (nat \<Rightarrow> attempt) \<Rightarrow> int \<Rightarrow> (string \<times> string) list \<Rightarrow> (page_key \<times> int) list \<Rightarrow> page_records
    \<Rightarrow> db_pool \<Rightarrow> hover_db \<Rightarrow> (go_error + (page_key \<times> int) list \<times> page_records) \<times> db_pool \<times> hover_db" where
  "flush_pages q P domainID batch seen out p d =
     (if batch = [] then (Inr (seen, out), p, d)
      else case ensurePageBatch q P domainID batch seen p d of
        (Inl e, r) \<Rightarrow> (Inl e, r)
      | (Inr seen', r) \<Rightarrow> (Inr (seen', out @ batch_records seen' batch), r))"

datatype pages_result = Records page_records | PagesFailed go_error | PagesPanic

fun create_pages :: "queue \<Rightarrow> (nat \<Rightarrow> nat \<Rightarrow> attempt) \<Rightarrow> (url \<Rightarrow> url \<Rightarrow> url) \<Rightarrow> int \<Rightarrow> string \<Rightarrow> nat \<Rightarrow> string list
    \<Rightarrow> (string \<times> string) list \<Rightarrow> (page_key \<times> int) list \<Rightarrow> page_records \<Rightarrow> db_pool \<Rightarrow> hover_db
    \<Rightarrow> pages_result \<times> db_pool \<times> hover_db" where
  "create_pages q P resolve domainID domain i [] batch seen out p d =
     (case flush_pages q (P i) domainID batch seen out p d of
        (Inl e, r) \<Rightarrow> (PagesFailed e, r)
      | (Inr (seen', out'), r) \<Rightarrow> (Records out', r))"
| "create_pages q P resolve domainID domain i (u # us) batch seen out p d =
     (case normaliseURLPath resolve u domain of
        NilBase \<Rightarrow> (PagesPanic, p, d)
      | BadUrl e \<Rightarrow> create_pages q P resolve domainID domain i us batch seen out p d
      | PagePath host path \<Rightarrow>
          (case map_of seen (buildPageKey host path) of
             Some pageID \<Rightarrow> create_pages q P resolve domainID domain i us batch seen (out @ [(pageID, host, path)]) p d
           | None \<Rightarrow>
               let batch' = batch @ [(host, path)] in
               if length batch' \<ge> maxPageRecordBatchSize
               then (case flush_pages q (P i) domainID batch' seen out p d of
                       (Inl e, r) \<Rightarrow> (PagesFailed e, r)
                     | (Inr (seen', out'), p', d') \<Rightarrow> create_pages q P resolve domainID domain (Suc i) us [] seen' out' p' d')
               else create_pages q P resolve domainID domain i us batch' seen out p d))"

definition CreatePageRecords :: "queue \<Rightarrow> (nat \<Rightarrow> nat \<Rightarrow> attempt) \<Rightarrow> (url \<Rightarrow> url \<Rightarrow> url) \<Rightarrow> int \<Rightarrow> string \<Rightarrow> string list
    \<Rightarrow> db_pool \<Rightarrow> hover_db \<Rightarrow> pages_result \<times> db_pool \<times> hover_db" where
  "CreatePageRecords q P resolve domainID domain urls p d =
     (if urls = [] then (Records [], p, d) else create_pages q P resolve domainID domain 0 urls [] [] [] p d)"

section \<open>Correctness\<close>

definition page_at :: "int \<Rightarrow> page_key \<Rightarrow> int \<Rightarrow> hover_db \<Rightarrow> bool" where
  "page_at domainID k i d \<longleftrightarrow> (\<exists>r \<in> set (db_pages d). pr_ID r = i \<and> pr_DomainID r = domainID \<and> buildPageKey (pr_Host r) (pr_Path r) = k)"

lemma page_at_mono: "page_at domainID k i d \<Longrightarrow> set (db_pages d) \<subseteq> set (db_pages d') \<Longrightarrow> page_at domainID k i d'"
  by (auto simp: page_at_def)

lemma upsert_pages_rows:
  assumes "upsert_pages domainID ps rows = (ks, rows')"
  shows "set rows \<subseteq> set rows' \<and> map fst ks = map (\<lambda>q. buildPageKey (fst q) (snd q)) ps \<and>
    (\<forall>(k, i) \<in> set ks. \<exists>r \<in> set rows'. pr_ID r = i \<and> pr_DomainID r = domainID \<and> buildPageKey (pr_Host r) (pr_Path r) = k)"
  using assms
proof (induction domainID ps rows arbitrary: ks rows' rule: upsert_pages.induct)
  case (2 domainID host path ps rows)
  show ?case
  proof (cases "find_page domainID host path rows")
    case (Some r)
    then have r: "r \<in> set rows" "pr_DomainID r = domainID" "pr_Host r = host" "pr_Path r = path"
      by (auto simp: find_page_def find_Some_iff)
    obtain ks1 where k: "upsert_pages domainID ps rows = (ks1, rows')" "ks = (buildPageKey host path, pr_ID r) # ks1"
      using 2(3) Some by (auto split: prod.splits)
    then show ?thesis using 2(2) [OF Some k(1)] r by auto
  next
    case None
    let ?new = "\<lparr>pr_ID = next_page_id rows, pr_DomainID = domainID, pr_Host = host, pr_Path = path\<rparr>"
    obtain ks1 where k: "upsert_pages domainID ps (rows @ [?new]) = (ks1, rows')" "ks = (buildPageKey host path, pr_ID ?new) # ks1"
      using 2(3) None by (auto simp: Let_def split: prod.splits)
    have IH: "set (rows @ [?new]) \<subseteq> set rows' \<and> map fst ks1 = map (\<lambda>q. buildPageKey (fst q) (snd q)) ps \<and>
      (\<forall>(k, i) \<in> set ks1. \<exists>r \<in> set rows'. pr_ID r = i \<and> pr_DomainID r = domainID \<and> buildPageKey (pr_Host r) (pr_Path r) = k)"
      using 2(1) [OF None refl k(1)] .
    then have "\<exists>r \<in> set rows'. pr_ID r = next_page_id rows \<and> pr_DomainID r = domainID \<and> buildPageKey (pr_Host r) (pr_Path r) = buildPageKey host path"
      by (intro bexI [of _ ?new]) auto
    then show ?thesis using IH k(2) by auto
  qed
qed simp

lemma page_tx_rows:
  assumes "page_batch_tx domainID unique F d = (r, d')"
  shows "set (db_pages d) \<subseteq> set (db_pages d')"
    and "r = Inr ks \<Longrightarrow> map fst ks = map (\<lambda>q. buildPageKey (fst q) (snd q)) unique \<and> (\<forall>(k, i) \<in> set ks. page_at domainID k i d')"
proof -
  obtain ks1 rows where u: "upsert_pages domainID unique (db_pages d) = (ks1, rows)" by (rule prod.exhaust)
  note rows = upsert_pages_rows [OF u]
  show "set (db_pages d) \<subseteq> set (db_pages d')"
    using assms rows u by (auto simp: page_batch_tx_def tx_defs split: option.splits)
  show "r = Inr ks \<Longrightarrow> map fst ks = map (\<lambda>q. buildPageKey (fst q) (snd q)) unique \<and> (\<forall>(k, i) \<in> set ks. page_at domainID k i d')"
    using assms rows u by (auto simp: page_batch_tx_def tx_defs page_at_def split: option.splits)
qed

lemma update_all:
  "map_of (foldl (\<lambda>m (k, i). AList.update k i m) seen ks) k = Some i \<Longrightarrow> (k, i) \<in> set ks \<or> map_of seen k = Some i"
proof (induction ks arbitrary: seen)
  case (Cons x ks)
  obtain k' i' where x: "x = (k', i')" by (rule prod.exhaust)
  then have "map_of (foldl (\<lambda>m (k, i). AList.update k i m) (AList.update k' i' seen) ks) k = Some i" using Cons.prems by simp
  from Cons.IH [OF this] show ?case by (auto simp: x update_conv' split: if_splits)
qed simp

lemma update_all_dom:
  "k \<in> fst ` set ks \<or> map_of seen k \<noteq> None \<Longrightarrow> map_of (foldl (\<lambda>m (k, i). AList.update k i m) seen ks) k \<noteq> None"
proof (induction ks arbitrary: seen)
  case (Cons x ks)
  obtain k' i' where x: "x = (k', i')" by (rule prod.exhaust)
  have "k \<in> fst ` set ks \<or> map_of (AList.update k' i' seen) k \<noteq> None" using Cons.prems by (auto simp: x update_conv')
  then show ?case using Cons.IH [of "AList.update k' i' seen"] by (simp add: x)
qed simp

lemma unique_step_mono: "set acc \<subseteq> set (unique_step seen acc b)"
  by (auto simp: unique_step_def Let_def)

lemma unique_steps_mono: "set acc \<subseteq> set (foldl (unique_step seen) acc bs)"
  by (induction bs arbitrary: acc) (use unique_step_mono in fastforce)+

lemma unique_covers:
  assumes "x \<in> set batch"
  shows "map_of seen (buildPageKey (fst x) (snd x)) \<noteq> None \<or>
    buildPageKey (fst x) (snd x) \<in> (\<lambda>x. buildPageKey (fst x) (snd x)) ` set (unique_pages seen batch)"
proof -
  let ?key = "\<lambda>x. buildPageKey (fst x) (snd x)"
  have "map_of seen (?key x) \<noteq> None \<or> ?key x \<in> ?key ` set (foldl (unique_step seen) acc batch)" for acc
    using assms
  proof (induction batch arbitrary: acc)
    case (Cons b bs)
    show ?case
    proof (cases "x \<in> set bs")
      case True
      then show ?thesis using Cons.IH [of "unique_step seen acc b"] by simp
    next
      case False
      then have "map_of seen (?key x) \<noteq> None \<or> ?key x \<in> ?key ` set (unique_step seen acc b)"
        using Cons.prems by (auto simp: unique_step_def Let_def)
      then show ?thesis using unique_steps_mono [of "unique_step seen acc b" seen bs] by auto
    qed
  qed simp
  then show ?thesis unfolding unique_pages_def by simp
qed

definition seen_ok :: "int \<Rightarrow> (page_key \<times> int) list \<Rightarrow> hover_db \<Rightarrow> bool" where
  "seen_ok domainID seen d \<longleftrightarrow> (\<forall>k i. map_of seen k = Some i \<longrightarrow> page_at domainID k i d)"

definition records_ok :: "int \<Rightarrow> page_records \<Rightarrow> hover_db \<Rightarrow> bool" where
  "records_ok domainID out d \<longleftrightarrow> (\<forall>(i, host, path) \<in> set out. page_at domainID (buildPageKey host path) i d)"

lemma tx_pages_mono:
  assumes "Execute_tx q A (page_batch_tx domainID unique) p d = (Inr ks, p', d')"
  shows "set (db_pages d) \<subseteq> set (db_pages d')" and "map fst ks = map (\<lambda>q. buildPageKey (fst q) (snd q)) unique"
    and "\<forall>(k, i) \<in> set ks. page_at domainID k i d'"
proof -
  obtain d1 F where a: "applied (page_batch_tx domainID unique) d d1" "page_batch_tx domainID unique F d1 = (Inr ks, d')"
    using execute_success [OF assms] by blast
  have "set (db_pages d) \<subseteq> set (db_pages d1)"
    by (rule applied_invariant [OF a(1), where P = "\<lambda>x. set (db_pages d) \<subseteq> set (db_pages x)"])
       (use page_tx_rows(1) in blast)+
  then show "set (db_pages d) \<subseteq> set (db_pages d')" using page_tx_rows(1) [OF a(2)] by blast
  show "map fst ks = map (\<lambda>q. buildPageKey (fst q) (snd q)) unique" "\<forall>(k, i) \<in> set ks. page_at domainID k i d'"
    using page_tx_rows(2) [OF a(2) refl] by auto
qed

lemma flush_pages_ok:
  assumes "flush_pages q A domainID batch seen out p d = (Inr (seen', out'), p', d')"
    and "seen_ok domainID seen d" "records_ok domainID out d"
  shows "seen_ok domainID seen' d'" "records_ok domainID out' d'" "map snd out' = map snd out @ batch"
    "set (db_pages d) \<subseteq> set (db_pages d')"
proof -
  have "seen_ok domainID seen' d' \<and> records_ok domainID out' d' \<and> map snd out' = map snd out @ batch \<and>
    set (db_pages d) \<subseteq> set (db_pages d')"
  proof (cases "batch = []")
    case True
    then show ?thesis using assms by (simp add: flush_pages_def)
  next
    case False
    then have e: "ensurePageBatch q A domainID batch seen p d = (Inr seen', p', d')" and out: "out' = out @ batch_records seen' batch"
      using assms(1) by (auto simp: flush_pages_def split: prod.splits sum.splits)
    let ?key = "\<lambda>x. buildPageKey (fst x) (snd x)"
    have s: "seen_ok domainID seen' d'" and mono: "set (db_pages d) \<subseteq> set (db_pages d')"
      and all: "\<forall>x \<in> set batch. map_of seen' (?key x) \<noteq> None"
    proof -
      have "seen_ok domainID seen' d' \<and> set (db_pages d) \<subseteq> set (db_pages d') \<and> (\<forall>x \<in> set batch. map_of seen' (?key x) \<noteq> None)"
      proof (cases "unique_pages seen batch = []")
        case True
        then have "seen' = seen" "d' = d" using e by (auto simp: ensurePageBatch_def)
        moreover have "map_of seen (?key x) \<noteq> None" if "x \<in> set batch" for x
          using unique_covers [OF that, of seen] True by simp
        ultimately show ?thesis using assms(2) by simp
      next
        case ne: False
        then obtain ks where ks: "Execute_tx q A (page_batch_tx domainID (unique_pages seen batch)) p d = (Inr ks, p', d')"
          "seen' = foldl (\<lambda>m (k, i). AList.update k i m) seen ks"
          using e by (auto simp: ensurePageBatch_def Let_def split: prod.splits sum.splits)
        note t = tx_pages_mono [OF ks(1)]
        have "seen_ok domainID seen' d'"
          unfolding seen_ok_def
        proof (intro allI impI)
          fix k i assume "map_of seen' k = Some i"
          then consider "(k, i) \<in> set ks" | "map_of seen k = Some i" using update_all ks(2) by metis
          then show "page_at domainID k i d'"
          proof cases
            case 1
            then show ?thesis using t(3) by blast
          next
            case 2
            then show ?thesis using assms(2) page_at_mono t(1) unfolding seen_ok_def by blast
          qed
        qed
        moreover have "map_of seen' (?key x) \<noteq> None" if "x \<in> set batch" for x
        proof -
          have "?key x \<in> fst ` set ks \<or> map_of seen (?key x) \<noteq> None"
            using unique_covers [OF that, of seen] arg_cong [OF t(2), of set] by auto
          then show ?thesis unfolding ks(2) by (rule update_all_dom)
        qed
        ultimately show ?thesis using t(1) by blast
      qed
      then show "seen_ok domainID seen' d'" "set (db_pages d) \<subseteq> set (db_pages d')"
        "\<forall>x \<in> set batch. map_of seen' (?key x) \<noteq> None" by blast+
    qed
    have "map snd (batch_records seen' bs) = bs" if "\<forall>x \<in> set bs. map_of seen' (?key x) \<noteq> None" for bs
      using that by (induction bs) (auto simp: batch_records_def List.map_filter_simps)
    then have "map snd out' = map snd out @ batch" using all by (simp add: out)
    moreover have rb: "records_ok domainID (batch_records seen' bs) d'" for bs
      using s by (induction bs) (auto simp: records_ok_def batch_records_def List.map_filter_simps seen_ok_def split: option.splits)
    have "records_ok domainID out' d'" using assms(3) page_at_mono [OF _ mono] rb [of batch]
      unfolding records_ok_def out by auto
    ultimately show ?thesis using s mono by blast
  qed
  then show "seen_ok domainID seen' d'" "records_ok domainID out' d'" "map snd out' = map snd out @ batch"
    "set (db_pages d) \<subseteq> set (db_pages d')" by blast+
qed

text \<open>The pages of the URLs that have one.\<close>

definition accepted :: "(url \<Rightarrow> url \<Rightarrow> url) \<Rightarrow> string \<Rightarrow> string list \<Rightarrow> (string \<times> string) list" where
  "accepted resolve domain urls =
     List.map_filter (\<lambda>u. case normaliseURLPath resolve u domain of PagePath host path \<Rightarrow> Some (host, path) | _ \<Rightarrow> None) urls"

lemma create_pages_ok:
  assumes "create_pages q P resolve domainID domain i us batch seen out p d = (Records rs, p', d')"
    and "seen_ok domainID seen d" "records_ok domainID out d"
  shows "records_ok domainID rs d' \<and> mset (map snd rs) = mset (map snd out) + mset batch + mset (accepted resolve domain us) \<and>
    set (db_pages d) \<subseteq> set (db_pages d')"
  using assms
proof (induction q P resolve domainID domain i us batch seen out p d rule: create_pages.induct)
  case (1 q P resolve domainID domain i batch seen out p d)
  then obtain seen' where "flush_pages q (P i) domainID batch seen out p d = (Inr (seen', rs), p', d')"
    by (auto split: prod.splits sum.splits)
  note fl = flush_pages_ok [OF this 1(2,3)]
  show ?case using fl(2,4) arg_cong [OF fl(3), of mset] by (simp add: accepted_def List.map_filter_simps)
next
  case (2 q P resolve domainID domain i u us batch seen out p d)
  show ?case
  proof (cases "normaliseURLPath resolve u domain")
    case (BadUrl e)
    then show ?thesis using 2 by (simp add: accepted_def List.map_filter_simps)
  next
    case NilBase
    then show ?thesis using 2 by simp
  next
    case (PagePath host path)
    have acc: "accepted resolve domain (u # us) = (host, path) # accepted resolve domain us"
      by (simp add: accepted_def List.map_filter_simps PagePath)
    show ?thesis
    proof (cases "map_of seen (buildPageKey host path)")
      case (Some pageID)
      then have "records_ok domainID (out @ [(pageID, host, path)]) d" using "2.prems"(2,3) by (simp add: records_ok_def seen_ok_def)
      moreover have "create_pages q P resolve domainID domain i us batch seen (out @ [(pageID, host, path)]) p d = (Records rs, p', d')"
        using "2.prems"(1) PagePath Some by simp
      ultimately show ?thesis using "2.IH"(3) [OF PagePath Some _ "2.prems"(2)] by (simp add: acc)
    next
      case None
      let ?b = "batch @ [(host, path)]"
      show ?thesis
      proof (cases "length ?b \<ge> maxPageRecordBatchSize")
        case True
        then obtain seen' out' p1 d1 where f: "flush_pages q (P i) domainID ?b seen out p d = (Inr (seen', out'), p1, d1)"
          and c: "create_pages q P resolve domainID domain (Suc i) us [] seen' out' p1 d1 = (Records rs, p', d')"
          using "2.prems"(1) PagePath None by (auto simp: Let_def split: prod.splits sum.splits)
        note fl = flush_pages_ok [OF f "2.prems"(2,3)]
        show ?thesis
          using "2.IH"(1) [OF PagePath None refl True f [symmetric] refl refl refl c fl(1,2)] fl(4) arg_cong [OF fl(3), of mset]
          by (auto simp: acc)
      next
        case False
        then have "create_pages q P resolve domainID domain i us ?b seen out p d = (Records rs, p', d')"
          using "2.prems"(1) PagePath None by (simp add: Let_def)
        then show ?thesis using "2.IH"(2) [OF PagePath None refl False _ "2.prems"(2,3)] by (simp add: acc)
      qed
    qed
  qed
qed

text \<open>When \<open>CreatePageRecords\<close> succeeds it returns one record for every URL it could normalise, and
  the id of each is that of a page of the domain with the host and path of the URL, whatever was
  retried on the way.  No page that was there is lost.\<close>

theorem page_records_exact:
  assumes "CreatePageRecords q P resolve domainID domain urls p d = (Records rs, p', d')"
  shows "mset (map snd rs) = mset (accepted resolve domain urls) \<and> set (db_pages d) \<subseteq> set (db_pages d') \<and>
    (\<forall>(i, host, path) \<in> set rs. \<exists>r \<in> set (db_pages d'). pr_ID r = i \<and> pr_DomainID r = domainID \<and>
       buildPageKey (pr_Host r) (pr_Path r) = buildPageKey host path)"
proof (cases "urls = []")
  case True
  then show ?thesis using assms by (simp add: CreatePageRecords_def accepted_def List.map_filter_simps)
next
  case False
  then have c: "create_pages q P resolve domainID domain 0 urls [] [] [] p d = (Records rs, p', d')"
    using assms by (simp add: CreatePageRecords_def)
  have "seen_ok domainID [] d" "records_ok domainID [] d" by (simp_all add: seen_ok_def records_ok_def)
  from create_pages_ok [OF c this] show ?thesis by (auto simp: records_ok_def page_at_def)
qed

text \<open>The panic: a relative URL under a domain that is no valid host.\<close>

lemma relative_url_panics:
  assumes "url_parse u = Some v" "\<not> IsAbs v" "url_parse (''https://'' @ domain) = None"
  shows "fst (CreatePageRecords q P resolve domainID domain [u] p d) = PagesPanic"
  using assms by (simp add: CreatePageRecords_def normaliseURLPath_def)

theorem page_records_exact_witness:
  "\<exists>rs p' d'. CreatePageRecords std_queue (\<lambda>i k. calm_attempt) (\<lambda>b u. u) 1 ''a.com'' [''https://a.com/b/''] idle_pool open_db = (Records rs, p', d') \<and>
     map snd rs = [(''a.com'', ''/b'')]"
proof -
  have n: "normaliseURLPath (\<lambda>b u. u) ''https://a.com/b/'' ''a.com'' = PagePath ''a.com'' ''/b''" by code_simp
  have u: "unique_pages [] [(''a.com'', ''/b'')] = [(''a.com'', ''/b'')]"
    by (simp add: unique_pages_def unique_step_def)
  have "upsert_pages 1 [(''a.com'', ''/b'')] (db_pages open_db) = ([(buildPageKey ''a.com'' ''/b'', 1)],
      [\<lparr>pr_ID = 1, pr_DomainID = 1, pr_Host = ''a.com'', pr_Path = ''/b''\<rparr>])"
    by (simp add: open_db_def demo_db_def find_page_def next_page_id_def Let_def)
  then obtain d1 where "page_batch_tx 1 [(''a.com'', ''/b'')] (\<lambda>i. None) open_db = (Inr [(buildPageKey ''a.com'' ''/b'', 1)], d1)"
    by (simp add: page_batch_tx_def tx_defs)
  from calm_execute [of "page_batch_tx 1 [(''a.com'', ''/b'')]", OF this]
  obtain p1 where "Execute_tx std_queue (\<lambda>k. calm_attempt) (page_batch_tx 1 [(''a.com'', ''/b'')]) idle_pool open_db =
      (Inr [(buildPageKey ''a.com'' ''/b'', 1)], p1, d1)" by blast
  then have "\<exists>rs p' d'. CreatePageRecords std_queue (\<lambda>i k. calm_attempt) (\<lambda>b u. u) 1 ''a.com'' [''https://a.com/b/''] idle_pool open_db = (Records rs, p', d')"
    by (simp add: CreatePageRecords_def n u flush_pages_def ensurePageBatch_def maxPageRecordBatchSize_def)
  then obtain rs p' d' where c: "CreatePageRecords std_queue (\<lambda>i k. calm_attempt) (\<lambda>b u. u) 1 ''a.com'' [''https://a.com/b/''] idle_pool open_db = (Records rs, p', d')"
    by blast
  from page_records_exact [OF c] have "mset (map snd rs) = mset [(''a.com'', ''/b'')]"
    by (simp add: accepted_def List.map_filter_simps n)
  then have "map snd rs = [(''a.com'', ''/b'')]" by (metis mset_single_iff mset.simps)
  with c show ?thesis by (intro exI conjI)
qed

end
