(* ===== verification/Jobs_Manager.thy ===== *)
theory Jobs_Manager
  imports Db_Batch Db_Pages
begin

text \<open>
  \<open>internal/jobs/manager.go\<close>, the life of a job: its status and who may change it, cancelling and
  blocking, the pages a process has already enqueued, the milestones of progress.  Each function takes
  the attempts of its transactions, in their order (\<open>A 0\<close>, \<open>A 1\<close>, ...), and the
  time.  A callback of the manager is told what the functions return as lists.
\<close>

section \<open>Status\<close>

definition live_statuses :: "job_status list" where
  "live_statuses = [JRunning, JPending, JPaused, JInitialising]"

definition IsJobComplete :: "job_row \<Rightarrow> bool" where
  "IsJobComplete r = (if jr_Status r \<noteq> JRunning then False else jr_Completed r + jr_Failed r + jr_Skipped r \<ge> jr_Total r)"

definition CalculateJobProgress :: "job_row \<Rightarrow> rat" where
  "CalculateJobProgress r =
     (if jr_Total r = 0 then 0 else of_int (jr_Completed r + jr_Failed r + jr_Skipped r) / of_int (jr_Total r) * 100)"

definition validTransitions :: "(job_status \<times> job_status list) list" where
  "validTransitions =
     [(JPending, [JRunning, JCancelled, JBlocked]),
      (JInitialising, [JRunning, JCancelled, JBlocked, JFailed]),
      (JRunning, [JCompleted, JFailed, JCancelled, JBlocked]),
      (JCompleted, [JRunning, JArchived]),
      (JFailed, [JRunning, JArchived]),
      (JCancelled, [JRunning, JArchived]),
      (JBlocked, [JRunning, JArchived])]"

definition status_name :: "job_status \<Rightarrow> string" where
  "status_name s = (case s of JPending \<Rightarrow> ''pending'' | JInitialising \<Rightarrow> ''initializing'' | JRunning \<Rightarrow> ''running''
     | JPaused \<Rightarrow> ''paused'' | JCompleted \<Rightarrow> ''completed'' | JFailed \<Rightarrow> ''failed'' | JCancelled \<Rightarrow> ''cancelled''
     | JArchived \<Rightarrow> ''archived'' | JBlocked \<Rightarrow> ''blocked'')"

definition plain_error :: "string \<Rightarrow> go_error" where
  "plain_error s = \<lparr>ge_text = s, ge_kind = Plain\<rparr>"

definition ValidateStatusTransition :: "job_status \<Rightarrow> job_status \<Rightarrow> go_error option" where
  "ValidateStatusTransition from to =
     (if to = JRunning \<and> from \<in> {JCompleted, JCancelled, JFailed, JBlocked} then None
      else let invalid = Some (plain_error (''invalid status transition from '' @ status_name from @ '' to '' @ status_name to)) in
        case map_of validTransitions from of
          None \<Rightarrow> invalid
        | Some allowed \<Rightarrow> if to \<in> set allowed then None else invalid)"

section \<open>State of a process\<close>

record manager =
  jm_processed :: "string list"
  jm_milestones :: "(string \<times> int) list"

definition NewJobManager :: manager where
  "NewJobManager = \<lparr>jm_processed = [], jm_milestones = []\<rparr>"

definition page_mark :: "string \<Rightarrow> int \<Rightarrow> string" where
  "page_mark jobID pageID = jobID @ ''_'' @ itoa pageID"

definition isPageProcessed :: "string \<Rightarrow> int \<Rightarrow> manager \<Rightarrow> bool" where
  "isPageProcessed jobID pageID jm \<longleftrightarrow> page_mark jobID pageID \<in> set (jm_processed jm)"

definition markPageProcessed :: "string \<Rightarrow> int \<Rightarrow> manager \<Rightarrow> manager" where
  "markPageProcessed jobID pageID jm = jm\<lparr>jm_processed := List.insert (page_mark jobID pageID) (jm_processed jm)\<rparr>"

definition clearProcessedPages :: "string \<Rightarrow> manager \<Rightarrow> manager" where
  "clearProcessedPages jobID jm = jm\<lparr>jm_processed := filter (\<lambda>k. \<not> has_prefix k (jobID @ ''_'')) (jm_processed jm)\<rparr>"

definition clearMilestoneState :: "string \<Rightarrow> manager \<Rightarrow> manager" where
  "clearMilestoneState jobID jm = jm\<lparr>jm_milestones := AList.delete jobID (jm_milestones jm)\<rparr>"

section \<open>Milestones\<close>

text \<open>Percentages of natural numbers, so that the division of Go and of HOL agree.\<close>

definition milestone :: "int \<Rightarrow> int \<Rightarrow> int" where
  "milestone finished tot =
     (let pct = finished * 100 div tot; newPct = (if pct > 100 then 100 else pct) in newPct div 10 * 10)"

fun fire_milestones :: "(string \<times> int \<times> int) list \<Rightarrow> (string \<times> int) list \<Rightarrow> (string \<times> int \<times> int) list \<times> (string \<times> int) list" where
  "fire_milestones [] ms = ([], ms)"
| "fire_milestones ((jobID, tot, finished) # rows) ms =
     (if tot \<le> 0 then fire_milestones rows ms
      else let new = milestone finished tot; old = map_of ms jobID in
        if old \<noteq> None \<and> new \<le> the old then fire_milestones rows ms
        else if new = 0 then fire_milestones rows (AList.update jobID 0 ms)
        else (case fire_milestones rows (AList.update jobID new ms) of
                (fires, ms') \<Rightarrow> ((jobID, (case old of Some m \<Rightarrow> m | None \<Rightarrow> 0), new) # fires, ms')))"

definition progress_rows :: "string list \<Rightarrow> hover_db \<Rightarrow> (string \<times> int \<times> int) list" where
  "progress_rows jobIDs d =
     List.map_filter (\<lambda>j. map_option (\<lambda>r. (j, jr_Total r, jr_Completed r + jr_Failed r + jr_Skipped r)) (db_jobs d j)) (remdups jobIDs)"

text \<open>The query has no transaction; when it fails nothing fires.\<close>

definition MaybeFireMilestones :: "bool \<Rightarrow> go_error option \<Rightarrow> string list \<Rightarrow> hover_db \<Rightarrow> manager \<Rightarrow> (string \<times> int \<times> int) list \<times> manager" where
  "MaybeFireMilestones hasCallback fault jobIDs d jm =
     (if \<not> hasCallback \<or> jobIDs = [] \<or> fault \<noteq> None then ([], jm)
      else case fire_milestones (progress_rows jobIDs d) (jm_milestones jm) of
        (fires, ms) \<Rightarrow> (fires, jm\<lparr>jm_milestones := ms\<rparr>))"

section \<open>Reading and writing a job\<close>

text \<open>A job and the name of its domain.\<close>

definition get_job_tx :: "string \<Rightarrow> (job_row \<times> string, hover_db) tx" where
  "get_job_tx jobID = tx_query 0 (\<lambda>d.
     case db_jobs d jobID of
       None \<Rightarrow> Inl no_rows
     | Some r \<Rightarrow> (case find (\<lambda>m. dm_ID m = jr_DomainID r) (db_domains d) of
                   None \<Rightarrow> Inl no_rows
                 | Some m \<Rightarrow> Inr (r, dm_Name m)))"

definition GetJob :: "queue \<Rightarrow> (nat \<Rightarrow> attempt) \<Rightarrow> string \<Rightarrow> db_pool \<Rightarrow> hover_db \<Rightarrow> (go_error + job_row \<times> string) \<times> db_pool \<times> hover_db" where
  "GetJob q P jobID p d =
     (case Execute_tx q P (get_job_tx jobID) p d of
        (Inl e, r) \<Rightarrow> (Inl (if e = no_rows then wrap (''job '' @ jobID @ '' not found: '') e else wrap ''failed to get job: '' e), r)
      | (Inr x, r) \<Rightarrow> (Inr x, r))"

definition GetJobStatus :: "queue \<Rightarrow> (nat \<Rightarrow> attempt) \<Rightarrow> go_error option \<Rightarrow> time \<Rightarrow> string \<Rightarrow> db_pool \<Rightarrow> hover_db
    \<Rightarrow> (go_error + job_row \<times> string) \<times> db_pool \<times> hover_db" where
  "GetJobStatus q P fault now jobID p d =
     (case GetJob q P jobID p (snd (CleanupStuckJobs fault now d)) of
        (Inl e, r) \<Rightarrow> (Inl (wrap ''failed to get job: '' e), r)
      | (Inr x, r) \<Rightarrow> (Inr x, r))"

text \<open>\<open>UPDATE jobs ... WHERE id = $1 [AND status IN (...)]\<close>.\<close>

definition set_job_tx :: "nat \<Rightarrow> time \<Rightarrow> string \<Rightarrow> (job_row \<Rightarrow> bool) \<Rightarrow> (job_row \<Rightarrow> job_row) \<Rightarrow> (nat, hover_db) tx" where
  "set_job_tx i now jobID sel f = tx_stmt i (\<lambda>d. case update_job now sel f jobID d of (n, d') \<Rightarrow> (Inr n, d'))"

definition run_set_job :: "queue \<Rightarrow> (nat \<Rightarrow> attempt) \<Rightarrow> time \<Rightarrow> string \<Rightarrow> (job_row \<Rightarrow> bool) \<Rightarrow> (job_row \<Rightarrow> job_row) \<Rightarrow> db_pool \<Rightarrow> hover_db
    \<Rightarrow> go_error option \<times> db_pool \<times> hover_db" where
  "run_set_job q P now jobID sel f p d =
     (case Execute_tx q P (set_job_tx 0 now jobID sel f) p d of (Inl e, r) \<Rightarrow> (Some e, r) | (Inr n, r) \<Rightarrow> (None, r))"

definition failJobWithMessage :: "queue \<Rightarrow> (nat \<Rightarrow> attempt) \<Rightarrow> time \<Rightarrow> string \<Rightarrow> string \<Rightarrow> db_pool \<Rightarrow> hover_db
    \<Rightarrow> go_error option \<times> db_pool \<times> hover_db" where
  "failJobWithMessage q P now jobID message =
     run_set_job q P now jobID (\<lambda>r. jr_Status r \<in> set live_statuses)
       (\<lambda>r. r\<lparr>jr_Status := JFailed, jr_Error := Some message, jr_CompletedAt := Some now\<rparr>)"

definition MarkJobRunning :: "queue \<Rightarrow> (nat \<Rightarrow> attempt) \<Rightarrow> time \<Rightarrow> string \<Rightarrow> db_pool \<Rightarrow> hover_db
    \<Rightarrow> go_error option \<times> db_pool \<times> hover_db" where
  "MarkJobRunning q P now jobID =
     run_set_job q P now jobID (\<lambda>r. jr_Status r \<in> {JPending, JInitialising})
       (\<lambda>r. r\<lparr>jr_Status := JRunning, jr_StartedAt := coalesce (jr_StartedAt r) now\<rparr>)"

definition updateJobWithError :: "queue \<Rightarrow> (nat \<Rightarrow> attempt) \<Rightarrow> time \<Rightarrow> string \<Rightarrow> string \<Rightarrow> db_pool \<Rightarrow> hover_db \<Rightarrow> db_pool \<times> hover_db" where
  "updateJobWithError q P now jobID message p d =
     snd (run_set_job q P now jobID (\<lambda>r. True) (\<lambda>r. r\<lparr>jr_Error := Some message\<rparr>) p d)"

definition status_row :: "time \<Rightarrow> job_status \<Rightarrow> job_row \<Rightarrow> job_row" where
  "status_row now status r =
     (case status of
        JCompleted \<Rightarrow> r\<lparr>jr_Status := status, jr_CompletedAt := Some now\<rparr>
      | JRunning \<Rightarrow> r\<lparr>jr_Status := status, jr_StartedAt := Some now\<rparr>
      | _ \<Rightarrow> r\<lparr>jr_Status := status\<rparr>)"

definition forget_job :: "string \<Rightarrow> manager \<Rightarrow> manager" where
  "forget_job jobID jm = clearMilestoneState jobID (clearProcessedPages jobID jm)"

definition UpdateJobStatus :: "queue \<Rightarrow> (nat \<Rightarrow> attempt) \<Rightarrow> time \<Rightarrow> string \<Rightarrow> job_status \<Rightarrow> manager \<Rightarrow> db_pool \<Rightarrow> hover_db
    \<Rightarrow> go_error option \<times> manager \<times> db_pool \<times> hover_db" where
  "UpdateJobStatus q P now jobID status jm p d =
     (case run_set_job q P now jobID (\<lambda>r. True) (status_row now status) p d of
        (Some e, r) \<Rightarrow> (Some e, jm, r)
      | (None, r) \<Rightarrow>
          (None, if status \<in> {JCompleted, JFailed, JCancelled, JArchived, JBlocked} then forget_job jobID jm else jm, r))"

definition isJobInTerminalStatus :: "queue \<Rightarrow> (nat \<Rightarrow> attempt) \<Rightarrow> string \<Rightarrow> db_pool \<Rightarrow> hover_db \<Rightarrow> bool \<times> db_pool \<times> hover_db" where
  "isJobInTerminalStatus q P jobID p d =
     (case Execute_tx q P (tx_query 0 (\<lambda>d. case db_jobs d jobID of None \<Rightarrow> Inl no_rows | Some r \<Rightarrow> Inr (jr_Status r))) p d of
        (Inl e, r) \<Rightarrow> (False, r)
      | (Inr s, r) \<Rightarrow> (IsTerminalJobStatus s, r))"

section \<open>Cancelling and blocking\<close>

definition skip_open_tasks :: "time \<Rightarrow> string \<Rightarrow> hover_db \<Rightarrow> hover_db" where
  "skip_open_tasks now jobID =
     update_tasks now (\<lambda>t. tr_JobID t = jobID \<and> tr_Status t \<in> {Pending, Waiting}) (\<lambda>t. t\<lparr>tr_Status := Skipped\<rparr>)"

definition delete_outbox :: "string \<Rightarrow> hover_db \<Rightarrow> hover_db" where
  "delete_outbox jobID d =
     d\<lparr>db_outbox := (db_outbox d)\<lparr>od_rows := filter (\<lambda>r. ob_jobID r \<noteq> jobID) (od_rows (db_outbox d))\<rparr>\<rparr>"

definition cancel_tx :: "time \<Rightarrow> string \<Rightarrow> (unit, hover_db) tx" where
  "cancel_tx now jobID =
     tx_bind (tx_exec 0 (skip_open_tasks now jobID)) (\<lambda>u.
     tx_bind (set_job_tx 1 now jobID (\<lambda>r. True) (\<lambda>r. r\<lparr>jr_Status := JCancelled, jr_CompletedAt := Some now\<rparr>)) (\<lambda>n.
     tx_exec 2 (delete_outbox jobID)))"

text \<open>The fourth component lists the jobs \<open>OnJobTerminated\<close> is called for.\<close>

definition CancelJob :: "queue \<Rightarrow> (nat \<Rightarrow> nat \<Rightarrow> attempt) \<Rightarrow> time \<Rightarrow> string \<Rightarrow> manager \<Rightarrow> db_pool \<Rightarrow> hover_db
    \<Rightarrow> go_error option \<times> manager \<times> string list \<times> db_pool \<times> hover_db" where
  "CancelJob q A now jobID jm p d =
     (case GetJob q (A 0) jobID p d of
        (Inl e, p1, d1) \<Rightarrow> (Some (wrap ''failed to get job: '' e), jm, [], p1, d1)
      | (Inr (r, name), p1, d1) \<Rightarrow>
          if jr_Status r = JCancelled then (None, jm, [], p1, d1)
          else if jr_Status r \<notin> set live_statuses
          then (Some (plain_error (''job cannot be canceled: '' @ status_name (jr_Status r))), jm, [], p1, d1)
          else (case Execute_tx q (A 1) (cancel_tx now jobID) p1 d1 of
                  (Inl e, p2, d2) \<Rightarrow> (Some (wrap ''failed to cancel job: '' e), jm, [], p2, d2)
                | (Inr u, p2, d2) \<Rightarrow> (None, forget_job jobID jm, [jobID], p2, d2)))"

definition errBlockJobRaceLost :: go_error where
  "errBlockJobRaceLost = plain_error ''block_job: lost race to terminal transition''"

definition em_dash :: string where
  "em_dash = [CHR 0xE2, CHR 0x80, CHR 0x94]"

definition buildWAFBlockMessage :: "string \<Rightarrow> string \<Rightarrow> string" where
  "buildWAFBlockMessage vendor reason =
     (let v = (if vendor = [] then ''unknown'' else vendor) in
      if reason = [] then ''WAF blocked ('' @ v @ '') '' @ em_dash @ '' site bot protection refused our crawler''
      else ''WAF blocked ('' @ v @ '') '' @ em_dash @ '' '' @ reason)"

definition mark_domain_blocked :: "time \<Rightarrow> string \<Rightarrow> string \<Rightarrow> hover_db \<Rightarrow> hover_db" where
  "mark_domain_blocked now jobID vendor d =
     d\<lparr>db_domains := map (\<lambda>m. if (case db_jobs d jobID of Some r \<Rightarrow> dm_ID m = jr_DomainID r | None \<Rightarrow> False)
          then m\<lparr>dm_WafBlocked := True, dm_WafVendor := Some vendor, dm_WafBlockedAt := Some now\<rparr> else m) (db_domains d)\<rparr>"

definition block_tx :: "time \<Rightarrow> string \<Rightarrow> string \<Rightarrow> string \<Rightarrow> (unit, hover_db) tx" where
  "block_tx now jobID vendor reason =
     tx_bind (tx_exec 0 (skip_open_tasks now jobID)) (\<lambda>u.
     tx_bind (set_job_tx 1 now jobID (\<lambda>r. jr_Status r \<in> set live_statuses)
               (\<lambda>r. r\<lparr>jr_Status := JBlocked, jr_CompletedAt := Some now, jr_Error := Some (buildWAFBlockMessage vendor reason)\<rparr>)) (\<lambda>n.
     if n \<noteq> 1 then tx_fail errBlockJobRaceLost
     else tx_bind (tx_exec 2 (delete_outbox jobID)) (\<lambda>u. tx_exec 3 (mark_domain_blocked now jobID vendor))))"

definition BlockJob :: "queue \<Rightarrow> (nat \<Rightarrow> nat \<Rightarrow> attempt) \<Rightarrow> time \<Rightarrow> string \<Rightarrow> string \<Rightarrow> string \<Rightarrow> manager \<Rightarrow> db_pool \<Rightarrow> hover_db
    \<Rightarrow> go_error option \<times> manager \<times> string list \<times> db_pool \<times> hover_db" where
  "BlockJob q A now jobID vendor reason jm p d =
     (case GetJob q (A 0) jobID p d of
        (Inl e, p1, d1) \<Rightarrow> (Some (wrap ''failed to get job: '' e), jm, [], p1, d1)
      | (Inr (r, name), p1, d1) \<Rightarrow>
          if jr_Status r = JBlocked then (None, jm, [], p1, d1)
          else if jr_Status r \<notin> set live_statuses
          then (Some (plain_error (''job cannot be blocked: '' @ status_name (jr_Status r))), jm, [], p1, d1)
          else (case Execute_tx q (A 1) (block_tx now jobID vendor reason) p1 d1 of
                  (Inl e, p2, d2) \<Rightarrow>
                    if e = errBlockJobRaceLost then (None, jm, [], p2, d2)
                    else (Some (wrap ''failed to block job: '' e), jm, [], p2, d2)
                | (Inr u, p2, d2) \<Rightarrow> (None, forget_job jobID jm, [jobID], p2, d2)))"

section \<open>Enqueueing through the manager\<close>

text \<open>What the callback is told of a task.  The column \<open>run_at\<close> is not in the model: its value is
  \<open>runAt\<close> of the row.\<close>

record enqueued_entry =
  tse_TaskID :: string
  tse_PageID :: int
  tse_Host :: string
  tse_Path :: string
  tse_Status :: task_status
  tse_Priority :: rat
  tse_RetryCount :: int
  tse_SourceType :: string
  tse_SourceURL :: string
  tse_RunAt :: time

definition schedule_entry_of :: "(task_row \<Rightarrow> time) \<Rightarrow> task_row \<Rightarrow> enqueued_entry" where
  "schedule_entry_of runAt t =
     \<lparr>tse_TaskID = tr_ID t, tse_PageID = tr_PageID t, tse_Host = tr_Host t, tse_Path = tr_Path t, tse_Status = tr_Status t,
      tse_Priority = tr_Priority t, tse_RetryCount = tr_RetryCount t, tse_SourceType = tr_SourceType t,
      tse_SourceURL = tr_SourceURL t, tse_RunAt = runAt t\<rparr>"

text \<open>The closure appends to a slice outside it, so an attempt that fails after the query leaves its
  entries there; the model has those of the attempt that succeeds.\<close>

definition scheduleEnqueuedTasks :: "queue \<Rightarrow> (nat \<Rightarrow> attempt) \<Rightarrow> (task_row \<Rightarrow> time) \<Rightarrow> string \<Rightarrow> page list \<Rightarrow> db_pool \<Rightarrow> hover_db
    \<Rightarrow> enqueued_entry list \<times> db_pool \<times> hover_db" where
  "scheduleEnqueuedTasks q P runAt jobID pages p d =
     (let ids = filter (\<lambda>i. i \<noteq> 0) (map pg_ID pages) in
      if ids = [] then ([], p, d)
      else case Execute_tx q P (tx_query 0 (\<lambda>d. Inr (map (schedule_entry_of runAt)
             (filter (\<lambda>t. tr_JobID t = jobID \<and> tr_PageID t \<in> set ids \<and> tr_Status t \<in> {Pending, Waiting}) (db_tasks d))))) p d of
        (Inl e, r) \<Rightarrow> ([], r)
      | (Inr es, r) \<Rightarrow> (es, r))"

text \<open>\<open>A 0\<close> and \<open>A 1\<close> are the attempts of \<open>EnqueueURLs\<close>, \<open>A 2\<close> those of the query
  for the callback.\<close>

definition EnqueueJobURLs :: "queue \<Rightarrow> (nat \<Rightarrow> nat \<Rightarrow> attempt) \<Rightarrow> enqueue_env \<Rightarrow> (task_row \<Rightarrow> time) option \<Rightarrow> time \<Rightarrow> string \<Rightarrow> page list
    \<Rightarrow> string \<Rightarrow> string \<Rightarrow> manager \<Rightarrow> db_pool \<Rightarrow> hover_db
    \<Rightarrow> go_error option \<times> enqueued_entry list \<times> manager \<times> db_pool \<times> hover_db" where
  "EnqueueJobURLs q A E callback now jobID pages srcType srcURL jm p d =
     (let fresh = filter (\<lambda>pg. \<not> isPageProcessed jobID (pg_ID pg) jm) pages in
      if fresh = [] then (None, [], jm, p, d)
      else case EnqueueURLs q E (A 0) (A 1) jobID fresh srcType srcURL now p d of
        (Some e, p1, d1) \<Rightarrow> (Some e, [], jm, p1, d1)
      | (None, p1, d1) \<Rightarrow>
          let jm' = foldl (\<lambda>m pg. markPageProcessed jobID (pg_ID pg) m) jm fresh in
          (case callback of
             None \<Rightarrow> (None, [], jm', p1, d1)
           | Some runAt \<Rightarrow> (case scheduleEnqueuedTasks q (A 2) runAt jobID fresh p1 d1 of (es, p2, d2) \<Rightarrow> (None, es, jm', p2, d2))))"

section \<open>Milestones only rise\<close>

definition fired_for :: "string \<Rightarrow> (string \<times> int \<times> int) list \<Rightarrow> int list" where
  "fired_for j fires = map (\<lambda>x. snd (snd x)) (filter (\<lambda>x. fst x = j) fires)"

definition reached :: "string \<Rightarrow> (string \<times> int) list \<Rightarrow> int" where
  "reached j ms = (case map_of ms j of Some m \<Rightarrow> m | None \<Rightarrow> 0)"

definition milestones_set :: "int set" where
  "milestones_set = {10, 20, 30, 40, 50, 60, 70, 80, 90, 100}"

lemma milestone_range:
  assumes "0 \<le> finished" "0 < tot"
  shows "milestone finished tot = 0 \<or> milestone finished tot \<in> milestones_set"
proof -
  define n where "n = (if finished * 100 div tot > 100 then 100 else finished * 100 div tot)"
  have "0 \<le> finished * 100 div tot" using assms by (simp add: pos_imp_zdiv_nonneg_iff)
  then have "0 \<le> n" "n \<le> 100" by (auto simp: n_def)
  then have "0 \<le> n div 10" "n div 10 \<le> 10" by auto
  then have "n div 10 = 0 \<or> n div 10 = 1 \<or> n div 10 = 2 \<or> n div 10 = 3 \<or> n div 10 = 4 \<or> n div 10 = 5 \<or> n div 10 = 6 \<or>
      n div 10 = 7 \<or> n div 10 = 8 \<or> n div 10 = 9 \<or> n div 10 = 10" by presburger
  moreover have "milestone finished tot = n div 10 * 10" by (simp add: milestone_def n_def Let_def)
  ultimately show ?thesis by (auto simp: milestones_set_def)
qed

lemma fire_milestones_rise:
  assumes "fire_milestones rows ms = (fires, ms')" "\<forall>(j, tot, finished) \<in> set rows. 0 \<le> finished" "\<forall>j. 0 \<le> reached j ms"
  shows "sorted_wrt (<) (reached j ms # fired_for j fires) \<and> reached j ms' = last (reached j ms # fired_for j fires) \<and>
    set (fired_for j fires) \<subseteq> milestones_set \<and> (\<forall>j. 0 \<le> reached j ms')"
  using assms
proof (induction rows ms arbitrary: fires ms' rule: fire_milestones.induct)
  case (2 jobID tot finished rows ms)
  let ?new = "milestone finished tot" and ?old = "map_of ms jobID"
  have fin: "0 \<le> finished" and rows: "\<forall>(j, tot, finished) \<in> set rows. 0 \<le> finished" using "2.prems"(2) by auto
  have r: "reached k (AList.update jobID v ms) = (if k = jobID then v else reached k ms)" for k v
    by (simp add: reached_def update_conv')
  show ?case
  proof (cases "tot \<le> 0 \<or> (?old \<noteq> None \<and> ?new \<le> the ?old)")
    case True
    then have "fire_milestones rows ms = (fires, ms')" using "2.prems"(1) by (auto simp: Let_def split: if_splits)
    then show ?thesis using "2.IH"(1) "2.IH"(2) True rows "2.prems"(3) by metis
  next
    case False
    then have rng: "?new = 0 \<or> ?new \<in> milestones_set" using milestone_range fin by simp
    show ?thesis
    proof (cases "?new = 0")
      case True
      have none: "?old = None" using False True "2.prems"(3) by (force simp: reached_def split: option.splits)
      have f: "fire_milestones rows (AList.update jobID 0 ms) = (fires, ms')" using "2.prems"(1) False True none by (simp add: Let_def)
      then have same: "reached k (AList.update jobID 0 ms) = reached k ms" for k using none by (simp add: r) (simp add: reached_def)
      have "\<forall>k. 0 \<le> reached k (AList.update jobID 0 ms)" using same "2.prems"(3) by simp
      from "2.IH"(3) [OF _ refl refl _ True f rows this] False True show ?thesis unfolding same by simp
    next
      case nz: False
      obtain fires1 where f: "fire_milestones rows (AList.update jobID ?new ms) = (fires1, ms')"
        and fires: "fires = (jobID, reached jobID ms, ?new) # fires1"
        using "2.prems"(1) False nz by (auto simp: Let_def reached_def split: prod.splits)
      have pos: "\<forall>k. 0 \<le> reached k (AList.update jobID ?new ms)" using "2.prems"(3) rng by (auto simp: r milestones_set_def)
      have up: "reached jobID ms < ?new" using False nz rng by (auto simp: reached_def milestones_set_def split: option.splits)
      from "2.IH"(4) [OF _ refl refl _ nz f rows pos] False nz
      have IH: "sorted_wrt (<) (reached j (AList.update jobID ?new ms) # fired_for j fires1) \<and>
          reached j ms' = last (reached j (AList.update jobID ?new ms) # fired_for j fires1) \<and>
          set (fired_for j fires1) \<subseteq> milestones_set \<and> (\<forall>j. 0 \<le> reached j ms')" by simp
      show ?thesis
      proof (cases "j = jobID")
        case True
        then have "fired_for j fires = ?new # fired_for j fires1" by (simp add: fired_for_def fires)
        then show ?thesis using IH up nz rng True unfolding r by auto
      next
        case False
        then have "fired_for j fires = fired_for j fires1" by (simp add: fired_for_def fires)
        then show ?thesis using IH False unfolding r by simp
      qed
    qed
  qed
qed (auto simp: fired_for_def)

text \<open>The reports of a process between two ends of the job: each names the jobs of a flush and the
  database it reads.\<close>

fun milestone_run :: "(string list \<times> hover_db) list \<Rightarrow> manager \<Rightarrow> (string \<times> int \<times> int) list \<times> manager" where
  "milestone_run [] jm = ([], jm)"
| "milestone_run ((ids, d) # reports) jm =
     (case MaybeFireMilestones True None ids d jm of
        (fires, jm1) \<Rightarrow> (case milestone_run reports jm1 of (fires', jm2) \<Rightarrow> (fires @ fires', jm2)))"

lemma progress_rows_nonneg:
  assumes "counters_ok d"
  shows "\<forall>(j, tot, finished) \<in> set (progress_rows ids d). 0 \<le> finished"
proof -
  have "0 \<le> jr_Completed r + jr_Failed r + jr_Skipped r" if "db_jobs d j = Some r" for j r
    using assms that by (auto simp: counters_ok_def row_counts_def)
  then show ?thesis by (auto simp: progress_rows_def in_map_filter)
qed

lemma sorted_last: "sorted_wrt (<) xs \<Longrightarrow> \<forall>x \<in> set xs. x \<le> last (xs :: int list)"
proof (induction xs rule: rev_induct)
  case (snoc x xs)
  then show ?case by (auto simp: sorted_wrt_append intro: less_imp_le)
qed simp

lemma run_rises:
  assumes "milestone_run reports jm = (fires, jm')" "\<forall>(ids, d) \<in> set reports. counters_ok d" "\<forall>j. 0 \<le> reached j (jm_milestones jm)"
  shows "sorted_wrt (<) (reached j (jm_milestones jm) # fired_for j fires) \<and> set (fired_for j fires) \<subseteq> milestones_set"
  using assms
proof (induction reports jm arbitrary: fires jm' rule: milestone_run.induct)
  case (2 ids d reports jm)
  obtain f1 jm1 where m: "MaybeFireMilestones True None ids d jm = (f1, jm1)" by (rule prod.exhaust)
  obtain f2 where rest: "milestone_run reports jm1 = (f2, jm')" and fires: "fires = f1 @ f2"
    using "2.prems"(1) m by (auto split: prod.splits)
  show ?case
  proof (cases "ids = []")
    case True
    then have "jm1 = jm" "f1 = []" using m by (auto simp: MaybeFireMilestones_def)
    then show ?thesis using "2.IH" [OF m [symmetric] rest] "2.prems"(2,3) fires by simp
  next
    case False
    then have f: "fire_milestones (progress_rows ids d) (jm_milestones jm) = (f1, jm_milestones jm1)"
      using m by (auto simp: MaybeFireMilestones_def split: prod.splits)
    have d: "counters_ok d" "\<forall>(ids, d) \<in> set reports. counters_ok d" using "2.prems"(2) by auto
    note one = fire_milestones_rise [OF f progress_rows_nonneg [OF d(1)] "2.prems"(3)]
    then have "\<forall>j. 0 \<le> reached j (jm_milestones jm1)" by blast
    then have two: "sorted_wrt (<) (reached j (jm_milestones jm1) # fired_for j f2) \<and> set (fired_for j f2) \<subseteq> milestones_set"
      using "2.IH" [OF m [symmetric] rest d(2)] by simp
    have app: "fired_for j fires = fired_for j f1 @ fired_for j f2" by (simp add: fires fired_for_def)
    let ?a = "reached j (jm_milestones jm) # fired_for j f1"
    have a: "sorted_wrt (<) ?a" "reached j (jm_milestones jm1) = last ?a" "set (fired_for j f1) \<subseteq> milestones_set" using one by blast+
    have "\<forall>x \<in> set ?a. x \<le> last ?a" by (rule sorted_last [OF a(1)])
    moreover have "\<forall>y \<in> set (fired_for j f2). last ?a < y" using two a(2) by simp
    ultimately have "\<forall>x \<in> set ?a. \<forall>y \<in> set (fired_for j f2). x < y" by fastforce
    then have "sorted_wrt (<) (?a @ fired_for j f2)" using a(1) two unfolding sorted_wrt_append by simp
    then show ?thesis using a(3) two unfolding app by simp
  qed
qed (simp add: fired_for_def)

text \<open>A process reports the milestones of a job in strictly rising order, each at most once and each
  a multiple of ten from 10 to 100, however the progress goes up and down between the flushes.\<close>

theorem milestones_rise:
  assumes "milestone_run reports NewJobManager = (fires, jm')" "\<forall>(ids, d) \<in> set reports. counters_ok d"
  shows "sorted_wrt (<) (fired_for j fires) \<and> set (fired_for j fires) \<subseteq> {10, 20, 30, 40, 50, 60, 70, 80, 90, 100}"
proof -
  have "\<forall>j. 0 \<le> reached j (jm_milestones NewJobManager)" by (simp add: reached_def NewJobManager_def)
  from run_rises [OF assms this] show ?thesis by (simp add: milestones_set_def)
qed

section \<open>Cancelling a job\<close>

lemma execute_applied:
  assumes "Execute_tx q A fn p d = (r, p', d')"
  shows "applied fn d d'"
  using assms unfolding Execute_tx_def executeWithContextLane_def by (rule execute_applied_aux)

lemma read_only:
  assumes "Execute_tx q A (tx_query i g) p d = (r, p', d')"
  shows "d' = d"
  using execute_tx_keeps [of "\<lambda>x. x = d" "tx_query i g" d q A p] keeps_query assms by auto

lemma GetJob_reads:
  assumes "GetJob q A j p d = (res, p', d')"
  shows "d' = d" "res = Inr (r, name) \<Longrightarrow> db_jobs d j = Some r"
proof -
  obtain e p1 d1 where x: "Execute_tx q A (get_job_tx j) p d = (e, p1, d1)" by (rule prod_cases3)
  have d1: "d1 = d" by (rule read_only [OF x [unfolded get_job_tx_def]])
  then show "d' = d" using assms x by (auto simp: GetJob_def split: sum.splits)
  show "db_jobs d j = Some r" if "res = Inr (r, name)"
  proof -
    have e: "e = Inr (r, name)" using assms x that by (auto simp: GetJob_def split: sum.splits if_splits)
    then obtain d2 F where "applied (get_job_tx j) d d2" "get_job_tx j F d2 = (Inr (r, name), d1)"
      using execute_success x by metis
    moreover from this(2) have "d2 = d1" by (auto simp: get_job_tx_def tx_defs split: option.splits)
    ultimately show ?thesis using d1 by (auto simp: get_job_tx_def tx_defs split: option.splits)
  qed
qed

lemma skip_keeps_counters: "counters_ok d \<Longrightarrow> counters_ok (skip_open_tasks now j d)"
  unfolding skip_open_tasks_def by (intro update_tasks_counts) (simp_all add: same_key_def)

lemma skip_job: "db_jobs (skip_open_tasks now j d) k = None \<longleftrightarrow> db_jobs d k = None"
  by (auto simp: skip_open_tasks_def update_tasks_def fire_update_def Let_def split: option.splits)

lemma skip_closes:
  assumes "t \<in> set (tasks_of j (skip_open_tasks now j d))"
  shows "tr_Status t \<noteq> Pending \<and> tr_Status t \<noteq> Waiting"
proof -
  let ?sel = "\<lambda>t. tr_JobID t = j \<and> tr_Status t \<in> {Pending, Waiting}"
  obtain u where u: "t = (if ?sel u then u\<lparr>tr_Status := Skipped\<rparr> else u)" "tr_JobID t = j"
    using assms unfolding tasks_of_def skip_open_tasks_def update_tasks_sel set_filter set_map by blast
  then show ?thesis by (cases "?sel u") auto
qed

lemma delete_outbox_sel [simp]:
  "db_jobs (delete_outbox j d) = db_jobs d" "db_tasks (delete_outbox j d) = db_tasks d"
  "counters_ok (delete_outbox j d) = counters_ok d"
  by (simp_all add: delete_outbox_def outbox_only_counts)

definition cancelled_state :: "string \<Rightarrow> hover_db \<Rightarrow> bool" where
  "cancelled_state j d \<longleftrightarrow> counters_ok d \<and> (\<exists>r. db_jobs d j = Some r \<and> jr_Status r = JCancelled) \<and>
     list_all (\<lambda>t. tr_Status t \<notin> {Pending, Waiting}) (tasks_of j d) \<and> j \<notin> ob_jobID ` set (od_rows (db_outbox d))"

lemma cancel_tx_result:
  assumes "cancel_tx now j F d = (Inr x, d')" "counters_ok d" "db_jobs d j \<noteq> None"
  shows "cancelled_state j d'"
proof -
  let ?d1 = "skip_open_tasks now j d"
  let ?f = "\<lambda>r. r\<lparr>jr_Status := JCancelled, jr_CompletedAt := Some now\<rparr>"
  obtain r where r: "db_jobs ?d1 j = Some r" using assms(3) skip_job [of now j d j] by auto
  let ?d2 = "snd (update_job now (\<lambda>r. True) ?f j ?d1)"
  have d': "d' = delete_outbox j ?d2" using assms(1)
    by (auto simp: cancel_tx_def set_job_tx_def tx_defs split: option.splits prod.splits)
  have "counters_ok ?d1" by (rule skip_keeps_counters [OF assms(2)])
  then have "counters_ok ?d2" by (intro update_job_counts) (simp add: same_counters_def)
  moreover have "\<exists>r. db_jobs ?d2 j = Some r \<and> jr_Status r = JCancelled" by (simp add: update_job_def r)
  moreover have "list_all (\<lambda>t. tr_Status t \<notin> {Pending, Waiting}) (tasks_of j ?d2)"
    using skip_closes [of _ j now d] by (simp add: tasks_of_def list_all_iff)
  moreover have "j \<notin> ob_jobID ` set (od_rows (db_outbox d'))" by (auto simp: d' delete_outbox_def)
  ultimately show ?thesis by (simp add: cancelled_state_def d' tasks_of_def)
qed

lemma cancelled_inv:
  assumes "counters_ok d \<and> db_jobs d j \<noteq> None" "cancel_tx now j F d = (Inr x, d')"
  shows "counters_ok d' \<and> db_jobs d' j \<noteq> None"
  using cancel_tx_result [OF assms(2)] assms(1) by (auto simp: cancelled_state_def)

lemma cancel_succeeds:
  assumes "CancelJob q A now j jm p d = (None, jm', ended, p', d')" "counters_ok d"
    and "db_jobs d j = Some r" "jr_Status r \<noteq> JCancelled"
  shows "cancelled_state j d' \<and> ended = [j]"
proof -
  obtain res p1 d1 where g: "GetJob q (A 0) j p d = (res, p1, d1)" by (rule prod_cases3)
  have d1: "d1 = d" using GetJob_reads(1) [OF g] .
  obtain r0 name where res: "res = Inr (r0, name)" using assms(1) g by (cases res) (auto simp: CancelJob_def)
  then have r0: "r0 = r" using GetJob_reads(2) [OF g res] assms(3) by simp
  obtain u p2 d2 where x: "Execute_tx q (A 1) (cancel_tx now j) p1 d = (Inr u, p2, d2)" "ended = [j]" "d' = d2"
    using assms(1,4) g res r0 d1 by (auto simp: CancelJob_def split: if_splits prod.splits sum.splits)
  obtain d3 F where a: "applied (cancel_tx now j) d d3" "cancel_tx now j F d3 = (Inr u, d2)"
    using execute_success [OF x(1)] by blast
  have "counters_ok d3 \<and> db_jobs d3 j \<noteq> None"
    by (rule applied_invariant [OF a(1), where P = "\<lambda>x. counters_ok x \<and> db_jobs x j \<noteq> None"], erule (1) cancelled_inv)
       (simp add: assms(2,3))
  then show ?thesis using cancel_tx_result [OF a(2)] x(2,3) by blast
qed

text \<open>C13: A cancellation that succeeds, after whatever retries, leaves the job cancelled, none of its tasks
  pending or waiting, no row of it in the outbox, and the counters right; and it ends the job at the
  callback.\<close>

theorem cancel_lands:
  assumes "CancelJob q A now j jm p d = (None, jm', ended, p', d')" "counters_ok d"
    and "db_jobs d j = Some r" "jr_Status r \<noteq> JCancelled"
  shows "cancelled_state j d' \<and> ended = [j]"
  by (rule cancel_succeeds [OF assms])

section \<open>Blocking a job\<close>

text \<open>A transaction that cannot succeed changes nothing.\<close>

lemma never_applied:
  assumes "applied fn d d1" "\<And>F x b. fn F d \<noteq> (Inr x, b)"
  shows "d1 = d"
  using assms by (induction rule: applied.induct) (auto simp: applied_once_def)

lemma block_tx_lost:
  assumes ok: "counters_ok d" "db_jobs d j = Some r" "jr_Status r \<in> set live_statuses"
    and t: "t \<in> set (tasks_of j d)" "tr_Status t \<in> {Pending, Waiting}" "\<forall>u \<in> set (tasks_of j d). tr_Status u \<noteq> Running"
  shows "block_tx now j vendor reason F d =
    (case F 0 of Some e \<Rightarrow> (Inl e, d)
     | None \<Rightarrow> (case F 1 of Some e \<Rightarrow> (Inl e, skip_open_tasks now j d) | None \<Rightarrow> (Inl errBlockJobRaceLost, skip_open_tasks now j d)))"
proof -
  let ?sel = "\<lambda>t. tr_JobID t = j \<and> tr_Status t \<in> {Pending, Waiting}" and ?f = "\<lambda>t. t\<lparr>tr_Status := Skipped\<rparr>"
  let ?d1 = "update_tasks now ?sel ?f d"
  have key: "same_key ?f" by (simp add: same_key_def)
  have live: "jr_Status r \<notin> {JCancelled, JFailed, JBlocked, JCompleted}" using ok(3) by (auto simp: live_statuses_def)
  have tt: "t \<in> set (db_tasks d)" "tr_JobID t = j" using t(1) by (auto simp: tasks_of_def)
  have all: "terminal_task u" if "u \<in> set (tasks_of j ?d1)" for u
  proof -
    from that obtain v where v: "v \<in> set (db_tasks d)" "u = (if ?sel v then ?f v else v)" "tr_JobID u = j"
      unfolding tasks_of_def update_tasks_sel set_filter set_map by blast
    then have "tr_JobID v = j" by (cases "?sel v") auto
    then have "tr_Status v \<noteq> Running" using t(3) v(1) by (auto simp: tasks_of_def)
    then show ?thesis using v(2,3) \<open>tr_JobID v = j\<close> by (cases "tr_Status v") (auto simp: terminal_task_def)
  qed
  have "\<exists>r'. db_jobs ?d1 j = Some r' \<and> (jr_Status r' = JCompleted \<longleftrightarrow> (\<forall>u \<in> set (tasks_of j ?d1). terminal_task u)) \<and>
      (jr_Status r' \<noteq> JCompleted \<longrightarrow> jr_Status r' = jr_Status r)"
    by (rule update_completes [OF key ok(1,2) live tt]) (use t(2) tt in auto)
  then obtain r' where "db_jobs ?d1 j = Some r'" "jr_Status r' = JCompleted" using all by blast
  then have "update_job now (\<lambda>r. jr_Status r \<in> set live_statuses) g j ?d1 = (0, ?d1)" for g
    by (simp add: update_job_def live_statuses_def)
  then show ?thesis by (simp add: block_tx_def set_job_tx_def tx_defs skip_open_tasks_def split: option.split)
qed

text \<open>C14: A job that is being crawled can never be blocked.  Skipping its open tasks makes the counter
  trigger complete the job, so the guarded update of the status matches no row: the transaction takes
  this for a lost race and rolls back, whatever is retried, and nobody is told that the job has ended.
  The call reports success all the same: an error is returned only when the job could not be read,
  when an attempt was disturbed, or when the pool is saturated.\<close>

theorem block_never_lands:
  assumes "counters_ok d" "db_jobs d j = Some r" "jr_Status r \<in> {JRunning, JPending, JPaused, JInitialising}"
    and "t \<in> set (tasks_of j d)" "tr_Status t \<in> {Pending, Waiting}" "\<forall>u \<in> set (tasks_of j d). tr_Status u \<noteq> Running"
    and "BlockJob q A now j vendor reason jm p d = (err, jm', ended, p', d')"
  shows "d' = d \<and> jm' = jm \<and> ended = [] \<and>
    (err = None \<or> isl (fst (GetJob q (A 0) j p d)) \<or> (\<exists>k. disturbed (A 1 k)) \<or>
       err = Some (wrap ''failed to block job: '' ErrPoolSaturated))"
proof -
  have live: "jr_Status r \<in> set live_statuses" using assms(3) by (auto simp: live_statuses_def)
  note tx = block_tx_lost [OF assms(1,2) live assms(4-6)]
  have never: "block_tx now j vendor reason F d \<noteq> (Inr x, b)" for F x b unfolding tx by (auto split: option.splits)
  obtain res p1 d1 where g: "GetJob q (A 0) j p d = (res, p1, d1)" by (rule prod_cases3)
  have d1: "d1 = d" using GetJob_reads(1) [OF g] .
  show ?thesis
  proof (cases res)
    case (Inl e)
    then show ?thesis using assms(7) g d1 by (auto simp: BlockJob_def)
  next
    case (Inr y)
    obtain r0 name where y: "y = (r0, name)" by (rule prod.exhaust)
    have "r0 = r" using GetJob_reads(2) [OF g] Inr y assms(2) by simp
    obtain u p2 d2 where x: "Execute_tx q (A 1) (block_tx now j vendor reason) p1 d = (u, p2, d2)" by (rule prod_cases3)
    have "d2 = d" by (rule never_applied [OF execute_applied [OF x]]) (rule never)
    moreover have "\<exists>e. u = Inl e"
    proof (cases u)
      case (Inr v)
      then obtain d3 F where a: "applied (block_tx now j vendor reason) d d3" "block_tx now j vendor reason F d3 = (Inr v, d2)"
        using execute_success [OF x [unfolded Inr]] by blast
      have "d3 = d" by (rule never_applied [OF a(1)]) (rule never)
      then show ?thesis using a(2) never [of F v d2] by simp
    qed simp
    ultimately obtain e where u: "u = Inl e" "d2 = d" by blast
    have calm: "e = errBlockJobRaceLost \<or> e = ErrPoolSaturated" if "\<not> (\<exists>k. disturbed (A 1 k))"
      using undisturbed_lane [of "A 1" q Bulk "block_tx now j vendor reason" p1 d u p2 d2] that x u
      by (auto simp: Execute_tx_def undisturbed_result_def tx)
    have nb: "jr_Status r \<noteq> JBlocked" using assms(3) by auto
    have "BlockJob q A now j vendor reason jm p d =
        (if e = errBlockJobRaceLost then (None, jm, [], p2, d) else (Some (wrap ''failed to block job: '' e), jm, [], p2, d))"
      unfolding BlockJob_def g Inr y \<open>r0 = r\<close> d1 using live nb by (simp add: x [unfolded u One_nat_def])
    then show ?thesis using assms(7) calm by (cases "e = errBlockJobRaceLost") auto
  qed
qed

section \<open>Pages are enqueued once\<close>

lemma marks_mono: "isPageProcessed j i jm \<Longrightarrow> isPageProcessed j i (foldl (\<lambda>m pg. markPageProcessed j (pg_ID pg) m) jm ps)"
  by (induction ps arbitrary: jm) (auto simp: isPageProcessed_def markPageProcessed_def)

lemma marks_all: "pg \<in> set ps \<Longrightarrow> isPageProcessed j (pg_ID pg) (foldl (\<lambda>m pg. markPageProcessed j (pg_ID pg) m) jm ps)"
proof (induction ps arbitrary: jm)
  case (Cons x ps)
  show ?case
  proof (cases "pg \<in> set ps")
    case False
    then have "x = pg" using Cons.prems by simp
    have "isPageProcessed j (pg_ID pg) (markPageProcessed j (pg_ID pg) jm)"
      by (simp add: isPageProcessed_def markPageProcessed_def)
    then show ?thesis using marks_mono \<open>x = pg\<close> by simp
  qed (simp add: Cons)
qed simp

text \<open>A process enqueues a page of a job once: when a call has succeeded, another with the same pages
  does nothing, whatever the sources, until the job is forgotten.\<close>

theorem enqueued_once:
  assumes "EnqueueJobURLs q A E cb now j pages srcType srcURL jm p d = (None, es, jm', p', d')"
  shows "EnqueueJobURLs q B E cb' now' j pages srcType' srcURL' jm' p2 d2 = (None, [], jm', p2, d2)"
proof -
  let ?fresh = "filter (\<lambda>pg. \<not> isPageProcessed j (pg_ID pg) jm) pages"
  have "isPageProcessed j (pg_ID pg) jm'" if "pg \<in> set pages" for pg
  proof (cases "?fresh = []")
    case True
    then have "jm' = jm" using assms by (simp add: EnqueueJobURLs_def)
    then show ?thesis using True that by (auto simp: filter_empty_conv)
  next
    case False
    obtain e p1 d1 where u: "EnqueueURLs q E (A 0) (A 1) j ?fresh srcType srcURL now p d = (e, p1, d1)" by (rule prod_cases3)
    have e: "e = None" using assms False u by (cases e) (auto simp: EnqueueJobURLs_def)
    then have "jm' = foldl (\<lambda>m pg. markPageProcessed j (pg_ID pg) m) jm ?fresh"
      using assms False u by (auto simp: EnqueueJobURLs_def Let_def split: option.splits prod.splits)
    then show ?thesis using that marks_all [of pg ?fresh j jm] marks_mono [of j "pg_ID pg" jm ?fresh]
      by (cases "isPageProcessed j (pg_ID pg) jm") auto
  qed
  then have "filter (\<lambda>pg. \<not> isPageProcessed j (pg_ID pg) jm') pages = []" by (auto simp: filter_empty_conv)
  then show ?thesis by (simp add: EnqueueJobURLs_def)
qed

section \<open>Concrete runs\<close>

definition calm_pool :: db_pool where
  "calm_pool = record_exec Bulk calm_attempt 1 (release_slot Bulk (take_slot Bulk idle_pool))"

lemma calm_run:
  assumes "fn (\<lambda>i. None) d = (Inr x, d')"
  shows "Execute_tx std_queue (\<lambda>i. calm_attempt) fn idle_pool d = (Inr x, calm_pool, d')"
    and "\<exists>p'. Execute_tx std_queue (\<lambda>i. calm_attempt) fn calm_pool d = (Inr x, p', d')"
proof -
  have n: "nat (max (dq_maxTxRetries std_queue) 1) = Suc (Suc (Suc 0))" by (simp add: std_queue_def)
  have once: "executeOnceWithContext calm_attempt fn d = (Inr x, d')"
    using assms by (simp add: executeOnceWithContext_def calm_attempt_def)
  have cap: "ensurePoolCapacity std_queue Bulk calm_attempt idle_pool = (None, take_slot Bulk idle_pool)"
    by (rule idle_capacity) (simp_all add: calm_attempt_def)
  have ms: "at_ms calm_attempt = 1" by (simp add: calm_attempt_def)
  show "Execute_tx std_queue (\<lambda>i. calm_attempt) fn idle_pool d = (Inr x, calm_pool, d')"
    unfolding Execute_tx_def executeWithContextLane_def n by (simp add: cap once ms Let_def calm_pool_def)
  have lim: "0 < EffectiveLimit (dp_pressure calm_pool)" by code_simp
  have used: "lane_used Bulk calm_pool = 0"
    by (simp add: lane_used_def calm_pool_def record_exec_def release_slot_def take_slot_def idle_pool_def)
  have "ensurePoolCapacity std_queue Bulk calm_attempt calm_pool = (None, take_slot Bulk calm_pool)"
    using lim used by (simp add: ensurePoolCapacity_def lane_capacity_def std_queue_def calm_attempt_def)
  then show "\<exists>p'. Execute_tx std_queue (\<lambda>i. calm_attempt) fn calm_pool d = (Inr x, p', d')"
    unfolding Execute_tx_def executeWithContextLane_def n by (simp add: once Let_def)
qed

lemma open_get: "get_job_tx ''j'' (\<lambda>i. None) open_db = (Inr (demo_job, ''a.com''), open_db)"
  by (simp add: get_job_tx_def tx_defs open_db_def demo_defs)

lemma open_ok: "counters_ok open_db" "db_jobs open_db ''j'' = Some demo_job"
  using open_db_ok(1) by (simp_all add: queue_ok_def open_db_def demo_db_def)

theorem milestones_rise_witness:
  "sorted_wrt (<) (fired_for ''j'' (fst (milestone_run [([''j''], open_db), ([''j''], open_db)] NewJobManager)))"
  using milestones_rise [OF prod.collapse [symmetric], of "[([''j''], open_db), ([''j''], open_db)]" "''j''"] open_ok(1) by simp

theorem cancel_lands_witness:
  "\<exists>jm' ended p' d'. CancelJob std_queue (\<lambda>i k. calm_attempt) 9 ''j'' NewJobManager idle_pool open_db = (None, jm', ended, p', d') \<and>
     cancelled_state ''j'' d'"
proof -
  have g: "GetJob std_queue (\<lambda>k. calm_attempt) ''j'' idle_pool open_db = (Inr (demo_job, ''a.com''), calm_pool, open_db)"
    by (simp add: GetJob_def calm_run(1) [of "get_job_tx ''j''", OF open_get])
  have "\<exists>x d'. cancel_tx 9 ''j'' (\<lambda>i. None) open_db = (Inr x, d')"
    by (simp add: cancel_tx_def set_job_tx_def tx_defs split: prod.split)
  then obtain x d' where "cancel_tx 9 ''j'' (\<lambda>i. None) open_db = (Inr x, d')" by blast
  from calm_run(2) [of "cancel_tx 9 ''j''", OF this]
  obtain p' where x: "Execute_tx std_queue (\<lambda>k. calm_attempt) (cancel_tx 9 ''j'') calm_pool open_db = (Inr x, p', d')" by blast
  have c: "CancelJob std_queue (\<lambda>i k. calm_attempt) 9 ''j'' NewJobManager idle_pool open_db =
      (None, forget_job ''j'' NewJobManager, [''j''], p', d')"
    by (simp add: CancelJob_def g x live_statuses_def demo_job_def)
  have "jr_Status demo_job \<noteq> JCancelled" by (simp add: demo_job_def)
  from cancel_lands [OF c open_ok this] c show ?thesis by (intro exI conjI) auto
qed

theorem block_never_lands_witness:
  "case BlockJob std_queue (\<lambda>i k. calm_attempt) 9 ''j'' ''cloudflare'' ''403'' NewJobManager idle_pool open_db of
     (err, jm', ended, p', d') \<Rightarrow> d' = open_db \<and> ended = [] \<and> err \<in> {None, Some (wrap ''failed to block job: '' ErrPoolSaturated)}"
proof -
  obtain err jm' ended p' d' where b: "BlockJob std_queue (\<lambda>i k. calm_attempt) 9 ''j'' ''cloudflare'' ''403'' NewJobManager idle_pool open_db =
      (err, jm', ended, p', d')" by (rule prod_cases5)
  have t: "tasks_of ''j'' open_db = [demo_task ''x'' 1 Pending, demo_task ''y'' 2 Waiting]"
    by (simp add: tasks_of_def open_db_def demo_db_def demo_task_def)
  have g: "\<not> isl (fst (GetJob std_queue (\<lambda>k. calm_attempt) ''j'' idle_pool open_db))"
    by (simp add: GetJob_def calm_run(1) [of "get_job_tx ''j''", OF open_get])
  have calm: "\<not> disturbed calm_attempt" by (simp add: disturbed_def calm_attempt_def)
  have "d' = open_db \<and> jm' = NewJobManager \<and> ended = [] \<and>
      (err = None \<or> isl (fst (GetJob std_queue (\<lambda>k. calm_attempt) ''j'' idle_pool open_db)) \<or> (\<exists>k :: nat. disturbed calm_attempt) \<or>
       err = Some (wrap ''failed to block job: '' ErrPoolSaturated))"
    by (rule block_never_lands [OF open_ok, of "demo_task ''x'' 1 Pending", OF _ _ _ _ b])
       (simp_all add: t demo_job_def, simp_all add: demo_task_def)
  then show ?thesis using g calm by (simp add: b)
qed

theorem enqueued_once_witness:
  "\<exists>es jm' p' d'. EnqueueJobURLs std_queue (\<lambda>i k. calm_attempt) demo_env None 9 ''j'' demo_pages ''link'' ''/'' NewJobManager idle_pool open_db =
     (None, es, jm', p', d') \<and>
     EnqueueJobURLs std_queue (\<lambda>i k. calm_attempt) demo_env None 10 ''j'' demo_pages ''sitemap'' [] jm' p' d' = (None, [], jm', p', d')"
proof -
  have "\<exists>cfg d1. enqueue_tx demo_env ''j'' demo_pages ''link'' ''/'' 9 (\<lambda>i. None) open_db = (Inr (Some cfg), d1) \<and> eq_orgID cfg = None"
  proof -
    have cfg: "\<exists>cfg. enqueue_config_of demo_env ''j'' open_db = Inr cfg \<and> eq_orgID cfg = None"
      by (simp add: enqueue_config_of_def open_db_def demo_defs)
    have ne: "sort_key pg_ID (deduplicatePages demo_pages) \<noteq> []" by (simp add: deduplicatePages_def demo_pages_def dedup_step_def)
    from cfg ne show ?thesis by (auto simp: enqueue_tx_def tx_defs Let_def)
  qed
  then obtain cfg d1 where e: "enqueue_tx demo_env ''j'' demo_pages ''link'' ''/'' 9 (\<lambda>i. None) open_db = (Inr (Some cfg), d1)" "eq_orgID cfg = None"
    by blast
  have f: "filter (\<lambda>pg. \<not> isPageProcessed ''j'' (pg_ID pg) NewJobManager) demo_pages = demo_pages" "demo_pages \<noteq> []"
    by (simp_all add: isPageProcessed_def NewJobManager_def demo_pages_def)
  have "EnqueueURLs std_queue demo_env (\<lambda>k. calm_attempt) (\<lambda>k. calm_attempt) ''j'' demo_pages ''link'' ''/'' 9 idle_pool open_db = (None, calm_pool, d1)"
    using f(2) by (simp add: EnqueueURLs_def calm_run(1) [of "enqueue_tx demo_env ''j'' demo_pages ''link'' ''/'' 9", OF e(1)] e(2) split: list.split)
  then obtain jm' where r: "EnqueueJobURLs std_queue (\<lambda>i k. calm_attempt) demo_env None 9 ''j'' demo_pages ''link'' ''/'' NewJobManager idle_pool open_db =
      (None, [], jm', calm_pool, d1)" using f by (simp add: EnqueueJobURLs_def)
  show ?thesis by (intro exI conjI, rule r, rule enqueued_once [OF r])
qed

end
