(* ===== verification/Jobs_Sitemap.thy ===== *)
theory Jobs_Sitemap
  imports Jobs_Manager
begin

text \<open>
  \<open>internal/jobs/manager.go\<close>, how the tasks of a new job come from the sitemaps of its domain:
  filtering by paths and robots rules, the batches, and the state \<open>initializing\<close> of the job in
  the meantime.  The crawler that fetches is a parameter (\<open>site\<close>); its filter of paths
  (\<open>internal/crawler/sitemap.go\<close>) is modelled.
\<close>

section \<open>Settings\<close>

definition checked_env :: "(string \<Rightarrow> string) \<Rightarrow> string \<Rightarrow> (int \<Rightarrow> bool) \<Rightarrow> int \<Rightarrow> int" where
  "checked_env env key good fallback =
     (let v = trim_space (env key) in
      if v = [] then fallback
      else case atoi v of None \<Rightarrow> fallback | Some n \<Rightarrow> if good n then n else fallback)"

definition sitemapInsertConcurrency :: "(string \<Rightarrow> string) \<Rightarrow> int" where
  "sitemapInsertConcurrency env = checked_env env ''GNH_SITEMAP_CONCURRENCY'' (\<lambda>n. n > 0) 3"

definition sitemapBatchSize :: "(string \<Rightarrow> string) \<Rightarrow> int" where
  "sitemapBatchSize env = checked_env env ''GNH_SITEMAP_BATCH_SIZE'' (\<lambda>n. n > 0) 100"

definition sitemapBatchDelay :: "(string \<Rightarrow> string) \<Rightarrow> time" where
  "sitemapBatchDelay env = checked_env env ''GNH_SITEMAP_BATCH_DELAY_MS'' (\<lambda>n. n \<ge> 0) 200 * millisecond"

section \<open>Choosing the URLs\<close>

text \<open>What the crawler finds on a site.\<close>

record site =
  si_discover :: "string \<Rightarrow> go_error + string list \<times> robots_rules"
  si_sitemap :: "string \<Rightarrow> go_error + string list"

text \<open>The crawler's discovery: \<open>robots\<close> is the result of \<open>ParseRobotsTxt\<close>, \<open>status\<close> that of a
  \<open>HEAD\<close> request.  It never fails and always has rules.\<close>

definition DiscoverSitemapsAndRobots :: "(string \<Rightarrow> go_error + robots_rules) \<Rightarrow> (string \<Rightarrow> int option) \<Rightarrow> string
    \<Rightarrow> go_error + string list \<times> robots_rules" where
  "DiscoverSitemapsAndRobots robots status domain =
     (let d = NormaliseDomain domain;
          rules = (case robots d of Inl e \<Rightarrow> no_rules | Inr r \<Rightarrow> r);
          listed = (case robots d of Inl e \<Rightarrow> [] | Inr r \<Rightarrow> rr_Sitemaps r);
          sitemaps = (if listed \<noteq> [] then listed
                      else filter (\<lambda>u. status u = Some 200) [''https://'' @ d @ ''/sitemap.xml'', ''https://'' @ d @ ''/sitemap_index.xml''])
      in Inr (rev (remdups (rev sitemaps)), rules))"

definition FilterURLs :: "string list \<Rightarrow> string list \<Rightarrow> string list \<Rightarrow> string list" where
  "FilterURLs urls includePaths excludePaths =
     (if includePaths = [] \<and> excludePaths = [] then urls
      else filter (\<lambda>u. (includePaths = [] \<or> list_ex (str_contains u) includePaths) \<and> \<not> list_ex (str_contains u) excludePaths) urls)"

definition discoverAndParseSitemaps :: "site \<Rightarrow> string \<Rightarrow> go_error + string list \<times> robots_rules" where
  "discoverAndParseSitemaps s domain =
     (case si_discover s domain of
        Inl e \<Rightarrow> Inl e
      | Inr (sitemaps, rules) \<Rightarrow>
          Inr (concat (map (\<lambda>m. case si_sitemap s m of Inl e \<Rightarrow> [] | Inr urls \<Rightarrow> urls) sitemaps), rules))"

text \<open>Paths are checked as parsed, without the query; a URL that does not parse is dropped only when
  there are rules.\<close>

definition filterURLsAgainstRobots :: "bool \<Rightarrow> string list \<Rightarrow> robots_rules option \<Rightarrow> string list \<Rightarrow> string list \<Rightarrow> string list" where
  "filterURLsAgainstRobots hasCrawler urls rules includePaths excludePaths =
     (let chosen = (if hasCrawler \<and> (includePaths \<noteq> [] \<or> excludePaths \<noteq> []) then FilterURLs urls includePaths excludePaths else urls) in
      case rules of
        None \<Rightarrow> chosen
      | Some r \<Rightarrow>
          if rr_DisallowPatterns r = [] then chosen
          else filter (\<lambda>u. case url_parse u of None \<Rightarrow> False | Some v \<Rightarrow> IsPathAllowed (Some r) (u_Path v)) chosen)"

definition homepages :: "string \<Rightarrow> string list" where
  "homepages domain = [''https://'' @ domain @ ''/'', ''https://'' @ domain, ''http://'' @ domain @ ''/'', ''http://'' @ domain]"

definition hoistHomepageToFront :: "string list \<Rightarrow> string \<Rightarrow> string list" where
  "hoistHomepageToFront urls domain =
     (case dropWhile (\<lambda>u. u \<notin> set (homepages domain)) urls of
        [] \<Rightarrow> urls
      | u # rest \<Rightarrow> u # takeWhile (\<lambda>u. u \<notin> set (homepages domain)) urls @ rest)"

section \<open>Enqueueing a batch\<close>

text \<open>\<open>recalculate_job_stats\<close> of the migrations: the counters from the tasks, the progress from the
  counters as they were.\<close>

definition recalculate_job_stats :: "time \<Rightarrow> string \<Rightarrow> hover_db \<Rightarrow> hover_db" where
  "recalculate_job_stats now jobID d =
     (let ts = tasks_of jobID d in
      snd (update_job now (\<lambda>r. True) (\<lambda>r. r\<lparr>jr_Total := int (length ts), jr_Completed := count_status Completed ts,
        jr_Failed := count_status Failed ts, jr_Skipped := count_status Skipped ts,
        jr_Progress := job_progress (jr_Total r) (jr_Completed r) (jr_Failed r) (jr_Skipped r)\<rparr>) jobID d))"

text \<open>The attempts of the transactions of one batch, in their order.\<close>

record batch_env =
  be_select :: "nat \<Rightarrow> attempt"
  be_pages :: "nat \<Rightarrow> nat \<Rightarrow> attempt"
  be_enqueue :: "nat \<Rightarrow> nat \<Rightarrow> attempt"
  be_stats :: "nat \<Rightarrow> attempt"
  be_now :: time

record job_config =
  jc_queue :: queue
  jc_resolve :: "url \<Rightarrow> url \<Rightarrow> url"
  jc_enqueue :: enqueue_env
  jc_callback :: "(task_row \<Rightarrow> time) option"

text \<open>The process and the database; \<open>jw_scheduled\<close> is what the callback was told.\<close>

record job_world =
  jw_manager :: manager
  jw_pool :: db_pool
  jw_db :: hover_db
  jw_scheduled :: "enqueued_entry list"

datatype outcome = Done | Failed_with go_error | Panicked

definition page_of_record :: "int \<times> string \<times> string \<Rightarrow> page" where
  "page_of_record rc = (case rc of (i, host, path) \<Rightarrow>
     \<lparr>pg_ID = i, pg_Host = host, pg_Path = path, pg_Priority = (if path = ''/'' then 1 else 1 / 10)\<rparr>)"

definition enqueueURLsForJob :: "job_config \<Rightarrow> batch_env \<Rightarrow> string \<Rightarrow> string \<Rightarrow> string list \<Rightarrow> string \<Rightarrow> job_world \<Rightarrow> outcome \<times> job_world" where
  "enqueueURLsForJob C B jobID domain urls srcType w =
     (let q = jc_queue C in
      if urls = [] then (Done, w)
      else case Execute_tx q (be_select B) (tx_query 0 (\<lambda>d. case db_jobs d jobID of None \<Rightarrow> Inl no_rows | Some r \<Rightarrow> Inr (jr_DomainID r)))
              (jw_pool w) (jw_db w) of
        (Inl e, p1, d1) \<Rightarrow> (Failed_with (wrap ''failed to get domain ID: '' e), w\<lparr>jw_pool := p1, jw_db := d1\<rparr>)
      | (Inr domainID, p1, d1) \<Rightarrow>
          (case CreatePageRecords q (be_pages B) (jc_resolve C) domainID domain urls p1 d1 of
             (PagesPanic, p2, d2) \<Rightarrow> (Panicked, w\<lparr>jw_pool := p2, jw_db := d2\<rparr>)
           | (PagesFailed e, p2, d2) \<Rightarrow> (Failed_with (wrap ''failed to create page records: '' e), w\<lparr>jw_pool := p2, jw_db := d2\<rparr>)
           | (Records rs, p2, d2) \<Rightarrow>
               (case EnqueueJobURLs q (be_enqueue B) (jc_enqueue C) (jc_callback C) (be_now B) jobID (map page_of_record rs) srcType
                       (''https://'' @ domain) (jw_manager w) p2 d2 of
                  (Some e, es, jm, p3, d3) \<Rightarrow>
                    (Failed_with (wrap ''failed to enqueue URLs: '' e), w\<lparr>jw_manager := jm, jw_pool := p3, jw_db := d3\<rparr>)
                | (None, es, jm, p3, d3) \<Rightarrow>
                    (case Execute_tx q (be_stats B) (tx_exec 0 (recalculate_job_stats (be_now B) jobID)) p3 d3 of
                       (r, p4, d4) \<Rightarrow> (Done, w\<lparr>jw_manager := jm, jw_pool := p4, jw_db := d4, jw_scheduled := jw_scheduled w @ es\<rparr>)))))"

section \<open>States of the job\<close>

definition move_job_tx :: "time \<Rightarrow> string \<Rightarrow> job_status \<Rightarrow> job_status \<Rightarrow> string \<Rightarrow> (unit, hover_db) tx" where
  "move_job_tx now jobID from to message =
     tx_bind (set_job_tx 0 now jobID (\<lambda>r. jr_Status r = from) (\<lambda>r. r\<lparr>jr_Status := to\<rparr>))
       (\<lambda>n. if n \<noteq> 1 then tx_fail (plain_error message) else tx_return ())"

definition run_unit :: "queue \<Rightarrow> (nat \<Rightarrow> attempt) \<Rightarrow> (unit, hover_db) tx \<Rightarrow> job_world \<Rightarrow> go_error option \<times> job_world" where
  "run_unit q P m w =
     (case Execute_tx q P m (jw_pool w) (jw_db w) of
        (Inl e, p, d) \<Rightarrow> (Some e, w\<lparr>jw_pool := p, jw_db := d\<rparr>)
      | (Inr u, p, d) \<Rightarrow> (None, w\<lparr>jw_pool := p, jw_db := d\<rparr>))"

definition enterInitialising :: "queue \<Rightarrow> (nat \<Rightarrow> attempt) \<Rightarrow> time \<Rightarrow> string \<Rightarrow> job_world \<Rightarrow> go_error option \<times> job_world" where
  "enterInitialising q P now jobID =
     run_unit q P (move_job_tx now jobID JPending JInitialising (''job '' @ jobID @ '' not in expected status pending''))"

definition transitionInitialisingToPending :: "queue \<Rightarrow> (nat \<Rightarrow> attempt) \<Rightarrow> time \<Rightarrow> string \<Rightarrow> job_world \<Rightarrow> go_error option \<times> job_world" where
  "transitionInitialisingToPending q P now jobID =
     run_unit q P (move_job_tx now jobID JInitialising JPending
       (''job '' @ jobID @ '' no longer in initialising state (may have been cancelled)''))"

definition set_job :: "queue \<Rightarrow> (nat \<Rightarrow> attempt) \<Rightarrow> time \<Rightarrow> string \<Rightarrow> (job_row \<Rightarrow> bool) \<Rightarrow> (job_row \<Rightarrow> job_row) \<Rightarrow> job_world \<Rightarrow> job_world" where
  "set_job q P now jobID sel f w =
     (case run_set_job q P now jobID sel f (jw_pool w) (jw_db w) of (e, p, d) \<Rightarrow> w\<lparr>jw_pool := p, jw_db := d\<rparr>)"

text \<open>The goroutine of \<open>clearInitialisingAfterSitemapCancel\<close>.\<close>

definition clearInitialisingAfterSitemapCancel :: "queue \<Rightarrow> (nat \<Rightarrow> attempt) \<Rightarrow> time \<Rightarrow> string \<Rightarrow> job_world \<Rightarrow> job_world" where
  "clearInitialisingAfterSitemapCancel q P now jobID =
     set_job q P now jobID (\<lambda>r. jr_Status r = JInitialising) (\<lambda>r. r\<lparr>jr_Status := JPending\<rparr>)"

definition updateDomainCrawlDelay :: "queue \<Rightarrow> (nat \<Rightarrow> attempt) \<Rightarrow> string \<Rightarrow> int \<Rightarrow> job_world \<Rightarrow> job_world" where
  "updateDomainCrawlDelay q P domain delay w =
     (if delay \<le> 0 then w
      else snd (run_unit q P (tx_exec 0 (\<lambda>d. d\<lparr>db_domains :=
             map (\<lambda>m. if dm_Name m = domain then m\<lparr>dm_CrawlDelay := Some delay\<rparr> else m) (db_domains d)\<rparr>)) w))"

definition enqueueFallbackURL :: "job_config \<Rightarrow> batch_env \<Rightarrow> (nat \<Rightarrow> attempt) \<Rightarrow> string \<Rightarrow> string \<Rightarrow> job_world \<Rightarrow> outcome \<times> job_world" where
  "enqueueFallbackURL C B P jobID domain w =
     (case enqueueURLsForJob C B jobID domain [''https://'' @ domain @ ''/''] ''fallback'' w of
        (Failed_with e, w1) \<Rightarrow>
          (Failed_with e, set_job (jc_queue C) P (be_now B) jobID (\<lambda>r. True)
             (\<lambda>r. r\<lparr>jr_Error := Some (''Failed to create fallback task: '' @ ge_text e)\<rparr>) w1)
      | r \<Rightarrow> r)"

section \<open>The loop over the batches\<close>

text \<open>What happens around one batch: the read of the status, whether the semaphore is entered before
  the context ends, and the transition after the first batch.\<close>

record loop_env =
  lp_status :: "nat \<Rightarrow> attempt"
  lp_slot :: bool
  lp_clear :: "nat \<Rightarrow> attempt"
  lp_batch :: batch_env
  lp_open :: "nat \<Rightarrow> attempt"

text \<open>The first component of the result: the loop ran to its end, or the goroutine returned from
  within (\<open>None\<close>), and whether a batch has been enqueued.\<close>

function sitemap_batches :: "job_config \<Rightarrow> (nat \<Rightarrow> loop_env) \<Rightarrow> nat \<Rightarrow> string \<Rightarrow> string \<Rightarrow> nat \<Rightarrow> string list \<Rightarrow> bool \<Rightarrow> job_world
    \<Rightarrow> bool option \<times> job_world" where
  "sitemap_batches C L batchSize jobID domain i urls firstDone w =
     (if urls = [] \<or> batchSize = 0 then (Some firstDone, w)
      else let q = jc_queue C; B = lp_batch (L i); now = be_now B in
        (case isJobInTerminalStatus q (lp_status (L i)) jobID (jw_pool w) (jw_db w) of
           (over, p1, d1) \<Rightarrow>
             let w1 = w\<lparr>jw_pool := p1, jw_db := d1\<rparr> in
             if over then (None, w1)
             else if \<not> lp_slot (L i) then (None, clearInitialisingAfterSitemapCancel q (lp_clear (L i)) now jobID w1)
             else (case enqueueURLsForJob C B jobID domain (take batchSize urls) ''sitemap'' w1 of
                     (Panicked, w2) \<Rightarrow> (None, w2)
                   | (Failed_with e, w2) \<Rightarrow> sitemap_batches C L batchSize jobID domain (Suc i) (drop batchSize urls) firstDone w2
                   | (Done, w2) \<Rightarrow>
                       sitemap_batches C L batchSize jobID domain (Suc i) (drop batchSize urls) True
                         (if firstDone then w2 else snd (transitionInitialisingToPending q (lp_open (L i)) now jobID w2)))))"
  by pat_completeness auto

termination
  by (relation "measure (\<lambda>(C, L, n, jobID, domain, i, urls, b, w). length urls)") auto

declare sitemap_batches.simps [simp del]

record sitemap_env =
  se_env :: "string \<Rightarrow> string"
  se_now :: time
  se_enter :: "nat \<Rightarrow> attempt"
  se_message :: "nat \<Rightarrow> attempt"
  se_fail :: "nat \<Rightarrow> attempt"
  se_delay :: "nat \<Rightarrow> attempt"
  se_found :: "nat \<Rightarrow> attempt"
  se_loop :: "nat \<Rightarrow> loop_env"
  se_open :: "nat \<Rightarrow> attempt"
  se_fallback :: batch_env

definition processSitemap :: "job_config \<Rightarrow> site \<Rightarrow> sitemap_env \<Rightarrow> string \<Rightarrow> string \<Rightarrow> string list \<Rightarrow> string list \<Rightarrow> job_world \<Rightarrow> job_world" where
  "processSitemap C s S jobID domain includePaths excludePaths w =
     (let q = jc_queue C; now = se_now S in
      case enterInitialising q (se_enter S) now jobID w of
        (Some e, w1) \<Rightarrow> w1
      | (None, w1) \<Rightarrow>
          (case discoverAndParseSitemaps s domain of
             Inl e \<Rightarrow>
               set_job q (se_fail S) now jobID (\<lambda>r. jr_Status r \<in> {JInitialising, JPending})
                 (\<lambda>r. r\<lparr>jr_Status := JFailed, jr_CompletedAt := Some now\<rparr>)
                 (set_job q (se_message S) now jobID (\<lambda>r. True)
                    (\<lambda>r. r\<lparr>jr_Error := Some (''Failed to discover sitemaps: '' @ ge_text e)\<rparr>) w1)
           | Inr (found, rules) \<Rightarrow>
               let w2 = updateDomainCrawlDelay q (se_delay S) domain (rr_CrawlDelay rules) w1;
                   urls = filterURLsAgainstRobots True found (Some rules) includePaths excludePaths;
                   w3 = set_job q (se_found S) now jobID (\<lambda>r. True) (\<lambda>r. r\<lparr>jr_SitemapFound := int (length urls)\<rparr>) w2
               in if urls \<noteq> []
                  then (case sitemap_batches C (se_loop S) (nat (sitemapBatchSize (se_env S))) jobID domain 0
                               (hoistHomepageToFront urls domain) False w3 of
                          (Some False, w4) \<Rightarrow> snd (transitionInitialisingToPending q (se_open S) now jobID w4)
                        | (_, w4) \<Rightarrow> w4)
                  else (case enqueueFallbackURL C (se_fallback S) (se_message S) jobID domain w3 of
                          (Done, w4) \<Rightarrow> snd (transitionInitialisingToPending q (se_open S) now jobID w4)
                        | (_, w4) \<Rightarrow> w4)))"

section \<open>Permutations and filters\<close>

text \<open>Hoisting only reorders the URLs, keeps the order of the others, and puts a homepage first when
  there is one, so that the first batch holds it.\<close>

theorem hoist_keeps_urls:
  "mset (hoistHomepageToFront urls domain) = mset urls \<and>
   list_ex (\<lambda>u. u \<in> set (homepages domain)) urls =
     (case hoistHomepageToFront urls domain of [] \<Rightarrow> False | u # us \<Rightarrow> u \<in> set (homepages domain))"
proof (cases "dropWhile (\<lambda>u. u \<notin> set (homepages domain)) urls")
  case Nil
  then have "\<not> list_ex (\<lambda>u. u \<in> set (homepages domain)) urls" by (simp add: dropWhile_eq_Nil_conv list_ex_iff)
  then show ?thesis unfolding hoistHomepageToFront_def Nil by (cases urls) simp_all
next
  case (Cons u rest)
  let ?P = "\<lambda>u. u \<notin> set (homepages domain)"
  have split: "urls = takeWhile ?P urls @ u # rest" using Cons takeWhile_dropWhile_id [of ?P urls] by simp
  then have "mset urls = mset (takeWhile ?P urls) + mset (u # rest)" by (metis mset_append)
  moreover have u: "u \<in> set (homepages domain)" using Cons hd_dropWhile [of ?P urls] by auto
  moreover have "list_ex (\<lambda>u. u \<in> set (homepages domain)) urls" unfolding list_ex_iff by (subst split) (use u in auto)
  ultimately show ?thesis by (simp add: hoistHomepageToFront_def Cons)
qed

lemma robots_filtered:
  assumes "u \<in> set (filterURLsAgainstRobots c urls (Some r) inc exc)"
  shows "u \<in> set urls \<and> (rr_DisallowPatterns r \<noteq> [] \<longrightarrow> (\<exists>v. url_parse u = Some v \<and> IsPathAllowed (Some r) (u_Path v)))"
  using assms by (auto simp: filterURLsAgainstRobots_def FilterURLs_def Let_def split: if_splits option.splits)

lemma validator_disagrees:
  "ValidateStatusTransition JPending JInitialising \<noteq> None" "ValidateStatusTransition JInitialising JPending \<noteq> None"
  "ValidateStatusTransition JPending JFailed \<noteq> None" "ValidateStatusTransition JPaused JCancelled \<noteq> None"
  by (simp_all add: ValidateStatusTransition_def validTransitions_def Let_def)

section \<open>A job that stays in initializing\<close>

definition initialising :: "string \<Rightarrow> hover_db \<Rightarrow> bool" where
  "initialising j d \<longleftrightarrow> (\<exists>r. db_jobs d j = Some r \<and> jr_Status r = JInitialising)"

lemma set_job_initialising:
  assumes "initialising j (jw_db w)" "\<And>r. jr_Status r = JInitialising \<Longrightarrow> sel r \<Longrightarrow> jr_Status (f r) = JInitialising"
  shows "initialising j (jw_db (set_job q P now j sel f w))"
proof -
  have k: "keeps (initialising j) (set_job_tx 0 now j sel f)"
    unfolding set_job_tx_def by (intro tx_keeps) (use assms(2) in \<open>auto simp: initialising_def update_job_def\<close>)
  obtain r p d where x: "Execute_tx q P (set_job_tx 0 now j sel f) (jw_pool w) (jw_db w) = (r, p, d)" by (rule prod_cases3)
  have "initialising j d" using execute_tx_keeps [OF k assms(1), of q P "jw_pool w"] x by simp
  then show ?thesis by (cases r) (simp_all add: set_job_def run_set_job_def x)
qed

lemma run_unit_keeps:
  assumes "keeps P m" "P (jw_db w)"
  shows "P (jw_db (snd (run_unit q A m w)))"
proof -
  obtain r p d where x: "Execute_tx q A m (jw_pool w) (jw_db w) = (r, p, d)" by (rule prod_cases3)
  have "P d" using execute_tx_keeps [OF assms, of q A "jw_pool w"] x by simp
  then show ?thesis by (cases r) (simp_all add: run_unit_def x)
qed

lemma delay_initialising:
  assumes "initialising j (jw_db w)"
  shows "initialising j (jw_db (updateDomainCrawlDelay q P domain delay w))"
proof (cases "delay \<le> 0")
  case False
  have "keeps (initialising j) (tx_exec 0 (\<lambda>d. d\<lparr>db_domains := g d\<rparr>))" for g
    by (intro tx_keeps) (simp add: initialising_def)
  from run_unit_keeps [OF this assms] False show ?thesis by (simp add: updateDomainCrawlDelay_def)
qed (simp add: updateDomainCrawlDelay_def assms)

lemma enter_initialises:
  assumes "enterInitialising q P now j w = (None, w1)"
  shows "initialising j (jw_db w1)"
proof -
  let ?m = "move_job_tx now j JPending JInitialising (''job '' @ j @ '' not in expected status pending'')"
  obtain u p d where x: "Execute_tx q P ?m (jw_pool w) (jw_db w) = (Inr u, p, d)" "jw_db w1 = d"
    using assms by (auto simp: enterInitialising_def run_unit_def split: prod.splits sum.splits)
  obtain d1 F where m: "?m F d1 = (Inr u, d)" using execute_success [OF x(1)] by blast
  obtain n d2 where n: "update_job now (\<lambda>r. jr_Status r = JPending) (\<lambda>r. r\<lparr>jr_Status := JInitialising\<rparr>) j d1 = (n, d2)" by (rule prod.exhaust)
  have one: "n = 1" "d = d2" using m n by (auto simp: move_job_tx_def set_job_tx_def tx_defs split: option.splits if_splits)
  have "n = 1 \<Longrightarrow> initialising j d2" using n by (auto simp: update_job_def initialising_def split: option.splits if_splits)
  then show ?thesis using one x(2) by simp
qed

text \<open>When a domain has no usable sitemap and the fallback to its root page fails, for example because
  the pool is saturated, the job stays in \<open>initializing\<close> without a task, and the repair of stuck
  jobs does not see it.\<close>

theorem failed_fallback_strands_job:
  assumes "enterInitialising (jc_queue C) (se_enter S) (se_now S) j w = (None, w1)"
    and "discoverAndParseSitemaps s domain = Inr (found, rules)" "filterURLsAgainstRobots True found (Some rules) inc exc = []"
    and "\<And>k. \<not> at_slot (be_select (se_fallback S) k)"
  shows "initialising j (snd (CleanupStuckJobs None now (jw_db (processSitemap C s S j domain inc exc w))))"
proof -
  let ?q = "jc_queue C"
  let ?w2 = "updateDomainCrawlDelay ?q (se_delay S) domain (rr_CrawlDelay rules) w1"
  let ?w3 = "set_job ?q (se_found S) (se_now S) j (\<lambda>r. True) (\<lambda>r. r\<lparr>jr_SitemapFound := 0\<rparr>) ?w2"
  have i1: "initialising j (jw_db w1)" by (rule enter_initialises [OF assms(1)])
  have i3: "initialising j (jw_db ?w3)" by (intro set_job_initialising delay_initialising i1) simp
  have "\<exists>e p. Execute_tx ?q (be_select (se_fallback S)) fn (jw_pool ?w3) (jw_db ?w3) = (Inl e, p, jw_db ?w3)"
    for fn :: "(int, hover_db) tx" by (rule no_slot) (rule assms(4))
  then obtain e p where x: "Execute_tx ?q (be_select (se_fallback S)) (tx_query 0 (\<lambda>d. case db_jobs d j of None \<Rightarrow> Inl no_rows
      | Some r \<Rightarrow> Inr (jr_DomainID r))) (jw_pool ?w3) (jw_db ?w3) = (Inl e, p, jw_db ?w3)" by blast
  let ?e = "wrap ''failed to get domain ID: '' e" and ?w4 = "?w3\<lparr>jw_pool := p, jw_db := jw_db ?w3\<rparr>"
  let ?w5 = "set_job ?q (se_message S) (be_now (se_fallback S)) j (\<lambda>r. True)
      (\<lambda>r. r\<lparr>jr_Error := Some (''Failed to create fallback task: '' @ ge_text ?e)\<rparr>) ?w4"
  have "enqueueFallbackURL C (se_fallback S) (se_message S) j domain ?w3 = (Failed_with ?e, ?w5)"
    by (simp add: enqueueFallbackURL_def enqueueURLsForJob_def x Let_def)
  then have r: "processSitemap C s S j domain inc exc w = ?w5"
    by (simp add: processSitemap_def assms(1,2,3) Let_def)
  have "initialising j (jw_db ?w5)" by (rule set_job_initialising) (simp_all add: i3)
  then show ?thesis unfolding r by (auto simp: initialising_def CleanupStuckJobs_def stuck_def)
qed

definition pending_db :: hover_db where
  "pending_db = demo_db (demo_job\<lparr>jr_Status := JPending, jr_Total := 0, jr_Pending := 0, jr_Waiting := 0\<rparr>) []"

definition demo_config :: job_config where
  "demo_config = \<lparr>jc_queue = std_queue, jc_resolve = (\<lambda>b u. u), jc_enqueue = demo_env, jc_callback = None\<rparr>"

definition demo_batch :: "bool \<Rightarrow> batch_env" where
  "demo_batch slot = \<lparr>be_select = (\<lambda>k. calm_attempt\<lparr>at_slot := slot\<rparr>), be_pages = (\<lambda>i k. calm_attempt), be_enqueue = (\<lambda>i k. calm_attempt),
     be_stats = (\<lambda>k. calm_attempt), be_now = 9\<rparr>"

definition demo_sitemap :: "bool \<Rightarrow> sitemap_env" where
  "demo_sitemap slot = \<lparr>se_env = (\<lambda>k. []), se_now = 9, se_enter = (\<lambda>k. calm_attempt), se_message = (\<lambda>k. calm_attempt),
     se_fail = (\<lambda>k. calm_attempt), se_delay = (\<lambda>k. calm_attempt), se_found = (\<lambda>k. calm_attempt),
     se_loop = (\<lambda>i. \<lparr>lp_status = (\<lambda>k. calm_attempt), lp_slot = True, lp_clear = (\<lambda>k. calm_attempt), lp_batch = demo_batch slot,
       lp_open = (\<lambda>k. calm_attempt)\<rparr>), se_open = (\<lambda>k. calm_attempt), se_fallback = demo_batch slot\<rparr>"

definition bare_site :: site where
  "bare_site = \<lparr>si_discover = (\<lambda>d. Inr ([], no_rules)), si_sitemap = (\<lambda>u. Inr [])\<rparr>"

definition pending_world :: job_world where
  "pending_world = \<lparr>jw_manager = NewJobManager, jw_pool = idle_pool, jw_db = pending_db, jw_scheduled = []\<rparr>"

theorem failed_fallback_strands_job_witness:
  "initialising ''j'' (snd (CleanupStuckJobs None 10 (jw_db (processSitemap demo_config bare_site (demo_sitemap False) ''j'' ''a.com'' [] []
     pending_world))))"
proof -
  let ?m = "move_job_tx 9 ''j'' JPending JInitialising (''job '' @ ''j'' @ '' not in expected status pending'')"
  have "\<exists>d. ?m (\<lambda>i. None) pending_db = (Inr (), d)"
    by (simp add: move_job_tx_def set_job_tx_def tx_defs update_job_def pending_db_def demo_db_def)
  then obtain d where m: "?m (\<lambda>i. None) pending_db = (Inr (), d)" by blast
  have "\<exists>w1. enterInitialising (jc_queue demo_config) (se_enter (demo_sitemap False)) (se_now (demo_sitemap False)) ''j'' pending_world = (None, w1)"
    unfolding enterInitialising_def run_unit_def
    by (simp add: demo_config_def demo_sitemap_def pending_world_def calm_run(1) [of ?m, OF m, simplified])
  then obtain w1 where "enterInitialising (jc_queue demo_config) (se_enter (demo_sitemap False)) (se_now (demo_sitemap False)) ''j'' pending_world = (None, w1)"
    by blast
  then show ?thesis
    by (rule failed_fallback_strands_job [where found = "[]" and rules = no_rules])
       (simp_all add: discoverAndParseSitemaps_def bare_site_def filterURLsAgainstRobots_def FilterURLs_def demo_sitemap_def demo_batch_def calm_attempt_def)
qed

section \<open>Counters\<close>

lemma enqueue_urls_counters:
  assumes "counters_ok d"
  shows "counters_ok (snd (snd (EnqueueURLs q E A A' j pages srcType srcURL now p d)))"
proof (rule enqueue_urls_keeps [where P = counters_ok, OF enqueue_keeps_counters _ assms])
  show "keeps counters_ok (traffic_tx E j org domID ids now)" for org domID ids
    unfolding traffic_tx_def by (intro tx_keeps update_tasks_counts) (simp add: same_key_def)
qed

lemma enqueue_job_counters:
  assumes "EnqueueJobURLs q A E cb now j pages srcType srcURL jm p d = (e, es, jm', p', d')" "counters_ok d"
  shows "counters_ok d'"
proof -
  let ?fresh = "filter (\<lambda>pg. \<not> isPageProcessed j (pg_ID pg) jm) pages"
  obtain e1 p1 d1 where u: "EnqueueURLs q E (A 0) (A 1) j ?fresh srcType srcURL now p d = (e1, p1, d1)" by (rule prod_cases3)
  then have d1: "counters_ok d1" using enqueue_urls_counters [OF assms(2)] by (metis snd_conv)
  have "snd (snd (scheduleEnqueuedTasks q (A 2) runAt j ?fresh p1 d1)) = d1" for runAt
  proof -
    obtain r p2 d2 where x: "Execute_tx q (A 2) (tx_query 0 (\<lambda>d. Inr (map (schedule_entry_of runAt)
       (filter (\<lambda>t. tr_JobID t = j \<and> tr_PageID t \<in> set (filter (\<lambda>i. i \<noteq> 0) (map pg_ID ?fresh)) \<and> tr_Status t \<in> {Pending, Waiting}) (db_tasks d))))) p1 d1
       = (r, p2, d2)" by (rule prod_cases3)
    have "d2 = d1" by (rule read_only [OF x])
    then show ?thesis using x by (cases r) (simp_all add: scheduleEnqueuedTasks_def Let_def)
  qed
  then have sched: "scheduleEnqueuedTasks q (A 2) runAt j ?fresh p1 d1 = (es, p2, d2) \<Longrightarrow> d2 = d1" for runAt es p2 d2
    by (metis snd_conv)
  show ?thesis
  proof (cases "?fresh = []")
    case True
    then show ?thesis using assms by (simp add: EnqueueJobURLs_def)
  next
    case False
    then have "d' = d1" using assms(1) u by (auto simp: EnqueueJobURLs_def Let_def split: option.splits prod.splits dest: sched)
    then show ?thesis using d1 by simp
  qed
qed

lemma page_tx_counters: "keeps counters_ok (page_batch_tx domainID unique)"
  unfolding page_batch_tx_def by (intro tx_keeps) (simp_all add: outbox_only_counts split: prod.split)

lemma flush_pages_counters: "counters_ok d \<Longrightarrow> counters_ok (snd (snd (flush_pages q A domainID batch seen out p d)))"
proof -
  assume d: "counters_ok d"
  obtain r p1 d1 where x: "Execute_tx q A (page_batch_tx domainID (unique_pages seen batch)) p d = (r, p1, d1)" by (rule prod_cases3)
  then have "counters_ok d1" using execute_tx_keeps [OF page_tx_counters d, of q A domainID "unique_pages seen batch" p] by (metis snd_conv)
  then show ?thesis using d x by (cases r) (auto simp: flush_pages_def ensurePageBatch_def Let_def)
qed

lemma create_pages_counters:
  "counters_ok d \<Longrightarrow> counters_ok (snd (snd (create_pages q P resolve domainID domain i us batch seen out p d)))"
proof (induction q P resolve domainID domain i us batch seen out p d rule: create_pages.induct)
  case (1 q P resolve domainID domain i batch seen out p d)
  obtain r p1 d1 where f: "flush_pages q (P i) domainID batch seen out p d = (r, p1, d1)" by (rule prod_cases3)
  then have "counters_ok d1" using flush_pages_counters [OF 1] by (metis snd_conv)
  then show ?case using f by (cases r) auto
next
  case (2 q P resolve domainID domain i u us batch seen out p d)
  show ?case
  proof (cases "normaliseURLPath resolve u domain")
    case (PagePath host path)
    show ?thesis
    proof (cases "map_of seen (buildPageKey host path)")
      case (Some i)
      then show ?thesis using 2 PagePath by simp
    next
      case None
      let ?b = "batch @ [(host, path)]"
      show ?thesis
      proof (cases "length ?b \<ge> maxPageRecordBatchSize")
        case True
        obtain r p1 d1 where f: "flush_pages q (P i) domainID ?b seen out p d = (r, p1, d1)" by (rule prod_cases3)
        then have d1: "counters_ok d1" using flush_pages_counters [OF "2.prems"] by (metis snd_conv)
        show ?thesis
        proof (cases r)
          case (Inl e)
          then show ?thesis using f d1 PagePath None True by simp
        next
          case (Inr so)
          obtain seen' out' where so: "so = (seen', out')" by (rule prod.exhaust)
          show ?thesis
            using "2.IH"(1) [OF PagePath None refl True f [symmetric] Inr so [symmetric] refl d1] f Inr so PagePath None True by simp
        qed
      next
        case False
        then show ?thesis using "2.IH"(2) [OF PagePath None refl False "2.prems"] PagePath None by simp
      qed
    qed
  qed (use 2 in simp_all)
qed

lemma recalc_counters: "counters_ok d \<Longrightarrow> counters_ok (recalculate_job_stats now j d)"
  by (auto simp: recalculate_job_stats_def Let_def update_job_def counters_ok_def row_counts_def tasks_of_def split: option.splits)

lemma set_job_counters:
  assumes "same_counters f" "counters_ok (jw_db w)"
  shows "counters_ok (jw_db (set_job q P now j sel f w))"
proof -
  have "counters_ok d \<Longrightarrow> update_job now sel f j d = (n, d') \<Longrightarrow> counters_ok d'" for d n d'
    using update_job_counts [OF assms(1), of d now sel j] by simp
  then have k: "keeps counters_ok (set_job_tx 0 now j sel f)"
    unfolding set_job_tx_def by (intro tx_keeps) (auto split: prod.split)
  obtain r p d where x: "Execute_tx q P (set_job_tx 0 now j sel f) (jw_pool w) (jw_db w) = (r, p, d)" by (rule prod_cases3)
  have "counters_ok d" using execute_tx_keeps [OF k assms(2), of q P "jw_pool w"] x by simp
  then show ?thesis by (cases r) (simp_all add: set_job_def run_set_job_def x)
qed

lemma move_keeps: "keeps counters_ok (move_job_tx now j from to msg)"
proof -
  have "same_counters (\<lambda>r. r\<lparr>jr_Status := to\<rparr>)" by (simp add: same_counters_def)
  then have "counters_ok d \<Longrightarrow> update_job now sel (\<lambda>r. r\<lparr>jr_Status := to\<rparr>) j d = (n, d') \<Longrightarrow> counters_ok d'" for d n d' sel
    using update_job_counts [of "\<lambda>r. r\<lparr>jr_Status := to\<rparr>" d now sel j] by simp
  then show ?thesis unfolding move_job_tx_def set_job_tx_def by (intro tx_keeps) (auto split: prod.split)
qed

lemma enqueue_for_job_counters:
  assumes "counters_ok (jw_db w)"
  shows "counters_ok (jw_db (snd (enqueueURLsForJob C B j domain urls ty w)))"
proof (cases "urls = []")
  case False
  let ?q = "jc_queue C"
  obtain r1 p1 d1 where x1: "Execute_tx ?q (be_select B) (tx_query 0 (\<lambda>d. case db_jobs d j of None \<Rightarrow> Inl no_rows
      | Some r \<Rightarrow> Inr (jr_DomainID r))) (jw_pool w) (jw_db w) = (r1, p1, d1)" by (rule prod_cases3)
  have d1: "counters_ok d1" using read_only [OF x1] assms by simp
  show ?thesis
  proof (cases r1)
    case (Inl e)
    then show ?thesis using d1 by (simp add: enqueueURLsForJob_def False x1)
  next
    case (Inr domainID)
    obtain r2 p2 d2 where x2: "CreatePageRecords ?q (be_pages B) (jc_resolve C) domainID domain urls p1 d1 = (r2, p2, d2)" by (rule prod_cases3)
    have d2: "counters_ok d2" using create_pages_counters [OF d1] x2 False by (metis CreatePageRecords_def snd_conv)
    show ?thesis
    proof (cases r2)
      case (Records rs)
      obtain e es jm p3 d3 where x3: "EnqueueJobURLs ?q (be_enqueue B) (jc_enqueue C) (jc_callback C) (be_now B) j (map page_of_record rs) ty
          (''https://'' @ domain) (jw_manager w) p2 d2 = (e, es, jm, p3, d3)" by (rule prod_cases5)
      have d3: "counters_ok d3" by (rule enqueue_job_counters [OF x3 d2])
      show ?thesis
      proof (cases e)
        case (Some err)
        then show ?thesis using d3 by (simp add: enqueueURLsForJob_def False x1 Inr x2 Records x3 [simplified])
      next
        case None
        obtain r4 p4 d4 where x4: "Execute_tx ?q (be_stats B) (tx_exec 0 (recalculate_job_stats (be_now B) j)) p3 d3 = (r4, p4, d4)"
          by (rule prod_cases3)
        have "keeps counters_ok (tx_exec 0 (recalculate_job_stats (be_now B) j))" by (intro tx_keeps recalc_counters)
        from execute_tx_keeps [OF this d3, of ?q "be_stats B" p3] have "counters_ok d4" using x4 by simp
        then show ?thesis by (simp add: enqueueURLsForJob_def False x1 Inr x2 Records x3 [simplified] None x4)
      qed
    qed (use d2 in \<open>simp_all add: enqueueURLsForJob_def False x1 Inr x2\<close>)
  qed
qed (simp add: enqueueURLsForJob_def assms)

lemma terminal_read:
  assumes "isJobInTerminalStatus q P j p d = (b, p', d')"
  shows "d' = d"
proof -
  obtain r p1 d1 where x: "Execute_tx q P (tx_query 0 (\<lambda>d. case db_jobs d j of None \<Rightarrow> Inl no_rows | Some r \<Rightarrow> Inr (jr_Status r))) p d = (r, p1, d1)"
    by (rule prod_cases3)
  then show ?thesis using assms read_only [OF x] by (cases r) (auto simp: isJobInTerminalStatus_def)
qed

lemma status_counters: "same_counters (\<lambda>r. r\<lparr>jr_Status := s\<rparr>)" "same_counters (\<lambda>r. r\<lparr>jr_Error := e\<rparr>)"
  "same_counters (\<lambda>r. r\<lparr>jr_SitemapFound := n\<rparr>)" "same_counters (\<lambda>r. r\<lparr>jr_Status := s, jr_CompletedAt := t\<rparr>)"
  by (simp_all add: same_counters_def)

lemma batches_counters:
  "counters_ok (jw_db w) \<Longrightarrow> counters_ok (jw_db (snd (sitemap_batches C L n j domain i urls done1 w)))"
proof (induction C L n j domain i urls done1 w rule: sitemap_batches.induct)
  case (1 C L n j domain i urls done1 w)
  show ?case
  proof (cases "urls = [] \<or> n = 0")
    case True
    then show ?thesis using "1.prems" by (subst sitemap_batches.simps) simp
  next
    case False
    let ?B = "lp_batch (L i)"
    obtain over p1 d1 where t: "isJobInTerminalStatus (jc_queue C) (lp_status (L i)) j (jw_pool w) (jw_db w) = (over, p1, d1)"
      by (rule prod_cases3)
    let ?w1 = "w\<lparr>jw_pool := p1, jw_db := d1\<rparr>"
    have w1: "counters_ok (jw_db ?w1)" using terminal_read [OF t] "1.prems" by simp
    obtain out w2 where e: "enqueueURLsForJob C ?B j domain (take n urls) ''sitemap'' ?w1 = (out, w2)" by (rule prod.exhaust)
    have w2: "counters_ok (jw_db w2)" using enqueue_for_job_counters [OF w1, of C ?B j domain "take n urls" "''sitemap''"] e by simp
    have w3: "counters_ok (jw_db (snd (transitionInitialisingToPending (jc_queue C) (lp_open (L i)) (be_now ?B) j w2)))"
      unfolding transitionInitialisingToPending_def by (rule run_unit_keeps [OF move_keeps w2])
    have clear: "counters_ok (jw_db (clearInitialisingAfterSitemapCancel (jc_queue C) (lp_clear (L i)) (be_now ?B) j ?w1))"
      unfolding clearInitialisingAfterSitemapCancel_def by (rule set_job_counters [OF status_counters(1) w1])
    show ?thesis
    proof (cases "over \<or> \<not> lp_slot (L i)")
      case True
      then show ?thesis using False w1 clear by (subst sitemap_batches.simps) (auto simp: t Let_def)
    next
      case go: False
      show ?thesis
      proof (cases out)
        case Panicked
        then show ?thesis using False go w2 by (subst sitemap_batches.simps) (simp add: t e Let_def)
      next
        case (Failed_with err)
        have "sitemap_batches C L n j domain i urls done1 w = sitemap_batches C L n j domain (Suc i) (drop n urls) done1 w2"
          using False go Failed_with by (subst sitemap_batches.simps) (simp add: t e Let_def)
        then show ?thesis using "1.IH"(2) [OF False refl refl refl t [symmetric] refl refl _ _ e [symmetric] Failed_with] go w2 by simp
      next
        case Done
        have "sitemap_batches C L n j domain i urls done1 w = sitemap_batches C L n j domain (Suc i) (drop n urls) True
            (if done1 then w2 else snd (transitionInitialisingToPending (jc_queue C) (lp_open (L i)) (be_now ?B) j w2))"
          using False go Done by (subst sitemap_batches.simps) (simp add: t e Let_def)
        then show ?thesis using "1.IH"(1) [OF False refl refl refl t [symmetric] refl refl _ _ e [symmetric] Done] go w2 w3 by simp
      qed
    qed
  qed
qed

lemma delay_counters:
  assumes "counters_ok (jw_db w)"
  shows "counters_ok (jw_db (updateDomainCrawlDelay q P domain delay w))"
proof (cases "delay \<le> 0")
  case False
  have "keeps counters_ok (tx_exec 0 (\<lambda>d. d\<lparr>db_domains := g d\<rparr>))" for g
    by (intro tx_keeps) (simp add: outbox_only_counts)
  from run_unit_keeps [OF this assms] False show ?thesis by (simp add: updateDomainCrawlDelay_def)
qed (simp add: updateDomainCrawlDelay_def assms)

text \<open>C26: Processing the sitemaps of a job keeps the counters of every job equal to the counts of its
  tasks, whatever the crawler finds and whichever transactions fail, are retried or lose their
  reply.\<close>

theorem sitemap_keeps_counters:
  assumes "counters_ok (jw_db w)"
  shows "counters_ok (jw_db (processSitemap C s S j domain inc exc w))"
proof -
  let ?q = "jc_queue C"
  have open_ok: "counters_ok (jw_db (snd (transitionInitialisingToPending ?q P now j v)))" if "counters_ok (jw_db v)" for P now v
    unfolding transitionInitialisingToPending_def by (rule run_unit_keeps [OF move_keeps that])
  obtain e w1 where e: "enterInitialising ?q (se_enter S) (se_now S) j w = (e, w1)" by (rule prod.exhaust)
  have w1: "counters_ok (jw_db w1)"
    using run_unit_keeps [OF move_keeps assms] e unfolding enterInitialising_def by (metis snd_conv)
  show ?thesis
  proof (cases e)
    case (Some err)
    then show ?thesis using w1 by (simp add: processSitemap_def e Let_def)
  next
    case None
    show ?thesis
    proof (cases "discoverAndParseSitemaps s domain")
      case (Inl err)
      then show ?thesis using w1 by (simp add: processSitemap_def e None Let_def set_job_counters status_counters)
    next
      case (Inr fr)
      obtain found rules where fr: "fr = (found, rules)" by (rule prod.exhaust)
      let ?w2 = "updateDomainCrawlDelay ?q (se_delay S) domain (rr_CrawlDelay rules) w1"
      let ?urls = "filterURLsAgainstRobots True found (Some rules) inc exc"
      let ?w3 = "set_job ?q (se_found S) (se_now S) j (\<lambda>r. True) (\<lambda>r. r\<lparr>jr_SitemapFound := int (length ?urls)\<rparr>) ?w2"
      have "counters_ok (jw_db ?w2)" by (rule delay_counters [OF w1])
      then have w3: "counters_ok (jw_db ?w3)" by (intro set_job_counters status_counters)
      show ?thesis
      proof (cases "?urls = []")
        case False
        obtain b w4 where l: "sitemap_batches C (se_loop S) (nat (sitemapBatchSize (se_env S))) j domain 0
            (hoistHomepageToFront ?urls domain) False ?w3 = (b, w4)" by (rule prod.exhaust)
        then have "counters_ok (jw_db w4)" using batches_counters [OF w3] by (metis snd_conv)
        then show ?thesis using False l open_ok by (simp add: processSitemap_def e None Inr fr Let_def split: option.split bool.split)
      next
        case True
        let ?F = "enqueueFallbackURL C (se_fallback S) (se_message S) j domain"
        have "counters_ok (jw_db (snd (?F ?w3)))"
        proof -
          obtain out w5 where x: "enqueueURLsForJob C (se_fallback S) j domain [''https://'' @ domain @ ''/''] ''fallback'' ?w3 = (out, w5)"
            by (rule prod.exhaust)
          then have "counters_ok (jw_db w5)" using enqueue_for_job_counters [OF w3] by (metis snd_conv)
          then show ?thesis using x [simplified] by (cases out) (simp_all add: enqueueFallbackURL_def set_job_counters status_counters)
        qed
        then obtain out w5 where x: "?F ?w3 = (out, w5)" "counters_ok (jw_db w5)" by (cases "?F ?w3") auto
        then show ?thesis using True open_ok by (cases out) (simp_all add: processSitemap_def e None Inr fr Let_def)
      qed
    qed
  qed
qed

theorem sitemap_keeps_counters_witness:
  "counters_ok (jw_db (processSitemap demo_config bare_site (demo_sitemap True) ''j'' ''a.com'' [] [] pending_world))"
  by (rule sitemap_keeps_counters)
     (simp add: pending_world_def pending_db_def counters_ok_def row_counts_def tasks_of_def demo_defs)

end
