(* ===== verification/Jobs_Create.thy ===== *)
theory Jobs_Create
  imports Jobs_Sitemap
begin

text \<open>
  \<open>internal/jobs/manager.go\<close>, from the request for a job to its first tasks: the older job of the
  same organisation is cancelled, the row is inserted, blocked at once when the domain is known to refuse
  the crawler, and the discovery starts, which probes the domain and then reads the sitemaps or
  enqueues the root page.  The columns that only describe the source of a job are left out.
\<close>

section \<open>The row of a job\<close>

record job_options =
  jo_Domain :: string
  jo_UserID :: "string option"
  jo_OrganisationID :: "string option"
  jo_UseSitemap :: bool
  jo_Concurrency :: int
  jo_FindLinks :: bool
  jo_AllowCrossSubdomainLinks :: bool
  jo_MaxPages :: int
  jo_IncludePaths :: "string list"
  jo_ExcludePaths :: "string list"
  jo_RequiredWorkers :: int

text \<open>Without the domain's id, which is known only in the database.\<close>

definition createJobObject :: "job_options \<Rightarrow> time \<Rightarrow> job_row" where
  "createJobObject opts now =
     \<lparr>jr_DomainID = 0, jr_UserID = jo_UserID opts, jr_OrgID = jo_OrganisationID opts, jr_Status = JPending, jr_Progress = 0,
      jr_Total = 0, jr_Completed = 0, jr_Failed = 0, jr_Skipped = 0, jr_Pending = 0, jr_Waiting = 0, jr_Running = 0,
      jr_Sitemap = 0, jr_Found = 0, jr_CreatedAt = now, jr_StartedAt = None, jr_CompletedAt = None,
      jr_Concurrency = jo_Concurrency opts, jr_FindLinks = jo_FindLinks opts, jr_MaxPages = jo_MaxPages opts,
      jr_IncludePaths = jo_IncludePaths opts, jr_ExcludePaths = jo_ExcludePaths opts,
      jr_RequiredWorkers = jo_RequiredWorkers opts, jr_CrossSubdomain = jo_AllowCrossSubdomainLinks opts,
      jr_SitemapFound = 0, jr_Error = None\<rparr>"

definition wafCacheTTL :: time where
  "wafCacheTTL = 24 * 60 * 60 * second"

definition next_domain_id :: "domain_row list \<Rightarrow> int" where
  "next_domain_id rows = foldr (\<lambda>r m. max (dm_ID r) m) rows 0 + 1"

text \<open>\<open>INSERT INTO domains ... ON CONFLICT ... RETURNING\<close>.\<close>

definition upsert_domain :: "string \<Rightarrow> hover_db \<Rightarrow> domain_row \<times> hover_db" where
  "upsert_domain name d =
     (case find (\<lambda>m. dm_Name m = name) (db_domains d) of
        Some m \<Rightarrow> (m, d)
      | None \<Rightarrow>
          let m = \<lparr>dm_ID = next_domain_id (db_domains d), dm_Name = name, dm_CrawlDelay = None, dm_WafBlocked = False,
                   dm_WafVendor = None, dm_WafBlockedAt = None\<rparr>
          in (m, d\<lparr>db_domains := db_domains d @ [m]\<rparr>))"

definition fresh_verdict :: "time \<Rightarrow> domain_row \<Rightarrow> bool" where
  "fresh_verdict now m \<longleftrightarrow> dm_WafBlocked m \<and> (case dm_WafBlockedAt m of Some t \<Rightarrow> now - t < wafCacheTTL | None \<Rightarrow> False)"

definition or_empty :: "string option \<Rightarrow> string" where
  "or_empty s = (case s of Some x \<Rightarrow> x | None \<Rightarrow> [])"

definition new_job_row :: "time \<Rightarrow> job_row \<Rightarrow> domain_row \<Rightarrow> job_row" where
  "new_job_row now r m =
     (let r' = r\<lparr>jr_DomainID := dm_ID m\<rparr> in
      if fresh_verdict now m
      then r'\<lparr>jr_Status := JBlocked, jr_CompletedAt := Some now,
              jr_Error := Some (buildWAFBlockMessage (or_empty (dm_WafVendor m)) ''cached pre-flight verdict'')\<rparr>
      else r')"

definition duplicate_key :: "string \<Rightarrow> go_error" where
  "duplicate_key index = \<lparr>ge_text = ''ERROR: duplicate key value violates unique constraint '' @ index @ '' (SQLSTATE 23505)'', ge_kind = PgError ''23505''\<rparr>"

definition insert_job :: "time \<Rightarrow> string \<Rightarrow> job_row \<Rightarrow> hover_db \<Rightarrow> (go_error + unit) \<times> hover_db" where
  "insert_job now jobID r d =
     (if db_jobs d jobID \<noteq> None then (Inl (duplicate_key ''jobs_pkey''), d)
      else (Inr (), d\<lparr>db_jobs := (db_jobs d)(jobID \<mapsto> before_write now None r)\<rparr>))"

text \<open>The status the closure gives the job is part of the result.\<close>

definition setup_tx :: "time \<Rightarrow> string \<Rightarrow> job_row \<Rightarrow> string \<Rightarrow> (int \<times> job_row, hover_db) tx" where
  "setup_tx now jobID r domain =
     tx_bind (tx_wrap ''failed to get or create domain: '' (tx_stmt 0 (\<lambda>d. case upsert_domain domain d of (m, d') \<Rightarrow> (Inr m, d'))))
       (\<lambda>m. tx_bind (tx_stmt 1 (insert_job now jobID (new_job_row now r m))) (\<lambda>u. tx_return (dm_ID m, new_job_row now r m)))"

definition setupJobDatabase :: "queue \<Rightarrow> (nat \<Rightarrow> attempt) \<Rightarrow> time \<Rightarrow> string \<Rightarrow> job_row \<Rightarrow> string \<Rightarrow> db_pool \<Rightarrow> hover_db
    \<Rightarrow> (go_error + int \<times> job_row) \<times> db_pool \<times> hover_db" where
  "setupJobDatabase q P now jobID r domain p d =
     (case Execute_tx q P (setup_tx now jobID r domain) p d of
        (Inl e, x) \<Rightarrow> (Inl (wrap ''failed to create job: '' e), x)
      | (Inr y, x) \<Rightarrow> (Inr y, x))"

section \<open>The older job\<close>




section \<open>The root page\<close>

definition failed_row_of :: "time \<Rightarrow> string \<Rightarrow> job_row \<Rightarrow> job_row" where
  "failed_row_of now message r = r\<lparr>jr_Status := JFailed, jr_Error := Some message, jr_CompletedAt := Some now\<rparr>"

text \<open>\<open>robots\<close> is the discovery of the crawler, if there is one.  The updates that fail the job have
  no guard on its status.\<close>

definition validateRootURLAccess :: "queue \<Rightarrow> (nat \<Rightarrow> nat \<Rightarrow> attempt) \<Rightarrow> time \<Rightarrow> (string \<Rightarrow> go_error + robots_rules) option \<Rightarrow> string \<Rightarrow> string
    \<Rightarrow> string \<Rightarrow> job_world \<Rightarrow> (go_error + robots_rules option) \<times> job_world" where
  "validateRootURLAccess q A now robots jobID domain rootPath w =
     (let failJob = (\<lambda>message. set_job q (A 1) now jobID (\<lambda>r. True) (failed_row_of now message)) in
      case robots of
        None \<Rightarrow> (Inr None, w)
      | Some f \<Rightarrow>
          (case f domain of
             Inl e \<Rightarrow> (Inl (wrap ''failed to fetch robots.txt: '' e), failJob (''Failed to fetch robots.txt: '' @ ge_text e) w)
           | Inr rules \<Rightarrow>
               let w1 = updateDomainCrawlDelay q (A 0) domain (rr_CrawlDelay rules) w in
               if \<not> IsPathAllowed (Some rules) rootPath
               then (Inl (plain_error ''root path is disallowed by robots.txt''), failJob ''Root path (/) is disallowed by robots.txt'' w1)
               else (Inr (Some rules), w1)))"

definition root_task_row :: "time \<Rightarrow> string \<Rightarrow> string \<Rightarrow> string \<Rightarrow> string \<Rightarrow> int \<Rightarrow> task_row" where
  "root_task_row now taskID jobID domain rootPath pageID =
     \<lparr>tr_ID = taskID, tr_JobID = jobID, tr_PageID = pageID, tr_Host = domain, tr_Path = rootPath, tr_Status = Pending,
      tr_CreatedAt = now, tr_StartedAt = None, tr_CompletedAt = None, tr_RetryCount = 0, tr_SourceType = ''manual'',
      tr_SourceURL = [], tr_Priority = 1, tr_Error = None, tr_Result = None, tr_Diagnostics = None, tr_HTML = no_html\<rparr>"

text \<open>A plain \<open>INSERT\<close>: the key and the page of the job must be new.\<close>

definition insert_task :: "time \<Rightarrow> task_row \<Rightarrow> hover_db \<Rightarrow> (go_error + unit) \<times> hover_db" where
  "insert_task now t d =
     (if tr_ID t \<in> set (map tr_ID (db_tasks d)) then (Inl (duplicate_key ''tasks_pkey''), d)
      else if list_ex (same_page t) (db_tasks d) then (Inl (duplicate_key ''idx_tasks_job_page_unique''), d)
      else (Inr (), insert_tasks now [t] d))"

definition InsertOutboxRow :: "outbox_row \<Rightarrow> hover_db \<Rightarrow> (go_error + unit) \<times> hover_db" where
  "InsertOutboxRow r d =
     (if ob_taskID r \<in> outbox_tasks d then (Inl (duplicate_key ''task_outbox_task_id''), d)
      else (Inr (), d\<lparr>db_outbox := outbox_add (db_outbox d) r\<rparr>))"

definition root_tx :: "time \<Rightarrow> string \<Rightarrow> string \<Rightarrow> string \<Rightarrow> int \<Rightarrow> string \<Rightarrow> (int, hover_db) tx" where
  "root_tx now taskID jobID domain domainID rootPath =
     tx_bind (tx_wrap ''failed to create page record for root path: '' (tx_stmt 0 (\<lambda>d.
         case upsert_pages domainID [(domain, rootPath)] (db_pages d) of (ks, rows) \<Rightarrow> (Inr (snd (hd ks)), d\<lparr>db_pages := rows\<rparr>))))
       (\<lambda>pageID. let t = root_task_row now taskID jobID domain rootPath pageID in
          tx_bind (tx_wrap ''failed to upsert domain host for root path: '' (tx_exec 1 (\<lambda>d. d))) (\<lambda>u.
          tx_bind (tx_wrap ''failed to enqueue task for root path: '' (tx_stmt 2 (insert_task now t))) (\<lambda>u.
          tx_bind (tx_wrap ''failed to insert outbox row for root task: '' (tx_stmt 3 (InsertOutboxRow (task_outbox_row now t)))) (\<lambda>u.
          tx_return pageID))))"

text \<open>The page is marked inside the closure; the model marks it when the transaction succeeds.\<close>

definition createManualRootTask :: "queue \<Rightarrow> (nat \<Rightarrow> attempt) \<Rightarrow> time \<Rightarrow> bool \<Rightarrow> string \<Rightarrow> string \<Rightarrow> string \<Rightarrow> int \<Rightarrow> string \<Rightarrow> job_world
    \<Rightarrow> go_error option \<times> job_world" where
  "createManualRootTask q P now callback taskID jobID domain domainID rootPath w =
     (case Execute_tx q P (root_tx now taskID jobID domain domainID rootPath) (jw_pool w) (jw_db w) of
        (Inl e, p, d) \<Rightarrow> (Some e, w\<lparr>jw_pool := p, jw_db := d\<rparr>)
      | (Inr pageID, p, d) \<Rightarrow>
          (None, w\<lparr>jw_pool := p, jw_db := d, jw_manager := markPageProcessed jobID pageID (jw_manager w),
                   jw_scheduled := jw_scheduled w @
                     (if callback then [schedule_entry_of (\<lambda>t. now) (root_task_row now taskID jobID domain rootPath pageID)] else [])\<rparr>))"

section \<open>Discovery\<close>





section \<open>What a transaction that succeeded has done\<close>

lemma bind_ok [elim!]:
  assumes "tx_bind m k F d = (Inr y, d')"
  obtains x d1 where "m F d = (Inr x, d1)" "k x F d1 = (Inr y, d')"
  using assms by (auto simp: tx_bind_def split: prod.splits sum.splits)

lemma wrap_ok [elim!]:
  assumes "tx_wrap s m F d = (Inr y, d')"
  obtains "m F d = (Inr y, d')"
  using assms by (auto simp: tx_wrap_def split: prod.splits sum.splits)

lemma stmt_ok [elim!]:
  assumes "tx_stmt i g F d = (Inr y, d')"
  obtains "g d = (Inr y, d')"
  using assms by (auto simp: tx_stmt_def split: option.splits)

lemma return_ok [elim!]:
  assumes "tx_return x F d = (Inr y, d')"
  obtains "y = x" "d' = d"
  using assms by (simp add: tx_return_def)

lemmas tx_okE = bind_ok wrap_ok stmt_ok return_ok

section \<open>A cached verdict\<close>

lemma setup_tx_status:
  assumes "setup_tx now jobID r domain F d = (Inr (i, r'), d')" "find (\<lambda>m. dm_Name m = domain) (db_domains d) = Some m"
  shows "r' = new_job_row now r m" "db_jobs d' jobID = Some (before_write now None (new_job_row now r m))"
    "i = dm_ID m"
  using assms by (auto simp: setup_tx_def upsert_domain_def insert_job_def split: option.splits if_splits)

lemma setup_tx_domains:
  assumes "find (\<lambda>m. dm_Name m = domain) (db_domains a) = Some m" "setup_tx now jobID r domain F a = (Inr x, b)"
  shows "find (\<lambda>m. dm_Name m = domain) (db_domains b) = Some m"
  using assms by (auto simp: setup_tx_def tx_defs upsert_domain_def insert_job_def split: option.splits if_splits)

text \<open>The cached verdict on a domain decides the status a new job is inserted with: blocked, with the
  time and a reason, when the verdict is less than 24 hours old, and pending otherwise, whatever was
  retried.\<close>

theorem cached_verdict_decides:
  assumes "setupJobDatabase q P now jobID (createJobObject opts t) domain p d = (Inr (i, r), p', d')"
    and "find (\<lambda>m. dm_Name m = domain) (db_domains d) = Some m"
  shows "i = dm_ID m \<and> (\<exists>row. db_jobs d' jobID = Some row \<and> jr_Status row = jr_Status r \<and> jr_DomainID row = dm_ID m \<and> jr_Error row = jr_Error r) \<and>
    (if fresh_verdict now m then jr_Status r = JBlocked \<and> jr_CompletedAt r = Some now \<and> jr_Error r \<noteq> None
     else jr_Status r = JPending \<and> jr_Error r = None)"
proof -
  have x: "Execute_tx q P (setup_tx now jobID (createJobObject opts t) domain) p d = (Inr (i, r), p', d')"
    using assms(1) by (auto simp: setupJobDatabase_def split: prod.splits sum.splits)
  obtain d1 F where a: "applied (setup_tx now jobID (createJobObject opts t) domain) d d1"
      "setup_tx now jobID (createJobObject opts t) domain F d1 = (Inr (i, r), d')" using execute_success [OF x] by blast
  have m: "find (\<lambda>m. dm_Name m = domain) (db_domains d1) = Some m"
    by (rule applied_invariant [OF a(1), where P = "\<lambda>x. find (\<lambda>m. dm_Name m = domain) (db_domains x) = Some m"])
       (erule (1) setup_tx_domains, rule assms(2))
  note r = setup_tx_status [OF a(2) m]
  show ?thesis unfolding r(2,3) by (simp add: r(1) new_job_row_def createJobObject_def)
qed

section \<open>Tasks and failures after the end of a job\<close>

lemma root_tx_cases:
  assumes run: "root_tx now taskID j domain domainID rootPath F d = (Inr pageID, d')"
    and u: "upsert_pages domainID [(domain, rootPath)] (db_pages d) = (ks, rows)"
  obtains d2 d3 where "insert_task now (root_task_row now taskID j domain rootPath pageID) (d\<lparr>db_pages := rows\<rparr>) = (Inr (), d2)"
    "InsertOutboxRow (task_outbox_row now (root_task_row now taskID j domain rootPath pageID)) d2 = (Inr (), d3)" "d' = d3"
  using run u unfolding root_tx_def Let_def tx_exec_def
  by (elim tx_okE) (auto simp: tx_return_def elim!: tx_okE)

lemma root_tx_result:
  assumes "root_tx now taskID j domain domainID rootPath F d = (Inr pageID, d')"
  shows "\<exists>t \<in> set (db_tasks d'). tr_ID t = taskID \<and> tr_JobID t = j \<and> tr_Status t = Pending"
    and "taskID \<in> outbox_tasks d'" and "map_option jr_Status (db_jobs d' k) = map_option jr_Status (db_jobs d k)"
proof -
  obtain ks rows where u: "upsert_pages domainID [(domain, rootPath)] (db_pages d) = (ks, rows)" by (rule prod.exhaust)
  let ?d1 = "d\<lparr>db_pages := rows\<rparr>" and ?t = "root_task_row now taskID j domain rootPath pageID"
  obtain d2 d3 where t: "insert_task now ?t ?d1 = (Inr (), d2)" and o: "InsertOutboxRow (task_outbox_row now ?t) d2 = (Inr (), d3)" "d' = d3"
    by (rule root_tx_cases [OF assms u])
  have d2: "d2 = insert_tasks now [?t] ?d1" using t by (auto simp: insert_task_def split: if_splits)
  have d3: "d3 = d2\<lparr>db_outbox := outbox_add (db_outbox d2) (task_outbox_row now ?t)\<rparr>"
    using o(1) by (auto simp: InsertOutboxRow_def split: if_splits)
  show "\<exists>t \<in> set (db_tasks d'). tr_ID t = taskID \<and> tr_JobID t = j \<and> tr_Status t = Pending"
    by (rule bexI [of _ ?t]) (simp_all add: o(2) d3 d2 root_task_row_def)
  show "taskID \<in> outbox_tasks d'"
    by (simp add: o(2) d3 outbox_tasks_def outbox_add_tasks task_outbox_row_def root_task_row_def)
  show "map_option jr_Status (db_jobs d' k) = map_option jr_Status (db_jobs d k)"
    by (auto simp: o(2) d3 d2 insert_tasks_def fire_insert_def update_job_counters_insert_batch_def Let_def split: option.split)
qed

text \<open>The root page has no guard on the status of its job: for a job that was cancelled while the
  crawler probed its domain, the function still inserts a pending task and mirrors it to the outbox,
  which \<open>EnqueueURLs\<close> refuses to do.\<close>

theorem root_task_for_ended_job:
  assumes "createManualRootTask q P now cb taskID j domain domainID rootPath w = (None, w')"
    and "db_jobs (jw_db w) j = Some r" "IsTerminalJobStatus (jr_Status r)"
  shows "\<exists>t \<in> set (db_tasks (jw_db w')). tr_ID t = taskID \<and> tr_JobID t = j \<and> tr_Status t = Pending \<and> taskID \<in> outbox_tasks (jw_db w') \<and>
    (\<exists>r'. db_jobs (jw_db w') j = Some r' \<and> IsTerminalJobStatus (jr_Status r'))"
proof -
  let ?m = "root_tx now taskID j domain domainID rootPath"
  obtain pageID p d' where x: "Execute_tx q P ?m (jw_pool w) (jw_db w) = (Inr pageID, p, d')" "jw_db w' = d'"
    using assms(1) by (auto simp: createManualRootTask_def split: prod.splits sum.splits)
  obtain d1 F where a: "applied ?m (jw_db w) d1" "?m F d1 = (Inr pageID, d')" using execute_success [OF x(1)] by blast
  have "map_option jr_Status (db_jobs d1 j) = Some (jr_Status r)"
    by (rule applied_invariant [OF a(1), where P = "\<lambda>x. map_option jr_Status (db_jobs x j) = Some (jr_Status r)"])
       (simp_all add: root_tx_result(3) assms(2))
  then have "map_option jr_Status (db_jobs d' j) = Some (jr_Status r)" using root_tx_result(3) [OF a(2)] by simp
  then obtain r' where "db_jobs d' j = Some r'" "jr_Status r' = jr_Status r" by auto
  then show ?thesis using root_tx_result(1,2) [OF a(2)] assms(3) x(2) by auto
qed

text \<open>When the robots rules forbid the root page, the job is set to failed without a guard: a job the
  user has cancelled in the meantime turns into a failed one.\<close>

theorem robots_failure_overwrites_cancel:
  assumes "db_jobs (jw_db w) j = Some r" "jr_Status r = JCancelled"
    and "f domain = Inr rules" "rr_CrawlDelay rules \<le> 0" "\<not> IsPathAllowed (Some rules) ''/''"
    and "run_set_job q (A 1) now j (\<lambda>r. True) (failed_row_of now ''Root path (/) is disallowed by robots.txt'') (jw_pool w) (jw_db w) = (None, p', d')"
  shows "\<exists>r'. db_jobs (jw_db (snd (validateRootURLAccess q A now (Some f) j domain ''/'' w))) j = Some r' \<and> jr_Status r' = JFailed"
proof -
  let ?f = "failed_row_of now ''Root path (/) is disallowed by robots.txt''"
  have w': "jw_db (snd (validateRootURLAccess q A now (Some f) j domain ''/'' w)) = d'"
    using assms(3-6) by (simp add: validateRootURLAccess_def updateDomainCrawlDelay_def set_job_def Let_def)
  obtain n where x: "Execute_tx q (A 1) (set_job_tx 0 now j (\<lambda>r. True) ?f) (jw_pool w) (jw_db w) = (Inr n, p', d')"
    using assms(6) by (auto simp: run_set_job_def split: prod.splits sum.splits)
  obtain d1 F where a: "applied (set_job_tx 0 now j (\<lambda>r. True) ?f) (jw_db w) d1" "set_job_tx 0 now j (\<lambda>r. True) ?f F d1 = (Inr n, d')"
    using execute_success [OF x] by blast
  have "db_jobs d1 j \<noteq> None"
    by (rule applied_invariant [OF a(1), where P = "\<lambda>x. db_jobs x j \<noteq> None"])
       (auto simp: set_job_tx_def tx_defs update_job_def assms(1) split: option.splits)
  then show ?thesis unfolding w' using a(2)
    by (auto simp: set_job_tx_def tx_defs update_job_def failed_row_of_def split: option.splits)
qed

section \<open>A reply that is lost while a job is created\<close>





section \<open>The theorems at work\<close>

definition demo_options :: job_options where
  "demo_options = \<lparr>jo_Domain = ''a.com'', jo_UserID = None, jo_OrganisationID = None, jo_UseSitemap = False, jo_Concurrency = 2,
     jo_FindLinks = True, jo_AllowCrossSubdomainLinks = False, jo_MaxPages = 5, jo_IncludePaths = [], jo_ExcludePaths = [],
     jo_RequiredWorkers = 1\<rparr>"

definition refusing_domain :: domain_row where
  "refusing_domain = \<lparr>dm_ID = 1, dm_Name = ''a.com'', dm_CrawlDelay = None, dm_WafBlocked = True, dm_WafVendor = Some ''cloudflare'',
     dm_WafBlockedAt = Some 5\<rparr>"

definition refusing_db :: hover_db where
  "refusing_db = open_db\<lparr>db_domains := [refusing_domain]\<rparr>"

theorem cached_verdict_decides_witness:
  "\<exists>i r p' d'. setupJobDatabase std_queue (\<lambda>k. calm_attempt) 9 ''k'' (createJobObject demo_options 9) ''a.com'' idle_pool refusing_db = (Inr (i, r), p', d') \<and>
    i = 1 \<and> jr_Status r = JBlocked"
proof -
  let ?m = "setup_tx 9 ''k'' (createJobObject demo_options 9) ''a.com''"
  have f: "find (\<lambda>m. dm_Name m = ''a.com'') (db_domains refusing_db) = Some refusing_domain"
    by (simp add: refusing_db_def refusing_domain_def)
  have k: "db_jobs refusing_db ''k'' = None" by (simp add: refusing_db_def open_db_def demo_db_def)
  have "\<exists>i r d'. ?m (\<lambda>i. None) refusing_db = (Inr (i, r), d')"
    by (simp add: setup_tx_def tx_defs upsert_domain_def f insert_job_def k)
  then obtain i r d' where m: "?m (\<lambda>i. None) refusing_db = (Inr (i, r), d')" by blast
  have x: "setupJobDatabase std_queue (\<lambda>k. calm_attempt) 9 ''k'' (createJobObject demo_options 9) ''a.com'' idle_pool refusing_db = (Inr (i, r), calm_pool, d')"
    by (simp add: setupJobDatabase_def calm_run(1) [of ?m, OF m])
  have "fresh_verdict 9 refusing_domain" by (simp add: fresh_verdict_def refusing_domain_def wafCacheTTL_def second_def millisecond_def)
  then have "i = 1 \<and> jr_Status r = JBlocked" using cached_verdict_decides [OF x f] by (simp add: refusing_domain_def)
  then show ?thesis using x by blast
qed

definition ended_world :: "job_status \<Rightarrow> job_world" where
  "ended_world s = \<lparr>jw_manager = NewJobManager, jw_pool = idle_pool, jw_db = demo_db (demo_job\<lparr>jr_Status := s\<rparr>) [], jw_scheduled = []\<rparr>"

theorem root_task_for_ended_job_witness:
  "\<exists>w'. createManualRootTask std_queue (\<lambda>k. calm_attempt) 9 True ''t'' ''j'' ''a.com'' 1 ''/'' (ended_world JCancelled) = (None, w') \<and>
    ''t'' \<in> outbox_tasks (jw_db w')"
proof -
  let ?m = "root_tx 9 ''t'' ''j'' ''a.com'' 1 ''/''" and ?d = "jw_db (ended_world JCancelled)"
  have "\<exists>i d'. ?m (\<lambda>i. None) ?d = (Inr i, d')"
    by (simp add: root_tx_def tx_defs insert_task_def InsertOutboxRow_def ended_world_def demo_db_def outbox_tasks_def Let_def split: prod.split)
  then obtain i d' where m: "?m (\<lambda>i. None) ?d = (Inr i, d')" by blast
  have "\<exists>w'. createManualRootTask std_queue (\<lambda>k. calm_attempt) 9 True ''t'' ''j'' ''a.com'' 1 ''/'' (ended_world JCancelled) = (None, w')"
    using calm_run(1) [of ?m, OF m] by (simp add: createManualRootTask_def ended_world_def)
  then obtain w' where x: "createManualRootTask std_queue (\<lambda>k. calm_attempt) 9 True ''t'' ''j'' ''a.com'' 1 ''/'' (ended_world JCancelled) = (None, w')" by blast
  have "db_jobs ?d ''j'' = Some (demo_job\<lparr>jr_Status := JCancelled\<rparr>)" by (simp add: ended_world_def demo_db_def)
  from root_task_for_ended_job [OF x this] x show ?thesis by (auto simp: IsTerminalJobStatus_def terminalJobStatuses_def)
qed

definition closed_rules :: robots_rules where
  "closed_rules = no_rules\<lparr>rr_DisallowPatterns := [''/'']\<rparr>"

theorem robots_failure_overwrites_cancel_witness:
  "\<exists>r'. db_jobs (jw_db (snd (validateRootURLAccess std_queue (\<lambda>i k. calm_attempt) 9 (Some (\<lambda>h. Inr closed_rules)) ''j'' ''a.com'' ''/'' (ended_world JCancelled)))) ''j'' = Some r' \<and>
    jr_Status r' = JFailed"
proof -
  let ?m = "set_job_tx 0 9 ''j'' (\<lambda>r. True) (failed_row_of 9 ''Root path (/) is disallowed by robots.txt'')" and ?d = "jw_db (ended_world JCancelled)"
  have "\<exists>i d'. ?m (\<lambda>i. None) ?d = (Inr i, d')" by (simp add: set_job_tx_def tx_defs update_job_def split: prod.split)
  then obtain i d' where m: "?m (\<lambda>i. None) ?d = (Inr i, d')" by blast
  have x: "run_set_job std_queue (\<lambda>k. calm_attempt) 9 ''j'' (\<lambda>r. True) (failed_row_of 9 ''Root path (/) is disallowed by robots.txt'')
      (jw_pool (ended_world JCancelled)) ?d = (None, calm_pool, d')"
    using calm_run(1) [of ?m, OF m] by (simp add: run_set_job_def ended_world_def)
  show ?thesis
  proof (rule robots_failure_overwrites_cancel [where A = "\<lambda>i k. calm_attempt" and r = "demo_job\<lparr>jr_Status := JCancelled\<rparr>", OF _ _ _ _ _ x])
    show "\<not> IsPathAllowed (Some closed_rules) ''/''" by code_simp
  qed (simp_all add: ended_world_def demo_db_def closed_rules_def no_rules_def)
qed




end
