(* ===== verification/Jobs_HtmlPersister.thy ===== *)
theory Jobs_HtmlPersister
  imports Jobs_Manager
begin

text \<open>
  \<open>internal/jobs/html_persister.go\<close>: the pages of completed tasks go to cold storage, and where
  they lie goes to the rows of the tasks.  The workers share one bounded queue and each collects the
  rows of its uploads in a batch.  Cold storage is an external service: what an upload does is part of
  the event that makes it.  Metrics are left out.
\<close>

section \<open>Configuration\<close>

record persister_config =
  hc_Workers :: int
  hc_QueueSize :: int
  hc_BatchSize :: int
  hc_FlushInterval :: time
  hc_UploadTimeout :: time
  hc_Bucket :: string
  hc_Provider :: string

definition DefaultHTMLPersisterConfig :: persister_config where
  "DefaultHTMLPersisterConfig =
     \<lparr>hc_Workers = 8, hc_QueueSize = 256, hc_BatchSize = 16, hc_FlushInterval = 250 * millisecond,
      hc_UploadTimeout = 30 * second, hc_Bucket = [], hc_Provider = []\<rparr>"

text \<open>\<open>provider\<close> is the name of the storage provider when there is one, \<open>hasQueue\<close> says whether
  there is a database.\<close>

definition NewHTMLPersister :: "persister_config \<Rightarrow> string option \<Rightarrow> bool \<Rightarrow> go_error + persister_config" where
  "NewHTMLPersister cfg provider hasQueue =
     (case provider of
        None \<Rightarrow> Inl (plain_error ''html persister: cold storage provider is required'')
      | Some name \<Rightarrow>
          if \<not> hasQueue then Inl (plain_error ''html persister: db queue is required'')
          else let cfg' = cfg\<lparr>hc_Workers := (if hc_Workers cfg < 1 then 1 else hc_Workers cfg),
                              hc_QueueSize := (if hc_QueueSize cfg < 1 then 1 else hc_QueueSize cfg),
                              hc_BatchSize := (if hc_BatchSize cfg < 1 then 1 else hc_BatchSize cfg),
                              hc_FlushInterval := (if hc_FlushInterval cfg \<le> 0 then 250 * millisecond else hc_FlushInterval cfg),
                              hc_UploadTimeout := (if hc_UploadTimeout cfg \<le> 0 then 30 * second else hc_UploadTimeout cfg)\<rparr>
               in if hc_Bucket cfg' = [] then Inl (plain_error ''html persister: bucket is required'')
                  else Inr (cfg'\<lparr>hc_Provider := (if hc_Provider cfg' = [] then name else hc_Provider cfg')\<rparr>))"

section \<open>Queue and uploads\<close>

record persist_job =
  pj_taskID :: string
  pj_jobID :: string
  pj_upload :: html_upload

text \<open>\<open>hp_batches\<close> are the batches of the workers that run, by their number.\<close>

record persister =
  hp_queue :: "persist_job list"
  hp_stopped :: bool
  hp_batches :: "nat \<Rightarrow> (string \<times> html_meta) list"

definition new_persister :: persister where
  "new_persister = \<lparr>hp_queue = [], hp_stopped = False, hp_batches = (\<lambda>i. [])\<rparr>"

definition persist_enqueue :: "persister_config \<Rightarrow> db_task option \<Rightarrow> html_upload option \<Rightarrow> persister \<Rightarrow> bool \<times> persister" where
  "persist_enqueue cfg task upload s =
     (case (task, upload) of
        (Some t, Some u) \<Rightarrow>
          if hp_stopped s then (False, s)
          else if int (length (hp_queue s)) < hc_QueueSize cfg
          then (True, s\<lparr>hp_queue := hp_queue s @ [\<lparr>pj_taskID = dt_ID t, pj_jobID = dt_JobID t, pj_upload = u\<rparr>]\<rparr>)
          else (False, s)
      | _ \<Rightarrow> (False, s))"

definition QueueDepth :: "persister option \<Rightarrow> nat" where
  "QueueDepth s = (case s of Some p \<Rightarrow> length (hp_queue p) | None \<Rightarrow> 0)"

definition trim_slashes :: "string \<Rightarrow> string" where
  "trim_slashes s = rev (dropWhile (\<lambda>c. c = CHR ''/'') (rev (dropWhile (\<lambda>c. c = CHR ''/'') s)))"

text \<open>\<open>pathPrefix\<close> is \<open>ARCHIVE_PATH_PREFIX\<close>.\<close>

definition TaskHTMLObjectPath :: "string \<Rightarrow> string \<Rightarrow> string \<Rightarrow> string" where
  "TaskHTMLObjectPath pathPrefix jobID taskID =
     (let base = ''jobs/'' @ jobID @ ''/tasks/'' @ taskID @ ''/page-content.html.gz'';
          p = trim_slashes (trim_space pathPrefix)
      in if p = [] then base else p @ ''/'' @ base)"

text \<open>\<open>uploaded\<close> says whether the provider took the payload.\<close>

definition uploadOne :: "persister_config \<Rightarrow> string \<Rightarrow> bool \<Rightarrow> persist_job \<Rightarrow> (string \<times> html_meta) option" where
  "uploadOne cfg pathPrefix uploaded job =
     (let u = pj_upload job;
          key = (if hu_Path u = [] then TaskHTMLObjectPath pathPrefix (pj_jobID job) (pj_taskID job) else hu_Path u)
      in if \<not> uploaded then None
         else Some (pj_taskID job,
           \<lparr>hm_StorageBucket = hc_Bucket cfg, hm_StoragePath = key, hm_ContentType = hu_ContentType u,
            hm_ContentEncoding = hu_ContentEncoding u, hm_SizeBytes = hu_SizeBytes u,
            hm_CompressedSizeBytes = hu_CompressedSizeBytes u, hm_SHA256 = hu_SHA256 u,
            hm_CapturedAt = Some (hu_CapturedAt u), hm_ArchivedAt = Some (hu_CapturedAt u)\<rparr>))"

section \<open>Workers\<close>

definition maxRetained :: "persister_config \<Rightarrow> nat" where
  "maxRetained cfg = nat (hc_BatchSize cfg * 8)"

text \<open>The closure \<open>flush\<close>: a batch that fails stays, without its oldest rows when it is too long.\<close>

definition persist_flush :: "persister_config \<Rightarrow> queue \<Rightarrow> (nat \<Rightarrow> attempt) \<Rightarrow> time \<Rightarrow> (string \<times> html_meta) list \<Rightarrow> db_pool \<Rightarrow> hover_db
    \<Rightarrow> (string \<times> html_meta) list \<times> db_pool \<times> hover_db" where
  "persist_flush cfg q P now batch p d =
     (if batch = [] then (batch, p, d)
      else case BatchUpsertTaskHTMLMetadata q P now batch p d of
        (Some e, p', d') \<Rightarrow>
          (if length batch > maxRetained cfg then drop (length batch - maxRetained cfg) batch else batch, p', d')
      | (None, p', d') \<Rightarrow> ([], p', d'))"

text \<open>What the environment does to a flush.\<close>

record persist_env =
  pe_now :: time
  pe_attempts :: "nat \<Rightarrow> attempt"

datatype persist_event =
    Enqueued db_task html_upload
  | Received nat bool persist_env
  | FlushTick nat persist_env
  | Closed nat persist_env
  | Stopping

definition set_batch :: "nat \<Rightarrow> (string \<times> html_meta) list \<Rightarrow> persister \<Rightarrow> persister" where
  "set_batch i b s = s\<lparr>hp_batches := (hp_batches s)(i := b)\<rparr>"

text \<open>The cases of \<open>workerLoop\<close>.  \<open>Closed\<close> is the end of a worker, on the closed queue or on the
  end of its context: what is in its batch then is lost when the flush fails.\<close>

definition persist_step :: "persister_config \<Rightarrow> string \<Rightarrow> queue \<Rightarrow> persist_event \<Rightarrow> persister \<times> db_pool \<times> hover_db
    \<Rightarrow> persister \<times> db_pool \<times> hover_db" where
  "persist_step cfg pathPrefix q ev S =
     (case S of (s, p, d) \<Rightarrow>
      case ev of
        Enqueued t u \<Rightarrow> (snd (persist_enqueue cfg (Some t) (Some u) s), p, d)
      | Received i uploaded E \<Rightarrow>
          (case hp_queue s of
             [] \<Rightarrow> (s, p, d)
           | job # rest \<Rightarrow>
               let s1 = s\<lparr>hp_queue := rest\<rparr> in
               (case uploadOne cfg pathPrefix uploaded job of
                  None \<Rightarrow> (s1, p, d)
                | Some row \<Rightarrow>
                    let batch = hp_batches s i @ [row] in
                    if int (length batch) \<ge> hc_BatchSize cfg
                    then (case persist_flush cfg q (pe_attempts E) (pe_now E) batch p d of (b, p', d') \<Rightarrow> (set_batch i b s1, p', d'))
                    else (set_batch i batch s1, p, d)))
      | FlushTick i E \<Rightarrow>
          (case persist_flush cfg q (pe_attempts E) (pe_now E) (hp_batches s i) p d of (b, p', d') \<Rightarrow> (set_batch i b s, p', d'))
      | Closed i E \<Rightarrow>
          (case persist_flush cfg q (pe_attempts E) (pe_now E) (hp_batches s i) p d of (b, p', d') \<Rightarrow> (set_batch i [] s, p', d'))
      | Stopping \<Rightarrow> (s\<lparr>hp_stopped := True\<rparr>, p, d))"

section \<open>Memory stays bounded\<close>

definition persister_ok :: "persister_config \<Rightarrow> persister \<Rightarrow> bool" where
  "persister_ok cfg s \<longleftrightarrow> int (length (hp_queue s)) \<le> hc_QueueSize cfg \<and>
     (\<forall>i. int (length (hp_batches s i)) \<le> 8 * hc_BatchSize cfg)"

lemma persist_flush_bound:
  assumes "persist_flush cfg q P now batch p d = (b, p', d')" "0 < hc_BatchSize cfg"
  shows "int (length b) \<le> 8 * hc_BatchSize cfg"
  using assms by (auto simp: persist_flush_def maxRetained_def split: if_splits prod.splits option.splits)

lemma persist_step_ok:
  assumes "persister_ok cfg s" "0 < hc_BatchSize cfg" "0 < hc_QueueSize cfg"
  shows "persister_ok cfg (fst (persist_step cfg pathPrefix q ev (s, p, d)))"
proof (cases ev)
  case (Enqueued t u)
  then show ?thesis using assms by (simp add: persist_step_def persist_enqueue_def persister_ok_def)
next
  case (Received i uploaded E)
  show ?thesis
  proof (cases "hp_queue s")
    case (Cons job rest)
    show ?thesis
    proof (cases "uploadOne cfg pathPrefix uploaded job")
      case (Some row)
      obtain b p' d' where f: "persist_flush cfg q (pe_attempts E) (pe_now E) (hp_batches s i @ [row]) p d = (b, p', d')" by (rule prod_cases3)
      show ?thesis using assms persist_flush_bound [OF f assms(2)]
        by (auto simp: persist_step_def Received Cons Some f Let_def set_batch_def persister_ok_def)
    qed (use assms in \<open>simp add: persist_step_def Received Cons Let_def persister_ok_def\<close>)
  qed (use assms in \<open>simp add: persist_step_def Received persister_ok_def\<close>)
next
  case (FlushTick i E)
  obtain b p' d' where f: "persist_flush cfg q (pe_attempts E) (pe_now E) (hp_batches s i) p d = (b, p', d')" by (rule prod_cases3)
  show ?thesis using assms persist_flush_bound [OF f assms(2)]
    by (simp add: persist_step_def FlushTick f set_batch_def persister_ok_def)
next
  case (Closed i E)
  obtain b p' d' where f: "persist_flush cfg q (pe_attempts E) (pe_now E) (hp_batches s i) p d = (b, p', d')" by (rule prod_cases3)
  show ?thesis using assms by (simp add: persist_step_def Closed f set_batch_def persister_ok_def)
qed (use assms in \<open>simp add: persist_step_def persister_ok_def\<close>)

text \<open>With a configuration the constructor returns, the queue never holds more than its size, and no
  worker retains more than eight batches of rows, however long the database is away.\<close>

theorem persister_bounded:
  assumes "NewHTMLPersister cfg provider hasQueue = Inr cfg'"
  shows "persister_ok cfg' (fst (foldl (\<lambda>S ev. persist_step cfg' pathPrefix q ev S) (new_persister, p, d) evs))"
proof -
  have pos: "0 < hc_BatchSize cfg'" "0 < hc_QueueSize cfg'"
    using assms by (auto simp: NewHTMLPersister_def Let_def split: option.splits if_splits)
  have one: "persister_ok cfg' (fst (persist_step cfg' pathPrefix q ev S))" if "persister_ok cfg' (fst S)" for S ev
    using persist_step_ok [OF _ pos] that by (cases S) simp
  have "persister_ok cfg' (fst S) \<Longrightarrow> persister_ok cfg' (fst (foldl (\<lambda>S ev. persist_step cfg' pathPrefix q ev S) S evs))" for S
    by (induction evs arbitrary: S) (simp_all add: one)
  then show ?thesis using pos by (simp add: persister_ok_def new_persister_def)
qed

section \<open>What a flush writes\<close>

definition stamp_row :: "(string \<times> html_meta) list \<Rightarrow> task_row \<Rightarrow> task_row" where
  "stamp_row rows t = (case map_of rows (tr_ID t) of Some m \<Rightarrow> t\<lparr>tr_HTML := merge_html (tr_HTML t) m\<rparr> | None \<Rightarrow> t)"

definition stamped :: "(string \<times> html_meta) list \<Rightarrow> task_row list \<Rightarrow> task_row list" where
  "stamped rows ts = map (\<lambda>t. if html_eligible t then stamp_row rows t else t) ts"

definition stamp_tx :: "time \<Rightarrow> (string \<times> html_meta) list \<Rightarrow> (unit, hover_db) tx" where
  "stamp_tx now rows = tx_wrap ''batch upsert task html metadata: '' (tx_exec 0
     (update_tasks now (\<lambda>t. tr_ID t \<in> set (map fst rows) \<and> html_eligible t) (stamp_row rows)))"

lemma merge_html_idem: "merge_html (merge_html old m) m = merge_html old m"
  by (auto simp: merge_html_def keep_unless_set_def split: option.splits)

lemma stamp_row_id: "tr_ID t \<notin> set (map fst rows) \<Longrightarrow> stamp_row rows t = t"
  by (simp add: stamp_row_def map_of_eq_None_iff [THEN iffD2])

lemma stamp_row_sel [simp]:
  "tr_ID (stamp_row rows t) = tr_ID t" "tr_Status (stamp_row rows t) = tr_Status t" "html_eligible (stamp_row rows t) = html_eligible t"
  by (simp_all add: stamp_row_def html_eligible_def split: option.splits)

lemma stamp_row_idem [simp]: "stamp_row rows (stamp_row rows t) = stamp_row rows t"
proof (cases "map_of rows (tr_ID t)")
  case (Some m)
  then show ?thesis by (simp add: stamp_row_def merge_html_idem)
qed (simp add: stamp_row_def)

lemma stamped_idem: "stamped rows (stamped rows ts) = stamped rows ts"
  by (simp add: stamped_def)

lemma stamp_tx_result:
  assumes "stamp_tx now rows F d = (Inr x, d')"
  shows "db_tasks d' = stamped rows (db_tasks d)"
proof -
  have "d' = update_tasks now (\<lambda>t. tr_ID t \<in> set (map fst rows) \<and> html_eligible t) (stamp_row rows) d"
    using assms by (auto simp: stamp_tx_def tx_defs split: option.splits)
  then show ?thesis by (auto simp: stamped_def stamp_row_id)
qed

lemma upsert_success:
  assumes "BatchUpsertTaskHTMLMetadata q P now rows p d = (None, p', d')" "rows \<noteq> []"
  shows "\<exists>d1 F x. applied (stamp_tx now rows) d d1 \<and> stamp_tx now rows F d1 = (Inr x, d')"
proof -
  have "\<exists>x. Execute_tx q P (stamp_tx now rows) p d = (Inr x, p', d')"
    using assms by (auto simp: BatchUpsertTaskHTMLMetadata_def stamp_tx_def stamp_row_def [abs_def] split: prod.splits sum.splits)
  then obtain x where x: "Execute_tx q P (stamp_tx now rows) p d = (Inr x, p', d')" by blast
  show ?thesis using execute_success [OF x] by blast
qed

text \<open>A flush that succeeds stamps the row of every task of the batch that is running or completed,
  whatever was repeated, and changes no other row.\<close>

theorem flush_stamps_eligible:
  assumes "persist_flush cfg q P now batch p d = ([], p', d')" "batch \<noteq> []"
    and "length batch \<le> maxRetained cfg"
  shows "db_tasks d' = stamped batch (db_tasks d)"
proof -
  have "BatchUpsertTaskHTMLMetadata q P now batch p d = (None, p', d')"
    using assms by (auto simp: persist_flush_def split: prod.splits option.splits)
  from upsert_success [OF this assms(2)] obtain d1 F x where
    a: "applied (stamp_tx now batch) d d1" "stamp_tx now batch F d1 = (Inr x, d')" by blast
  have "db_tasks d1 = db_tasks d \<or> db_tasks d1 = stamped batch (db_tasks d)"
    by (rule applied_invariant [OF a(1), where P = "\<lambda>y. db_tasks y = db_tasks d \<or> db_tasks y = stamped batch (db_tasks d)"])
       (auto dest!: stamp_tx_result simp: stamped_idem)
  then show ?thesis using stamp_tx_result [OF a(2)] by (auto simp: stamped_idem)
qed

section \<open>The page of a task that is not yet completed in the database\<close>

lemma populate_keeps [simp]:
  "dt_HTML (populateResponseFields d r) = dt_HTML d" "dt_HTML (populateJSONBFields L d r) = dt_HTML d"
  "dt_Status (populateResponseFields d r) = dt_Status d" "dt_Status (populateJSONBFields L d r) = dt_Status d"
  by (simp_all add: populateResponseFields_def populateJSONBFields_def populateRequestDiagnostics_def Let_def split: option.split)

lemma populate_id [simp]: "dt_ID (populateResponseFields d r) = dt_ID d" "dt_ID (populateJSONBFields L d r) = dt_ID d"
  by (simp_all add: populateResponseFields_def populateJSONBFields_def populateRequestDiagnostics_def Let_def split: option.split)

lemma success_id: "dt_ID (to_Task (buildSuccessOutcome L now t r)) = tk_ID t"
  by (simp add: buildSuccessOutcome_def Let_def taskToDBTask_def)

lemma success_row:
  "dt_HTML (to_Task (buildSuccessOutcome L now t r)) = no_html" "dt_Status (to_Task (buildSuccessOutcome L now t r)) = Completed"
  by (simp_all add: buildSuccessOutcome_def Let_def taskToDBTask_def)

lemma merge_no_html: "merge_html m (no_html\<lparr>hm_ArchivedAt := None\<rparr>) = m"
  by (cases m) (simp add: merge_html_def no_html_def keep_unless_set_def)

text \<open>C36: The worker hands the page to the persister and queues the result for the next flush of the batch
  manager, so the row of the task is still pending when the persister, which flushes more often, writes
  where the page lies.  The statement then matches no row and reports success: the rows of the batch are
  dropped, and when the result arrives the task is completed without a trace of its page.\<close>

theorem early_metadata_lost:
  assumes flushed: "persist_flush cfg q P now batch p d = ([], p1, d1)" "batch \<noteq> []" "length batch \<le> maxRetained cfg"
    and open_rows: "\<forall>r \<in> set (db_tasks d). tr_ID r \<in> set (map fst batch) \<longrightarrow> tr_Status r \<in> {Pending, Waiting}"
    and written: "to_Task (buildSuccessOutcome L crawled t res) = home" "flush_tx pick now' [home] F d1 = (Inr x, d2)" "picks pick"
    and row: "r \<in> set (db_tasks d)" "tr_ID r = dt_ID home"
  shows "db_tasks d1 = db_tasks d \<and> (\<exists>r' \<in> set (db_tasks d2). tr_ID r' = dt_ID home \<and> tr_Status r' = Completed \<and> tr_HTML r' = tr_HTML r)"
proof -
  have "db_tasks d1 = stamped batch (db_tasks d)" by (rule flush_stamps_eligible [OF flushed])
  also have "\<dots> = map (\<lambda>t. t) (db_tasks d)"
    unfolding stamped_def using open_rows by (intro map_cong) (auto simp: html_eligible_def stamp_row_id)
  finally have same: "db_tasks d1 = db_tasks d" by simp
  have st: "dt_Status home = Completed" using written(1) success_row(2) by blast
  have html: "dt_HTML home = no_html" using written(1) success_row(1) by blast
  have "pick [home] \<in> set [home]" using written(3) unfolding picks_def by blast
  then have pick: "pick [home] = home" by simp
  have "db_tasks d2 = db_tasks (join_update pick now' [home] completed_row d1)"
    unfolding flush_success [OF written(2)] billed_sel written_completed_only [OF st] by (rule refl)
  then have "db_tasks d2 = map (\<lambda>r. if tr_ID r = dt_ID home then completed_row home r else r) (db_tasks d)"
    by (simp add: join_update_def same pick cong: if_cong)
  then have "completed_row home r \<in> set (db_tasks d2)" using row by force
  moreover have "tr_HTML (completed_row home r) = tr_HTML r" by (simp add: completed_row_def html merge_no_html)
  moreover have "tr_ID (completed_row home r) = dt_ID home" "tr_Status (completed_row home r) = Completed"
    using row(2) by (simp_all add: completed_row_def)
  ultimately show ?thesis using same by blast
qed

section \<open>The theorems at work\<close>

theorem persister_bounded_witness:
  "\<exists>cfg. NewHTMLPersister (DefaultHTMLPersisterConfig\<lparr>hc_Bucket := ''b'', hc_QueueSize := -5\<rparr>) (Some ''r2'') True = Inr cfg \<and>
    persister_ok cfg (fst (foldl (\<lambda>S ev. persist_step cfg [] std_queue ev S) (new_persister, idle_pool, open_db)
      [Stopping, FlushTick 3 \<lparr>pe_now = 9, pe_attempts = (\<lambda>k. calm_attempt)\<rparr>]))"
proof -
  obtain cfg where "NewHTMLPersister (DefaultHTMLPersisterConfig\<lparr>hc_Bucket := ''b'', hc_QueueSize := -5\<rparr>) (Some ''r2'') True = Inr cfg"
    by (simp add: NewHTMLPersister_def DefaultHTMLPersisterConfig_def)
  then show ?thesis using persister_bounded by blast
qed

definition demo_meta :: html_meta where
  "demo_meta = no_html\<lparr>hm_StorageBucket := ''b'', hm_StoragePath := ''k'', hm_CapturedAt := Some 5\<rparr>"

definition demo_persister :: persister_config where
  "demo_persister = DefaultHTMLPersisterConfig\<lparr>hc_Bucket := ''b''\<rparr>"

lemma room: "length [x] \<le> maxRetained demo_persister"
  by (simp add: maxRetained_def demo_persister_def DefaultHTMLPersisterConfig_def)

lemma demo_persist_flush:
  "\<exists>d'. persist_flush demo_persister std_queue (\<lambda>k. calm_attempt) 9 [(''x'', demo_meta)] idle_pool d = ([], calm_pool, d')"
proof -
  let ?rows = "[(''x'', demo_meta)]"
  have "\<exists>d'. stamp_tx 9 ?rows (\<lambda>i. None) d = (Inr (), d')" by (simp add: stamp_tx_def tx_defs)
  then obtain d' where m: "stamp_tx 9 ?rows (\<lambda>i. None) d = (Inr (), d')" by blast
  have "Execute_tx std_queue (\<lambda>k. calm_attempt) (stamp_tx 9 ?rows) idle_pool d = (Inr (), calm_pool, d')"
    by (rule calm_run(1) [of "stamp_tx 9 ?rows", OF m])
  then have "BatchUpsertTaskHTMLMetadata std_queue (\<lambda>k. calm_attempt) 9 ?rows idle_pool d = (None, calm_pool, d')"
    by (simp add: BatchUpsertTaskHTMLMetadata_def stamp_tx_def stamp_row_def [abs_def])
  then show ?thesis by (simp add: persist_flush_def)
qed

theorem flush_stamps_eligible_witness:
  "\<exists>d'. persist_flush demo_persister std_queue (\<lambda>k. calm_attempt) 9 [(''x'', demo_meta)] idle_pool
      (demo_db demo_job [demo_task ''x'' 1 Completed]) = ([], calm_pool, d') \<and>
    map (hm_StoragePath \<circ> tr_HTML) (db_tasks d') = [''k'']"
proof -
  let ?d = "demo_db demo_job [demo_task ''x'' 1 Completed]"
  obtain d' where f: "persist_flush demo_persister std_queue (\<lambda>k. calm_attempt) 9 [(''x'', demo_meta)] idle_pool ?d = ([], calm_pool, d')"
    using demo_persist_flush by blast
  have "db_tasks d' = stamped [(''x'', demo_meta)] (db_tasks ?d)" by (rule flush_stamps_eligible [OF f _ room]) simp
  then show ?thesis using f
    by (simp add: stamped_def demo_db_def demo_task_def html_eligible_def stamp_row_def merge_html_def keep_unless_set_def demo_meta_def)
qed

definition demo_response :: crawl_result where
  "demo_response = \<lparr>cr_URL = ''https://a.com/'', cr_ResponseTime = 120, cr_StatusCode = 200, cr_CacheStatus = ''HIT'',
     cr_ContentType = ''text/html'', cr_ContentLength = 5, cr_Headers = [], cr_RedirectURL = [], cr_Performance = no_perf,
     cr_Links = [], cr_SecondResponseTime = 0, cr_SecondCacheStatus = [], cr_SecondContentLength = 0, cr_SecondHeaders = [],
     cr_SecondPerformance = None, cr_CacheCheckAttempts = [], cr_RequestDiagnostics = None, cr_Body = ''hello'',
     cr_WAF = None\<rparr>"

theorem early_metadata_lost_witness:
  "\<exists>d1. persist_flush demo_persister std_queue (\<lambda>k. calm_attempt) 9 [(''x'', demo_meta)] idle_pool open_db = ([], calm_pool, d1) \<and>
    (\<exists>r' \<in> set (db_tasks (snd (flush_tx hd 10 [to_Task (buildSuccessOutcome no_lib 8 (example_task\<lparr>tk_ID := ''x''\<rparr>) demo_response)] (\<lambda>i. None) d1))).
       tr_ID r' = ''x'' \<and> tr_Status r' = Completed \<and> hm_StoragePath (tr_HTML r') = [])"
proof -
  obtain d1 where f: "persist_flush demo_persister std_queue (\<lambda>k. calm_attempt) 9 [(''x'', demo_meta)] idle_pool open_db = ([], calm_pool, d1)"
    using demo_persist_flush by blast
  let ?home = "to_Task (buildSuccessOutcome no_lib 8 (example_task\<lparr>tk_ID := ''x''\<rparr>) demo_response)"
  have id: "dt_ID ?home = ''x''" by (simp add: success_id example_task_def)
  let ?d2 = "snd (flush_tx hd 10 [?home] (\<lambda>i. None) d1)"
  have w: "flush_tx hd 10 [?home] (\<lambda>i. None) d1 = (Inr (), ?d2)" by (simp add: flush_clean)
  have "\<exists>r' \<in> set (db_tasks ?d2). tr_ID r' = dt_ID ?home \<and> tr_Status r' = Completed \<and> tr_HTML r' = tr_HTML (demo_task ''x'' 1 Pending)"
    by (rule early_metadata_lost [OF f _ room _ refl w hd_picks, THEN conjunct2])
       (simp_all add: id open_db_def demo_db_def demo_task_def)
  then show ?thesis using f by (auto simp: id demo_task_def no_html_def)
qed

end
