(* ===== verification/Lighthouse_Sampler.thy ===== *)
theory Lighthouse_Sampler
  imports Go_Prelude "HOL-Library.Multiset"
begin

text \<open>
  \<open>internal/lighthouse/sampler.go\<close>: which of the completed pages of a job are audited, the fastest
  and the slowest ones of those that have not been taken before, up to a quota that grows with the root
  of their number.
\<close>

section \<open>Samples\<close>

record completed_task =
  ct_PageID :: int
  ct_TaskID :: string
  ct_ResponseTime :: int

datatype band = BandFastest | BandSlowest | BandReconcile

record sample =
  sp_Task :: completed_task
  sp_Band :: band

definition bandFloor :: int where
  "bandFloor = 1"

definition bandCap :: int where
  "bandCap = 15"

text \<open>The floor of \<open>sqrt n * 0.15\<close> without floating-point numbers, exact up to 16, which is above the
  cap; \<open>PerBand_root\<close> is the formula.\<close>

definition band_root :: "int \<Rightarrow> int" where
  "band_root n = int (length (filter (\<lambda>k. 400 * k * k \<le> 9 * n) [1..16]))"

definition PerBand :: "int \<Rightarrow> int" where
  "PerBand completedPages =
     (if completedPages \<le> 0 then 0
      else let n = band_root completedPages;
               m = (if n < bandFloor then bandFloor else n)
           in if m > bandCap then bandCap else m)"

text \<open>\<open>already\<close> lists the map of the pages sampled before.\<close>

definition existing_in :: "band \<Rightarrow> (int \<times> band) list \<Rightarrow> int" where
  "existing_in b already = int (length (filter (\<lambda>x. snd x = b) already))"

definition candidates :: "completed_task list \<Rightarrow> (int \<times> band) list \<Rightarrow> completed_task list" where
  "candidates completed already = filter (\<lambda>t. ct_PageID t \<notin> set (map fst already)) completed"

definition by_response :: "completed_task list \<Rightarrow> completed_task list" where
  "by_response ts = sort_key ct_ResponseTime (sort_key ct_PageID ts)"

text \<open>The milestone is an argument of the function and is not used.\<close>

definition SelectSamples :: "completed_task list \<Rightarrow> int \<Rightarrow> (int \<times> band) list \<Rightarrow> sample list" where
  "SelectSamples completed milestone already =
     (if completed = [] then []
      else let target = PerBand (int (length completed)) in
        if target = 0 then []
        else let fastestNeeded = max 0 (target - existing_in BandFastest already);
                 slowestNeeded = max 0 (target - existing_in BandSlowest already)
             in if fastestNeeded = 0 \<and> slowestNeeded = 0 then []
                else let cs = by_response (candidates completed already) in
                  if cs = [] then []
                  else let fastestN = min (nat fastestNeeded) (length cs);
                           slowestN = min (nat slowestNeeded) (length cs - fastestN)
                       in map (\<lambda>t. \<lparr>sp_Task = t, sp_Band = BandFastest\<rparr>) (take fastestN cs) @
                          map (\<lambda>t. \<lparr>sp_Task = t, sp_Band = BandSlowest\<rparr>) (take slowestN (rev cs)))"

section \<open>The quota\<close>

lemma upto_filter: "length (filter (\<lambda>k. k \<le> m) [1..int n]) = min n (nat m)"
proof (induction n)
  case (Suc n)
  have "[1..int (Suc n)] = [1..int n] @ [int (Suc n)]" by (simp add: upto_rec2)
  then show ?case using Suc by (cases "int (Suc n) \<le> m") (auto simp: min_def)
qed simp

lemma band_root_floor:
  assumes "0 \<le> n"
  shows "band_root n = min 16 \<lfloor>sqrt (real_of_int n) * (15 / 100)\<rfloor>"
proof -
  let ?x = "sqrt (real_of_int n) * (15 / 100)"
  have "sqrt (real_of_int n) * sqrt (real_of_int n) = real_of_int n" using assms by simp
  then have x: "0 \<le> ?x" "?x * ?x = real_of_int n * (9 / 400)" using assms by simp_all
  have "400 * k * k \<le> 9 * n \<longleftrightarrow> k \<le> \<lfloor>?x\<rfloor>" if "1 \<le> k" for k :: int
  proof -
    have "400 * k * k \<le> 9 * n \<longleftrightarrow> real_of_int (400 * k * k) \<le> real_of_int (9 * n)"
      by (rule of_int_le_iff [symmetric])
    also have "\<dots> \<longleftrightarrow> (real_of_int k)\<^sup>2 \<le> ?x\<^sup>2" unfolding power2_eq_square x(2) unfolding of_int_mult of_int_numeral mult.assoc by (rule iffI) linarith+
    also have "\<dots> \<longleftrightarrow> real_of_int k \<le> ?x" using x(1) that by (simp add: abs_le_square_iff [symmetric])
    also have "\<dots> \<longleftrightarrow> k \<le> \<lfloor>?x\<rfloor>" by linarith
    finally show ?thesis .
  qed
  then have "filter (\<lambda>k. 400 * k * k \<le> 9 * n) [1..16] = filter (\<lambda>k. k \<le> \<lfloor>?x\<rfloor>) [1..16]"
    by (intro filter_cong) auto
  moreover define r where "r = \<lfloor>?x\<rfloor>"
  moreover have "0 \<le> r" unfolding r_def using x(1) by linarith
  ultimately show ?thesis unfolding r_def [symmetric] using upto_filter [of r 16] by (simp add: band_root_def)
qed

lemma PerBand_root:
  assumes "0 < n"
  shows "PerBand n = max 1 (min 15 \<lfloor>sqrt (real_of_int n) * (15 / 100)\<rfloor>)"
proof -
  define r where "r = \<lfloor>sqrt (real_of_int n) * (15 / 100)\<rfloor>"
  have "band_root n = min 16 r" unfolding r_def using assms by (intro band_root_floor) simp
  then show ?thesis using assms unfolding r_def [symmetric]
    by (simp add: PerBand_def bandFloor_def bandCap_def max_def min_def)
qed

lemma PerBand_bounds: "0 \<le> PerBand n" "PerBand n \<le> 15" "0 < n \<Longrightarrow> 1 \<le> PerBand n"
  by (simp_all add: PerBand_def bandFloor_def bandCap_def Let_def)

section \<open>The choice\<close>

definition tagged :: "band \<Rightarrow> completed_task list \<Rightarrow> sample list" where
  "tagged b = map (\<lambda>t. \<lparr>sp_Task = t, sp_Band = b\<rparr>)"

definition in_band :: "band \<Rightarrow> sample list \<Rightarrow> int" where
  "in_band b s = int (length (filter (\<lambda>x. sp_Band x = b) s))"

lemma in_band_simps [simp]:
  "in_band b [] = 0" "in_band b (s @ r) = in_band b s + in_band b r"
  "in_band b (tagged c ts) = (if b = c then int (length ts) else 0)"
  by (simp_all add: in_band_def tagged_def comp_def)

lemma tagged_pages: "map (ct_PageID \<circ> sp_Task) (tagged b ts) = map ct_PageID ts"
  by (simp add: tagged_def)

lemma select_shape:
  obtains a c where
    "SelectSamples completed m already = tagged BandFastest (take a (by_response (candidates completed already))) @
       tagged BandSlowest (take c (rev (by_response (candidates completed already))))"
    "a + c \<le> length (candidates completed already)"
    "int a \<le> max 0 (PerBand (int (length completed)) - existing_in BandFastest already)"
    "int c \<le> max 0 (PerBand (int (length completed)) - existing_in BandSlowest already)"
proof -
  let ?cs = "by_response (candidates completed already)"
  let ?f = "PerBand (int (length completed)) - existing_in BandFastest already"
  let ?s = "PerBand (int (length completed)) - existing_in BandSlowest already"
  have l: "length ?cs = length (candidates completed already)" by (simp add: by_response_def)
  let ?a = "min (nat (max 0 ?f)) (length ?cs)"
  let ?c = "min (nat (max 0 ?s)) (length ?cs - ?a)"
  have sel: "SelectSamples completed m already = [] \<or> SelectSamples completed m already =
      tagged BandFastest (take ?a ?cs) @ tagged BandSlowest (take ?c (rev ?cs))"
    by (simp add: SelectSamples_def tagged_def Let_def del: min_def max_def)
  show ?thesis
  proof (cases "SelectSamples completed m already = []")
    case True
    show ?thesis by (rule that [of 0 0]) (simp_all add: True tagged_def)
  next
    case False
    then have "SelectSamples completed m already = tagged BandFastest (take ?a ?cs) @ tagged BandSlowest (take ?c (rev ?cs))"
      using sel by blast
    moreover have "min x k + min y (k - min x k) \<le> k" for x y k :: nat by arith
    ultimately show ?thesis by (intro that [of ?a ?c]) (simp_all add: l)
  qed
qed

lemma by_response_sorted: "sorted (map ct_ResponseTime (by_response ts))" "set (by_response ts) = set ts"
  "length (by_response ts) = length ts" "distinct (map ct_PageID (by_response ts)) = distinct (map ct_PageID ts)"
proof -
  have "mset (map ct_PageID (by_response ts)) = mset (map ct_PageID ts)" by (simp add: by_response_def)
  then show "distinct (map ct_PageID (by_response ts)) = distinct (map ct_PageID ts)" by (rule mset_eq_imp_distinct_iff)
qed (simp_all add: by_response_def)

text \<open>The two ends of a sorted list that do not meet.\<close>

lemma sorted_ends:
  assumes "sorted (map f cs)" "a + c \<le> length cs"
  shows "x \<in> set (take a cs) \<Longrightarrow> y \<in> set (drop a cs) \<Longrightarrow> f x \<le> f y"
    "x \<in> set (take c (rev cs)) \<Longrightarrow> y \<in> set (take (length cs - c) cs) \<Longrightarrow> f y \<le> f x"
proof -
  have "sorted (map f (take n cs @ drop n cs))" for n using assms(1) by simp
  then have 2: "x \<in> set (take n cs) \<Longrightarrow> y \<in> set (drop n cs) \<Longrightarrow> f x \<le> f y" for n x y
    unfolding map_append sorted_append by auto
  show "x \<in> set (take a cs) \<Longrightarrow> y \<in> set (drop a cs) \<Longrightarrow> f x \<le> f y" by (rule 2)
  show "x \<in> set (take c (rev cs)) \<Longrightarrow> y \<in> set (take (length cs - c) cs) \<Longrightarrow> f y \<le> f x"
    by (rule 2) (simp_all add: take_rev)
qed

lemma ends_split:
  assumes "a + c \<le> length cs"
  shows "set (take c (rev cs)) \<subseteq> set (drop a cs)" "set (take a cs) \<union> set (drop a cs) = set cs"
    "set cs = set (take (length cs - c) cs) \<union> set (take c (rev cs))"
proof -
  have "set (drop (length cs - c) cs) \<subseteq> set (drop a cs)" using assms by (intro set_drop_subset_set_drop) simp
  then show "set (take c (rev cs)) \<subseteq> set (drop a cs)" by (simp add: take_rev)
  show "set (take a cs) \<union> set (drop a cs) = set cs" unfolding set_append [symmetric] by simp
  have "set cs = set (take (length cs - c) cs @ drop (length cs - c) cs)" by simp
  then show "set cs = set (take (length cs - c) cs) \<union> set (take c (rev cs))" unfolding set_append by (simp add: take_rev)
qed

lemma ends_distinct:
  assumes "a + c \<le> length cs" "distinct (map f cs)"
  shows "distinct (map f (take a cs @ take c (rev cs)))"
proof -
  have "distinct (map f (take a cs @ drop a cs))" using assms(2) by simp
  then have a: "distinct (map f (take a cs))" "f ` set (take a cs) \<inter> f ` set (drop a cs) = {}"
    unfolding map_append distinct_append by auto
  have c: "distinct (map f (take c (rev cs)))" using assms(2)
    by (simp add: take_map [symmetric] rev_map [symmetric])
  show ?thesis using a c ends_split(1) [OF assms(1)] unfolding map_append distinct_append by auto
qed

definition sampled :: "sample list \<Rightarrow> completed_task set" where
  "sampled s = sp_Task ` set s"

definition left_over :: "completed_task list \<Rightarrow> (int \<times> band) list \<Rightarrow> sample list \<Rightarrow> completed_task set" where
  "left_over completed already s = set (candidates completed already) - sampled s"

lemma samples_sub: "sampled (SelectSamples completed m already) \<subseteq> set (candidates completed already)"
proof -
  let ?cs = "by_response (candidates completed already)"
  obtain a c where "SelectSamples completed m already = tagged BandFastest (take a ?cs) @ tagged BandSlowest (take c (rev ?cs))"
    by (rule select_shape [of completed m already]) (simp add: by_response_sorted)
  then have "sampled (SelectSamples completed m already) = set (take a ?cs) \<union> set (take c (rev ?cs))"
    unfolding sampled_def tagged_def by (simp add: image_Un image_image)
  moreover have "set (take a ?cs) \<union> set (take c (rev ?cs)) \<subseteq> set ?cs"
    using set_take_subset [of a ?cs] set_take_subset [of c "rev ?cs"] by auto
  ultimately show ?thesis by (simp add: by_response_sorted)
qed

text \<open>C19: the sampler.  For pages that occur once, the samples are pages of the job that have not
  been taken before, no page is taken twice, no band is filled beyond its quota (of at most 15), a page
  taken as one of the fastest is not slower than any page that is left, and a page taken as one of the
  slowest is not faster than any page that is left.\<close>

lemma samples_extreme:
  assumes "distinct (map ct_PageID completed)"
  shows "let s = SelectSamples completed m already;
             quota = PerBand (int (length completed)) in
           sampled s \<subseteq> set (candidates completed already) \<and> distinct (map (ct_PageID \<circ> sp_Task) s) \<and>
           quota \<le> 15 \<and> in_band BandReconcile s = 0 \<and>
           existing_in BandFastest already + in_band BandFastest s \<le> max (existing_in BandFastest already) quota \<and>
           existing_in BandSlowest already + in_band BandSlowest s \<le> max (existing_in BandSlowest already) quota \<and>
           (\<forall>x \<in> set s. \<forall>y \<in> left_over completed already s.
              if sp_Band x = BandFastest then ct_ResponseTime (sp_Task x) \<le> ct_ResponseTime y
              else ct_ResponseTime y \<le> ct_ResponseTime (sp_Task x))"
proof -
  let ?cs = "by_response (candidates completed already)"
  obtain a c where s: "SelectSamples completed m already = tagged BandFastest (take a ?cs) @ tagged BandSlowest (take c (rev ?cs))"
    and len: "a + c \<le> length ?cs"
    and quota: "int a \<le> max 0 (PerBand (int (length completed)) - existing_in BandFastest already)"
      "int c \<le> max 0 (PerBand (int (length completed)) - existing_in BandSlowest already)"
    by (rule select_shape [of completed m already]) (simp add: by_response_sorted)
  have sampled: "sampled (SelectSamples completed m already) = set (take a ?cs) \<union> set (take c (rev ?cs))"
    unfolding s sampled_def tagged_def by (simp add: image_Un image_image)
  have left: "left_over completed already (SelectSamples completed m already) = set ?cs - (set (take a ?cs) \<union> set (take c (rev ?cs)))"
    unfolding left_over_def sampled by (simp add: by_response_sorted)
  have "distinct (map ct_PageID (candidates completed already))"
    unfolding candidates_def by (rule distinct_map_filter [OF assms])
  then have "distinct (map ct_PageID ?cs)" by (simp add: by_response_sorted)
  note d = ends_distinct [OF len this]
  note e = sorted_ends [OF by_response_sorted(1) len] note f = ends_split [OF len]
  have "\<forall>x \<in> set (SelectSamples completed m already). \<forall>y \<in> left_over completed already (SelectSamples completed m already).
      if sp_Band x = BandFastest then ct_ResponseTime (sp_Task x) \<le> ct_ResponseTime y
      else ct_ResponseTime y \<le> ct_ResponseTime (sp_Task x)"
    unfolding left unfolding s using e f(2,3) by (auto simp: tagged_def)
  moreover have "e + int (min l k) \<le> max e q" if "int k \<le> max 0 (q - e)" for e q :: int and k l using that by linarith
  ultimately show ?thesis using samples_sub [of completed m already] d quota PerBand_bounds(2) unfolding s Let_def
    by (simp add: tagged_pages)
qed

text \<open>the choice does not depend on the order in which the database returns the rows.\<close>

lemma samples_deterministic:
  assumes "mset completed = mset completed'" "distinct (map ct_PageID completed)"
  shows "SelectSamples completed m already = SelectSamples completed' m already"
proof -
  have same: "mset (candidates completed already) = mset (candidates completed' already)"
    unfolding candidates_def mset_filter assms(1) ..
  have "distinct (map ct_PageID (candidates completed already))"
    unfolding candidates_def by (rule distinct_map_filter [OF assms(2)])
  then have inj: "inj_on ct_PageID (set (candidates completed already))" by (simp add: distinct_map)
  have "sort_key ct_PageID (candidates completed already) = sort_key ct_PageID (candidates completed' already)"
    by (rule sort_key_inj_key_eq) (use same inj in simp_all)
  then have "by_response (candidates completed already) = by_response (candidates completed' already)"
    unfolding by_response_def by simp
  moreover have "length completed = length completed'" "completed = [] \<longleftrightarrow> completed' = []"
    using assms(1) by (auto dest: mset_eq_length)
  ultimately show ?thesis unfolding SelectSamples_def by (simp cong: if_cong)
qed

text \<open>What the two bands lack of the quota; with enough pages left, just as many are sampled.\<close>

definition top_up :: "completed_task list \<Rightarrow> (int \<times> band) list \<Rightarrow> int" where
  "top_up completed already =
     max 0 (PerBand (int (length completed)) - existing_in BandFastest already) +
     max 0 (PerBand (int (length completed)) - existing_in BandSlowest already)"

lemma select_full:
  assumes "top_up completed already \<le> int (length (candidates completed already))"
  shows "int (length (SelectSamples completed m already)) = top_up completed already"
proof -
  define f where "f = nat (max 0 (PerBand (int (length completed)) - existing_in BandFastest already))"
  define g where "g = nat (max 0 (PerBand (int (length completed)) - existing_in BandSlowest already))"
  have fg: "max 0 (PerBand (int (length completed)) - existing_in BandFastest already) = int f"
    "max 0 (PerBand (int (length completed)) - existing_in BandSlowest already) = int g"
    by (simp_all add: f_def g_def)
  have t: "top_up completed already = int (f + g)" by (simp add: top_up_def fg)
  have l: "length (by_response (candidates completed already)) = length (candidates completed already)"
    by (simp add: by_response_sorted)
  have le: "f + g \<le> length (candidates completed already)" using assms t by simp
  have zero: "f = 0 \<and> g = 0" if "completed = [] \<or> PerBand (int (length completed)) = 0"
    using that by (auto simp: f_def g_def PerBand_def existing_in_def)
  show ?thesis
  proof (cases "completed = [] \<or> PerBand (int (length completed)) = 0 \<or> f = 0 \<and> g = 0")
    case True
    then have "f = 0 \<and> g = 0" using zero by blast
    moreover from this have "SelectSamples completed m already = []" using fg by (simp add: SelectSamples_def Let_def)
    ultimately show ?thesis using t by simp
  next
    case False
    then have "candidates completed already \<noteq> []" using le by auto
    then have ne: "by_response (candidates completed already) \<noteq> []" using l by (metis length_0_conv)
    show ?thesis using False ne le l unfolding SelectSamples_def Let_def fg t by auto
  qed
qed

section \<open>Examples\<close>

definition three_pages :: "completed_task list" where
  "three_pages = map (\<lambda>(p, r). \<lparr>ct_PageID = p, ct_TaskID = itoa p, ct_ResponseTime = r\<rparr>) [(1, 300), (2, 100), (3, 200)]"

lemma three_pages_samples:
  "map (\<lambda>x. (ct_PageID (sp_Task x), sp_Band x)) (SelectSamples three_pages 10 []) = [(2, BandFastest), (1, BandSlowest)]"
  by code_simp

lemma samples_extreme_witness:
  "sampled (SelectSamples three_pages 10 []) \<subseteq> set three_pages \<and> three_pages \<noteq> []"
proof -
  have "distinct (map ct_PageID three_pages)" by (simp add: three_pages_def)
  from samples_extreme [OF this, of 10 "[]"] show ?thesis
    unfolding Let_def candidates_def by (auto simp: three_pages_def)
qed

lemma samples_deterministic_witness:
  "SelectSamples three_pages 10 [] = SelectSamples (rev three_pages) 10 []"
  by (rule samples_deterministic) (simp_all add: three_pages_def)

end
