(* ===== verification/Lighthouse_Runs.thy ===== *)
theory Lighthouse_Runs
  imports Lighthouse_Sampler Jobs_Manager
begin

text \<open>
  The life of an audit: the table \<open>lighthouse_runs\<close> and its statements
  (\<open>internal/db/lighthouse.go\<close>), and the scheduler that samples pages at the milestones of a job
  (\<open>internal/lighthouse/scheduler.go\<close>).  The consumer that runs the audits is in
  \<open>Analysis_Consumer\<close>.  The lemmas show that runs and their outbox rows appear together whatever is
  lost, that a page is audited once per job, and that a run that has ended never changes.
\<close>

section \<open>Rows\<close>

datatype run_status = RunPending | RunRunning | RunSucceeded | RunFailed | RunSkippedQuota

record run_metrics =
  rm_PerformanceScore :: "int option"
  rm_LCPMs :: "int option"
  rm_CLS :: "rat option"
  rm_INPMs :: "int option"
  rm_TBTMs :: "int option"
  rm_FCPMs :: "int option"
  rm_SpeedIndexMs :: "int option"
  rm_TTFBMs :: "int option"
  rm_TotalByteWeight :: "int option"
  rm_ReportKey :: string
  rm_DurationMs :: int

record lighthouse_run =
  lr_ID :: int
  lr_JobID :: string
  lr_PageID :: int
  lr_SourceTaskID :: "string option"
  lr_Band :: band
  lr_Milestone :: int
  lr_Status :: run_status
  lr_PerformanceScore :: "int option"
  lr_LCPMs :: "int option"
  lr_CLS :: "rat option"
  lr_INPMs :: "int option"
  lr_TBTMs :: "int option"
  lr_FCPMs :: "int option"
  lr_SpeedIndexMs :: "int option"
  lr_TTFBMs :: "int option"
  lr_TotalByteWeight :: "int option"
  lr_ReportKey :: "string option"
  lr_ErrorMessage :: "string option"
  lr_ScheduledAt :: time
  lr_StartedAt :: "time option"
  lr_CompletedAt :: "time option"
  lr_DurationMs :: "int option"

record run_insert =
  ri_JobID :: string
  ri_PageID :: int
  ri_SourceTaskID :: string
  ri_Band :: band
  ri_Milestone :: int

text \<open>The table with the last number of its sequence, and the rest of the database.\<close>

record lh_db =
  lh_runs :: "lighthouse_run list"
  lh_serial :: int
  lh_hover :: hover_db

definition nullif_empty :: "string \<Rightarrow> string option" where
  "nullif_empty s = (if s = [] then None else Some s)"

definition new_run :: "time \<Rightarrow> int \<Rightarrow> run_insert \<Rightarrow> lighthouse_run" where
  "new_run now i ins =
     \<lparr>lr_ID = i, lr_JobID = ri_JobID ins, lr_PageID = ri_PageID ins, lr_SourceTaskID = nullif_empty (ri_SourceTaskID ins),
      lr_Band = ri_Band ins, lr_Milestone = ri_Milestone ins, lr_Status = RunPending, lr_PerformanceScore = None,
      lr_LCPMs = None, lr_CLS = None, lr_INPMs = None, lr_TBTMs = None, lr_FCPMs = None, lr_SpeedIndexMs = None,
      lr_TTFBMs = None, lr_TotalByteWeight = None, lr_ReportKey = None, lr_ErrorMessage = None, lr_ScheduledAt = now,
      lr_StartedAt = None, lr_CompletedAt = None, lr_DurationMs = None\<rparr>"

text \<open>The number of the sequence is taken even when the row is in conflict.\<close>

definition InsertLighthouseRun :: "time \<Rightarrow> run_insert \<Rightarrow> lh_db \<Rightarrow> int \<times> lh_db" where
  "InsertLighthouseRun now ins db =
     (let i = lh_serial db + 1; db' = db\<lparr>lh_serial := i\<rparr> in
      if \<exists>r \<in> set (lh_runs db). lr_JobID r = ri_JobID ins \<and> lr_PageID r = ri_PageID ins then (0, db')
      else (i, db'\<lparr>lh_runs := lh_runs db @ [new_run now i ins]\<rparr>))"

section \<open>Updates of a run\<close>

text \<open>What may happen to a statement outside a transaction: an error, and whether the statement was
  applied all the same.\<close>

type_synonym io = "(go_error \<times> bool) option"

definition update_runs :: "io \<Rightarrow> (lighthouse_run \<Rightarrow> bool) \<Rightarrow> (lighthouse_run \<Rightarrow> lighthouse_run) \<Rightarrow> lh_db
    \<Rightarrow> (go_error + lighthouse_run list) \<times> lh_db" where
  "update_runs f sel g db =
     (let db' = db\<lparr>lh_runs := map (\<lambda>r. if sel r then g r else r) (lh_runs db)\<rparr> in
      case f of None \<Rightarrow> (Inr (map g (filter sel (lh_runs db))), db')
      | Some (e, done) \<Rightarrow> (Inl e, if done then db' else db))"

definition MarkLighthouseRunRunning :: "io \<Rightarrow> time \<Rightarrow> int \<Rightarrow> lh_db \<Rightarrow> (go_error + bool \<times> string) \<times> lh_db" where
  "MarkLighthouseRunRunning f now runID db =
     (case update_runs f (\<lambda>r. lr_ID r = runID \<and> lr_Status r \<in> {RunPending, RunRunning})
             (\<lambda>r. r\<lparr>lr_Status := RunRunning, lr_StartedAt := Some now\<rparr>) db of
        (Inl e, db') \<Rightarrow> (Inl (wrap ''mark lighthouse run running: '' e), db')
      | (Inr [], db') \<Rightarrow> (Inr (False, []), db')
      | (Inr (r # _), db') \<Rightarrow> (Inr (True, case lr_SourceTaskID r of Some s \<Rightarrow> s | None \<Rightarrow> []), db'))"

definition ErrLighthouseRunNotFound :: go_error where
  "ErrLighthouseRunNotFound = plain_error ''lighthouse run not found''"

definition rows_error :: "string \<Rightarrow> (go_error + lighthouse_run list) \<times> lh_db \<Rightarrow> go_error option \<times> lh_db" where
  "rows_error context res =
     (case res of (Inl e, db) \<Rightarrow> (Some (wrap context e), db)
      | (Inr rs, db) \<Rightarrow> (if rs = [] then Some ErrLighthouseRunNotFound else None, db))"

definition succeed_run :: "time \<Rightarrow> run_metrics \<Rightarrow> lighthouse_run \<Rightarrow> lighthouse_run" where
  "succeed_run now m r =
     r\<lparr>lr_Status := RunSucceeded, lr_PerformanceScore := rm_PerformanceScore m, lr_LCPMs := rm_LCPMs m, lr_CLS := rm_CLS m,
       lr_INPMs := rm_INPMs m, lr_TBTMs := rm_TBTMs m, lr_FCPMs := rm_FCPMs m, lr_SpeedIndexMs := rm_SpeedIndexMs m,
       lr_TTFBMs := rm_TTFBMs m, lr_TotalByteWeight := rm_TotalByteWeight m, lr_ReportKey := nullif_empty (rm_ReportKey m),
       lr_DurationMs := Some (rm_DurationMs m), lr_CompletedAt := Some now\<rparr>"

definition CompleteLighthouseRun :: "io \<Rightarrow> time \<Rightarrow> int \<Rightarrow> run_metrics \<Rightarrow> lh_db \<Rightarrow> go_error option \<times> lh_db" where
  "CompleteLighthouseRun f now runID m db =
     rows_error ''complete lighthouse run: ''
       (update_runs f (\<lambda>r. lr_ID r = runID \<and> lr_Status r = RunRunning) (succeed_run now m) db)"

definition FailLighthouseRun :: "io \<Rightarrow> time \<Rightarrow> int \<Rightarrow> string \<Rightarrow> int \<Rightarrow> lh_db \<Rightarrow> go_error option \<times> lh_db" where
  "FailLighthouseRun f now runID errorMessage durationMs db =
     rows_error ''fail lighthouse run: ''
       (update_runs f (\<lambda>r. lr_ID r = runID \<and> lr_Status r = RunRunning)
          (\<lambda>r. r\<lparr>lr_Status := RunFailed, lr_ErrorMessage := nullif_empty errorMessage, lr_DurationMs := Some durationMs,
               lr_CompletedAt := Some now\<rparr>) db)"

definition MarkLighthouseRunSkippedQuota :: "io \<Rightarrow> time \<Rightarrow> int \<Rightarrow> lh_db \<Rightarrow> go_error option \<times> lh_db" where
  "MarkLighthouseRunSkippedQuota f now runID db =
     rows_error ''mark skipped quota: ''
       (update_runs f (\<lambda>r. lr_ID r = runID \<and> lr_Status r = RunPending)
          (\<lambda>r. r\<lparr>lr_Status := RunSkippedQuota, lr_CompletedAt := Some now\<rparr>) db)"

section \<open>Queries\<close>

definition ListLighthouseRunsByJob :: "string \<Rightarrow> lh_db \<Rightarrow> lighthouse_run list" where
  "ListLighthouseRunsByJob jobID db =
     sort_key lr_ScheduledAt (sort_key lr_ID (filter (\<lambda>r. lr_JobID r = jobID) (lh_runs db)))"

definition GetLighthouseRunPageBands :: "go_error option \<Rightarrow> string \<Rightarrow> lh_db \<Rightarrow> go_error + (int \<times> band) list" where
  "GetLighthouseRunPageBands f jobID db =
     (case f of Some e \<Rightarrow> Inl (wrap ''list lighthouse run page bands: '' e)
      | None \<Rightarrow> Inr (map (\<lambda>r. (lr_PageID r, lr_Band r)) (filter (\<lambda>r. lr_JobID r = jobID) (lh_runs db))))"

record sampling_task =
  cs_TaskID :: string
  cs_PageID :: int
  cs_Host :: string
  cs_Path :: string
  cs_Priority :: rat
  cs_ResponseTime :: int

text \<open>The response time is that of the result the worker sent; every task of the model is a crawl.\<close>

definition GetCompletedTasksForLighthouseSampling :: "go_error option \<Rightarrow> string \<Rightarrow> lh_db \<Rightarrow> go_error + sampling_task list" where
  "GetCompletedTasksForLighthouseSampling f jobID db =
     (case f of Some e \<Rightarrow> Inl (wrap ''list completed tasks for lighthouse sampling: '' e)
      | None \<Rightarrow> Inr (List.map_filter (\<lambda>t.
          if tr_JobID t = jobID \<and> tr_Status t = Completed then
            case tr_Result t of None \<Rightarrow> None
            | Some x \<Rightarrow> if 0 < dt_ResponseTime x
                then Some \<lparr>cs_TaskID = tr_ID t, cs_PageID = tr_PageID t, cs_Host = tr_Host t, cs_Path = tr_Path t,
                           cs_Priority = tr_Priority t, cs_ResponseTime = dt_ResponseTime x\<rparr>
                else None
          else None) (db_tasks (lh_hover db))))"

section \<open>Milestones\<close>

definition lighthouseAuditURL :: "string \<Rightarrow> string \<Rightarrow> string" where
  "lighthouseAuditURL host path =
     (if host = [] then [] else ''https://'' @ host @ (if path = [] then ''/'' else path))"

definition tagBand :: "int \<Rightarrow> band \<Rightarrow> band" where
  "tagBand mst b = (if 100 \<le> mst then BandReconcile else b)"

definition run_outbox_row :: "(int \<Rightarrow> string) \<Rightarrow> time \<Rightarrow> string \<Rightarrow> sampling_task \<times> int \<Rightarrow> outbox_row" where
  "run_outbox_row uuid now jobID x =
     (case x of (m, runID) \<Rightarrow>
        \<lparr>ob_id = 0, ob_taskID = uuid runID, ob_jobID = jobID, ob_pageID = cs_PageID m, ob_host = cs_Host m,
         ob_path = cs_Path m, ob_priority = cs_Priority m, ob_retryCount = 0, ob_sourceType = ''lighthouse'',
         ob_sourceURL = lighthouseAuditURL (cs_Host m) (cs_Path m), ob_runAt = now, ob_attempts = 0,
         ob_taskType = ''lighthouse'', ob_lighthouseRunID = Some runID\<rparr>)"

text \<open>The loop over the samples; the first argument numbers the statements, the result lists the rows
  that were inserted.\<close>

fun insert_samples :: "nat \<Rightarrow> time \<Rightarrow> string \<Rightarrow> int \<Rightarrow> (int \<Rightarrow> sampling_task option) \<Rightarrow> sample list
    \<Rightarrow> ((sampling_task \<times> int) list, lh_db) tx" where
  "insert_samples k now jobID mst meta [] = tx_return []"
| "insert_samples k now jobID mst meta (s # ss) =
     (case meta (ct_PageID (sp_Task s)) of
        None \<Rightarrow> insert_samples k now jobID mst meta ss
      | Some m \<Rightarrow>
          tx_bind (tx_wrap ''insert lighthouse_runs: insert lighthouse_runs: '' (tx_stmt k (\<lambda>db.
             case InsertLighthouseRun now \<lparr>ri_JobID = jobID, ri_PageID = cs_PageID m, ri_SourceTaskID = cs_TaskID m,
                    ri_Band = tagBand mst (sp_Band s), ri_Milestone = mst\<rparr> db of
               (i, db') \<Rightarrow> (Inr i, db')))) (\<lambda>runID.
          if runID = 0 then insert_samples (k + 1) now jobID mst meta ss
          else tx_bind (insert_samples (k + 1) now jobID mst meta ss) (\<lambda>rest. tx_return ((m, runID) # rest))))"

definition insert_outbox :: "outbox_row list \<Rightarrow> lh_db \<Rightarrow> lh_db" where
  "insert_outbox rows db =
     db\<lparr>lh_hover := (lh_hover db)\<lparr>db_outbox := foldl outbox_add (db_outbox (lh_hover db)) rows\<rparr>\<rparr>"

definition schedule_tx :: "(int \<Rightarrow> string) \<Rightarrow> time \<Rightarrow> string \<Rightarrow> int \<Rightarrow> (int \<Rightarrow> sampling_task option) \<Rightarrow> sample list
    \<Rightarrow> ((sampling_task \<times> int) list, lh_db) tx" where
  "schedule_tx uuid now jobID mst meta samples =
     tx_bind (insert_samples 0 now jobID mst meta samples) (\<lambda>rows.
     if rows = [] then tx_return []
     else tx_bind (tx_wrap ''insert lighthouse outbox rows: ''
                    (tx_exec (length samples) (insert_outbox (map (run_outbox_row uuid now jobID) rows)))) (\<lambda>u. tx_return rows))"

text \<open>The two queries, the attempts of the transaction, and the source of fresh keys.\<close>

record milestone_env =
  me_tasks :: "go_error option"
  me_bands :: "go_error option"
  me_attempts :: "nat \<Rightarrow> attempt"
  me_uuid :: "int \<Rightarrow> string"

definition to_sampler :: "sampling_task \<Rightarrow> completed_task" where
  "to_sampler t = \<lparr>ct_PageID = cs_PageID t, ct_TaskID = cs_TaskID t, ct_ResponseTime = cs_ResponseTime t\<rparr>"

definition meta_of :: "sampling_task list \<Rightarrow> int \<Rightarrow> sampling_task option" where
  "meta_of completed = map_of (rev (map (\<lambda>t. (cs_PageID t, t)) completed))"

definition OnMilestone :: "queue \<Rightarrow> milestone_env \<Rightarrow> time \<Rightarrow> string \<Rightarrow> int \<Rightarrow> db_pool \<Rightarrow> lh_db
    \<Rightarrow> go_error option \<times> db_pool \<times> lh_db" where
  "OnMilestone q E now jobID m p db =
     (let mst = min 100 (max 0 m) in
      case GetCompletedTasksForLighthouseSampling (me_tasks E) jobID db of
        Inl e \<Rightarrow> (Some (wrap ''lighthouse: load completed tasks: '' e), p, db)
      | Inr completed \<Rightarrow>
          if completed = [] then (None, p, db)
          else (case GetLighthouseRunPageBands (me_bands E) jobID db of
                  Inl e \<Rightarrow> (Some (wrap ''lighthouse: load already-sampled page bands: '' e), p, db)
                | Inr already \<Rightarrow>
                    let samples = SelectSamples (map to_sampler completed) mst already in
                    if samples = [] then (None, p, db)
                    else (case Execute_tx q (me_attempts E)
                              (schedule_tx (me_uuid E) now jobID mst (meta_of completed) samples) p db of
                            (Inl e, p', db') \<Rightarrow> (Some (wrap ''lighthouse: enqueue samples: '' e), p', db')
                          | (Inr rows, p', db') \<Rightarrow> (None, p', db'))))"

section \<open>Runs and their outbox rows\<close>

definition runs_ok :: "lh_db \<Rightarrow> bool" where
  "runs_ok db \<longleftrightarrow> distinct (map lr_ID (lh_runs db)) \<and> distinct (map (\<lambda>r. (lr_JobID r, lr_PageID r)) (lh_runs db)) \<and>
     (\<forall>r \<in> set (lh_runs db). 0 < lr_ID r \<and> lr_ID r \<le> lh_serial db) \<and> 0 \<le> lh_serial db"

text \<open>What a loop over samples adds to the table: the rows it reports, with fresh numbers.\<close>

definition grown :: "string \<Rightarrow> lh_db \<Rightarrow> (sampling_task \<times> int) list \<Rightarrow> lh_db \<Rightarrow> bool" where
  "grown j db rows db' \<longleftrightarrow> runs_ok db' \<and> lh_hover db' = lh_hover db \<and> lh_serial db \<le> lh_serial db' \<and>
     (\<forall>x \<in> set rows. lh_serial db < snd x \<and> snd x \<le> lh_serial db') \<and> distinct (map snd rows) \<and>
     (\<exists>new. lh_runs db' = lh_runs db @ new \<and>
        map (\<lambda>r. (lr_ID r, lr_PageID r)) new = map (\<lambda>(m, i). (i, cs_PageID m)) rows \<and>
        (\<forall>r \<in> set new. lr_JobID r = j \<and> lr_Status r = RunPending))"

lemma grown_refl: "runs_ok db \<Longrightarrow> grown j db [] db"
  by (simp add: grown_def)

lemma insert_run_result:
  assumes "runs_ok db" "InsertLighthouseRun now ins db = (i, db')"
  shows "i = 0 \<and> grown (ri_JobID ins) db [] db' \<or>
    i \<noteq> 0 \<and> (\<forall>m. cs_PageID m = ri_PageID ins \<longrightarrow> grown (ri_JobID ins) db [(m, i)] db')"
proof (cases "\<exists>r \<in> set (lh_runs db). lr_JobID r = ri_JobID ins \<and> lr_PageID r = ri_PageID ins")
  case True
  then have "i = 0" "db' = db\<lparr>lh_serial := lh_serial db + 1\<rparr>" using assms(2) by (auto simp: InsertLighthouseRun_def Let_def)
  then show ?thesis using assms(1) by (fastforce simp: grown_def runs_ok_def)
next
  case False
  then have "i = lh_serial db + 1" "db' = db\<lparr>lh_serial := i, lh_runs := lh_runs db @ [new_run now i ins]\<rparr>"
    using assms(2) unfolding InsertLighthouseRun_def Let_def if_not_P [OF False] by auto
  then show ?thesis using assms(1) False by (fastforce simp: grown_def runs_ok_def new_run_def)
qed

lemma grown_trans:
  assumes "grown j db rows db1" "grown j db1 rows1 db2"
  shows "grown j db (rows @ rows1) db2"
proof -
  from assms(1) obtain n1 where 1: "lh_runs db1 = lh_runs db @ n1"
      "map (\<lambda>r. (lr_ID r, lr_PageID r)) n1 = map (\<lambda>(m, i). (i, cs_PageID m)) rows"
      "\<forall>r \<in> set n1. lr_JobID r = j \<and> lr_Status r = RunPending" unfolding grown_def by blast
  from assms(2) obtain n2 where 2: "lh_runs db2 = lh_runs db1 @ n2"
      "map (\<lambda>r. (lr_ID r, lr_PageID r)) n2 = map (\<lambda>(m, i). (i, cs_PageID m)) rows1"
      "\<forall>r \<in> set n2. lr_JobID r = j \<and> lr_Status r = RunPending" unfolding grown_def by blast
  have new: "\<exists>new. lh_runs db2 = lh_runs db @ new \<and>
      map (\<lambda>r. (lr_ID r, lr_PageID r)) new = map (\<lambda>(m, i). (i, cs_PageID m)) (rows @ rows1) \<and>
      (\<forall>r \<in> set new. lr_JobID r = j \<and> lr_Status r = RunPending)"
    by (rule exI [of _ "n1 @ n2"]) (use 1 2 in auto)
  have "distinct (map snd (rows @ rows1))" using assms by (force simp: grown_def)
  then show ?thesis using assms new unfolding grown_def by force
qed

lemma insert_samples_result:
  assumes "runs_ok db" "\<And>g m. meta g = Some m \<Longrightarrow> cs_PageID m = g"
    "insert_samples k now j mst meta ss F db = (Inr rows, db')"
  shows "grown j db rows db'"
  using assms(1,3)
proof (induction ss arbitrary: k db rows)
  case Nil
  then show ?case by (simp add: tx_return_def grown_refl)
next
  case (Cons s ss)
  show ?case
  proof (cases "meta (ct_PageID (sp_Task s))")
    case None
    then show ?thesis using Cons by simp
  next
    case (Some m)
    let ?ins = "\<lparr>ri_JobID = j, ri_PageID = cs_PageID m, ri_SourceTaskID = cs_TaskID m,
      ri_Band = tagBand mst (sp_Band s), ri_Milestone = mst\<rparr>"
    obtain i db1 where ins: "InsertLighthouseRun now ?ins db = (i, db1)" by (rule prod.exhaust)
    from insert_run_result [OF Cons.prems(1) ins]
    have g: "i = 0 \<and> grown j db [] db1 \<or> i \<noteq> 0 \<and> grown j db [(m, i)] db1" by auto
    then have ok: "runs_ok db1" by (auto simp: grown_def)
    show ?thesis
    proof (cases "i = 0")
      case True
      then have "insert_samples (k + 1) now j mst meta ss F db1 = (Inr rows, db')"
        using Cons.prems(2) Some ins by (simp add: tx_bind_def tx_wrap_def tx_stmt_def split: option.splits)
      then show ?thesis using Cons.IH [OF ok] grown_trans [of j db "[]" db1 rows db'] g True by simp
    next
      case False
      then obtain rest where "insert_samples (k + 1) now j mst meta ss F db1 = (Inr rest, db')" "rows = (m, i) # rest"
        using Cons.prems(2) Some ins
        by (auto simp: tx_bind_def tx_wrap_def tx_stmt_def tx_return_def split: option.splits prod.splits sum.splits)
      then show ?thesis using Cons.IH [OF ok] grown_trans [of j db "[(m, i)]" db1 rest db'] g False by simp
    qed
  qed
qed

definition unnumbered :: "outbox_row \<Rightarrow> outbox_row" where
  "unnumbered r = r\<lparr>ob_id := 0\<rparr>"

lemma outbox_adds_fresh:
  assumes "distinct (map ob_taskID rs)" "ob_taskID ` set rs \<inter> ob_taskID ` set (od_rows ob) = {}"
  shows "map unnumbered (od_rows (foldl outbox_add ob rs)) = map unnumbered (od_rows ob @ rs)"
  using assms
proof (induction rs arbitrary: ob)
  case (Cons r rs)
  have "map unnumbered (od_rows (foldl outbox_add (outbox_add ob r) rs)) = map unnumbered (od_rows (outbox_add ob r) @ rs)"
    by (rule Cons.IH) (use Cons.prems in \<open>auto simp: outbox_add_tasks\<close>)
  moreover have "map unnumbered (od_rows (outbox_add ob r)) = map unnumbered (od_rows ob @ [r])"
    using Cons.prems by (auto simp: outbox_add_def unnumbered_def)
  ultimately show ?case by simp
qed simp

definition outbox_rows :: "lh_db \<Rightarrow> outbox_row list" where
  "outbox_rows db = od_rows (db_outbox (lh_hover db))"

lemma schedule_tx_result:
  assumes ok: "runs_ok db" and meta: "\<And>g m. meta g = Some m \<Longrightarrow> cs_PageID m = g"
    and uuid: "inj uuid" "\<And>i. lh_serial db < i \<Longrightarrow> uuid i \<notin> ob_taskID ` set (outbox_rows db)"
    and run: "schedule_tx uuid now j mst meta ss F db = (Inr rows, db')"
  shows "\<exists>db1. grown j db rows db1 \<and> lh_runs db' = lh_runs db1 \<and> lh_serial db' = lh_serial db1 \<and> runs_ok db' \<and>
    map unnumbered (outbox_rows db') = map unnumbered (outbox_rows db @ map (run_outbox_row uuid now j) rows)"
proof -
  obtain rows1 db1 where 1: "insert_samples 0 now j mst meta ss F db = (Inr rows1, db1)"
      "(if rows1 = [] then tx_return [] else tx_bind (tx_wrap ''insert lighthouse outbox rows: ''
         (tx_exec (length ss) (insert_outbox (map (run_outbox_row uuid now j) rows1)))) (\<lambda>u. tx_return rows1)) F db1 = (Inr rows, db')"
    using run by (auto simp: schedule_tx_def tx_bind_def split: prod.splits sum.splits)
  have g: "grown j db rows1 db1" by (rule insert_samples_result [OF ok meta 1(1)])
  then have same: "lh_hover db1 = lh_hover db" "runs_ok db1" "outbox_rows db1 = outbox_rows db"
    by (simp_all add: grown_def outbox_rows_def)
  show ?thesis
  proof (cases "rows1 = []")
    case True
    then have "rows = []" "db' = db1" using 1(2) by (simp_all add: tx_return_def)
    then show ?thesis using g same True by auto
  next
    case False
    then have r: "rows = rows1" "db' = insert_outbox (map (run_outbox_row uuid now j) rows1) db1"
      using 1(2) by (auto simp: tx_bind_def tx_wrap_def tx_exec_def tx_stmt_def tx_return_def split: option.splits)
    have ids: "map ob_taskID (map (run_outbox_row uuid now j) rows1) = map uuid (map snd rows1)"
      by (simp add: run_outbox_row_def case_prod_beta)
    have "distinct (map ob_taskID (map (run_outbox_row uuid now j) rows1))"
      unfolding ids using g uuid(1) by (simp add: grown_def distinct_map inj_on_def inj_def)
    moreover have "ob_taskID ` set (map (run_outbox_row uuid now j) rows1) \<inter> ob_taskID ` set (outbox_rows db) = {}"
      using g uuid(2) by (force simp: grown_def run_outbox_row_def)
    ultimately have "map unnumbered (outbox_rows db') = map unnumbered (outbox_rows db @ map (run_outbox_row uuid now j) rows1)"
      using outbox_adds_fresh same by (simp add: r outbox_rows_def insert_outbox_def)
    moreover have "lh_runs db' = lh_runs db1" "lh_serial db' = lh_serial db1" by (simp_all add: r insert_outbox_def)
    ultimately show ?thesis using g same r unfolding runs_ok_def by (intro exI [of _ db1]) simp
  qed
qed

text \<open>The state of the tables compared with that before the milestone.\<close>

definition mirrored_since :: "lh_db \<Rightarrow> string \<Rightarrow> lh_db \<Rightarrow> bool" where
  "mirrored_since db j db' \<longleftrightarrow>
     (\<exists>new rows. lh_runs db' = lh_runs db @ new \<and> map unnumbered (outbox_rows db') = map unnumbered (outbox_rows db) @ rows \<and>
        map ob_lighthouseRunID rows = map (\<lambda>r. Some (lr_ID r)) new \<and> map ob_pageID rows = map lr_PageID new \<and>
        (\<forall>r \<in> set new. lr_JobID r = j \<and> lr_Status r = RunPending) \<and>
        (\<forall>r \<in> set rows. ob_jobID r = j \<and> ob_taskType r = ''lighthouse''))"

lemma mirrored_refl: "mirrored_since db j db"
  unfolding mirrored_since_def by (intro exI [of _ "[]"]) simp

lemma mirrored_trans:
  assumes "mirrored_since a j b" "mirrored_since b j c"
  shows "mirrored_since a j c"
proof -
  obtain n1 r1 where 1: "lh_runs b = lh_runs a @ n1" "map unnumbered (outbox_rows b) = map unnumbered (outbox_rows a) @ r1"
      "map ob_lighthouseRunID r1 = map (\<lambda>r. Some (lr_ID r)) n1" "map ob_pageID r1 = map lr_PageID n1"
      "\<forall>r \<in> set n1. lr_JobID r = j \<and> lr_Status r = RunPending" "\<forall>r \<in> set r1. ob_jobID r = j \<and> ob_taskType r = ''lighthouse''"
    using assms(1) unfolding mirrored_since_def by blast
  obtain n2 r2 where 2: "lh_runs c = lh_runs b @ n2" "map unnumbered (outbox_rows c) = map unnumbered (outbox_rows b) @ r2"
      "map ob_lighthouseRunID r2 = map (\<lambda>r. Some (lr_ID r)) n2" "map ob_pageID r2 = map lr_PageID n2"
      "\<forall>r \<in> set n2. lr_JobID r = j \<and> lr_Status r = RunPending" "\<forall>r \<in> set r2. ob_jobID r = j \<and> ob_taskType r = ''lighthouse''"
    using assms(2) unfolding mirrored_since_def by blast
  show ?thesis unfolding mirrored_since_def
    by (rule exI [of _ "n1 @ n2"], rule exI [of _ "r1 @ r2"]) (use 1 2 in auto)
qed

lemma unnumbered_sel [simp]: "ob_taskID (unnumbered r) = ob_taskID r" "ob_jobID (unnumbered r) = ob_jobID r"
  "ob_taskType (unnumbered r) = ob_taskType r" "ob_lighthouseRunID (unnumbered r) = ob_lighthouseRunID r"
  "ob_pageID (unnumbered r) = ob_pageID r" "unnumbered (unnumbered r) = unnumbered r"
  by (simp_all add: unnumbered_def)

lemma run_outbox_row_sel [simp]:
  "ob_taskID (run_outbox_row u now j x) = u (snd x)" "ob_jobID (run_outbox_row u now j x) = j"
  "ob_taskType (run_outbox_row u now j x) = ''lighthouse''" "ob_lighthouseRunID (run_outbox_row u now j x) = Some (snd x)"
  "ob_pageID (run_outbox_row u now j x) = cs_PageID (fst x)"
  by (simp_all add: run_outbox_row_def split: prod.splits)

lemma unnumbered_tasks: "map unnumbered rs = map unnumbered rs' \<Longrightarrow> ob_taskID ` set rs = ob_taskID ` set rs'"
proof -
  assume "map unnumbered rs = map unnumbered rs'"
  then have "ob_taskID ` set (map unnumbered rs) = ob_taskID ` set (map unnumbered rs')" by simp
  then show ?thesis by (simp add: image_image)
qed

lemma schedule_tx_mirrors:
  assumes "runs_ok db" "\<And>g m. meta g = Some m \<Longrightarrow> cs_PageID m = g"
    "inj uuid" "\<forall>i. lh_serial db < i \<longrightarrow> uuid i \<notin> ob_taskID ` set (outbox_rows db)"
    "schedule_tx uuid now j mst meta ss F db = (Inr rows, db')"
  shows "runs_ok db' \<and> mirrored_since db j db' \<and>
    (\<forall>i. lh_serial db' < i \<longrightarrow> uuid i \<notin> ob_taskID ` set (outbox_rows db'))"
proof -
  obtain db1 where g: "grown j db rows db1" and s: "lh_runs db' = lh_runs db1" "lh_serial db' = lh_serial db1" "runs_ok db'"
      "map unnumbered (outbox_rows db') = map unnumbered (outbox_rows db @ map (run_outbox_row uuid now j) rows)"
    using schedule_tx_result [OF assms(1,2,3) _ assms(5)] assms(4) by blast
  obtain new where n: "lh_runs db1 = lh_runs db @ new"
      "map (\<lambda>r. (lr_ID r, lr_PageID r)) new = map (\<lambda>(m, i). (i, cs_PageID m)) rows"
      "\<forall>r \<in> set new. lr_JobID r = j \<and> lr_Status r = RunPending" using g unfolding grown_def by blast
  let ?rows = "map unnumbered (map (run_outbox_row uuid now j) rows)"
  have "map fst (map (\<lambda>r. (lr_ID r, lr_PageID r)) new) = map snd rows"
    "map snd (map (\<lambda>r. (lr_ID r, lr_PageID r)) new) = map (cs_PageID \<circ> fst) rows"
    unfolding n(2) by (simp_all add: case_prod_beta)
  then have ids: "map lr_ID new = map snd rows" "map lr_PageID new = map (cs_PageID \<circ> fst) rows" by (simp_all add: comp_def)
  have "map (\<lambda>r. Some (lr_ID r)) new = map Some (map lr_ID new)" by simp
  then have eqs: "map ob_lighthouseRunID ?rows = map (\<lambda>r. Some (lr_ID r)) new" "map ob_pageID ?rows = map lr_PageID new"
    unfolding ids by simp_all
  have "lh_runs db' = lh_runs db @ new" "map unnumbered (outbox_rows db') = map unnumbered (outbox_rows db) @ ?rows"
    using s n(1) by simp_all
  moreover have "\<forall>r \<in> set ?rows. ob_jobID r = j \<and> ob_taskType r = ''lighthouse''" by simp
  ultimately have "mirrored_since db j db'" unfolding mirrored_since_def using eqs n(3) by blast
  moreover have "ob_taskID ` set (outbox_rows db') = ob_taskID ` set (outbox_rows db) \<union> uuid ` snd ` set rows"
    unfolding unnumbered_tasks [OF s(4)] by (simp add: image_Un image_image)
  moreover have "lh_serial db \<le> lh_serial db'" "\<forall>x \<in> set rows. snd x \<le> lh_serial db'" using g s by (simp_all add: grown_def)
  ultimately have "uuid i \<notin> ob_taskID ` set (outbox_rows db')" if "lh_serial db' < i" for i
    using that assms(4) by (auto dest!: injD [OF assms(3)])
  then show ?thesis using \<open>mirrored_since db j db'\<close> s(3) by blast
qed

lemma meta_of_page: "meta_of completed g = Some m \<Longrightarrow> cs_PageID m = g"
  by (auto simp: meta_of_def dest!: map_of_SomeD)

text \<open>C18: a milestone never leaves a run without its row in the outbox, nor a row without its run:
  whatever fails, is lost or is tried again, the runs that were added and the outbox rows that were added
  correspond one to one, the numbers of the runs stay unique, and so does the page of a job.\<close>

theorem audits_mirrored:
  assumes "runs_ok db" "inj (me_uuid E)" "\<forall>i. lh_serial db < i \<longrightarrow> me_uuid E i \<notin> ob_taskID ` set (outbox_rows db)"
    "OnMilestone q E now j m p db = (res, p', db')"
  shows "runs_ok db' \<and> mirrored_since db j db'"
proof (cases "db' = db")
  case False
  then obtain completed ss r where "Execute_tx q (me_attempts E) (schedule_tx (me_uuid E) now j (min 100 (max 0 m))
      (meta_of completed) ss) p db = (r, p', db')" (is "Execute_tx _ _ ?tx _ _ = _")
    using assms(4) by (auto simp: OnMilestone_def Let_def split: sum.splits if_splits prod.splits)
  then have a: "applied ?tx db db'" by (rule execute_applied)
  let ?P = "\<lambda>b. runs_ok b \<and> mirrored_since db j b \<and> (\<forall>i. lh_serial b < i \<longrightarrow> me_uuid E i \<notin> ob_taskID ` set (outbox_rows b))"
  have "?P db'"
  proof (rule applied_invariant [OF a])
    fix F b x c assume P: "?P b" and run: "?tx F b = (Inr x, c)"
    have "runs_ok c \<and> mirrored_since b j c \<and> (\<forall>i. lh_serial c < i \<longrightarrow> me_uuid E i \<notin> ob_taskID ` set (outbox_rows c))"
      by (rule schedule_tx_mirrors [OF _ _ assms(2) _ run]) (use P meta_of_page in blast)+
    then show "?P c" using P mirrored_trans by blast
  qed (use assms mirrored_refl in blast)
  then show ?thesis by blast
qed (use assms mirrored_refl in blast)

section \<open>Runs that have ended\<close>

definition run_terminal :: "lighthouse_run \<Rightarrow> bool" where
  "run_terminal r \<longleftrightarrow> lr_Status r \<in> {RunSucceeded, RunFailed, RunSkippedQuota}"

text \<open>The operations on the table, in any order, with any faults; the other tables change as they like.\<close>

inductive lh_step :: "lh_db \<Rightarrow> lh_db \<Rightarrow> bool" where
  marked: "lh_step db (snd (MarkLighthouseRunRunning f now i db))"
| completed: "lh_step db (snd (CompleteLighthouseRun f now i m db))"
| failed: "lh_step db (snd (FailLighthouseRun f now i e ms db))"
| skipped: "lh_step db (snd (MarkLighthouseRunSkippedQuota f now i db))"
| milestone: "lh_step db (snd (snd (OnMilestone q E now j m p db)))"
| other: "lh_step db (db\<lparr>lh_hover := h\<rparr>)"

lemma update_runs_terminal:
  assumes "\<And>r. sel r \<Longrightarrow> \<not> run_terminal r" "r \<in> set (lh_runs db)" "run_terminal r"
  shows "r \<in> set (lh_runs (snd (update_runs f sel g db)))"
proof -
  have "\<not> sel r" using assms by blast
  then have "r \<in> (\<lambda>r. if sel r then g r else r) ` set (lh_runs db)" using assms(2) by force
  then show ?thesis using assms(2) by (auto simp: update_runs_def Let_def split: option.splits)
qed

lemma mark_runs: "lh_runs (snd (MarkLighthouseRunRunning f now i db)) =
  lh_runs (snd (update_runs f (\<lambda>r. lr_ID r = i \<and> lr_Status r \<in> {RunPending, RunRunning})
     (\<lambda>r. r\<lparr>lr_Status := RunRunning, lr_StartedAt := Some now\<rparr>) db))"
  by (simp add: MarkLighthouseRunRunning_def split: prod.splits sum.splits list.splits)

lemma rows_error_snd [simp]: "snd (rows_error c res) = snd res"
  by (simp add: rows_error_def split: prod.splits sum.splits)

lemma insert_samples_keep: "r \<in> set (lh_runs db) \<Longrightarrow> r \<in> set (lh_runs (snd (insert_samples k now j mst meta ss F db)))"
proof -
  have "keeps (\<lambda>db. r \<in> set (lh_runs db)) (insert_samples k now j mst meta ss)"
    by (induction ss arbitrary: k)
       (auto simp: InsertLighthouseRun_def Let_def split: option.splits intro!: tx_keeps)
  then show "r \<in> set (lh_runs db) \<Longrightarrow> ?thesis" by (simp add: keeps_def)
qed

lemma schedule_keeps_runs: "keeps (\<lambda>db. r \<in> set (lh_runs db)) (schedule_tx uuid now j mst meta ss)"
  unfolding schedule_tx_def using insert_samples_keep
  by (intro tx_keeps) (auto simp: keeps_def insert_outbox_def)

lemma milestone_keeps_runs:
  assumes "r \<in> set (lh_runs db)"
  shows "r \<in> set (lh_runs (snd (snd (OnMilestone q E now j m p db))))"
  using assms execute_keeps [OF schedule_keeps_runs [of r], of db]
  by (auto simp: OnMilestone_def Let_def Execute_tx_def split: sum.splits prod.splits) (metis snd_conv)+

text \<open>a run that has ended never changes again, whatever is redelivered, fails half way or is tried
  again: whoever is late finds no row to update.\<close>

theorem ended_runs_final:
  assumes "lh_step\<^sup>*\<^sup>* db db'" "r \<in> set (lh_runs db)" "run_terminal r"
  shows "r \<in> set (lh_runs db')"
  using assms(1)
proof (induction rule: rtranclp_induct)
  case (step b c)
  show ?case using step(2,3)
  proof (cases rule: lh_step.cases)
    case (milestone q E now j m p)
    then show ?thesis using step(3) milestone_keeps_runs by simp
  qed (use assms(3) in \<open>auto simp: mark_runs CompleteLighthouseRun_def FailLighthouseRun_def
      MarkLighthouseRunSkippedQuota_def run_terminal_def intro!: update_runs_terminal\<close>)
qed (rule assms(2))

section \<open>The last milestone again\<close>

definition run_bands :: "int \<Rightarrow> sample list \<Rightarrow> (int \<times> band) list" where
  "run_bands mst ss = map (\<lambda>s. (ct_PageID (sp_Task s), tagBand mst (sp_Band s))) ss"

text \<open>the samples of milestone 100 are not counted when it is repeated.  They are tagged as reconciliation,
  which does not count towards the quotas; so when the milestone fires once more (in another replica, or
  after a restart), the part of the quotas that the milestones before it had left open is filled a second
  time with other pages, as long as there are enough pages that have not been sampled.\<close>

theorem reconcile_repeats:
  assumes "distinct (map ct_PageID completed)"
    "2 * top_up completed already \<le> int (length (candidates completed already))"
  shows "let first = SelectSamples completed 100 already;
             second = SelectSamples completed 100 (already @ run_bands 100 first) in
           int (length first) = top_up completed already \<and> length second = length first \<and>
           sampled first \<inter> sampled second = {}"
proof -
  let ?first = "SelectSamples completed 100 already"
  let ?all = "already @ run_bands 100 ?first"
  have pos: "0 \<le> top_up completed already" by (simp add: top_up_def)
  have same: "top_up completed ?all = top_up completed already"
  proof -
    have "filter (\<lambda>x. snd x = b) (run_bands 100 ?first) = []" if "b \<noteq> BandReconcile" for b
      using that by (auto simp: run_bands_def tagBand_def filter_empty_conv)
    then show ?thesis by (simp add: top_up_def existing_in_def)
  qed
  have one: "int (length ?first) = top_up completed already" using assms(2) pos by (intro select_full) simp
  have seen: "set (map fst ?all) = set (map fst already) \<union> set (map (ct_PageID \<circ> sp_Task) ?first)"
    by (auto simp: run_bands_def)
  have cand: "candidates completed ?all =
      filter (\<lambda>t. ct_PageID t \<notin> set (map (ct_PageID \<circ> sp_Task) ?first)) (candidates completed already)"
    unfolding candidates_def seen filter_filter by (rule filter_cong) auto
  have d: "distinct (map ct_PageID (candidates completed already))"
    unfolding candidates_def by (rule distinct_map_filter [OF assms(1)])
  have "length (candidates completed already) \<le>
      length (candidates completed ?all) + length (filter (\<lambda>t. ct_PageID t \<in> set (map (ct_PageID \<circ> sp_Task) ?first)) (candidates completed already))"
    unfolding cand using sum_length_filter_compl [of "\<lambda>t. ct_PageID t \<in> set (map (ct_PageID \<circ> sp_Task) ?first)" "candidates completed already"] by simp
  moreover have "length (filter (\<lambda>t. ct_PageID t \<in> set (map (ct_PageID \<circ> sp_Task) ?first)) (candidates completed already)) \<le> length ?first"
  proof -
    let ?f = "filter (\<lambda>t. ct_PageID t \<in> set (map (ct_PageID \<circ> sp_Task) ?first)) (candidates completed already)"
    have "distinct (map ct_PageID ?f)" by (rule distinct_map_filter [OF d])
    then have "length ?f = card (set (map ct_PageID ?f))" using distinct_card length_map by metis
    also have "\<dots> \<le> card (set (map (ct_PageID \<circ> sp_Task) ?first))" by (rule card_mono) auto
    also have "\<dots> \<le> length ?first" using card_length length_map by metis
    finally show ?thesis .
  qed
  ultimately have "top_up completed ?all \<le> int (length (candidates completed ?all))"
    using assms(2) one unfolding same by simp
  then have two: "int (length (SelectSamples completed 100 ?all)) = top_up completed already"
    unfolding same [symmetric] by (rule select_full)
  have "sampled (SelectSamples completed 100 ?all) \<subseteq> set (candidates completed ?all)" by (rule samples_sub)
  moreover have "sampled ?first \<inter> set (candidates completed ?all) = {}" unfolding cand sampled_def by auto
  ultimately show ?thesis using one two unfolding Let_def by auto
qed

section \<open>Cancelling a job\<close>

text \<open>\<open>activeJobIDs\<close> of \<open>cmd/analysis/main.go\<close>: the jobs the consumer polls.\<close>

definition activeJobIDs :: "lh_db \<Rightarrow> string list" where
  "activeJobIDs db = remdups (map lr_JobID (filter (\<lambda>r. lr_Status r \<in> {RunPending, RunRunning}) (lh_runs db)))"

text \<open>cancelling a job strands its audits.  The cancellation deletes the outbox rows of the job and
  leaves its runs alone: a pending run whose row had not been published stays pending with nothing that
  will ever start it, and the consumer keeps polling the stream of the cancelled job.\<close>

theorem cancel_strands_audits:
  assumes "CancelJob q A now j jm p (lh_hover db) = (None, jm', ended, p', d')" "counters_ok (lh_hover db)"
    "db_jobs (lh_hover db) j = Some row" "jr_Status row \<noteq> JCancelled"
    "r \<in> set (lh_runs db)" "lr_JobID r = j" "lr_Status r = RunPending"
    "db' = db\<lparr>lh_hover := d'\<rparr>"
  shows "r \<in> set (lh_runs db') \<and> j \<notin> ob_jobID ` set (outbox_rows db') \<and> j \<in> set (activeJobIDs db') \<and>
    (\<exists>row'. db_jobs (lh_hover db') j = Some row' \<and> jr_Status row' = JCancelled)"
proof -
  have "cancelled_state j d'" using cancel_succeeds [OF assms(1-4)] by blast
  then show ?thesis using assms(5-8) by (force simp: cancelled_state_def outbox_rows_def activeJobIDs_def)
qed

section \<open>Examples\<close>

definition audited_task :: "string \<Rightarrow> int \<Rightarrow> int \<Rightarrow> task_row" where
  "audited_task key page ms =
     (demo_task key page Completed)\<lparr>tr_Result := Some ((demo_result key Completed)\<lparr>dt_ResponseTime := ms\<rparr>)\<rparr>"

definition first_run :: lighthouse_run where
  "first_run = new_run 5 1 \<lparr>ri_JobID = ''j'', ri_PageID = 1, ri_SourceTaskID = ''x'', ri_Band = BandFastest, ri_Milestone = 10\<rparr>"

definition demo_lh :: lh_db where
  "demo_lh = \<lparr>lh_runs = [first_run], lh_serial = 1, lh_hover = open_db\<rparr>"

definition quiet_env :: milestone_env where
  "quiet_env = \<lparr>me_tasks = None, me_bands = None, me_attempts = (\<lambda>k. calm_attempt), me_uuid = itoa\<rparr>"

definition audited_lh :: lh_db where
  "audited_lh = demo_lh\<lparr>lh_hover := demo_db demo_job [audited_task ''x'' 1 100, audited_task ''y'' 2 200]\<rparr>"

lemma itoa_inj: "inj itoa"
  by (rule injI) (metis option.sel signed_val_itoa)

lemma demo_runs_ok: "runs_ok demo_lh" "runs_ok audited_lh" "outbox_rows audited_lh = []"
  by (simp_all add: runs_ok_def demo_lh_def audited_lh_def first_run_def new_run_def outbox_rows_def demo_db_def)

lemma audited_samples: "length (lh_runs (snd (snd (OnMilestone std_queue quiet_env 7 ''j'' 20 idle_pool audited_lh)))) = 2"
  by code_simp

theorem audits_mirrored_witness:
  "\<exists>res p' db'. OnMilestone std_queue quiet_env 7 ''j'' 20 idle_pool audited_lh = (res, p', db') \<and>
     length (lh_runs db') = 2 \<and> runs_ok db' \<and> mirrored_since audited_lh ''j'' db'"
proof -
  obtain res p' db' where r: "OnMilestone std_queue quiet_env 7 ''j'' 20 idle_pool audited_lh = (res, p', db')" by (rule prod_cases3)
  have "length (lh_runs db') = 2" using audited_samples by (simp add: r)
  moreover have "runs_ok db' \<and> mirrored_since audited_lh ''j'' db'"
    by (rule audits_mirrored [OF _ _ _ r]) (simp_all add: demo_runs_ok itoa_inj quiet_env_def)
  ultimately show ?thesis using r by blast
qed

theorem ended_runs_final_witness:
  "(first_run\<lparr>lr_Status := RunSucceeded\<rparr>) \<in>
     set (lh_runs (snd (FailLighthouseRun None 9 1 ''late'' 5 (demo_lh\<lparr>lh_runs := [first_run\<lparr>lr_Status := RunSucceeded\<rparr>]\<rparr>))))"
  by (rule ended_runs_final [OF r_into_rtranclp]) (rule lh_step.failed, simp_all add: run_terminal_def)

definition six_pages :: "completed_task list" where
  "six_pages = map (\<lambda>(p, r). \<lparr>ct_PageID = p, ct_TaskID = itoa p, ct_ResponseTime = r\<rparr>)
     [(1, 300), (2, 100), (3, 200), (4, 50), (5, 80), (6, 400)]"

theorem reconcile_repeats_witness:
  "length (SelectSamples six_pages 100 []) = 2 \<and>
   length (SelectSamples six_pages 100 (run_bands 100 (SelectSamples six_pages 100 []))) = 2"
proof -
  have q: "PerBand (int (length six_pages)) = 1" by code_simp
  have d: "distinct (map ct_PageID six_pages)" by (simp add: six_pages_def)
  have c: "length (candidates six_pages []) = 6" by (simp add: candidates_def six_pages_def)
  from reconcile_repeats [OF d, of "[]"] show ?thesis by (simp add: q c Let_def top_up_def existing_in_def)
qed

theorem cancel_strands_audits_witness:
  "\<exists>jm' ended p' d'. CancelJob std_queue (\<lambda>i k. calm_attempt) 9 ''j'' NewJobManager idle_pool open_db = (None, jm', ended, p', d') \<and>
     ''j'' \<in> set (activeJobIDs (demo_lh\<lparr>lh_hover := d'\<rparr>)) \<and> ''j'' \<notin> ob_jobID ` set (outbox_rows (demo_lh\<lparr>lh_hover := d'\<rparr>))"
proof -
  have g: "GetJob std_queue (\<lambda>k. calm_attempt) ''j'' idle_pool open_db = (Inr (demo_job, ''a.com''), calm_pool, open_db)"
    by (simp add: GetJob_def calm_run(1) [of "get_job_tx ''j''", OF open_get])
  have "\<exists>x d'. cancel_tx 9 ''j'' (\<lambda>i. None) open_db = (Inr x, d')"
    by (simp add: cancel_tx_def set_job_tx_def tx_defs split: prod.split)
  then obtain x d' where "cancel_tx 9 ''j'' (\<lambda>i. None) open_db = (Inr x, d')" by blast
  from calm_run(2) [of "cancel_tx 9 ''j''", OF this]
  obtain p' where x: "Execute_tx std_queue (\<lambda>k. calm_attempt) (cancel_tx 9 ''j'') calm_pool open_db = (Inr x, p', d')" by blast
  have c: "CancelJob std_queue (\<lambda>i k. calm_attempt) 9 ''j'' NewJobManager idle_pool (lh_hover demo_lh) =
      (None, forget_job ''j'' NewJobManager, [''j''], p', d')"
    by (simp add: CancelJob_def demo_lh_def g x demo_job_def live_statuses_def)
  have "first_run \<in> set (lh_runs demo_lh)" "lr_JobID first_run = ''j''" "lr_Status first_run = RunPending"
    by (simp_all add: demo_lh_def first_run_def new_run_def)
  from cancel_strands_audits [OF c _ _ _ this refl] c show ?thesis
    using open_ok by (auto simp: demo_lh_def demo_job_def)
qed

end
