(* ===== verification/Analysis_Consumer.thy ===== *)
theory Analysis_Consumer
  imports Lighthouse_Runs Broker_Consumer
begin

text \<open>
  \<open>cmd/analysis/main.go\<close>: the service that reads the audit stream of every job with open runs, runs
  the audits and records their results.  The runner is a parameter; while it runs, anything may happen to
  the stream and to the database.  The lemmas show that a message is acknowledged only when its run has
  ended, and that what the dispatcher writes is what the consumer reads.
\<close>

section \<open>Settings\<close>

record consumer_config =
  cc_maxConcurrency :: int
  cc_auditTimeout :: time
  cc_pollInterval :: time
  cc_reclaimInterval :: time
  cc_reclaimMinIdle :: time
  cc_consumerName :: string
  cc_runner :: string
  cc_lighthouseBin :: string
  cc_chromiumBin :: string
  cc_memoryShedMB :: int

definition envIntDefault :: "(string \<Rightarrow> string) \<Rightarrow> string \<Rightarrow> int \<Rightarrow> int" where
  "envIntDefault env key def =
     (let v = trim_space (env key) in
      if v \<noteq> [] then (case atoi v of Some n \<Rightarrow> n | None \<Rightarrow> def) else def)"

text \<open>\<open>hostname\<close> is what the operating system returns, empty on an error.\<close>

definition loadConsumerConfig :: "(string \<Rightarrow> string) \<Rightarrow> string \<Rightarrow> consumer_config" where
  "loadConsumerConfig env hostname =
     (let runner = to_lower (trim_space (env ''LIGHTHOUSE_RUNNER''));
          concurrency = envIntDefault env ''LIGHTHOUSE_MAX_CONCURRENCY'' 1;
          machine = (if env ''FLY_MACHINE_ID'' \<noteq> [] then env ''FLY_MACHINE_ID''
                     else if hostname \<noteq> [] then hostname else ''analysis'')
      in \<lparr>cc_maxConcurrency = (if concurrency < 1 then 1 else concurrency),
          cc_auditTimeout = wrap64 (envIntDefault env ''LIGHTHOUSE_AUDIT_TIMEOUT_MS'' 90000 * millisecond),
          cc_pollInterval = wrap64 (envIntDefault env ''LIGHTHOUSE_POLL_INTERVAL_MS'' 1000 * millisecond),
          cc_reclaimInterval = wrap64 (envIntDefault env ''LIGHTHOUSE_RECLAIM_INTERVAL_S'' 60 * second),
          cc_reclaimMinIdle = wrap64 (envIntDefault env ''LIGHTHOUSE_RECLAIM_MIN_IDLE_S'' 180 * second),
          cc_consumerName = ''lh-'' @ machine,
          cc_runner = (if runner = [] then ''stub'' else runner),
          cc_lighthouseBin = trim_space (env ''LIGHTHOUSE_BIN''),
          cc_chromiumBin = trim_space (env ''CHROMIUM_BIN''),
          cc_memoryShedMB = envIntDefault env ''LIGHTHOUSE_MEMORY_SHED_THRESHOLD_MB'' 600\<rparr>)"

datatype runner_choice = StubRunner | LocalRunner

text \<open>An unknown name falls back to the stub.\<close>

definition selectRunner :: "consumer_config \<Rightarrow> runner_choice" where
  "selectRunner cfg =
     (if cc_runner cfg = ''stub'' then StubRunner
      else if cc_runner cfg = ''local'' then LocalRunner else StubRunner)"

section \<open>Messages\<close>

definition stringFromMap :: "(string \<times> string) list \<Rightarrow> string \<Rightarrow> string" where
  "stringFromMap values key = (case map_of values key of Some v \<Rightarrow> v | None \<Rightarrow> [])"

definition parseRunID :: "(string \<times> string) list \<Rightarrow> int option" where
  "parseRunID values =
     (let raw = stringFromMap values ''lighthouse_run_id'' in
      if raw = [] then None
      else case atoi raw of None \<Rightarrow> None | Some i \<Rightarrow> if i \<le> 0 then None else Some i)"

definition composeURLFromMap :: "(string \<times> string) list \<Rightarrow> string" where
  "composeURLFromMap values =
     (let host = stringFromMap values ''host''; path = stringFromMap values ''path'' in
      if host = [] then [] else ''https://'' @ host @ (if path = [] then ''/'' else path))"

record audit_request =
  rq_RunID :: int
  rq_JobID :: string
  rq_PageID :: int
  rq_SourceTaskID :: string
  rq_URL :: string
  rq_Timeout :: time

definition audit_request_of :: "consumer_config \<Rightarrow> string \<Rightarrow> int \<Rightarrow> (string \<times> string) list \<Rightarrow> audit_request" where
  "audit_request_of cfg jobID runID values =
     (let url = stringFromMap values ''source_url'' in
      \<lparr>rq_RunID = runID, rq_JobID = jobID,
       rq_PageID = (case atoi (stringFromMap values ''page_id'') of Some i \<Rightarrow> i | None \<Rightarrow> 0),
       rq_SourceTaskID = [], rq_URL = (if url = [] then composeURLFromMap values else url),
       rq_Timeout = cc_auditTimeout cfg\<rparr>)"

text \<open>The audits that are started, in order.  \<open>room\<close> tells whether the semaphore is entered before the
  service stops, for each message.\<close>

fun dispatchMessages :: "'w redis \<Rightarrow> consumer_config \<Rightarrow> (string \<Rightarrow> bool) \<Rightarrow> string \<Rightarrow> string \<Rightarrow> string \<Rightarrow> message list \<Rightarrow> 'w
    \<Rightarrow> (audit_request \<times> string) list \<times> 'w" where
  "dispatchMessages R cfg room jobID streamKey groupName [] w = ([], w)"
| "dispatchMessages R cfg room jobID streamKey groupName (msg # msgs) w =
     (case parseRunID (snd msg) of
        None \<Rightarrow> dispatchMessages R cfg room jobID streamKey groupName msgs (snd (r_cmd R (XAck streamKey groupName [fst msg]) w))
      | Some runID \<Rightarrow>
          if \<not> room (fst msg) then ([], w)
          else (case dispatchMessages R cfg room jobID streamKey groupName msgs w of
                  (started, w') \<Rightarrow> ((audit_request_of cfg jobID runID (snd msg), fst msg) # started, w')))"

definition ensureGroup :: "'w redis \<Rightarrow> string \<Rightarrow> string \<Rightarrow> 'w \<Rightarrow> string option \<times> 'w" where
  "ensureGroup R streamKey groupName w =
     (case r_cmd R (XGroupCreateMkStream streamKey groupName) w of
        (RErr e, w') \<Rightarrow> (if str_contains e ''BUSYGROUP'' then None else Some e, w')
      | (_, w') \<Rightarrow> (None, w'))"

definition consumeOne :: "'w redis \<Rightarrow> consumer_config \<Rightarrow> (string \<Rightarrow> bool) \<Rightarrow> string \<Rightarrow> 'w
    \<Rightarrow> (audit_request \<times> string) list \<times> 'w" where
  "consumeOne R cfg room jobID w =
     (let streamKey = LighthouseStreamKey jobID; groupName = LighthouseConsumerGroup jobID in
      case ensureGroup R streamKey groupName w of
        (Some e, w1) \<Rightarrow> ([], w1)
      | (None, w1) \<Rightarrow>
          (case r_cmd R (XReadGroup streamKey groupName (cc_consumerName cfg) (cc_maxConcurrency cfg)) w1 of
             (RMsgs msgs, w2) \<Rightarrow> dispatchMessages R cfg room jobID streamKey groupName msgs w2
           | (_, w2) \<Rightarrow> ([], w2)))"

text \<open>One page of \<open>reclaimStale\<close>: what it starts, and the cursor of the next page if there is one.\<close>

definition reclaim_page :: "'w redis \<Rightarrow> consumer_config \<Rightarrow> (string \<Rightarrow> bool) \<Rightarrow> string \<Rightarrow> string \<Rightarrow> 'w
    \<Rightarrow> (audit_request \<times> string) list \<times> string option \<times> 'w" where
  "reclaim_page R cfg room jobID cursor w =
     (let streamKey = LighthouseStreamKey jobID; groupName = LighthouseConsumerGroup jobID in
      case r_cmd R (XAutoClaim streamKey groupName (cc_consumerName cfg) (cc_reclaimMinIdle cfg div millisecond)
                      cursor (cc_maxConcurrency cfg)) w of
        (RClaimed msgs nx, w1) \<Rightarrow>
          if msgs = [] \<and> (nx = ''0-0'' \<or> nx = []) then ([], None, w1)
          else (case dispatchMessages R cfg room jobID streamKey groupName msgs w1 of
                  (started, w2) \<Rightarrow> (started, if nx = ''0-0'' \<or> nx = [] then None else Some nx, w2))
      | (_, w1) \<Rightarrow> ([], None, w1))"

section \<open>One audit\<close>

record runner_error =
  re_MemoryShed :: bool
  re_Canceled :: bool
  re_Text :: string

text \<open>The metrics with the duration in nanoseconds; that of \<open>run_metrics\<close> is filled in later.\<close>

record audit_result =
  ar_Metrics :: run_metrics
  ar_Duration :: time

text \<open>What an audit meets: the faults of its two statements, the times, how long it took, and whether the
  service is stopping.\<close>

record audit_env =
  ae_mark :: io
  ae_write :: io
  ae_started :: time
  ae_written :: time
  ae_elapsed :: time
  ae_stopping :: bool

text \<open>The first component of the result says whether the message was acknowledged.\<close>

definition processOne :: "'w redis \<Rightarrow> audit_env \<Rightarrow> (audit_request \<Rightarrow> 'w \<times> lh_db \<Rightarrow> (runner_error + audit_result) \<times> 'w \<times> lh_db)
    \<Rightarrow> string \<Rightarrow> string \<Rightarrow> audit_request \<Rightarrow> string \<Rightarrow> 'w \<times> lh_db \<Rightarrow> bool \<times> 'w \<times> lh_db" where
  "processOne R E runner streamKey groupName req msgID s =
     (let ack = (\<lambda>w. snd (r_cmd R (XAck streamKey groupName [msgID]) w)) in
      case MarkLighthouseRunRunning (ae_mark E) (ae_started E) (rq_RunID req) (snd s) of
        (Inl e, db1) \<Rightarrow> (False, fst s, db1)
      | (Inr (False, _), db1) \<Rightarrow> (True, ack (fst s), db1)
      | (Inr (True, sourceTaskID), db1) \<Rightarrow>
          (case runner (req\<lparr>rq_SourceTaskID := sourceTaskID\<rparr>) (fst s, db1) of
             (Inl e, w2, db2) \<Rightarrow>
               if re_MemoryShed e then (False, w2, db2)
               else if re_Canceled e \<or> ae_stopping E then (False, w2, db2)
               else (case FailLighthouseRun (ae_write E) (ae_written E) (rq_RunID req) (re_Text e) (ae_elapsed E div millisecond) db2 of
                       (Some dbErr, db3) \<Rightarrow> (False, w2, db3)
                     | (None, db3) \<Rightarrow> (True, ack w2, db3))
           | (Inr res, w2, db2) \<Rightarrow>
               let duration = (if ar_Duration res \<le> 0 then ae_elapsed E else ar_Duration res) in
               (case CompleteLighthouseRun (ae_write E) (ae_written E) (rq_RunID req)
                       ((ar_Metrics res)\<lparr>rm_DurationMs := duration div millisecond\<rparr>) db2 of
                  (Some dbErr, db3) \<Rightarrow> (False, w2, db3)
                | (None, db3) \<Rightarrow> (True, ack w2, db3))))"

section \<open>When a message is acknowledged\<close>

definition run_ended :: "int \<Rightarrow> lh_db \<Rightarrow> bool" where
  "run_ended i db \<longleftrightarrow> (\<forall>r \<in> set (lh_runs db). lr_ID r = i \<longrightarrow> run_terminal r)"

lemma mark_not_moved:
  assumes "MarkLighthouseRunRunning f now i db = (Inr (False, s), db')"
  shows "run_ended i db' \<and> db' = db"
proof -
  let ?sel = "\<lambda>r. lr_ID r = i \<and> lr_Status r \<in> {RunPending, RunRunning}"
  have none: "filter ?sel (lh_runs db) = []"
    and db': "db' = db\<lparr>lh_runs := map (\<lambda>r. if ?sel r then r\<lparr>lr_Status := RunRunning, lr_StartedAt := Some now\<rparr> else r) (lh_runs db)\<rparr>"
    using assms by (auto simp: MarkLighthouseRunRunning_def update_runs_def Let_def split: option.splits list.splits prod.splits)
  have no: "\<not> ?sel r" if "r \<in> set (lh_runs db)" for r using none that by (simp only: filter_empty_conv) blast
  have "map (\<lambda>r. if ?sel r then r\<lparr>lr_Status := RunRunning, lr_StartedAt := Some now\<rparr> else r) (lh_runs db) = lh_runs db"
    by (rule map_idI) (simp only: no if_False)
  then have same: "db' = db" unfolding db' by simp
  have "run_terminal r" if "r \<in> set (lh_runs db)" "lr_ID r = i" for r
    using no [OF that(1)] that(2) by (cases "lr_Status r") (auto simp: run_terminal_def)
  then show ?thesis using same by (simp add: run_ended_def)
qed

lemma written_ended:
  assumes ok: "distinct (map lr_ID (lh_runs db))"
    and wr: "rows_error c (update_runs f (\<lambda>r. lr_ID r = i \<and> lr_Status r = RunRunning) g db) = (None, db')"
    and g: "\<And>r. run_terminal (g r)" "\<And>r. lr_ID (g r) = lr_ID r"
  shows "run_ended i db'"
proof -
  let ?sel = "\<lambda>r. lr_ID r = i \<and> lr_Status r = RunRunning"
  have db': "lh_runs db' = map (\<lambda>r. if ?sel r then g r else r) (lh_runs db)" and some: "filter ?sel (lh_runs db) \<noteq> []"
    using wr by (auto simp: rows_error_def update_runs_def Let_def split: option.splits if_splits prod.splits)
  then obtain r where r: "r \<in> set (lh_runs db)" "?sel r" by (auto simp: filter_empty_conv)
  have "r' = r" if "r' \<in> set (lh_runs db)" "lr_ID r' = i" for r'
    using ok r that by (auto simp: distinct_map inj_on_def)
  then show ?thesis using r g unfolding run_ended_def db' by fastforce
qed

text \<open>C17: a message is acknowledged only when its run has ended.  The result has been recorded or the run
  had ended before, whatever else happened to the tables while the audit ran.  A run that was shed for lack of
  memory, interrupted, or whose result could not be written keeps its message.\<close>

theorem acked_runs_ended:
  assumes "\<And>rq w db. distinct (map lr_ID (lh_runs db)) \<Longrightarrow> distinct (map lr_ID (lh_runs (snd (snd (runner rq (w, db))))))"
    and "distinct (map lr_ID (lh_runs db))"
    and "processOne R E runner sk g req msgID (w, db) = (True, w', db')"
  shows "run_ended (rq_RunID req) db'"
proof -
  obtain m db1 where m: "MarkLighthouseRunRunning (ae_mark E) (ae_started E) (rq_RunID req) db = (m, db1)" by (rule prod.exhaust)
  have ids: "map lr_ID (lh_runs db1) = map lr_ID (lh_runs db)"
    using mark_runs [of "ae_mark E" "ae_started E" "rq_RunID req" db] m
    by (auto simp: update_runs_def Let_def split: option.splits)
  obtain moved src where mv: "m = Inr (moved, src)" using assms(3) m by (cases m) (auto simp: processOne_def)
  show ?thesis
  proof (cases moved)
    case False
    then show ?thesis using assms(3) m mv mark_not_moved by (fastforce simp: processOne_def)
  next
    case True
    obtain out w2 db2 where r: "runner (req\<lparr>rq_SourceTaskID := src\<rparr>) (w, db1) = (out, w2, db2)" by (rule prod_cases3)
    have ok: "distinct (map lr_ID (lh_runs db2))" using assms(1) [of db1 "req\<lparr>rq_SourceTaskID := src\<rparr>" w] assms(2) ids r by simp
    show ?thesis
    proof (cases out)
      case (Inl e)
      then have "FailLighthouseRun (ae_write E) (ae_written E) (rq_RunID req) (re_Text e) (ae_elapsed E div millisecond) db2 = (None, db')"
        using assms(3) m mv True r by (auto simp: processOne_def split: if_splits prod.splits option.splits)
      then show ?thesis unfolding FailLighthouseRun_def by (rule written_ended [OF ok]) (simp_all add: run_terminal_def)
    next
      case (Inr res)
      then obtain met where "CompleteLighthouseRun (ae_write E) (ae_written E) (rq_RunID req) met db2 = (None, db')"
        using assms(3) m mv True r by (auto simp: processOne_def Let_def split: if_splits prod.splits option.splits)
      then show ?thesis unfolding CompleteLighthouseRun_def
        by (rule written_ended [OF ok]) (simp_all add: run_terminal_def succeed_run_def)
    qed
  qed
qed

text \<open>a redelivered message of a run that has ended is acknowledged without an audit, and nothing in the
  table changes.\<close>

theorem redelivery_harmless:
  assumes "run_ended (rq_RunID req) db" "ae_mark E = None"
  shows "processOne R E runner sk g req msgID (w, db) = (True, snd (r_cmd R (XAck sk g [msgID]) w), db)"
proof -
  let ?sel = "\<lambda>r. lr_ID r = rq_RunID req \<and> lr_Status r \<in> {RunPending, RunRunning}"
  have no: "\<not> ?sel r" if "r \<in> set (lh_runs db)" for r using assms(1) that by (auto simp: run_ended_def run_terminal_def)
  have f: "filter ?sel (lh_runs db) = []" using no by (simp only: filter_empty_conv) blast
  have "map (\<lambda>r. if ?sel r then r\<lparr>lr_Status := RunRunning, lr_StartedAt := Some (ae_started E)\<rparr> else r) (lh_runs db) = lh_runs db"
    by (rule map_idI) (simp only: no if_False)
  then have "MarkLighthouseRunRunning None (ae_started E) (rq_RunID req) db = (Inr (False, []), db)"
    unfolding MarkLighthouseRunRunning_def update_runs_def Let_def f by simp
  then show ?thesis by (simp add: processOne_def assms(2))
qed

text \<open>what the dispatcher puts on the audit stream, the consumer reads back: the run, the page and the
  address of the audit, which is that of the scheduler even when the entry carries none.\<close>

theorem audit_message_roundtrip:
  assumes "se_TaskType entry = ''lighthouse''" "0 < se_LighthouseRunID entry" "in_int64 (se_LighthouseRunID entry)"
    "in_int64 (se_PageID entry)" "se_SourceURL entry \<in> {[], lighthouseAuditURL (se_Host entry) (se_Path entry)}"
  shows "parseRunID (publish_values entry) = Some (se_LighthouseRunID entry) \<and>
    audit_request_of cfg j i (publish_values entry) =
      \<lparr>rq_RunID = i, rq_JobID = j, rq_PageID = se_PageID entry, rq_SourceTaskID = [],
       rq_URL = lighthouseAuditURL (se_Host entry) (se_Path entry), rq_Timeout = cc_auditTimeout cfg\<rparr>"
  using assms by (auto simp: parseRunID_def audit_request_of_def stringFromMap_def publish_values_def publish_type_def
      composeURLFromMap_def lighthouseAuditURL_def itoa_nonempty Let_def)

section \<open>Examples\<close>

definition demo_audit :: audit_env where
  "demo_audit = \<lparr>ae_mark = None, ae_write = None, ae_started = 1, ae_written = 2, ae_elapsed = 3, ae_stopping = False\<rparr>"

definition demo_request :: audit_request where
  "demo_request = \<lparr>rq_RunID = 1, rq_JobID = ''j'', rq_PageID = 1, rq_SourceTaskID = [], rq_URL = ''https://a.com/'', rq_Timeout = 90\<rparr>"

definition demo_metrics :: run_metrics where
  "demo_metrics = \<lparr>rm_PerformanceScore = Some 87, rm_LCPMs = None, rm_CLS = None, rm_INPMs = None, rm_TBTMs = None, rm_FCPMs = None,
     rm_SpeedIndexMs = None, rm_TTFBMs = None, rm_TotalByteWeight = None, rm_ReportKey = [], rm_DurationMs = 0\<rparr>"

definition good_runner :: "audit_request \<Rightarrow> rstore \<times> lh_db \<Rightarrow> (runner_error + audit_result) \<times> rstore \<times> lh_db" where
  "good_runner rq s = (Inr \<lparr>ar_Metrics = demo_metrics, ar_Duration = 50\<rparr>, s)"

theorem acked_runs_ended_witness:
  "case processOne mem_redis demo_audit good_runner ''s'' ''g'' demo_request ''1-0'' (empty_store, demo_lh) of
     (acked, w', db') \<Rightarrow> acked \<and> run_ended 1 db' \<and> map lr_Status (lh_runs db') = [RunSucceeded]"
proof -
  obtain acked w' db' where p: "processOne mem_redis demo_audit good_runner ''s'' ''g'' demo_request ''1-0'' (empty_store, demo_lh) = (acked, w', db')"
    using prod_cases3 by blast
  have r: "acked \<and> map lr_Status (lh_runs db') = [RunSucceeded]"
    using p by (auto simp add: processOne_def MarkLighthouseRunRunning_def update_runs_def demo_audit_def demo_request_def demo_lh_def first_run_def
        new_run_def good_runner_def CompleteLighthouseRun_def rows_error_def succeed_run_def)
  have "run_ended (rq_RunID demo_request) db'"
    by (rule acked_runs_ended [OF _ _ p [unfolded conjunct1 [OF r, THEN eqTrueI]]]) (simp_all add: good_runner_def demo_lh_def)
  then show ?thesis using p r by (simp add: demo_request_def)
qed

theorem redelivery_harmless_witness:
  "snd (snd (processOne mem_redis demo_audit good_runner ''s'' ''g'' demo_request ''1-0''
     (empty_store, demo_lh\<lparr>lh_runs := [first_run\<lparr>lr_Status := RunFailed\<rparr>]\<rparr>))) = demo_lh\<lparr>lh_runs := [first_run\<lparr>lr_Status := RunFailed\<rparr>]\<rparr>"
proof -
  have "run_ended (rq_RunID demo_request) (demo_lh\<lparr>lh_runs := [first_run\<lparr>lr_Status := RunFailed\<rparr>]\<rparr>)"
    by (simp add: run_ended_def run_terminal_def)
  moreover have "ae_mark demo_audit = None" by (simp add: demo_audit_def)
  ultimately show ?thesis using redelivery_harmless by (metis snd_conv)
qed

definition demo_audit_entry :: schedule_entry where
  "demo_audit_entry = \<lparr>se_TaskID = ''t'', se_JobID = ''j'', se_PageID = 4, se_Host = ''a.com'', se_Path = ''/x'', se_Priority = 1,
     se_RetryCount = 0, se_SourceType = ''lighthouse'', se_SourceURL = [], se_RunAt = 0, se_TaskType = ''lighthouse'', se_LighthouseRunID = 7\<rparr>"

theorem audit_message_roundtrip_witness:
  "parseRunID (publish_values demo_audit_entry) = Some 7"
  using audit_message_roundtrip [of demo_audit_entry] by (simp add: demo_audit_entry_def in_int64_def)

end
