(* ===== verification/Crawler_Sitemap.thy ===== *)
theory Crawler_Sitemap
  imports Jobs_Sitemap
begin

text \<open>
  \<open>internal/crawler/sitemap.go\<close>: fetching and parsing a sitemap.  An index is followed into its
  children, which may be indexes again.  The HTTP client, \<open>gzip\<close> and the XML decoder are parameters; the
  recursion is bounded by a depth.  The lemmas show when a depth is enough, and that none is when an index
  leads back to itself.
\<close>

definition isGzipContent :: "string \<Rightarrow> string \<Rightarrow> bool" where
  "isGzipContent contentEncoding url \<longleftrightarrow> to_lower contentEncoding = ''gzip'' \<or> has_suffix (to_lower url) ''.gz''"

record response =
  rs_StatusCode :: int
  rs_ContentEncoding :: string
  rs_Body :: string

text \<open>What lies outside: the reply to a \<open>GET\<close>, decompression, and the two ways to decode a body, each of
  which may fail.\<close>

record web =
  wb_get :: "string \<Rightarrow> go_error + response"
  wb_gunzip :: "string \<Rightarrow> go_error + string"
  wb_index :: "string \<Rightarrow> string list option"
  wb_urlset :: "string \<Rightarrow> string list option"
  wb_print :: "url \<Rightarrow> string"

text \<open>The body of a sitemap after decompression, or the error \<open>ParseSitemap\<close> returns.\<close>

definition sitemap_body :: "web \<Rightarrow> string \<Rightarrow> go_error + string" where
  "sitemap_body W sitemapURL =
     (case wb_get W sitemapURL of
        Inl e \<Rightarrow> Inl e
      | Inr resp \<Rightarrow>
          if rs_StatusCode resp \<noteq> 200
          then Inl (plain_error (''failed to fetch sitemap: '' @ itoa (rs_StatusCode resp)))
          else if isGzipContent (rs_ContentEncoding resp) sitemapURL
          then (case wb_gunzip W (rs_Body resp) of
                  Inl e \<Rightarrow> Inl (wrap (''failed to decompress sitemap '' @ sitemapURL @ '': '') e)
                | Inr body \<Rightarrow> Inr body)
          else Inr (rs_Body resp))"

text \<open>The addresses in a list of entries that survive normalisation.\<close>

definition valid_urls :: "web \<Rightarrow> string list \<Rightarrow> string list" where
  "valid_urls W locs = filter (\<lambda>u. u \<noteq> []) (map (\<lambda>l. NormaliseURL (wb_print W) (trim_space l)) locs)"

text \<open>The children of an index; an index without entries is read as a list of pages.\<close>

definition index_children :: "web \<Rightarrow> string \<Rightarrow> string list option" where
  "index_children W body =
     (case wb_index W body of
        None \<Rightarrow> None
      | Some locs \<Rightarrow> if locs = [] then None else Some (valid_urls W locs))"

definition page_urls :: "web \<Rightarrow> string \<Rightarrow> string list" where
  "page_urls W body = (case wb_urlset W body of None \<Rightarrow> [] | Some locs \<Rightarrow> valid_urls W locs)"

text \<open>The loop over the children; one that fails is skipped.\<close>

fun collect_children :: "(string \<Rightarrow> (go_error + string list) option) \<Rightarrow> string list \<Rightarrow> string list option" where
  "collect_children f [] = Some []"
| "collect_children f (u # us) =
     (case f u of
        None \<Rightarrow> None
      | Some r \<Rightarrow>
          (case collect_children f us of
             None \<Rightarrow> None
           | Some rest \<Rightarrow> Some ((case r of Inl e \<Rightarrow> [] | Inr urls \<Rightarrow> urls) @ rest)))"

text \<open>\<open>None\<close> when the depth is used up.\<close>

fun ParseSitemap :: "nat \<Rightarrow> web \<Rightarrow> string \<Rightarrow> (go_error + string list) option" where
  "ParseSitemap 0 W sitemapURL = None"
| "ParseSitemap (Suc n) W sitemapURL =
     (case sitemap_body W sitemapURL of
        Inl e \<Rightarrow> Some (Inl e)
      | Inr body \<Rightarrow>
          (case index_children W body of
             Some children \<Rightarrow> map_option Inr (collect_children (ParseSitemap n W) children)
           | None \<Rightarrow> Some (Inr (page_urls W body))))"

section \<open>Depth\<close>

text \<open>The addresses a sitemap leads to.\<close>

definition children_of :: "web \<Rightarrow> string \<Rightarrow> string list" where
  "children_of W u =
     (case sitemap_body W u of Inl e \<Rightarrow> [] | Inr body \<Rightarrow> (case index_children W body of Some cs \<Rightarrow> cs | None \<Rightarrow> []))"

lemma children_some: "(\<And>u. u \<in> set us \<Longrightarrow> f u \<noteq> None) \<Longrightarrow> collect_children f us \<noteq> None"
  by (induction us) (force split: option.splits)+

lemma children_none: "u \<in> set us \<Longrightarrow> f u = None \<Longrightarrow> collect_children f us = None"
  by (induction us) (auto split: option.splits)

lemma children_cong: "(\<And>u. u \<in> set us \<Longrightarrow> f u = g u) \<Longrightarrow> collect_children f us = collect_children g us"
  by (induction us) (simp_all split: option.split)

lemma children_urls:
  "collect_children f us = Some rs \<Longrightarrow> x \<in> set rs \<Longrightarrow> \<exists>u \<in> set us. \<exists>xs. f u = Some (Inr xs) \<and> x \<in> set xs"
  by (induction us arbitrary: rs) (fastforce split: option.splits sum.splits)+

lemma parse_step:
  "ParseSitemap (Suc n) W u = (if children_of W u = [] then ParseSitemap (Suc 0) W u
     else map_option Inr (collect_children (ParseSitemap n W) (children_of W u)))"
  by (auto simp: children_of_def split: sum.splits option.splits)

lemma parse_deeper: "ParseSitemap n W u = Some r \<Longrightarrow> ParseSitemap (Suc n) W u = Some r"
proof (induction n arbitrary: u r)
  case (Suc n)
  have deeper: "collect_children (ParseSitemap (Suc n) W) cs = Some rs" if "collect_children (ParseSitemap n W) cs = Some rs" for cs rs
  proof -
    have "ParseSitemap (Suc n) W c = ParseSitemap n W c" if "c \<in> set cs" for c
      using Suc.IH [of c] children_none [OF that, of "ParseSitemap n W"] \<open>collect_children (ParseSitemap n W) cs = Some rs\<close>
      by (cases "ParseSitemap n W c") (simp_all del: ParseSitemap.simps(2))
    then show ?thesis using that children_cong [of cs "ParseSitemap (Suc n) W" "ParseSitemap n W"] by simp
  qed
  show ?case using Suc.prems deeper unfolding ParseSitemap.simps(2) [of "Suc n"] ParseSitemap.simps(2) [of n]
    by (auto split: sum.splits option.splits)
qed simp

lemma parse_depth: "n \<le> m \<Longrightarrow> ParseSitemap n W u = Some r \<Longrightarrow> ParseSitemap m W u = Some r"
  by (induction m rule: dec_induct) (auto intro: parse_deeper simp del: ParseSitemap.simps(2))

lemma parse_some:
  assumes "\<And>c. c \<in> set (children_of W u) \<Longrightarrow> ParseSitemap n W c \<noteq> None"
  shows "ParseSitemap (Suc n) W u \<noteq> None"
  using assms children_some [of "children_of W u" "ParseSitemap n W"]
  by (auto simp: children_of_def split: sum.splits option.splits)

text \<open>C27: a site whose sitemaps do not lead back to themselves is read to the end: when every child ranks
  below its index, the rank is depth enough, and more depth changes nothing.\<close>

theorem sitemap_terminates:
  assumes "\<And>u c. c \<in> set (children_of W u) \<Longrightarrow> rank c < rank u" "rank u < n"
  shows "ParseSitemap n W u \<noteq> None \<and> ParseSitemap n W u = ParseSitemap (Suc (rank u)) W u"
proof -
  have some: "ParseSitemap k W v \<noteq> None" if "rank v < k" for k v using that
  proof (induction k arbitrary: v)
    case (Suc k)
    then show ?case using assms(1) [of _ v] by (intro parse_some) (meson less_Suc_eq_le less_le_trans)
  qed simp
  obtain r where "ParseSitemap (Suc (rank u)) W u = Some r" using some [of u "Suc (rank u)"] by blast
  then show ?thesis using parse_depth [of "Suc (rank u)" n W u r] assms(2) by simp
qed

text \<open>an index that leads back to itself, directly or over others, is never finished: no depth is
  enough, so that only the deadline of the context ends the recursion.\<close>

theorem sitemap_cycle_diverges:
  assumes "\<And>u. u \<in> C \<Longrightarrow> \<exists>c \<in> set (children_of W u). c \<in> C" "u \<in> C"
  shows "ParseSitemap n W u = None"
  using assms(2)
proof (induction n arbitrary: u)
  case (Suc n)
  obtain c where c: "c \<in> set (children_of W u)" "ParseSitemap n W c = None" using assms(1) [OF Suc.prems] Suc.IH by blast
  then show ?case using children_none [where f = "ParseSitemap n W", OF c]
    by (auto simp: children_of_def split: sum.splits option.splits)
qed simp

section \<open>What is found\<close>

definition leads_to :: "web \<Rightarrow> (string \<times> string) set" where
  "leads_to W = {(u, c). c \<in> set (children_of W u)}"

lemma valid_urls_https: "x \<in> set (valid_urls W locs) \<Longrightarrow> has_prefix x ''https://''"
  by (auto simp: valid_urls_def normalise_url_eq with_https_prefix split: if_splits)

text \<open>every address that is returned comes from a page list that is reached from the sitemap over
  indexes, and is one of its entries with the scheme https.\<close>

theorem sitemap_urls_listed:
  assumes "ParseSitemap n W u = Some (Inr urls)" "x \<in> set urls"
  shows "\<exists>v body. (u, v) \<in> (leads_to W)\<^sup>* \<and> sitemap_body W v = Inr body \<and> index_children W body = None \<and>
    x \<in> set (page_urls W body) \<and> has_prefix x ''https://''"
  using assms
proof (induction n arbitrary: u urls)
  case (Suc n)
  obtain body where b: "sitemap_body W u = Inr body" using Suc.prems(1) by (cases "sitemap_body W u") auto
  show ?case
  proof (cases "index_children W body")
    case None
    then have "x \<in> set (page_urls W body)" using Suc.prems b by simp
    moreover have "has_prefix x ''https://''" using calculation valid_urls_https by (auto simp: page_urls_def split: option.splits)
    ultimately show ?thesis using b None by blast
  next
    case (Some cs)
    then have "collect_children (ParseSitemap n W) cs = Some urls" using Suc.prems(1) b by auto
    then obtain c xs where c: "c \<in> set cs" "ParseSitemap n W c = Some (Inr xs)" "x \<in> set xs"
      using children_urls Suc.prems(2) by blast
    have "(u, c) \<in> leads_to W" using b Some c(1) by (simp add: leads_to_def children_of_def)
    then show ?thesis using Suc.IH [OF c(2,3)] by (meson converse_rtrancl_into_rtrancl)
  qed
qed simp

section \<open>Examples\<close>

definition demo_web :: "string list \<Rightarrow> web" where
  "demo_web listed =
     \<lparr>wb_get = (\<lambda>u. Inr \<lparr>rs_StatusCode = 200, rs_ContentEncoding = [],
        rs_Body = (if u = ''https://a.com/i.xml'' then ''index'' else ''pages'')\<rparr>),
      wb_gunzip = (\<lambda>b. Inr b), wb_index = (\<lambda>b. if b = ''index'' then Some listed else None),
      wb_urlset = (\<lambda>b. Some [''https://a.com/x'']), wb_print = (\<lambda>u. [])\<rparr>"

lemma demo_children_other: "u \<noteq> ''https://a.com/i.xml'' \<Longrightarrow> children_of (demo_web l) u = []"
  by (simp add: children_of_def sitemap_body_def demo_web_def index_children_def isGzipContent_def)

lemma demo_children:
  "children_of (demo_web [''https://a.com/p.xml'']) ''https://a.com/i.xml'' = [''https://a.com/p.xml'']"
  "children_of (demo_web [''https://a.com/i.xml'']) ''https://a.com/i.xml'' = [''https://a.com/i.xml'']"
  by code_simp+

theorem sitemap_terminates_witness:
  "ParseSitemap 3 (demo_web [''https://a.com/p.xml'']) ''https://a.com/i.xml'' \<noteq> None"
proof -
  let ?rank = "\<lambda>u. if u = ''https://a.com/i.xml'' then 1 else 0 :: nat"
  have "?rank c < ?rank u" if "c \<in> set (children_of (demo_web [''https://a.com/p.xml'']) u)" for u c
    using that demo_children(1) demo_children_other [of u "[''https://a.com/p.xml'']"] by (cases "u = ''https://a.com/i.xml''") auto
  moreover have "?rank ''https://a.com/i.xml'' < 3" by simp
  ultimately show ?thesis using sitemap_terminates [of "demo_web [''https://a.com/p.xml'']" ?rank "''https://a.com/i.xml''" 3] by blast
qed

theorem sitemap_cycle_diverges_witness:
  "ParseSitemap 9 (demo_web [''https://a.com/i.xml'']) ''https://a.com/i.xml'' = None"
  by (rule sitemap_cycle_diverges [where C = "{''https://a.com/i.xml''}"]) (simp_all add: demo_children(2))

theorem sitemap_urls_listed_witness:
  "\<exists>v. (''https://a.com/i.xml'', v) \<in> (leads_to (demo_web [''https://a.com/p.xml'']))\<^sup>* \<and>
     sitemap_body (demo_web [''https://a.com/p.xml'']) v = Inr ''pages''"
proof -
  have p: "ParseSitemap 3 (demo_web [''https://a.com/p.xml'']) ''https://a.com/i.xml'' = Some (Inr [''https://a.com/x''])" by code_simp
  have i: "index_children (demo_web l) ''pages'' = None" "sitemap_body (demo_web l) u \<in> {Inr ''index'', Inr ''pages''}"
    "index_children (demo_web [''https://a.com/p.xml'']) ''index'' \<noteq> None" for l u
    by (auto simp: index_children_def demo_web_def sitemap_body_def isGzipContent_def)
  have "''https://a.com/x'' \<in> set [''https://a.com/x'']" by simp
  from sitemap_urls_listed [OF p this] obtain v body where v: "(''https://a.com/i.xml'', v) \<in> (leads_to (demo_web [''https://a.com/p.xml'']))\<^sup>*"
    "sitemap_body (demo_web [''https://a.com/p.xml'']) v = Inr body" "index_children (demo_web [''https://a.com/p.xml'']) body = None" by blast
  have "body = ''pages''" using i(2) [of "[''https://a.com/p.xml'']" v] i(3) v(2,3) by auto
  then show ?thesis using v by blast
qed

end
