(* ===== verification/Crawler_Waf.thy ===== *)
theory Crawler_Waf
  imports Jobs_Executor
begin

text \<open>
  \<open>internal/crawler/waf.go\<close>: recognising the answer of a bot protection.  The headers are those of
  \<open>http.Header\<close>, under their canonical names.  The lemmas give the verdict as a table of signals, and
  show for which status codes it can be given.
\<close>

definition header_values :: "headers \<Rightarrow> string \<Rightarrow> string list" where
  "header_values hs key = (case map_of hs key of Some vs \<Rightarrow> vs | None \<Rightarrow> [])"

definition header_get :: "headers \<Rightarrow> string \<Rightarrow> string" where
  "header_get hs key = (case header_values hs key of v # _ \<Rightarrow> v | [] \<Rightarrow> [])"

definition isBlockingStatus :: "int \<Rightarrow> bool" where
  "isBlockingStatus code \<longleftrightarrow> code = 403 \<or> code = 202"

text \<open>The text of any other code is that of the library; it is never asked for.\<close>

definition statusLabel :: "(int \<Rightarrow> string) \<Rightarrow> int \<Rightarrow> string" where
  "statusLabel statusText code =
     (if code = 403 then ''403'' else if code = 202 then ''202'' else statusText code)"

definition blocked_by :: "string \<Rightarrow> string \<Rightarrow> waf_detection" where
  "blocked_by vendor reason = \<lparr>wd_Vendor = vendor, wd_Blocked = True, wd_Reason = reason\<rparr>"

definition not_blocked :: waf_detection where
  "not_blocked = \<lparr>wd_Vendor = [], wd_Blocked = False, wd_Reason = []\<rparr>"

text \<open>The loop over the cookies: the first cookie with a marker decides.\<close>

fun cookie_verdict :: "string \<Rightarrow> string list \<Rightarrow> waf_detection option" where
  "cookie_verdict label [] = None"
| "cookie_verdict label (c # cs) =
     (let cl = to_lower c in
      if str_contains cl ''akaalb_'' then Some (blocked_by ''akamai'' (''akaalb_ cookie on '' @ label))
      else if str_contains cl ''_abck='' \<or> has_prefix cl ''_abck=''
        then Some (blocked_by ''akamai'' (''_abck (Bot Manager session) cookie on '' @ label))
      else if str_contains cl ''bm_sz='' \<or> has_prefix cl ''bm_sz=''
        then Some (blocked_by ''akamai'' (''bm_sz (Bot Manager sensor) cookie on '' @ label))
      else cookie_verdict label cs)"

fun timing_verdict :: "string \<Rightarrow> string list \<Rightarrow> waf_detection option" where
  "timing_verdict label [] = None"
| "timing_verdict label (st # sts) =
     (if str_contains (to_lower st) ''ak_p;'' then Some (blocked_by ''akamai'' (''Server-Timing ak_p marker on '' @ label))
      else timing_verdict label sts)"

definition DetectWAF :: "(int \<Rightarrow> string) \<Rightarrow> int \<Rightarrow> headers \<Rightarrow> string \<Rightarrow> waf_detection" where
  "DetectWAF statusText statusCode hs bodySample =
     (let blocking = isBlockingStatus statusCode; label = statusLabel statusText statusCode;
          serverLower = to_lower (header_get hs ''Server'');
          tiny = (if blocking \<and> 0 < length bodySample \<and> length bodySample < 500
                  then blocked_by ''generic'' (''tiny body on '' @ label) else not_blocked)
      in if trim_space (header_get hs ''Cf-Mitigated'') \<noteq> [] \<and> blocking
         then blocked_by ''cloudflare'' (''cf-mitigated header present on '' @ label)
         else if str_contains bodySample ''_Incapsula_Resource''
         then blocked_by ''imperva'' ''_Incapsula_Resource marker in response body''
         else if header_get hs ''Server'' \<noteq> [] \<and> str_contains serverLower ''datadome''
         then blocked_by ''datadome'' ''Server: DataDome''
         else if header_get hs ''Server'' \<noteq> [] \<and> blocking \<and> str_contains serverLower ''akamaighost''
         then blocked_by ''akamai'' (''Server: AkamaiGHost on '' @ label)
         else if blocking
         then (case cookie_verdict label (header_values hs ''Set-Cookie'') of
                 Some v \<Rightarrow> v
               | None \<Rightarrow> (case timing_verdict label (header_values hs ''Server-Timing'') of Some v \<Rightarrow> v | None \<Rightarrow> tiny))
         else tiny)"

section \<open>The signals\<close>

text \<open>The signals of the documentation, with the vendor each one names.\<close>

datatype signal = CfMitigated | IncapsulaBody | DataDomeServer | AkamaiServer | AkamaiCookie | AkamaiTiming | TinyBody

definition akamai_cookie :: "string \<Rightarrow> bool" where
  "akamai_cookie c \<longleftrightarrow> list_ex (str_contains (to_lower c)) [''akaalb_'', ''_abck='', ''bm_sz='']"

fun fires :: "int \<Rightarrow> headers \<Rightarrow> string \<Rightarrow> signal \<Rightarrow> bool" where
  "fires code hs body CfMitigated \<longleftrightarrow> isBlockingStatus code \<and> trim_space (header_get hs ''Cf-Mitigated'') \<noteq> []"
| "fires code hs body IncapsulaBody \<longleftrightarrow> str_contains body ''_Incapsula_Resource''"
| "fires code hs body DataDomeServer \<longleftrightarrow> str_contains (to_lower (header_get hs ''Server'')) ''datadome''"
| "fires code hs body AkamaiServer \<longleftrightarrow> isBlockingStatus code \<and> str_contains (to_lower (header_get hs ''Server'')) ''akamaighost''"
| "fires code hs body AkamaiCookie \<longleftrightarrow> isBlockingStatus code \<and> list_ex akamai_cookie (header_values hs ''Set-Cookie'')"
| "fires code hs body AkamaiTiming \<longleftrightarrow>
     isBlockingStatus code \<and> list_ex (\<lambda>st. str_contains (to_lower st) ''ak_p;'') (header_values hs ''Server-Timing'')"
| "fires code hs body TinyBody \<longleftrightarrow> isBlockingStatus code \<and> 0 < length body \<and> length body < 500"

fun signal_vendor :: "signal \<Rightarrow> string" where
  "signal_vendor CfMitigated = ''cloudflare''"
| "signal_vendor IncapsulaBody = ''imperva''"
| "signal_vendor DataDomeServer = ''datadome''"
| "signal_vendor TinyBody = ''generic''"
| "signal_vendor _ = ''akamai''"

definition signals :: "signal list" where
  "signals = [CfMitigated, IncapsulaBody, DataDomeServer, AkamaiServer, AkamaiCookie, AkamaiTiming, TinyBody]"

lemma prefix_contains: "has_prefix s t \<Longrightarrow> str_contains s t"
  by (cases s) (auto simp: has_prefix_def str_contains_def)

lemma cookie_none: "cookie_verdict l cs = None \<longleftrightarrow> \<not> list_ex akamai_cookie cs"
  by (induction cs) (auto simp: akamai_cookie_def Let_def dest: prefix_contains)

lemma cookie_some: "cookie_verdict l cs = Some v \<Longrightarrow> wd_Blocked v \<and> wd_Vendor v = ''akamai''"
  by (induction cs) (auto simp: blocked_by_def Let_def split: if_splits)

lemma timing_none: "timing_verdict l sts = None \<longleftrightarrow> \<not> list_ex (\<lambda>st. str_contains (to_lower st) ''ak_p;'') sts"
  by (induction sts) auto

lemma timing_some: "timing_verdict l sts = Some v \<Longrightarrow> wd_Blocked v \<and> wd_Vendor v = ''akamai''"
  by (induction sts) (auto simp: blocked_by_def split: if_splits)

lemma no_server: "\<not> str_contains (to_lower []) (c # cs)"
  by (simp add: to_lower_def str_contains_def)

lemma server_signal:
  assumes "p \<noteq> []"
  shows "header_get hs ''Server'' \<noteq> [] \<and> str_contains (to_lower (header_get hs ''Server'')) p \<longleftrightarrow>
    str_contains (to_lower (header_get hs ''Server'')) p"
  using assms no_server by (cases p) auto

lemma str_contains_middle: "str_contains (a @ p @ b) p"
proof (induction a)
  case Nil
  have "has_prefix (p @ b) p" by (simp add: has_prefix_def)
  then show ?case by (cases "p @ b") (auto simp: str_contains_def)
qed (simp add: str_contains_def)

text \<open>The routine by the signals.\<close>

lemma DetectWAF_fires:
  fixes st code hs body
  defines "l \<equiv> statusLabel st code" and "fire \<equiv> fires code hs body"
  shows "DetectWAF st code hs body =
    (if fire CfMitigated then blocked_by ''cloudflare'' (''cf-mitigated header present on '' @ l)
     else if fire IncapsulaBody then blocked_by ''imperva'' ''_Incapsula_Resource marker in response body''
     else if fire DataDomeServer then blocked_by ''datadome'' ''Server: DataDome''
     else if fire AkamaiServer then blocked_by ''akamai'' (''Server: AkamaiGHost on '' @ l)
     else if fire AkamaiCookie then the (cookie_verdict l (header_values hs ''Set-Cookie''))
     else if fire AkamaiTiming then the (timing_verdict l (header_values hs ''Server-Timing''))
     else if fire TinyBody then blocked_by ''generic'' (''tiny body on '' @ l)
     else not_blocked)"
proof -
  have d: "header_get hs ''Server'' \<noteq> [] \<and> str_contains (to_lower (header_get hs ''Server'')) ''datadome'' \<longleftrightarrow> fire DataDomeServer"
    by (simp only: server_signal [of "''datadome''"] fire_def fires.simps list.simps not_False_eq_True)
  have a: "header_get hs ''Server'' \<noteq> [] \<and> isBlockingStatus code \<and> str_contains (to_lower (header_get hs ''Server'')) ''akamaighost'' \<longleftrightarrow> fire AkamaiServer"
    using server_signal [of "''akamaighost''" hs] unfolding fire_def fires.simps by blast
  have cf: "trim_space (header_get hs ''Cf-Mitigated'') \<noteq> [] \<and> isBlockingStatus code \<longleftrightarrow> fire CfMitigated"
    unfolding fire_def fires.simps by blast
  have b: "str_contains body ''_Incapsula_Resource'' \<longleftrightarrow> fire IncapsulaBody" unfolding fire_def fires.simps ..
  have t: "isBlockingStatus code \<and> 0 < length body \<and> length body < 500 \<longleftrightarrow> fire TinyBody" unfolding fire_def fires.simps ..
  show ?thesis
  proof (cases "isBlockingStatus code")
    case True
    have c: "fire AkamaiCookie \<longleftrightarrow> cookie_verdict l (header_values hs ''Set-Cookie'') \<noteq> None"
      unfolding fire_def fires.simps cookie_none using True by blast
    have s: "fire AkamaiTiming \<longleftrightarrow> timing_verdict l (header_values hs ''Server-Timing'') \<noteq> None"
      unfolding fire_def fires.simps timing_none using True by blast
    show ?thesis unfolding DetectWAF_def Let_def l_def [symmetric] cf b d a t if_P [OF True]
      by (cases "cookie_verdict l (header_values hs ''Set-Cookie'')"; cases "timing_verdict l (header_values hs ''Server-Timing'')")
         (simp_all only: c s option.case option.sel if_True if_False simp_thms option.distinct)
  next
    case False
    then have "\<not> fire AkamaiCookie" "\<not> fire AkamaiTiming" "\<not> fire TinyBody" unfolding fire_def fires.simps by blast+
    then show ?thesis unfolding DetectWAF_def Let_def l_def [symmetric] cf b d a t if_not_P [OF False]
      by (simp only: if_False)
  qed
qed

text \<open>C28: the verdict is that of the first signal of the documented list that fires, and there is none when
  no signal fires.\<close>

theorem waf_first_signal:
  "case find (fires code hs body) signals of
     None \<Rightarrow> DetectWAF st code hs body = not_blocked
   | Some s \<Rightarrow> wd_Blocked (DetectWAF st code hs body) \<and> wd_Vendor (DetectWAF st code hs body) = signal_vendor s"
proof -
  have c: "wd_Blocked (the (cookie_verdict l cs)) \<and> wd_Vendor (the (cookie_verdict l cs)) = ''akamai''"
    if "list_ex akamai_cookie cs" for l cs
    using that cookie_none [of l cs] cookie_some [of l cs] by auto
  have t: "wd_Blocked (the (timing_verdict l cs)) \<and> wd_Vendor (the (timing_verdict l cs)) = ''akamai''"
    if "list_ex (\<lambda>st. str_contains (to_lower st) ''ak_p;'') cs" for l cs
    using that timing_none [of l cs] timing_some [of l cs] by auto
  have "fires code hs body AkamaiCookie \<Longrightarrow> list_ex akamai_cookie (header_values hs ''Set-Cookie'')"
    "fires code hs body AkamaiTiming \<Longrightarrow> list_ex (\<lambda>st. str_contains (to_lower st) ''ak_p;'') (header_values hs ''Server-Timing'')"
    by simp_all
  then show ?thesis unfolding DetectWAF_fires signals_def find.simps
    using c t by (simp add: blocked_by_def del: fires.simps)
qed

text \<open>a response with another status than 403 and 202 is taken for a block as well, although the
  documentation rules it out: the marker of Imperva in the body and the server name of DataDome are asked
  for whatever the status is.\<close>

theorem waf_flags_any_status:
  "wd_Blocked (DetectWAF st 200 [] (a @ ''_Incapsula_Resource'' @ b)) \<and>
   wd_Vendor (DetectWAF st 200 [] (a @ ''_Incapsula_Resource'' @ b)) = ''imperva''"
proof -
  have "fires 200 [] (a @ ''_Incapsula_Resource'' @ b) IncapsulaBody"
    unfolding fires.simps by (rule str_contains_middle)
  moreover have "\<not> fires 200 [] (a @ ''_Incapsula_Resource'' @ b) CfMitigated" by (simp add: isBlockingStatus_def)
  ultimately show ?thesis unfolding DetectWAF_fires by (simp add: blocked_by_def del: fires.simps)
qed

end
