(* ===== verification/Db_Organisations.thy ===== *)
theory Db_Organisations
  imports Jobs_Create "HOL-Library.List_Lexorder" "HOL-Library.Char_ord"
begin

text \<open>
  \<open>internal/db/users.go\<close> and \<open>internal/db/organisations.go\<close>: users, organisations, memberships with
  their roles, and invitations.  Statements are numbered as in \<open>Db_Execute\<close>; one that fails is not
  applied.  Names and addresses are bytes, and letters are the ASCII ones.
\<close>

section \<open>Tables\<close>

record user_row =
  us_ID :: string
  us_Email :: string
  us_FirstName :: "string option"
  us_LastName :: "string option"
  us_FullName :: "string option"
  us_OrganisationID :: "string option"
  us_ActiveOrganisationID :: "string option"
  us_WebhookToken :: "string option"

record organisation =
  og_ID :: string
  og_Name :: string
  og_CreatedAt :: time
  og_PlanID :: string

text \<open>\<open>organisation_members\<close>, keyed by user and organisation.\<close>

record membership =
  mb_UserID :: string
  mb_OrganisationID :: string
  mb_Role :: string
  mb_CreatedAt :: time

record invite =
  iv_ID :: string
  iv_OrganisationID :: string
  iv_Email :: string
  iv_Role :: string
  iv_Token :: string
  iv_CreatedBy :: string
  iv_CreatedAt :: time
  iv_ExpiresAt :: time
  iv_AcceptedAt :: "time option"
  iv_RevokedAt :: "time option"

record plan =
  pl_ID :: string
  pl_Name :: string
  pl_DisplayName :: string
  pl_DailyPageLimit :: int
  pl_MonthlyPriceCents :: int
  pl_IsActive :: bool
  pl_SortOrder :: int

record usage_row =
  ur_OrganisationID :: string
  ur_Day :: int
  ur_PagesProcessed :: int
  ur_JobsCreated :: int

record tenants =
  tn_users :: "user_row list"
  tn_organisations :: "organisation list"
  tn_members :: "membership list"
  tn_invites :: "invite list"
  tn_plans :: "plan list"
  tn_usage :: "usage_row list"

text \<open>One statement: an error of the database comes back with a prefix; the text of an error that the code
  makes itself is its own.\<close>

definition ask :: "nat \<Rightarrow> string \<Rightarrow> (tenants \<Rightarrow> go_error + 'a) \<Rightarrow> ('a, tenants) tx" where
  "ask i pfx g F d = (case F i of Some e \<Rightarrow> (Inl (wrap pfx e), d) | None \<Rightarrow> (g d, d))"

definition tell :: "nat \<Rightarrow> string \<Rightarrow> (tenants \<Rightarrow> (go_error + 'a) \<times> tenants) \<Rightarrow> ('a, tenants) tx" where
  "tell i pfx g F d = (case F i of Some e \<Rightarrow> (Inl (wrap pfx e), d) | None \<Rightarrow> g d)"

text \<open>A transaction of several statements, with the numbers of its beginning and its commit.\<close>

definition atomically :: "nat \<Rightarrow> string \<Rightarrow> nat \<Rightarrow> string \<Rightarrow> ('a, tenants) tx \<Rightarrow> ('a, tenants) tx" where
  "atomically i startText k commitText m F d =
     (case F i of
        Some e \<Rightarrow> (Inl (wrap startText e), d)
      | None \<Rightarrow>
          (case m F d of
             (Inl e, d') \<Rightarrow> (Inl e, d)
           | (Inr x, d') \<Rightarrow> (case F k of Some e \<Rightarrow> (Inl (wrap commitText e), d) | None \<Rightarrow> (Inr x, d'))))"

definition found :: "string \<Rightarrow> 'a option \<Rightarrow> go_error + 'a" where
  "found message x = (case x of None \<Rightarrow> Inl (plain_error message) | Some y \<Rightarrow> Inr y)"

section \<open>Users\<close>

definition ErrUserNotFound :: go_error where
  "ErrUserNotFound = plain_error ''user not found''"

definition ErrDuplicateOrganisationName :: go_error where
  "ErrDuplicateOrganisationName = plain_error ''an organisation with that name already exists''"

definition user_by_id :: "string \<Rightarrow> tenants \<Rightarrow> user_row option" where
  "user_by_id userID d = find (\<lambda>u. us_ID u = userID) (tn_users d)"

definition GetUser :: "nat \<Rightarrow> string \<Rightarrow> (user_row, tenants) tx" where
  "GetUser i userID = ask i ''failed to get user: '' (\<lambda>d. found ''user not found'' (user_by_id userID d))"

definition GetUserByWebhookToken :: "nat \<Rightarrow> string \<Rightarrow> (user_row, tenants) tx" where
  "GetUserByWebhookToken i token =
     ask i ''failed to get user by webhook token: '' (\<lambda>d. found ''user not found'' (find (\<lambda>u. us_WebhookToken u = Some token) (tn_users d)))"

definition personalProviders :: "string list" where
  "personalProviders = [''gmail.com'', ''googlemail.com'', ''outlook.com'', ''hotmail.com'', ''live.com'', ''yahoo.com'', ''ymail.com'',
     ''icloud.com'', ''me.com'', ''mac.com'', ''protonmail.com'', ''proton.me'', ''aol.com'', ''zoho.com'', ''fastmail.com'']"

definition upper_char :: "char \<Rightarrow> char" where
  "upper_char c = (let n = of_char c :: nat in if 97 \<le> n \<and> n \<le> 122 then char_of (n - 32) else c)"

text \<open>What lies before and behind the last \<open>@\<close>.\<close>

definition split_email :: "string \<Rightarrow> (string \<times> string) option" where
  "split_email email =
     (if CHR ''@'' \<notin> set email then None
      else let d = rev (takeWhile (\<lambda>c. c \<noteq> CHR ''@'') (rev email)) in
           Some (take (length email - length d - 1) email, d))"

definition capitalise :: "string \<Rightarrow> string" where
  "capitalise s = (case s of [] \<Rightarrow> [] | c # cs \<Rightarrow> upper_char c # cs)"

text \<open>\<open>strings.FieldsFunc\<close>: the runs of characters that are not separators.\<close>

fun fields_by :: "(char \<Rightarrow> bool) \<Rightarrow> string \<Rightarrow> string \<Rightarrow> string list" where
  "fields_by sep acc [] = (if acc = [] then [] else [rev acc])"
| "fields_by sep acc (c # cs) =
     (if sep c then (if acc = [] then [] else [rev acc]) @ fields_by sep [] cs else fields_by sep (c # acc) cs)"

fun join_dots :: "string list \<Rightarrow> string" where
  "join_dots [] = []"
| "join_dots [p] = p"
| "join_dots (p # ps) = p @ ''.'' @ join_dots ps"

definition titleCaseEmailPrefix :: "string \<Rightarrow> string" where
  "titleCaseEmailPrefix s =
     (if s = [] then []
      else join_dots (map (\<lambda>p. case p of [] \<Rightarrow> [] | c # cs \<Rightarrow> upper_char c # to_lower cs)
             (fields_by (\<lambda>c. c \<in> {CHR ''.'', CHR ''-'', CHR ''_''}) [] s)))"

definition orgSuffixes :: "string list" where
  "orgSuffixes = [''.com.au'', ''.co.uk'', ''.co.nz'', ''.com'', ''.co'', ''.net'', ''.org'', ''.io'', ''.ai'', ''.dev'']"

definition strip_suffix :: "string \<Rightarrow> string" where
  "strip_suffix s = (case find (has_suffix s) orgSuffixes of None \<Rightarrow> s | Some x \<Rightarrow> trim_suffix s x)"

definition deriveOrganisationName :: "string \<Rightarrow> string option \<Rightarrow> string" where
  "deriveOrganisationName email fullName =
     (let named = (\<lambda>fallback. case fullName of Some n \<Rightarrow> if n \<noteq> [] then n else fallback | None \<Rightarrow> fallback) in
      case split_email email of
        None \<Rightarrow> named ''Personal Organisation''
      | Some (emailPrefix, rest) \<Rightarrow>
          let domain = to_lower rest in
          if domain = [] then named (titleCaseEmailPrefix emailPrefix @ '' Organisation'')
          else if domain \<in> set personalProviders then named (titleCaseEmailPrefix emailPrefix @ '' Organisation'')
          else capitalise (strip_suffix domain))"

definition isBusinessEmail :: "string \<Rightarrow> bool" where
  "isBusinessEmail email =
     (case split_email email of None \<Rightarrow> False | Some (_, rest) \<Rightarrow> to_lower rest \<notin> set personalProviders)"

section \<open>Organisations\<close>

definition GetOrganisationByName :: "nat \<Rightarrow> string \<Rightarrow> (organisation, tenants) tx" where
  "GetOrganisationByName i name =
     ask i ''failed to get organisation by name: ''
       (\<lambda>d. found ''organisation not found'' (find (\<lambda>org. to_lower (og_Name org) = to_lower name) (tn_organisations d)))"

definition GetOrganisation :: "nat \<Rightarrow> string \<Rightarrow> (organisation, tenants) tx" where
  "GetOrganisation i organisationID =
     ask i ''failed to get organisation: ''
       (\<lambda>d. found ''organisation not found'' (find (\<lambda>org. og_ID org = organisationID) (tn_organisations d)))"

text \<open>A new organisation has the plan of the column's default, \<open>get_free_plan_id()\<close>.\<close>

definition insert_organisation :: "time \<Rightarrow> string \<Rightarrow> string \<Rightarrow> tenants \<Rightarrow> (go_error + organisation) \<times> tenants" where
  "insert_organisation now i name d =
     (let org = \<lparr>og_ID = i, og_Name = name, og_CreatedAt = now, og_PlanID = (case find (\<lambda>p. pl_Name p = ''free'') (tn_plans d) of Some p \<Rightarrow> pl_ID p | None \<Rightarrow> [])\<rparr> in
      (Inr org, d\<lparr>tn_organisations := tn_organisations d @ [org]\<rparr>))"

definition CreateOrganisation :: "nat \<Rightarrow> time \<Rightarrow> string \<Rightarrow> string \<Rightarrow> (organisation, tenants) tx" where
  "CreateOrganisation i now uuid name = tell i ''failed to create organisation: '' (insert_organisation now uuid name)"

definition same_member :: "string \<Rightarrow> string \<Rightarrow> membership \<Rightarrow> bool" where
  "same_member userID organisationID m \<longleftrightarrow> mb_UserID m = userID \<and> mb_OrganisationID m = organisationID"

text \<open>\<open>INSERT ... ON CONFLICT (user_id, organisation_id) DO UPDATE SET role\<close>.\<close>

definition put_member :: "time \<Rightarrow> string \<Rightarrow> string \<Rightarrow> string \<Rightarrow> tenants \<Rightarrow> (go_error + unit) \<times> tenants" where
  "put_member now userID organisationID role d =
     (Inr (), if list_ex (same_member userID organisationID) (tn_members d)
              then d\<lparr>tn_members := map (\<lambda>m. if same_member userID organisationID m then m\<lparr>mb_Role := role\<rparr> else m) (tn_members d)\<rparr>
              else d\<lparr>tn_members := tn_members d @
                     [\<lparr>mb_UserID = userID, mb_OrganisationID = organisationID, mb_Role = role, mb_CreatedAt = now\<rparr>]\<rparr>)"

definition put_active :: "string \<Rightarrow> string \<Rightarrow> tenants \<Rightarrow> tenants" where
  "put_active userID organisationID d =
     d\<lparr>tn_users := map (\<lambda>u. if us_ID u = userID then u\<lparr>us_ActiveOrganisationID := Some organisationID\<rparr> else u) (tn_users d)\<rparr>"

definition owns_name :: "string \<Rightarrow> string \<Rightarrow> tenants \<Rightarrow> bool" where
  "owns_name userID name d \<longleftrightarrow>
     list_ex (\<lambda>org. to_lower (og_Name org) = to_lower name \<and> list_ex (same_member userID (og_ID org)) (tn_members d)) (tn_organisations d)"

definition CreateOrganisationForUser :: "nat \<Rightarrow> time \<Rightarrow> string \<Rightarrow> string \<Rightarrow> string \<Rightarrow> (organisation, tenants) tx" where
  "CreateOrganisationForUser i now uuid userID name =
     atomically i ''failed to start transaction: '' (i + 6) ''failed to commit organisation creation: ''
       (tx_bind (ask (i + 1) ''failed to lock user row: '' (\<lambda>d. case user_by_id userID d of
                   None \<Rightarrow> Inl (wrap ''failed to lock user row: '' no_rows) | Some u \<Rightarrow> Inr u)) (\<lambda>u.
        tx_bind (ask (i + 2) ''failed to check duplicate organisation name: '' (\<lambda>d. Inr (owns_name userID name d))) (\<lambda>exists.
        if exists then tx_fail ErrDuplicateOrganisationName
        else tx_bind (tell (i + 3) ''failed to create organisation: '' (insert_organisation now uuid name)) (\<lambda>org.
             tx_bind (tell (i + 4) ''failed to add organisation member: '' (put_member now userID uuid ''admin'')) (\<lambda>v.
             tx_bind (tell (i + 5) ''failed to set active organisation: '' (\<lambda>d. (Inr (), put_active userID uuid d))) (\<lambda>v.
             tx_return org))))))"

definition GetOrganisationMembers :: "nat \<Rightarrow> string \<Rightarrow> (user_row list, tenants) tx" where
  "GetOrganisationMembers i organisationID =
     ask i ''failed to get organisation members: '' (\<lambda>d. Inr (List.map_filter (\<lambda>m. user_by_id (mb_UserID m) d)
       (sort_key mb_CreatedAt (filter (\<lambda>m. mb_OrganisationID m = organisationID) (tn_members d)))))"

text \<open>A failure to look up the name is taken for there being no such organisation.\<close>

definition or_none :: "('a, tenants) tx \<Rightarrow> ('a option, tenants) tx" where
  "or_none m F d = (case m F d of (Inl e, d') \<Rightarrow> (Inr None, d') | (Inr x, d') \<Rightarrow> (Inr (Some x), d'))"

definition new_user :: "string \<Rightarrow> string \<Rightarrow> string option \<Rightarrow> string option \<Rightarrow> string option \<Rightarrow> string \<Rightarrow> user_row" where
  "new_user userID email firstName lastName fullName orgID =
     \<lparr>us_ID = userID, us_Email = email, us_FirstName = firstName, us_LastName = lastName, us_FullName = fullName,
      us_OrganisationID = Some orgID, us_ActiveOrganisationID = Some orgID, us_WebhookToken = None\<rparr>"

definition create_user_tx :: "nat \<Rightarrow> time \<Rightarrow> string \<Rightarrow> string \<Rightarrow> string \<Rightarrow> string option \<Rightarrow> string option \<Rightarrow> string option \<Rightarrow> string
    \<Rightarrow> (user_row \<times> organisation option, tenants) tx" where
  "create_user_tx i now uuid userID email firstName lastName fullName orgName =
     atomically i ''failed to start transaction: '' (i + 5) ''failed to commit transaction: ''
       (tx_bind (if isBusinessEmail email then or_none (GetOrganisationByName (i + 1) orgName) else tx_return None) (\<lambda>existing.
        tx_bind (case existing of
                   Some org \<Rightarrow> tx_return (org, ''member'')
                 | None \<Rightarrow> tx_bind (tell (i + 2) ''failed to create organisation: '' (insert_organisation now uuid orgName)) (\<lambda>org.
                            tx_return (org, ''admin''))) (\<lambda>(org, role).
        let u = new_user userID email firstName lastName fullName (og_ID org) in
        tx_bind (tell (i + 3) ''failed to create user: '' (\<lambda>d. (Inr (), d\<lparr>tn_users := tn_users d @ [u]\<rparr>))) (\<lambda>v.
        tx_bind (tell (i + 4) ''failed to add organisation membership: '' (put_member now userID (og_ID org) role)) (\<lambda>v.
        tx_return (u, Some org))))))"

definition CreateUser :: "nat \<Rightarrow> time \<Rightarrow> string \<Rightarrow> string \<Rightarrow> string \<Rightarrow> string option \<Rightarrow> string option \<Rightarrow> string option \<Rightarrow> string
    \<Rightarrow> (user_row \<times> organisation option, tenants) tx" where
  "CreateUser i now uuid userID email firstName lastName fullName orgName F d =
     (case GetUser i userID F d of
        (Inr u, d1) \<Rightarrow>
          (case us_OrganisationID u of
             None \<Rightarrow> (Inr (u, None), d1)
           | Some orgID \<Rightarrow> tx_bind (tx_wrap (''failed to get existing user's organisation '' @ orgID @ '': '') (GetOrganisation (i + 1) orgID))
                              (\<lambda>org. tx_return (u, Some org)) F d1)
      | (Inl e, d1) \<Rightarrow>
          if e \<noteq> ErrUserNotFound then (Inl (wrap ''failed to look up user before create: '' e), d1)
          else create_user_tx (i + 2) now uuid userID email firstName lastName fullName orgName F d1)"

definition GetOrCreateUser :: "nat \<Rightarrow> time \<Rightarrow> string \<Rightarrow> string \<Rightarrow> string \<Rightarrow> string option \<Rightarrow> (user_row, tenants) tx" where
  "GetOrCreateUser i now uuid userID email fullName F d =
     (case GetUser i userID F d of
        (Inr u, d1) \<Rightarrow> (Inr u, d1)
      | (Inl e, d1) \<Rightarrow>
          if e \<noteq> ErrUserNotFound then (Inl (wrap ''failed to look up user before auto-create: '' e), d1)
          else tx_bind (tx_wrap ''failed to auto-create user: ''
                  (CreateUser (i + 1) now uuid userID email None None fullName (deriveOrganisationName email fullName)))
                 (\<lambda>(u, org). tx_return u) F d1)"

definition ListUserOrganisations :: "nat \<Rightarrow> string \<Rightarrow> (organisation list, tenants) tx" where
  "ListUserOrganisations i userID =
     ask i ''failed to list user organisations: ''
       (\<lambda>d. Inr (sort_key og_Name (filter (\<lambda>org. list_ex (same_member userID (og_ID org)) (tn_members d)) (tn_organisations d))))"

definition ValidateOrganisationMembership :: "nat \<Rightarrow> string \<Rightarrow> string \<Rightarrow> (bool, tenants) tx" where
  "ValidateOrganisationMembership i userID organisationID =
     ask i ''failed to validate organisation membership: '' (\<lambda>d. Inr (list_ex (same_member userID organisationID) (tn_members d)))"

definition SetActiveOrganisation :: "nat \<Rightarrow> string \<Rightarrow> string \<Rightarrow> (unit, tenants) tx" where
  "SetActiveOrganisation i userID organisationID =
     tx_bind (ValidateOrganisationMembership i userID organisationID) (\<lambda>isMember.
     if \<not> isMember then tx_fail (plain_error ''user is not a member of organisation'')
     else tell (i + 1) ''failed to set active organisation: '' (\<lambda>d.
            if user_by_id userID d = None then (Inl (plain_error ''user not found''), d)
            else (Inr (), put_active userID organisationID d)))"

definition UpdateUserNames :: "nat \<Rightarrow> string \<Rightarrow> string option \<Rightarrow> string option \<Rightarrow> string option \<Rightarrow> (unit, tenants) tx" where
  "UpdateUserNames i userID firstName lastName fullName =
     tell i ''failed to update user names: '' (\<lambda>d.
       if user_by_id userID d = None then (Inl (plain_error ''user not found''), d)
       else (Inr (), d\<lparr>tn_users := map (\<lambda>u. if us_ID u = userID
                then u\<lparr>us_FirstName := firstName, us_LastName := lastName, us_FullName := fullName\<rparr> else u) (tn_users d)\<rparr>))"

definition AddOrganisationMember :: "nat \<Rightarrow> time \<Rightarrow> string \<Rightarrow> string \<Rightarrow> string \<Rightarrow> (unit, tenants) tx" where
  "AddOrganisationMember i now userID organisationID role0 =
     (let role1 = trim_space (to_lower role0); role = (if role1 = [] then ''member'' else role1) in
      if role \<noteq> ''admin'' \<and> role \<noteq> ''member'' then tx_fail (plain_error (''invalid role: '' @ role))
      else tell i ''failed to add organisation member: '' (put_member now userID organisationID role))"

definition GetEffectiveOrganisationID :: "user_row \<Rightarrow> string" where
  "GetEffectiveOrganisationID u =
     (case us_ActiveOrganisationID u of
        Some a \<Rightarrow> if a \<noteq> [] then a else (case us_OrganisationID u of Some g \<Rightarrow> g | None \<Rightarrow> [])
      | None \<Rightarrow> (case us_OrganisationID u of Some g \<Rightarrow> g | None \<Rightarrow> []))"

definition GetActivePlans :: "nat \<Rightarrow> (plan list, tenants) tx" where
  "GetActivePlans i = ask i ''failed to get active plans: '' (\<lambda>d. Inr (sort_key pl_SortOrder (filter pl_IsActive (tn_plans d))))"

section \<open>Members and invitations\<close>

definition GetOrganisationMemberRole :: "nat \<Rightarrow> string \<Rightarrow> string \<Rightarrow> (string, tenants) tx" where
  "GetOrganisationMemberRole i userID organisationID =
     ask i ''failed to fetch organisation role: ''
       (\<lambda>d. found ''organisation member not found'' (map_option mb_Role (find (same_member userID organisationID) (tn_members d))))"

definition ListOrganisationMembers :: "nat \<Rightarrow> string \<Rightarrow> ((user_row \<times> membership) list, tenants) tx" where
  "ListOrganisationMembers i organisationID =
     ask i ''failed to list organisation members: '' (\<lambda>d. Inr (List.map_filter (\<lambda>m. map_option (\<lambda>u. (u, m)) (user_by_id (mb_UserID m) d))
       (sort_key mb_CreatedAt (filter (\<lambda>m. mb_OrganisationID m = organisationID) (tn_members d)))))"

definition IsOrganisationMemberEmail :: "nat \<Rightarrow> string \<Rightarrow> string \<Rightarrow> (bool, tenants) tx" where
  "IsOrganisationMemberEmail i organisationID email =
     ask i ''failed to check organisation member email: '' (\<lambda>d. Inr (list_ex (\<lambda>m. mb_OrganisationID m = organisationID \<and>
       (case user_by_id (mb_UserID m) d of None \<Rightarrow> False | Some u \<Rightarrow> to_lower (us_Email u) = to_lower email)) (tn_members d)))"

definition RemoveOrganisationMember :: "nat \<Rightarrow> string \<Rightarrow> string \<Rightarrow> (unit, tenants) tx" where
  "RemoveOrganisationMember i userID organisationID =
     tell i ''failed to remove organisation member: '' (\<lambda>d.
       if list_ex (same_member userID organisationID) (tn_members d)
       then (Inr (), d\<lparr>tn_members := filter (\<lambda>m. \<not> same_member userID organisationID m) (tn_members d)\<rparr>)
       else (Inl (plain_error ''organisation member not found''), d))"

definition UpdateOrganisationMemberRole :: "nat \<Rightarrow> string \<Rightarrow> string \<Rightarrow> string \<Rightarrow> (unit, tenants) tx" where
  "UpdateOrganisationMemberRole i userID organisationID role0 =
     (let role = trim_space (to_lower role0) in
      if role \<noteq> ''admin'' \<and> role \<noteq> ''member'' then tx_fail (plain_error (''invalid role: '' @ role))
      else tell i ''failed to update organisation member role: '' (\<lambda>d.
             if list_ex (same_member userID organisationID) (tn_members d)
             then (Inr (), d\<lparr>tn_members := map (\<lambda>m. if same_member userID organisationID m then m\<lparr>mb_Role := role\<rparr> else m) (tn_members d)\<rparr>)
             else (Inl (plain_error ''organisation member not found''), d)))"

definition admins :: "string \<Rightarrow> tenants \<Rightarrow> membership list" where
  "admins organisationID d = filter (\<lambda>m. mb_OrganisationID m = organisationID \<and> mb_Role m = ''admin'') (tn_members d)"

definition CountOrganisationAdmins :: "nat \<Rightarrow> string \<Rightarrow> (nat, tenants) tx" where
  "CountOrganisationAdmins i organisationID =
     ask i ''failed to count organisation admins: '' (\<lambda>d. Inr (length (admins organisationID d)))"

definition invite_pending :: "invite \<Rightarrow> bool" where
  "invite_pending v \<longleftrightarrow> iv_AcceptedAt v = None \<and> iv_RevokedAt v = None"

text \<open>The unique index on pending invitations; its name is in the text of the error.\<close>

definition pending_conflict :: go_error where
  "pending_conflict = \<lparr>ge_text = ''ERROR: duplicate key value violates unique constraint organisation_invites_unique_pending (SQLSTATE 23505)'',
     ge_kind = PgError ''23505''\<rparr>"

definition CreateOrganisationInvite :: "nat \<Rightarrow> time \<Rightarrow> string \<Rightarrow> invite \<Rightarrow> (invite, tenants) tx" where
  "CreateOrganisationInvite i now uuid v =
     tell i ''failed to create organisation invite: '' (\<lambda>d.
       let row = v\<lparr>iv_ID := uuid, iv_Email := to_lower (iv_Email v), iv_CreatedAt := now, iv_AcceptedAt := None, iv_RevokedAt := None\<rparr> in
       if list_ex (\<lambda>w. invite_pending w \<and> iv_OrganisationID w = iv_OrganisationID v \<and> to_lower (iv_Email w) = to_lower (iv_Email v)) (tn_invites d)
       then (Inl (wrap ''failed to create organisation invite: '' pending_conflict), d)
       else (Inr (v\<lparr>iv_ID := uuid, iv_CreatedAt := now\<rparr>), d\<lparr>tn_invites := tn_invites d @ [row]\<rparr>))"

definition ListOrganisationInvites :: "nat \<Rightarrow> string \<Rightarrow> (invite list, tenants) tx" where
  "ListOrganisationInvites i organisationID =
     ask i ''failed to list organisation invites: '' (\<lambda>d. Inr (sort_key (\<lambda>v. - iv_CreatedAt v)
       (filter (\<lambda>v. iv_OrganisationID v = organisationID \<and> invite_pending v) (tn_invites d))))"

definition RevokeOrganisationInvite :: "nat \<Rightarrow> time \<Rightarrow> string \<Rightarrow> string \<Rightarrow> (unit, tenants) tx" where
  "RevokeOrganisationInvite i now inviteID organisationID =
     tell i ''failed to revoke organisation invite: '' (\<lambda>d.
       let hit = (\<lambda>v. iv_ID v = inviteID \<and> iv_OrganisationID v = organisationID \<and> invite_pending v) in
       if list_ex hit (tn_invites d)
       then (Inr (), d\<lparr>tn_invites := map (\<lambda>v. if hit v then v\<lparr>iv_RevokedAt := Some now\<rparr> else v) (tn_invites d)\<rparr>)
       else (Inl (plain_error ''invite not found or already processed''), d))"

definition GetOrganisationInviteByToken :: "nat \<Rightarrow> string \<Rightarrow> (invite, tenants) tx" where
  "GetOrganisationInviteByToken i token =
     ask i ''failed to fetch invite: '' (\<lambda>d. found ''invite not found'' (find (\<lambda>v. iv_Token v = token) (tn_invites d)))"

definition AcceptOrganisationInvite :: "nat \<Rightarrow> time \<Rightarrow> string \<Rightarrow> string \<Rightarrow> (invite, tenants) tx" where
  "AcceptOrganisationInvite i now token userID =
     atomically i ''failed to start invite transaction: '' (i + 4) ''failed to commit invite acceptance: ''
       (tx_bind (GetOrganisationInviteByToken (i + 1) token) (\<lambda>v.
        if iv_AcceptedAt v \<noteq> None then tx_fail (plain_error ''invite already accepted'')
        else if iv_RevokedAt v \<noteq> None then tx_fail (plain_error ''invite has been revoked'')
        else if iv_ExpiresAt v < now then tx_fail (plain_error ''invite has expired'')
        else tx_bind (tell (i + 2) ''failed to add organisation member: '' (put_member now userID (iv_OrganisationID v) (iv_Role v))) (\<lambda>u.
             tx_bind (tell (i + 3) ''failed to accept invite: '' (\<lambda>d. (Inr (),
               d\<lparr>tn_invites := map (\<lambda>w. if iv_ID w = iv_ID v then w\<lparr>iv_AcceptedAt := Some now\<rparr> else w) (tn_invites d)\<rparr>))) (\<lambda>u.
             tx_return v))))"

section \<open>Plans and usage\<close>

definition SetOrganisationPlan :: "nat \<Rightarrow> string \<Rightarrow> string \<Rightarrow> (unit, tenants) tx" where
  "SetOrganisationPlan i organisationID planID =
     tell i ''failed to update organisation plan: '' (\<lambda>d.
       let hit = (\<lambda>org. og_ID org = organisationID \<and> list_ex (\<lambda>p. pl_ID p = planID \<and> pl_IsActive p) (tn_plans d)) in
       if list_ex hit (tn_organisations d)
       then (Inr (), d\<lparr>tn_organisations := map (\<lambda>org. if hit org then org\<lparr>og_PlanID := planID\<rparr> else org) (tn_organisations d)\<rparr>)
       else (Inl (plain_error ''plan not found or not active''), d))"

definition GetOrganisationPlanID :: "nat \<Rightarrow> string \<Rightarrow> (string, tenants) tx" where
  "GetOrganisationPlanID i organisationID =
     ask i ''failed to fetch organisation plan: ''
       (\<lambda>d. found ''organisation not found'' (map_option og_PlanID (find (\<lambda>org. og_ID org = organisationID) (tn_organisations d))))"

definition ListDailyUsage :: "nat \<Rightarrow> string \<Rightarrow> int \<Rightarrow> int \<Rightarrow> (usage_row list, tenants) tx" where
  "ListDailyUsage i organisationID startDay endDay =
     ask i ''failed to list daily usage: '' (\<lambda>d. Inr (sort_key (\<lambda>r. - ur_Day r)
       (filter (\<lambda>r. ur_OrganisationID r = organisationID \<and> startDay \<le> ur_Day r \<and> ur_Day r \<le> endDay) (tn_usage d))))"

end
