(* ===== verification/Api_Organisations.thy ===== *)
theory Api_Organisations
  imports Db_Organisations
begin

text \<open>
  \<open>internal/api/organisations.go\<close> with \<open>GetActiveOrganisation\<close> of \<open>internal/api/handlers.go\<close>: the
  requests on organisations, their members, invitations and plans.  A handler is a run of statements that
  ends in a reply; the body of a request arrives decoded, \<open>None\<close> when it is not valid JSON.  A handler is
  served without another in between; only for the changes of members are the checks and the write also
  separate steps, which two requests can interleave.  The lemmas show who may change what, when an
  organisation keeps an administrator, and where it can lose its last one.
\<close>

section \<open>Requests and replies\<close>

record claims =
  cl_UserID :: string
  cl_Email :: string

datatype delivery = Sent | NotConfigured | SendFailed

datatype payload =
    Organisations "organisation list" "string option"
  | OneOrganisation organisation
  | Members "(membership \<times> string) list" string string
  | MemberRemoved string
  | RoleUpdated string string
  | Preview invite string string
  | InviteRevoked string
  | InviteAccepted string string bool
  | PlanSet string
  | History int "usage_row list"
  | Invites "invite list"
  | InviteCreated invite delivery
  | Plans "plan list"

datatype http =
    Success payload
  | Created payload
  | BadRequest string
  | Unauthorised string
  | Forbidden string
  | NotFound string
  | MethodNotAllowed
  | InternalError go_error

type_synonym handler = "faults \<Rightarrow> tenants \<Rightarrow> http \<times> tenants"

text \<open>The clock, fresh keys, the parser of mail addresses, and what happens to an invitation mail.\<close>

record api_env =
  ax_now :: time
  ax_today :: int
  ax_uuid :: "nat \<Rightarrow> string"
  ax_address :: "string \<Rightarrow> string option"
  ax_delivery :: delivery

definition respond :: "http \<Rightarrow> handler" where
  "respond h F d = (h, d)"

definition attempt_or :: "('a, tenants) tx \<Rightarrow> (go_error \<Rightarrow> http) \<Rightarrow> ('a \<Rightarrow> handler) \<Rightarrow> handler" where
  "attempt_or m h k F d = (case m F d of (Inl e, d') \<Rightarrow> (h e, d') | (Inr x, d') \<Rightarrow> k x F d')"

definition with_claims :: "claims option \<Rightarrow> (claims \<Rightarrow> handler) \<Rightarrow> handler" where
  "with_claims cl k = (case cl of None \<Rightarrow> respond (Unauthorised ''User information not found'') | Some c \<Rightarrow> k c)"

definition with_body :: "'b option \<Rightarrow> ('b \<Rightarrow> handler) \<Rightarrow> handler" where
  "with_body body k = (case body of None \<Rightarrow> respond (BadRequest ''Invalid JSON request body'') | Some b \<Rightarrow> k b)"

text \<open>Statements 0 to 8.\<close>

definition current_user :: "api_env \<Rightarrow> claims \<Rightarrow> (user_row, tenants) tx" where
  "current_user E c = GetOrCreateUser 0 (ax_now E) (ax_uuid E 0) (cl_UserID c) (cl_Email c) None"

definition GetActiveOrganisation :: "api_env \<Rightarrow> claims option \<Rightarrow> (claims \<Rightarrow> string \<Rightarrow> handler) \<Rightarrow> handler" where
  "GetActiveOrganisation E cl k =
     with_claims cl (\<lambda>c.
     attempt_or (current_user E c) InternalError (\<lambda>u.
     let orgID = GetEffectiveOrganisationID u in
     if orgID = [] then respond (BadRequest ''User must belong to an organisation'') else k c orgID))"

text \<open>Statement 9.\<close>

definition requireOrganisationAdmin :: "string \<Rightarrow> string \<Rightarrow> handler \<Rightarrow> handler" where
  "requireOrganisationAdmin orgID userID k =
     attempt_or (GetOrganisationMemberRole 9 userID orgID) (\<lambda>e. Forbidden ''Not a member of this organisation'') (\<lambda>role.
     if role \<noteq> ''admin'' then respond (Forbidden ''Organisation administrator access required'') else k)"

definition as_admin :: "api_env \<Rightarrow> claims option \<Rightarrow> (claims \<Rightarrow> string \<Rightarrow> handler) \<Rightarrow> handler" where
  "as_admin E cl k = GetActiveOrganisation E cl (\<lambda>c orgID. requireOrganisationAdmin orgID (cl_UserID c) (k c orgID))"

section \<open>Organisations\<close>

definition listUserOrganisations :: "api_env \<Rightarrow> claims option \<Rightarrow> handler" where
  "listUserOrganisations E cl =
     with_claims cl (\<lambda>c.
     attempt_or (current_user E c) InternalError (\<lambda>u.
     attempt_or (ListUserOrganisations 10 (cl_UserID c)) InternalError (\<lambda>orgs.
     respond (Success (Organisations orgs (us_ActiveOrganisationID u))))))"

definition createOrganisation :: "api_env \<Rightarrow> claims option \<Rightarrow> string option \<Rightarrow> handler" where
  "createOrganisation E cl body =
     with_claims cl (\<lambda>c. with_body body (\<lambda>reqName.
     let name = trim_space reqName in
     if name = [] then respond (BadRequest ''name is required'')
     else if length name > 100 then respond (BadRequest ''name must be 100 characters or fewer'')
     else attempt_or (CreateOrganisationForUser 0 (ax_now E) (ax_uuid E 0) (cl_UserID c) name)
            (\<lambda>e. if e = ErrDuplicateOrganisationName then BadRequest ''An organisation with that name already exists'' else InternalError e)
            (\<lambda>org. respond (Success (OneOrganisation org)))))"

definition switchOrganisation :: "claims option \<Rightarrow> string option \<Rightarrow> handler" where
  "switchOrganisation cl body =
     with_claims cl (\<lambda>c. with_body body (\<lambda>orgID.
     if orgID = [] then respond (BadRequest ''organisation_id is required'')
     else attempt_or (ValidateOrganisationMembership 0 (cl_UserID c) orgID) InternalError (\<lambda>valid.
          if \<not> valid then respond (Forbidden ''Not a member of this organisation'')
          else attempt_or (SetActiveOrganisation 1 (cl_UserID c) orgID) InternalError (\<lambda>u.
               attempt_or (GetOrganisation 3 orgID) InternalError (\<lambda>org.
               respond (Success (OneOrganisation org)))))))"

definition PlansHandler :: "string \<Rightarrow> handler" where
  "PlansHandler method =
     (if method \<noteq> ''GET'' then respond MethodNotAllowed
      else attempt_or (GetActivePlans 0) InternalError (\<lambda>plans. respond (Success (Plans plans))))"

section \<open>Members\<close>

definition composeFullName :: "string option \<Rightarrow> string option \<Rightarrow> string option" where
  "composeFullName firstName lastName =
     (let parts = (case firstName of Some f \<Rightarrow> [trim_space f] | None \<Rightarrow> []) @ (case lastName of Some l \<Rightarrow> [trim_space l] | None \<Rightarrow> []);
          joined = trim_space (case parts of [] \<Rightarrow> [] | [p] \<Rightarrow> p | p # q # _ \<Rightarrow> p @ '' '' @ q)
      in if joined = [] then None else Some joined)"

definition full_name :: "user_row \<Rightarrow> string option" where
  "full_name u = (case us_FullName u of Some n \<Rightarrow> if trim_space n \<noteq> [] then Some (trim_space n) else None | None \<Rightarrow> None)"

definition display_name :: "user_row \<Rightarrow> string" where
  "display_name u =
     (case full_name u of
        Some n \<Rightarrow> n
      | None \<Rightarrow>
          (case composeFullName (us_FirstName u) (us_LastName u) of
             Some n \<Rightarrow> n
           | None \<Rightarrow>
               let email = trim_space (us_Email u) in
               (case str_index email ''@'' of Some at0 \<Rightarrow> if 0 < at0 then take at0 email else email | None \<Rightarrow> email)))"

definition OrganisationMembersHandler :: "api_env \<Rightarrow> claims option \<Rightarrow> string \<Rightarrow> handler" where
  "OrganisationMembersHandler E cl method =
     (if method \<noteq> ''GET'' then respond MethodNotAllowed
      else GetActiveOrganisation E cl (\<lambda>c orgID.
           attempt_or (GetOrCreateUser 10 (ax_now E) (ax_uuid E 1) (cl_UserID c) (cl_Email c) None) InternalError (\<lambda>u.
           attempt_or (ListOrganisationMembers 20 orgID) InternalError (\<lambda>members.
           attempt_or (GetOrganisationMemberRole 21 (cl_UserID c) orgID) (\<lambda>e. Forbidden ''Not a member of this organisation'') (\<lambda>role.
           respond (Success (Members (map (\<lambda>(u, m). (m, display_name u)) members) (cl_UserID c) role)))))))"

definition members_path :: string where
  "members_path = ''/v1/organisations/members/''"

definition last_admin :: "string \<Rightarrow> handler \<Rightarrow> handler" where
  "last_admin orgID k =
     attempt_or (CountOrganisationAdmins 11 orgID) InternalError (\<lambda>n.
     if n \<le> 1 then respond (Forbidden ''Organisation must have at least one admin'') else k)"

definition remove_member :: "string \<Rightarrow> string \<Rightarrow> handler" where
  "remove_member memberID orgID =
     attempt_or (RemoveOrganisationMember 12 memberID orgID) InternalError (\<lambda>u. respond (Success (MemberRemoved memberID)))"

text \<open>A handler up to its last statement, which writes: \<open>write\<close> gets what it is to write.  The statements are
  not in one transaction, so other requests may run before the write.\<close>

definition checked_delete :: "(string \<Rightarrow> string \<Rightarrow> handler) \<Rightarrow> api_env \<Rightarrow> claims option \<Rightarrow> string \<Rightarrow> handler" where
  "checked_delete write E cl path =
     as_admin E cl (\<lambda>c orgID.
     let memberID = trim_prefix path members_path in
     if memberID = [] then respond (BadRequest ''member ID is required'')
     else attempt_or (GetOrganisationMemberRole 10 memberID orgID) (\<lambda>e. BadRequest ''Member not found'') (\<lambda>memberRole.
          if memberRole = ''admin'' then last_admin orgID (write memberID orgID) else write memberID orgID))"

definition deleteOrganisationMember :: "api_env \<Rightarrow> claims option \<Rightarrow> string \<Rightarrow> handler" where
  "deleteOrganisationMember = checked_delete remove_member"

definition update_role :: "string \<Rightarrow> string \<Rightarrow> string \<Rightarrow> handler" where
  "update_role memberID orgID role =
     attempt_or (UpdateOrganisationMemberRole 12 memberID orgID role) InternalError (\<lambda>u. respond (Success (RoleUpdated memberID role)))"

definition checked_role_change :: "(string \<Rightarrow> string \<Rightarrow> string \<Rightarrow> handler) \<Rightarrow> api_env \<Rightarrow> claims option \<Rightarrow> string \<Rightarrow> string option \<Rightarrow> handler" where
  "checked_role_change write E cl path body =
     as_admin E cl (\<lambda>c orgID.
     let memberID = trim_prefix path members_path in
     if memberID = [] then respond (BadRequest ''member ID is required'')
     else if memberID = cl_UserID c then respond (BadRequest ''You cannot change your own role'')
     else with_body body (\<lambda>reqRole.
          let role = trim_space (to_lower reqRole) in
          if role \<noteq> ''admin'' \<and> role \<noteq> ''member'' then respond (BadRequest ''role must be admin or member'')
          else attempt_or (GetOrganisationMemberRole 10 memberID orgID) (\<lambda>e. BadRequest ''Member not found'') (\<lambda>memberRole.
               if memberRole = ''admin'' \<and> role \<noteq> ''admin'' then last_admin orgID (write memberID orgID role)
               else write memberID orgID role)))"

definition updateOrganisationMemberRole :: "api_env \<Rightarrow> claims option \<Rightarrow> string \<Rightarrow> string option \<Rightarrow> handler" where
  "updateOrganisationMemberRole = checked_role_change update_role"

definition OrganisationMemberHandler :: "api_env \<Rightarrow> claims option \<Rightarrow> string \<Rightarrow> string \<Rightarrow> string option \<Rightarrow> handler" where
  "OrganisationMemberHandler E cl method path body =
     (if method = ''PATCH'' then updateOrganisationMemberRole E cl path body
      else if method = ''DELETE'' then deleteOrganisationMember E cl path
      else respond MethodNotAllowed)"

text \<open>The same request as two steps.  The checks answer with a refusal or with the write that is still to be
  made; \<open>member_race\<close> serves two requests, both of which make their checks before either writes.\<close>

datatype pending_write = Remove string string | SetRole string string string

type_synonym checks = "faults \<Rightarrow> tenants \<Rightarrow> (http + pending_write) \<times> tenants"

text \<open>\<open>noted\<close> turns the reply of a handler that only notes its write into the outcome of the checks.\<close>

definition noted :: "string \<Rightarrow> http \<Rightarrow> http + pending_write" where
  "noted orgID h =
     (case h of
        Success (MemberRemoved m) \<Rightarrow> Inr (Remove m orgID)
      | Success (RoleUpdated m role) \<Rightarrow> Inr (SetRole m orgID role)
      | _ \<Rightarrow> Inl h)"

definition active_org :: "api_env \<Rightarrow> claims option \<Rightarrow> faults \<Rightarrow> tenants \<Rightarrow> string" where
  "active_org E cl F d =
     (case cl of
        None \<Rightarrow> []
      | Some c \<Rightarrow> (case fst (current_user E c F d) of Inl e \<Rightarrow> [] | Inr u \<Rightarrow> GetEffectiveOrganisationID u))"

definition member_checks :: "api_env \<Rightarrow> claims option \<Rightarrow> string \<Rightarrow> string \<Rightarrow> string option \<Rightarrow> checks" where
  "member_checks E cl method path body F d =
     (case (if method = ''PATCH'' then checked_role_change (\<lambda>m g role. respond (Success (RoleUpdated m role))) E cl path body
            else if method = ''DELETE'' then checked_delete (\<lambda>m g. respond (Success (MemberRemoved m))) E cl path
            else respond MethodNotAllowed) F d of
        (h, d1) \<Rightarrow> (noted (active_org E cl F d) h, d1))"

definition member_write :: "http + pending_write \<Rightarrow> handler" where
  "member_write x =
     (case x of
        Inl h \<Rightarrow> respond h
      | Inr (Remove m g) \<Rightarrow> remove_member m g
      | Inr (SetRole m g role) \<Rightarrow> update_role m g role)"

definition member_race :: "checks \<Rightarrow> checks \<Rightarrow> faults \<Rightarrow> faults \<Rightarrow> tenants \<Rightarrow> (http \<times> http) \<times> tenants" where
  "member_race check1 check2 F1 F2 d =
     (let (x1, d1) = check1 F1 d; (x2, d2) = check2 F2 d1;
          (h1, d3) = member_write x1 F1 d2; (h2, d4) = member_write x2 F2 d3
      in ((h1, h2), d4))"

section \<open>Invitations\<close>

definition OrganisationInvitePreviewHandler :: "api_env \<Rightarrow> string \<Rightarrow> string \<Rightarrow> handler" where
  "OrganisationInvitePreviewHandler E method tokenParam =
     (let token = trim_space tokenParam in
      if method \<noteq> ''GET'' then respond MethodNotAllowed
      else if token = [] then respond (BadRequest ''token is required'')
      else attempt_or (GetOrganisationInviteByToken 0 token) (\<lambda>e. NotFound ''Invite not found'') (\<lambda>v.
           if iv_AcceptedAt v \<noteq> None \<or> iv_RevokedAt v \<noteq> None \<or> iv_ExpiresAt v < ax_now E
           then respond (BadRequest ''Invite is no longer valid'')
           else attempt_or (GetOrganisation 1 (iv_OrganisationID v)) InternalError (\<lambda>org.
                attempt_or (or_none (if iv_CreatedBy v = [] then tx_fail ErrUserNotFound else GetUser 2 (iv_CreatedBy v))) InternalError (\<lambda>inviter.
                respond (Success (Preview v (og_Name org)
                  (case inviter of
                     None \<Rightarrow> ''a team member''
                   | Some u \<Rightarrow>
                       (case full_name u of
                          Some n \<Rightarrow> n
                        | None \<Rightarrow>
                            (case composeFullName (us_FirstName u) (us_LastName u) of
                               Some n \<Rightarrow> trim_space n
                             | None \<Rightarrow> if trim_space (us_Email u) \<noteq> [] then trim_space (us_Email u) else ''a team member'')))))))))"

definition OrganisationInviteHandler :: "api_env \<Rightarrow> claims option \<Rightarrow> string \<Rightarrow> string \<Rightarrow> handler" where
  "OrganisationInviteHandler E cl method path =
     (if method \<noteq> ''DELETE'' then respond MethodNotAllowed
      else as_admin E cl (\<lambda>c orgID.
           let inviteID = trim_prefix path ''/v1/organisations/invites/'' in
           if inviteID = [] then respond (BadRequest ''invite ID is required'')
           else attempt_or (RevokeOrganisationInvite 10 (ax_now E) inviteID orgID) InternalError (\<lambda>u.
                respond (Success (InviteRevoked inviteID)))))"

text \<open>The organisation of the invitation becomes the active one; when that fails the reply says so and
  \<open>retryActive\<close> goes on in the background.\<close>

definition OrganisationInviteAcceptHandler :: "api_env \<Rightarrow> claims option \<Rightarrow> string \<Rightarrow> string option \<Rightarrow> handler" where
  "OrganisationInviteAcceptHandler E cl method body =
     (if method \<noteq> ''POST'' then respond MethodNotAllowed
      else with_claims cl (\<lambda>c. with_body body (\<lambda>token.
           if token = [] then respond (BadRequest ''token is required'')
           else attempt_or (current_user E c) InternalError (\<lambda>u.
                attempt_or (AcceptOrganisationInvite 10 (ax_now E) token (cl_UserID c)) (\<lambda>e. BadRequest (ge_text e)) (\<lambda>v.
                attempt_or (or_none (SetActiveOrganisation 15 (cl_UserID c) (iv_OrganisationID v))) InternalError (\<lambda>done.
                respond (Success (InviteAccepted (iv_OrganisationID v) (iv_Role v) (done \<noteq> None)))))))))"

text \<open>The faults of the three further attempts.\<close>

fun retryActive :: "string \<Rightarrow> string \<Rightarrow> faults list \<Rightarrow> tenants \<Rightarrow> tenants" where
  "retryActive userID orgID [] d = d"
| "retryActive userID orgID (F # Fs) d =
     (case SetActiveOrganisation 0 userID orgID F d of
        (Inl e, d') \<Rightarrow> retryActive userID orgID Fs d'
      | (Inr u, d') \<Rightarrow> d')"

definition OrganisationPlanHandler :: "api_env \<Rightarrow> claims option \<Rightarrow> string \<Rightarrow> string option \<Rightarrow> handler" where
  "OrganisationPlanHandler E cl method body =
     (if method \<noteq> ''PUT'' then respond MethodNotAllowed
      else as_admin E cl (\<lambda>c orgID. with_body body (\<lambda>planID.
           if planID = [] then respond (BadRequest ''plan_id is required'')
           else attempt_or (SetOrganisationPlan 10 orgID planID) (\<lambda>e. BadRequest (ge_text e)) (\<lambda>u.
                respond (Success (PlanSet planID))))))"

definition UsageHistoryHandler :: "api_env \<Rightarrow> claims option \<Rightarrow> string \<Rightarrow> string \<Rightarrow> handler" where
  "UsageHistoryHandler E cl method queryDays =
     (if method \<noteq> ''GET'' then respond MethodNotAllowed
      else GetActiveOrganisation E cl (\<lambda>c orgID.
           let days = (if queryDays = [] then 30
                       else case atoi queryDays of Some n \<Rightarrow> if 0 < n \<and> n \<le> 365 then n else 30 | None \<Rightarrow> 30)
           in attempt_or (ListDailyUsage 10 orgID (ax_today E - (days - 1)) (ax_today E)) InternalError (\<lambda>entries.
              respond (Success (History days entries)))))"

definition listOrganisationInvites :: "api_env \<Rightarrow> claims option \<Rightarrow> handler" where
  "listOrganisationInvites E cl =
     as_admin E cl (\<lambda>c orgID.
     attempt_or (ListOrganisationInvites 10 orgID) InternalError (\<lambda>invites.
     respond (Success (Invites invites))))"

definition invite_validity :: time where
  "invite_validity = 7 * 24 * 3600 * second"

definition createOrganisationInvite :: "api_env \<Rightarrow> claims option \<Rightarrow> (string \<times> string) option \<Rightarrow> handler" where
  "createOrganisationInvite E cl body =
     as_admin E cl (\<lambda>c orgID.
     attempt_or (GetOrganisation 10 orgID) InternalError (\<lambda>org. with_body body (\<lambda>(reqEmail, reqRole).
     let email0 = trim_space (to_lower reqEmail); role1 = trim_space (to_lower reqRole);
         role = (if role1 = [] then ''member'' else role1)
     in if email0 = [] then respond (BadRequest ''Valid email is required'')
        else case ax_address E email0 of
          None \<Rightarrow> respond (BadRequest ''Valid email is required'')
        | Some address \<Rightarrow>
            let email = (if address = [] then email0 else address) in
            if role \<noteq> ''admin'' \<and> role \<noteq> ''member'' then respond (BadRequest ''Role must be admin or member'')
            else attempt_or (IsOrganisationMemberEmail 11 orgID email) InternalError (\<lambda>isMember.
                 if isMember then respond (BadRequest ''User is already a member of this organisation'')
                 else attempt_or (CreateOrganisationInvite 12 (ax_now E) (ax_uuid E 2)
                        \<lparr>iv_ID = [], iv_OrganisationID = orgID, iv_Email = email, iv_Role = role, iv_Token = ax_uuid E 3,
                         iv_CreatedBy = cl_UserID c, iv_CreatedAt = 0, iv_ExpiresAt = ax_now E + invite_validity,
                         iv_AcceptedAt = None, iv_RevokedAt = None\<rparr>)
                        (\<lambda>e. if str_contains (ge_text e) ''organisation_invites_unique_pending''
                            then BadRequest ''Invite already pending for this email'' else InternalError e)
                        (\<lambda>v. respond (Created (InviteCreated v (ax_delivery E))))))))"

section \<open>Accepting an invitation\<close>

lemma run_ask: "F i = None \<Longrightarrow> ask i s g F d = (g d, d)"
  by (simp add: ask_def)

lemma run_tell: "F i = None \<Longrightarrow> tell i s g F d = g d"
  by (simp add: tell_def)

lemma find_map_same:
  assumes "\<And>x. P (f x) = P x"
  shows "find P (map f xs) = map_option f (find P xs)"
  using assms by (induction xs) auto

definition accepted_row :: "time \<Rightarrow> invite \<Rightarrow> invite \<Rightarrow> invite" where
  "accepted_row now v w = (if iv_ID w = iv_ID v then w\<lparr>iv_AcceptedAt := Some now\<rparr> else w)"

lemma accept_result:
  assumes "AcceptOrganisationInvite i now token userID F d = (Inr v, d')"
  shows "find (\<lambda>v. iv_Token v = token) (tn_invites d) = Some v \<and> invite_pending v \<and> now \<le> iv_ExpiresAt v \<and>
    d' = (snd (put_member now userID (iv_OrganisationID v) (iv_Role v) d))\<lparr>tn_invites := map (accepted_row now v) (tn_invites d)\<rparr>"
proof -
  have inv: "put_member a b c e d = (r, x) \<Longrightarrow> tn_invites x = tn_invites d" for a b c e r x by (auto simp: put_member_def)
  show ?thesis using assms
    by (auto simp: AcceptOrganisationInvite_def atomically_def tx_bind_def GetOrganisationInviteByToken_def ask_def tell_def found_def
        tx_fail_def tx_return_def invite_pending_def accepted_row_def [abs_def] split: option.splits if_splits prod.splits sum.splits dest!: inv)
qed

lemma put_member_role:
  "find (same_member userID orgID) (tn_members (snd (put_member now userID orgID role d))) =
    (case find (same_member userID orgID) (tn_members d) of
       Some m \<Rightarrow> Some (m\<lparr>mb_Role := role\<rparr>)
     | None \<Rightarrow> Some \<lparr>mb_UserID = userID, mb_OrganisationID = orgID, mb_Role = role, mb_CreatedAt = now\<rparr>)"
proof (cases "list_ex (same_member userID orgID) (tn_members d)")
  case True
  then obtain m where m: "find (same_member userID orgID) (tn_members d) = Some m"
    by (cases "find (same_member userID orgID) (tn_members d)") (auto simp: find_None_iff list_ex_iff)
  then have "same_member userID orgID m" by (auto simp: find_Some_iff)
  then show ?thesis using True m by (simp add: put_member_def find_map_same same_member_def)
next
  case False
  then have "find (same_member userID orgID) (tn_members d) = None" by (auto simp: find_None_iff list_ex_iff)
  moreover have "find P (xs @ [x]) = Some x" if "find P xs = None" "P x" for P x and xs :: "membership list"
    using that by (induction xs) (auto split: if_splits)
  ultimately show ?thesis using False by (simp add: put_member_def same_member_def)
qed

text \<open>an invitation is accepted only while it is open, gives the user exactly the role it names, and is
  used up: whoever comes with the token later is refused and changes nothing.\<close>

theorem invite_accepted_once:
  assumes "AcceptOrganisationInvite i now token userID F d = (Inr v, d')"
  shows "invite_pending v \<and> iv_Token v = token \<and> now \<le> iv_ExpiresAt v \<and>
    (\<exists>m. find (same_member userID (iv_OrganisationID v)) (tn_members d') = Some m \<and> mb_Role m = iv_Role v) \<and>
    (\<forall>k later other G. \<exists>e. AcceptOrganisationInvite k later token other G d' = (Inl e, d'))"
proof -
  note r = accept_result [OF assms]
  have tok: "iv_Token v = token" using r by (auto simp: find_Some_iff)
  have "find (\<lambda>w. iv_Token w = token) (tn_invites d') = Some (accepted_row now v v)"
    using r by (simp add: find_map_same accepted_row_def)
  then have used: "find (\<lambda>w. iv_Token w = token) (tn_invites d') = Some (v\<lparr>iv_AcceptedAt := Some now\<rparr>)" by (simp add: accepted_row_def)
  have "\<exists>e. AcceptOrganisationInvite k later token other G d' = (Inl e, d')" for k later other G
    by (auto simp: AcceptOrganisationInvite_def atomically_def tx_bind_def GetOrganisationInviteByToken_def ask_def found_def used
        tx_fail_def split: option.splits)
  moreover have "\<exists>m. find (same_member userID (iv_OrganisationID v)) (tn_members d') = Some m \<and> mb_Role m = iv_Role v"
    using r put_member_role [of userID "iv_OrganisationID v" now "iv_Role v" d] by (auto split: option.splits)
  ultimately show ?thesis using r tok by blast
qed

text \<open>C37: accepting an invitation can leave an organisation without an administrator.  The role of the
  invitation overwrites that of a member, and neither the address of the invitation nor the number of
  administrators is looked at: the only administrator who opens a link made for somebody else becomes an ordinary
  member, and nobody can undo that.\<close>

theorem accept_demotes_last_admin:
  assumes "find (\<lambda>v. iv_Token v = token) (tn_invites d) = Some v" "invite_pending v" "now \<le> iv_ExpiresAt v"
    and "iv_Role v = ''member''" "admins (iv_OrganisationID v) d = [m]" "mb_UserID m = userID"
  shows "\<exists>d'. AcceptOrganisationInvite i now token userID (\<lambda>k. None) d = (Inr v, d') \<and> admins (iv_OrganisationID v) d' = []"
proof -
  let ?org = "iv_OrganisationID v"
  let ?d1 = "snd (put_member now userID ?org ''member'' d)"
  have m: "m \<in> set (tn_members d)" "same_member userID ?org m"
    using assms(5,6) by (auto simp: admins_def same_member_def filter_eq_Cons_iff)
  have only: "x = m" if "x \<in> set (tn_members d)" "mb_OrganisationID x = ?org" "mb_Role x = ''admin''" for x
  proof -
    have "x \<in> set (admins ?org d)" using that by (simp add: admins_def)
    then show ?thesis using assms(5) by simp
  qed
  have ex: "list_ex (same_member userID ?org) (tn_members d)" using m by (auto simp: list_ex_iff)
  then have d1: "tn_members ?d1 = map (\<lambda>x. if same_member userID ?org x then x\<lparr>mb_Role := ''member''\<rparr> else x) (tn_members d)"
    by (simp add: put_member_def)
  have "admins ?org ?d1 = []" unfolding admins_def d1 filter_empty_conv
    using only m(2) by (auto simp: same_member_def)
  moreover have "AcceptOrganisationInvite i now token userID (\<lambda>k. None) d =
      (Inr v, ?d1\<lparr>tn_invites := map (\<lambda>w. if iv_ID w = iv_ID v then w\<lparr>iv_AcceptedAt := Some now\<rparr> else w) (tn_invites ?d1)\<rparr>)"
    using assms(1-4) by (simp add: AcceptOrganisationInvite_def atomically_def tx_bind_def GetOrganisationInviteByToken_def run_ask run_tell
        found_def invite_pending_def tx_return_def put_member_def)
  ultimately show ?thesis by (auto simp: admins_def)
qed

section \<open>Signing up\<close>

text \<open>C39: whoever signs up with a business address joins the organisation whose name is derived from the
  domain.  Domains that differ behind the name give the same name, so that a stranger becomes a member of an
  organisation without an invitation, and works in it from the first request.\<close>

theorem same_name_joins:
  assumes "isBusinessEmail email" "user_by_id userID d = None"
    and "find (\<lambda>g. to_lower (og_Name g) = to_lower (deriveOrganisationName email None)) (tn_organisations d) = Some org"
    and "og_ID org \<noteq> []"
  shows "\<exists>d'. GetOrCreateUser i now uuid userID email None (\<lambda>k. None) d = (Inr (new_user userID email None None None (og_ID org)), d') \<and>
    list_ex (same_member userID (og_ID org)) (tn_members d') \<and>
    GetEffectiveOrganisationID (new_user userID email None None None (og_ID org)) = og_ID org \<and> tn_invites d' = tn_invites d"
proof -
  let ?u = "new_user userID email None None None (og_ID org)"
  let ?d1 = "d\<lparr>tn_users := tn_users d @ [?u]\<rparr>"
  let ?d' = "snd (put_member now userID (og_ID org) ''member'' ?d1)"
  have g: "GetUser k userID (\<lambda>k. None) d = (Inl ErrUserNotFound, d)" for k
    by (simp add: GetUser_def run_ask found_def assms(2) ErrUserNotFound_def)
  have n: "GetOrganisationByName k (deriveOrganisationName email None) (\<lambda>k. None) d = (Inr org, d)" for k
    by (simp add: GetOrganisationByName_def run_ask found_def assms(3))
  have "create_user_tx k now uuid userID email None None None (deriveOrganisationName email None) (\<lambda>k. None) d = (Inr (?u, Some org), ?d')" for k
    using assms(1) by (simp add: create_user_tx_def atomically_def tx_bind_def or_none_def n tx_return_def run_tell put_member_def Let_def)
  then have "GetOrCreateUser i now uuid userID email None (\<lambda>k. None) d = (Inr ?u, ?d')"
    by (simp add: GetOrCreateUser_def CreateUser_def g tx_bind_def tx_wrap_def tx_return_def)
  moreover have "list_ex (same_member userID (og_ID org)) (tn_members ?d')"
    using put_member_role [of userID "og_ID org" now "''member''" ?d1]
    by (auto simp: find_Some_iff list_ex_iff split: option.splits)
  moreover have "tn_invites ?d' = tn_invites d" by (simp add: put_member_def)
  ultimately show ?thesis using assms(4) by (auto simp: GetEffectiveOrganisationID_def new_user_def)
qed

section \<open>Who may change the members\<close>

definition current_state :: "api_env \<Rightarrow> claims \<Rightarrow> faults \<Rightarrow> tenants \<Rightarrow> tenants" where
  "current_state E c F d = snd (current_user E c F d)"

definition role_in :: "string \<Rightarrow> string \<Rightarrow> tenants \<Rightarrow> string option" where
  "role_in userID orgID d = map_option mb_Role (find (same_member userID orgID) (tn_members d))"

definition others :: "string \<Rightarrow> tenants \<Rightarrow> membership list" where
  "others orgID d = filter (\<lambda>m. mb_OrganisationID m \<noteq> orgID) (tn_members d)"

lemma as_admin_cases:
  assumes "as_admin E (Some c) k F d = (r, d')"
  obtains (refused) "d' = current_state E c F d"
  | (admitted) u orgID where "current_user E c F d = (Inr u, current_state E c F d)" "GetEffectiveOrganisationID u = orgID"
      "role_in (cl_UserID c) orgID (current_state E c F d) = Some ''admin''" "k c orgID F (current_state E c F d) = (r, d')"
proof (cases "d' = current_state E c F d")
  case False
  obtain res d1 where u: "current_user E c F d = (res, d1)" by (rule prod.exhaust)
  then have d1: "d1 = current_state E c F d" by (simp add: current_state_def)
  obtain u where res: "res = Inr u" using assms u d1 False
    by (cases res) (auto simp: as_admin_def GetActiveOrganisation_def with_claims_def attempt_or_def)
  let ?org = "GetEffectiveOrganisationID u"
  have step: "requireOrganisationAdmin ?org (cl_UserID c) (k c ?org) F d1 = (r, d')" using assms u res d1 False
    by (auto simp: as_admin_def GetActiveOrganisation_def with_claims_def attempt_or_def Let_def respond_def split: if_splits)
  obtain role where role: "GetOrganisationMemberRole 9 (cl_UserID c) ?org F d1 = (Inr role, d1)"
    using step d1 False
    by (cases "GetOrganisationMemberRole 9 (cl_UserID c) ?org F d1" rule: prod.exhaust)
       (auto simp: requireOrganisationAdmin_def attempt_or_def GetOrganisationMemberRole_def ask_def found_def split: sum.splits option.splits)
  have "role = ''admin''" "k c ?org F d1 = (r, d')" using step role d1 False
    by (auto simp: requireOrganisationAdmin_def attempt_or_def respond_def split: if_splits)
  moreover have "role_in (cl_UserID c) ?org d1 = Some role" using role
    by (auto simp: GetOrganisationMemberRole_def ask_def found_def role_in_def split: option.splits)
  ultimately show ?thesis using admitted u res d1 by blast
qed (rule refused)

lemma remove_members:
  "tn_members (snd (RemoveOrganisationMember i m g F d)) =
    (if F i = None then filter (\<lambda>x. \<not> same_member m g x) (tn_members d) else tn_members d)"
  by (auto simp: RemoveOrganisationMember_def tell_def list_ex_iff filter_id_conv split: option.splits)

lemma update_role_members:
  "tn_members (snd (UpdateOrganisationMemberRole i m g role F d)) = tn_members d \<or>
   (\<exists>r. tn_members (snd (UpdateOrganisationMemberRole i m g role F d)) =
      map (\<lambda>x. if same_member m g x then x\<lparr>mb_Role := r\<rparr> else x) (tn_members d) \<and> r = trim_space (to_lower role))"
  by (auto simp: UpdateOrganisationMemberRole_def tell_def tx_fail_def Let_def split: option.splits)

lemma others_remove: "filter (\<lambda>m. mb_OrganisationID m \<noteq> g) (filter (\<lambda>x. \<not> same_member u g x) ms) = filter (\<lambda>m. mb_OrganisationID m \<noteq> g) ms"
  by (induction ms) (auto simp: same_member_def)

lemma others_update:
  "filter (\<lambda>m. mb_OrganisationID m \<noteq> g) (map (\<lambda>x. if same_member u g x then x\<lparr>mb_Role := r\<rparr> else x) ms) =
    filter (\<lambda>m. mb_OrganisationID m \<noteq> g) ms"
  by (induction ms) (auto simp: same_member_def)

lemma attempt_or_snd:
  "snd (attempt_or m h k F d) = (case m F d of (Inl e, d1) \<Rightarrow> d1 | (Inr x, d1) \<Rightarrow> snd (k x F d1))"
  by (simp add: attempt_or_def split: prod.splits sum.splits)

lemma ask_reads: "snd (ask i s g F d) = d"
  by (simp add: ask_def split: option.splits)

lemma last_admin_snd: "snd (last_admin orgID k F d) = d \<or> (snd (last_admin orgID k F d) = snd (k F d) \<and> 1 < length (admins orgID d))"
  by (auto simp: last_admin_def attempt_or_def CountOrganisationAdmins_def ask_def respond_def split: option.splits)

lemma role_lookup:
  "snd (attempt_or (GetOrganisationMemberRole i m g) h k F d) = d \<or>
   (\<exists>role. role_in m g d = Some role \<and> snd (attempt_or (GetOrganisationMemberRole i m g) h k F d) = snd (k role F d))"
  by (auto simp: attempt_or_def GetOrganisationMemberRole_def ask_def found_def role_in_def split: option.splits)

lemma body_snd: "snd (with_body body k F d) = d \<or> (\<exists>b. body = Some b \<and> snd (with_body body k F d) = snd (k b F d))"
  by (cases body) (simp_all add: with_body_def respond_def)

lemma remove_member_snd: "snd (remove_member m g F d) = snd (RemoveOrganisationMember 12 m g F d)"
  by (simp add: remove_member_def attempt_or_snd respond_def split: prod.splits sum.splits)

lemma update_role_snd: "snd (update_role m g role F d) = snd (UpdateOrganisationMemberRole 12 m g role F d)"
  by (simp add: update_role_def attempt_or_snd respond_def split: prod.splits sum.splits)

text \<open>What a request on a member does: nothing beyond the sign-up of its user, or one change of one row of the
  organisation of an administrator, which leaves it another administrator if it takes one away.\<close>

inductive member_change :: "string \<Rightarrow> tenants \<Rightarrow> tenants \<Rightarrow> bool" for orgID d where
  removed: "role_in m orgID d \<noteq> Some ''admin'' \<or> 1 < length (admins orgID d) \<Longrightarrow>
    member_change orgID d (snd (RemoveOrganisationMember 12 m orgID F d))"
| changed: "role_in m orgID d \<noteq> Some ''admin'' \<or> role = ''admin'' \<or> 1 < length (admins orgID d) \<Longrightarrow> role \<in> {''admin'', ''member''} \<Longrightarrow>
    member_change orgID d (snd (UpdateOrganisationMemberRole 12 m orgID role F d))"

lemma delete_request:
  assumes "(let memberID = trim_prefix path members_path in
     if memberID = [] then respond (BadRequest ''member ID is required'')
     else attempt_or (GetOrganisationMemberRole 10 memberID orgID) (\<lambda>e. BadRequest ''Member not found'') (\<lambda>memberRole.
          if memberRole = ''admin'' then last_admin orgID (remove_member memberID orgID) else remove_member memberID orgID)) F d = (r, d')"
  shows "d' = d \<or> member_change orgID d d'"
proof -
  define m where "m = trim_prefix path members_path"
  let ?k = "\<lambda>memberRole. if memberRole = ''admin'' then last_admin orgID (remove_member m orgID) else remove_member m orgID"
  show ?thesis
  proof (cases "m = []")
    case False
    then have "snd (attempt_or (GetOrganisationMemberRole 10 m orgID) (\<lambda>e. BadRequest ''Member not found'') ?k F d) = d'"
      using assms unfolding m_def [symmetric] Let_def by simp
    then consider "d' = d" | role where "role_in m orgID d = Some role" "d' = snd (?k role F d)"
      using role_lookup [of 10 m orgID "\<lambda>e. BadRequest ''Member not found''" ?k F d] by blast
    then show ?thesis
    proof cases
      case 2
      then show ?thesis using last_admin_snd [of orgID "remove_member m orgID" F d] member_change.removed [of m orgID d F]
        by (cases "role = ''admin''") (auto simp: remove_member_snd)
    qed simp
  qed (use assms in \<open>simp add: respond_def m_def\<close>)
qed

lemma update_request:
  assumes "(let memberID = trim_prefix path members_path in
     if memberID = [] then respond (BadRequest ''member ID is required'')
     else if memberID = caller then respond (BadRequest ''You cannot change your own role'')
     else with_body body (\<lambda>reqRole.
          let role = trim_space (to_lower reqRole) in
          if role \<noteq> ''admin'' \<and> role \<noteq> ''member'' then respond (BadRequest ''role must be admin or member'')
          else attempt_or (GetOrganisationMemberRole 10 memberID orgID) (\<lambda>e. BadRequest ''Member not found'') (\<lambda>memberRole.
               if memberRole = ''admin'' \<and> role \<noteq> ''admin'' then last_admin orgID (update_role memberID orgID role)
               else update_role memberID orgID role))) F d = (r, d')"
  shows "d' = d \<or> member_change orgID d d'"
proof -
  define m where "m = trim_prefix path members_path"
  show ?thesis
  proof (cases "m = [] \<or> m = caller \<or> body = None")
    case False
    then obtain b where b: "body = Some b" by auto
    define role where "role = trim_space (to_lower b)"
    let ?k = "\<lambda>memberRole. if memberRole = ''admin'' \<and> role \<noteq> ''admin'' then last_admin orgID (update_role m orgID role)
      else update_role m orgID role"
    show ?thesis
    proof (cases "role = ''admin'' \<or> role = ''member''")
      case ok: True
      then have "snd (attempt_or (GetOrganisationMemberRole 10 m orgID) (\<lambda>e. BadRequest ''Member not found'') ?k F d) = d'"
        using assms False unfolding m_def [symmetric] Let_def with_body_def b option.case role_def [symmetric] by auto
      then consider "d' = d" | memberRole where "role_in m orgID d = Some memberRole" "d' = snd (?k memberRole F d)"
        using role_lookup [of 10 m orgID "\<lambda>e. BadRequest ''Member not found''" ?k F d] by blast
      then show ?thesis
      proof cases
        case 2
        then show ?thesis
          using ok last_admin_snd [of orgID "update_role m orgID role" F d] member_change.changed [of m orgID d role F]
          by (cases "memberRole = ''admin'' \<and> role \<noteq> ''admin''") (auto simp: update_role_snd)
      qed simp
    qed (use assms False b in \<open>simp add: respond_def m_def with_body_def role_def Let_def\<close>)
  qed (use assms in \<open>auto simp: respond_def m_def with_body_def Let_def split: if_splits\<close>)
qed

lemma member_request:
  assumes "OrganisationMemberHandler E (Some c) method path body F d = (r, d')"
  shows "d' = d \<or> d' = current_state E c F d \<or>
    (\<exists>u orgID. current_user E c F d = (Inr u, current_state E c F d) \<and> GetEffectiveOrganisationID u = orgID \<and>
       role_in (cl_UserID c) orgID (current_state E c F d) = Some ''admin'' \<and>
       member_change orgID (current_state E c F d) d')"
proof -
  consider (other) "d' = d"
    | (delete) "deleteOrganisationMember E (Some c) path F d = (r, d')"
    | (update) "updateOrganisationMemberRole E (Some c) path body F d = (r, d')"
    using assms by (auto simp: OrganisationMemberHandler_def respond_def split: if_splits)
  then show ?thesis
  proof cases
    case delete
    then show ?thesis unfolding deleteOrganisationMember_def checked_delete_def
      by (cases rule: as_admin_cases) (use delete_request in blast)+
  next
    case update
    then show ?thesis unfolding updateOrganisationMemberRole_def checked_role_change_def
      by (cases rule: as_admin_cases) (use update_request in blast)+
  qed blast
qed

text \<open>C16: a request on a member changes memberships only of the organisation its user is working in, and only
  when that user is an administrator of it.\<close>

theorem member_changes_guarded:
  assumes "OrganisationMemberHandler E (Some c) method path body F d = (r, d')"
    and "tn_members d' \<noteq> tn_members d" "tn_members d' \<noteq> tn_members (current_state E c F d)"
  shows "\<exists>u orgID. current_user E c F d = (Inr u, current_state E c F d) \<and> GetEffectiveOrganisationID u = orgID \<and>
    role_in (cl_UserID c) orgID (current_state E c F d) = Some ''admin'' \<and>
    others orgID d' = others orgID (current_state E c F d)"
proof -
  have "others orgID b = others orgID a" if "member_change orgID a b" for orgID a b using that
  proof (cases rule: member_change.cases)
    case (removed m G)
    then show ?thesis unfolding others_def removed(1) remove_members by (simp only: others_remove if_cancel split: if_split) simp
  next
    case (changed m role G)
    show ?thesis unfolding others_def changed(1) using update_role_members [of 12 m orgID role G a] others_update
      by (elim disjE exE conjE) (simp_all only:)
  qed
  then show ?thesis using member_request [OF assms(1)] assms(2,3) by blast
qed

section \<open>Administrators\<close>

definition tenants_ok :: "tenants \<Rightarrow> bool" where
  "tenants_ok d \<longleftrightarrow> distinct (map (\<lambda>m. (mb_UserID m, mb_OrganisationID m)) (tn_members d)) \<and>
     (\<forall>m \<in> set (tn_members d). mb_UserID m \<in> us_ID ` set (tn_users d))"

lemma one_row:
  assumes "distinct (map (\<lambda>m. (mb_UserID m, mb_OrganisationID m)) ms)"
  shows "length (filter (same_member u g) ms) \<le> 1"
proof -
  let ?ms = "filter (same_member u g) ms" and ?key = "\<lambda>m. (mb_UserID m, mb_OrganisationID m)"
  have "distinct (map ?key ?ms)" by (rule distinct_map_filter [OF assms])
  then have "length ?ms = card (set (map ?key ?ms))" using distinct_card length_map by metis
  also have "\<dots> \<le> card {(u, g)}" by (rule card_mono) (auto simp: same_member_def)
  finally show ?thesis by simp
qed

lemma role_in_row:
  assumes "tenants_ok d" "m \<in> set (tn_members d)" "same_member u g m"
  shows "role_in u g d = Some (mb_Role m)"
proof -
  obtain x where x: "find (same_member u g) (tn_members d) = Some x"
    using assms(2,3) by (cases "find (same_member u g) (tn_members d)") (auto simp: find_None_iff)
  then have "x \<in> set (tn_members d)" "same_member u g x" by (auto simp: find_Some_iff)
  then have "x = m" using assms by (auto simp: tenants_ok_def distinct_map inj_on_def same_member_def)
  then show ?thesis using x by (simp add: role_in_def)
qed

text \<open>Taking away one row leaves an administrator if the row was none or there are two.\<close>

lemma admin_left:
  assumes "tenants_ok d" "admins g d \<noteq> []" "role_in m g d \<noteq> Some ''admin'' \<or> 1 < length (admins g d)"
  shows "\<exists>x \<in> set (admins g d). \<not> same_member m g x"
proof (rule ccontr)
  assume none: "\<not> (\<exists>x \<in> set (admins g d). \<not> same_member m g x)"
  then obtain x where x: "x \<in> set (admins g d)" "same_member m g x" using assms(2) by (cases "admins g d") auto
  then have "role_in m g d = Some ''admin''" using role_in_row [OF assms(1), of x m g] by (simp add: admins_def)
  then have "1 < length (admins g d)" using assms(3) by simp
  moreover have "admins g d = filter (\<lambda>x. mb_Role x = ''admin'') (filter (same_member m g) (tn_members d))"
    using none by (auto simp: admins_def same_member_def intro!: filter_cong)
  then have "length (admins g d) \<le> length (filter (same_member m g) (tn_members d))" by (metis length_filter_le)
  ultimately show False using one_row [of "tn_members d" m g] assms(1) by (simp add: tenants_ok_def)
qed

lemma update_keys:
  "map (\<lambda>m. (mb_UserID m, mb_OrganisationID m)) (map (\<lambda>x. if same_member u g x then x\<lparr>mb_Role := r\<rparr> else x) ms) =
    map (\<lambda>m. (mb_UserID m, mb_OrganisationID m)) ms"
  by (induction ms) auto

lemma change_users: "member_change g d d' \<Longrightarrow> tn_users d' = tn_users d"
  by (induction rule: member_change.induct)
     (auto simp: RemoveOrganisationMember_def UpdateOrganisationMemberRole_def tell_def tx_fail_def Let_def split: option.splits)

lemma change_keeps_admin:
  assumes "member_change g d d'" "tenants_ok d"
  shows "tenants_ok d' \<and> (admins h d \<noteq> [] \<longrightarrow> admins h d' \<noteq> [])"
  using assms(1)
proof (cases rule: member_change.cases)
  case (removed m G)
  have ok: "tenants_ok d'" using assms(2) change_users [OF assms(1)] removed(1)
    by (auto simp: tenants_ok_def remove_members distinct_map inj_on_def)
  have "admins h d' \<noteq> []" if some: "admins h d \<noteq> []"
  proof (cases "h = g")
    case True
    then obtain x where "x \<in> set (admins g d)" "\<not> same_member m g x" using admin_left [OF assms(2) _ removed(2)] some by blast
    then have "x \<in> set (admins h d')" using True removed(1) by (simp add: admins_def remove_members)
    then show ?thesis by auto
  next
    case False
    then have "admins h d' = admins h d" using removed(1)
      by (auto simp: admins_def remove_members same_member_def intro!: filter_cong)
    then show ?thesis using some by simp
  qed
  then show ?thesis using ok by blast
next
  case (changed m role G)
  consider "tn_members d' = tn_members d"
    | "tn_members d' = map (\<lambda>x. if same_member m g x then x\<lparr>mb_Role := trim_space (to_lower role)\<rparr> else x) (tn_members d)"
    using update_role_members [of 12 m g role G d] changed(1) by auto
  then show ?thesis
  proof cases
    case 1
    then show ?thesis using assms(2) change_users [OF assms(1)] by (simp add: tenants_ok_def admins_def)
  next
    case 2
    have "trim_space (to_lower ''admin'') = ''admin''" "trim_space (to_lower ''member'') = ''member''" by code_simp+
    then have r: "trim_space (to_lower role) = role" using changed(3) by auto
    have "tenants_ok d'" using assms(2) change_users [OF assms(1)] unfolding tenants_ok_def 2 update_keys by auto
    moreover have "admins h d' \<noteq> []" if a: "admins h d \<noteq> []"
    proof -
      have "\<exists>x \<in> set (admins h d). \<not> same_member m g x \<or> role = ''admin''"
        using a admin_left [OF assms(2), of g m] changed(2) by (cases "h = g") (auto simp: admins_def same_member_def filter_empty_conv)
      then obtain x where x: "x \<in> set (tn_members d)" "mb_OrganisationID x = h" "mb_Role x = ''admin''" "\<not> same_member m g x \<or> role = ''admin''"
        by (auto simp: admins_def)
      let ?y = "if same_member m g x then x\<lparr>mb_Role := role\<rparr> else x"
      have "?y \<in> set (tn_members d')" unfolding 2 r using x(1) by auto
      then have "?y \<in> set (admins h d')" using x by (auto simp: admins_def)
      then show ?thesis by auto
    qed
    ultimately show ?thesis by blast
  qed
qed

lemma atomically_ok: "snd (atomically i s k t m F d) = d \<or> (\<exists>x. atomically i s k t m F d = (Inr x, snd (atomically i s k t m F d)))"
  by (auto simp: atomically_def split: option.splits prod.splits sum.splits)

lemma atomically_inr: "atomically i s k t m F d = (Inr x, d') \<Longrightarrow> (m F d = (Inr x, d') \<Longrightarrow> P) \<Longrightarrow> P"
  by (auto simp: atomically_def split: option.splits prod.splits sum.splits)

lemma failed_not_missing: "wrap ''failed to get user: '' e \<noteq> ErrUserNotFound"
proof
  assume "wrap ''failed to get user: '' e = ErrUserNotFound"
  then have "ge_text (wrap ''failed to get user: '' e) = ge_text ErrUserNotFound" by simp
  then show False by (simp add: ErrUserNotFound_def plain_error_def)
qed

lemma tell_ok: "tell i s g F d = (Inr x, d') \<Longrightarrow> g d = (Inr x, d')"
  by (simp add: tell_def split: option.splits)

lemma signup_members:
  assumes "tenants_ok d" "user_by_id userID d = None"
  shows "tenants_ok (snd (create_user_tx i now uuid userID email f l n g F d)) \<and>
    (admins h d \<noteq> [] \<longrightarrow> admins h (snd (create_user_tx i now uuid userID email f l n g F d)) \<noteq> [])"
proof -
  have no: "\<not> list_ex (same_member userID z) (tn_members d)" for z
    using assms by (force simp: tenants_ok_def same_member_def list_ex_iff user_by_id_def find_None_iff)
  have cases: "snd (create_user_tx i now uuid userID email f l n g F d) = d \<or>
      (\<exists>u row orgs. snd (create_user_tx i now uuid userID email f l n g F d) =
         d\<lparr>tn_organisations := orgs, tn_users := tn_users d @ [u], tn_members := tn_members d @ [row]\<rparr> \<and>
         us_ID u = userID \<and> mb_UserID row = userID)" (is "_ \<or> ?new")
  proof (cases "snd (create_user_tx i now uuid userID email f l n g F d) = d")
    case False
    define d' where "d' = snd (create_user_tx i now uuid userID email f l n g F d)"
    have "snd (create_user_tx i now uuid userID email f l n g F d) = d \<or> (\<exists>r. create_user_tx i now uuid userID email f l n g F d =
        (Inr r, snd (create_user_tx i now uuid userID email f l n g F d)))"
      unfolding create_user_tx_def by (rule atomically_ok)
    then obtain r where r: "create_user_tx i now uuid userID email f l n g F d = (Inr r, d')" using False unfolding d'_def by blast
    note body = atomically_inr [OF r [unfolded create_user_tx_def]]
    obtain ex d1 p d2 where
      1: "(if isBusinessEmail email then or_none (GetOrganisationByName (i + 1) g) else tx_return None) F d = (Inr ex, d1)"
      and 2: "(case ex of Some org \<Rightarrow> tx_return (org, ''member'')
             | None \<Rightarrow> tx_bind (tell (i + 2) ''failed to create organisation: '' (insert_organisation now uuid g)) (\<lambda>org. tx_return (org, ''admin''))) F d1 =
             (Inr p, d2)"
      and rest: "(case p of (org, role) \<Rightarrow> let u = new_user userID email f l n (og_ID org) in
        tx_bind (tell (i + 3) ''failed to create user: '' (\<lambda>d. (Inr (), d\<lparr>tn_users := tn_users d @ [u]\<rparr>))) (\<lambda>v.
        tx_bind (tell (i + 4) ''failed to add organisation membership: '' (put_member now userID (og_ID org) role)) (\<lambda>v.
        tx_return (u, Some org)))) F d2 = (Inr r, d')"
      by (rule body, erule bind_ok, erule bind_ok, rule that)
    obtain org role where p: "p = (org, role)" by (rule prod.exhaust)
    have "tx_bind (tell (i + 3) ''failed to create user: '' (\<lambda>d. (Inr (), d\<lparr>tn_users := tn_users d @ [new_user userID email f l n (og_ID org)]\<rparr>))) (\<lambda>v.
        tx_bind (tell (i + 4) ''failed to add organisation membership: '' (put_member now userID (og_ID org) role)) (\<lambda>v.
        tx_return (new_user userID email f l n (og_ID org), Some org))) F d2 = (Inr r, d')"
      using rest unfolding p prod.case Let_def .
    then obtain d3 where
      3: "tell (i + 3) ''failed to create user: '' (\<lambda>d. (Inr (), d\<lparr>tn_users := tn_users d @ [new_user userID email f l n (og_ID org)]\<rparr>)) F d2 = (Inr (), d3)"
      and 4: "tell (i + 4) ''failed to add organisation membership: '' (put_member now userID (og_ID org) role) F d3 = (Inr (), d')"
      by (elim bind_ok) (simp add: tx_return_def)
    have "d1 = d" using 1 by (auto simp: or_none_def GetOrganisationByName_def ask_def tx_return_def split: if_splits option.splits prod.splits sum.splits)
    moreover obtain orgs where "d2 = d1\<lparr>tn_organisations := orgs\<rparr>"
    proof (cases ex)
      case (Some z)
      then show thesis using 2 that [of "tn_organisations d1"] by (simp add: tx_return_def)
    next
      case None
      then show thesis using 2 that by (auto simp: tx_return_def insert_organisation_def Let_def dest!: tell_ok elim!: bind_ok)
    qed
    ultimately have "d3 = d\<lparr>tn_organisations := orgs, tn_users := tn_users d @ [new_user userID email f l n (og_ID org)]\<rparr>"
      using tell_ok [OF 3] by simp
    then have "d' = d\<lparr>tn_organisations := orgs, tn_users := tn_users d @ [new_user userID email f l n (og_ID org)],
        tn_members := tn_members d @ [\<lparr>mb_UserID = userID, mb_OrganisationID = og_ID org, mb_Role = role, mb_CreatedAt = now\<rparr>]\<rparr>"
      using tell_ok [OF 4] no by (simp add: put_member_def)
    then show ?thesis unfolding d'_def [symmetric] by (intro disjI2 exI conjI) (assumption, simp_all add: new_user_def)
  qed simp
  have "tenants_ok (d\<lparr>tn_organisations := orgs, tn_users := tn_users d @ [u], tn_members := tn_members d @ [row]\<rparr>)"
    if "us_ID u = userID" "mb_UserID row = userID" for u row orgs
    using assms that by (force simp: tenants_ok_def user_by_id_def find_None_iff)
  then show ?thesis using cases assms(1) by (auto simp: admins_def)
qed

lemma current_keeps:
  assumes "tenants_ok d"
  shows "tenants_ok (current_state E c F d) \<and> (admins h d \<noteq> [] \<longrightarrow> admins h (current_state E c F d) \<noteq> [])"
proof (cases "user_by_id (cl_UserID c) d")
  case None
  let ?n = "deriveOrganisationName (cl_Email c) None"
  let ?create = "create_user_tx (0 + 1 + 2) (ax_now E) (ax_uuid E 0) (cl_UserID c) (cl_Email c) None None None ?n"
  have get: "GetUser k (cl_UserID c) F d = (Inl (if F k = None then ErrUserNotFound else wrap ''failed to get user: '' (the (F k))), d)" for k
    using None by (simp add: GetUser_def ask_def found_def ErrUserNotFound_def split: option.splits)
  have "current_state E c F d = d \<or> current_state E c F d = snd (?create F d)"
    by (cases "?create F d")
       (simp add: current_state_def current_user_def GetOrCreateUser_def CreateUser_def get failed_not_missing tx_bind_def tx_wrap_def
         tx_return_def split: sum.splits prod.splits)
  then show ?thesis using signup_members [OF assms None] assms by metis
next
  case (Some u)
  then have "current_state E c F d = d"
    by (auto simp: current_state_def current_user_def GetOrCreateUser_def GetUser_def ask_def found_def failed_not_missing split: option.splits)
  then show ?thesis using assms by simp
qed

lemma member_request_keeps:
  assumes "tenants_ok d"
  shows "tenants_ok (snd (OrganisationMemberHandler E cl verb path body F d)) \<and>
    (admins g d \<noteq> [] \<longrightarrow> admins g (snd (OrganisationMemberHandler E cl verb path body F d)) \<noteq> [])"
proof (cases cl)
  case None
  then show ?thesis using assms
    by (auto simp: OrganisationMemberHandler_def updateOrganisationMemberRole_def deleteOrganisationMember_def checked_delete_def
        checked_role_change_def as_admin_def
        GetActiveOrganisation_def with_claims_def respond_def)
next
  case (Some c)
  note now = current_keeps [OF assms, where E = E and c = c and F = F and h = g]
  from member_request [of E c verb path body F d] Some now assms change_keeps_admin [of _ "current_state E c F d" _ g]
  show ?thesis by (metis prod.collapse)
qed

text \<open>C15: an organisation that has an administrator keeps one through every sequence of requests on its
  members that are served one after another, from whomever and whatever fails: no such request by itself
  removes or demotes the last one.  Requests whose statements interleave do not keep this, see
  \<open>concurrent_removals_lose_admin\<close>.\<close>

theorem org_keeps_admin:
  assumes "tenants_ok d" "admins g d \<noteq> []"
  shows "admins g (foldl (\<lambda>d (E, cl, verb, path, body, F). snd (OrganisationMemberHandler E cl verb path body F d)) d reqs) \<noteq> []"
  using assms
proof (induction reqs arbitrary: d)
  case (Cons req reqs)
  obtain E cl verb path body F where "req = (E, cl, verb, path, body, F)" by (metis prod.collapse)
  then show ?case using Cons.IH Cons.prems member_request_keeps [of d E cl verb path body F g] by simp
qed simp

section \<open>Two requests at once\<close>

definition noting :: "string \<Rightarrow> handler \<Rightarrow> handler \<Rightarrow> bool" where
  "noting g k k' \<longleftrightarrow> (\<forall>F d. k F d = (case k' F d of (h, d1) \<Rightarrow> member_write (noted g h) F d1))"

lemma noting_respond: "noted g h = Inl h \<Longrightarrow> noting g (respond h) (respond h)"
  by (simp add: noting_def respond_def member_write_def)

lemma noting_writes:
  "noting g (remove_member m g) (respond (Success (MemberRemoved m)))"
  "noting g (update_role m g role) (respond (Success (RoleUpdated m role)))"
  by (simp_all add: noting_def respond_def member_write_def noted_def)

lemma noting_attempt:
  "(\<And>e. noted g (h e) = Inl (h e)) \<Longrightarrow> (\<And>x. noting g (k x) (k' x)) \<Longrightarrow> noting g (attempt_or m h k) (attempt_or m h k')"
  by (auto simp: noting_def attempt_or_def member_write_def respond_def split: prod.split sum.split)

lemma noting_if: "noting g k k' \<Longrightarrow> noting g l l' \<Longrightarrow> noting g (if b then k else l) (if b then k' else l')"
  by simp

lemma noting_body: "(\<And>x. noting g (k x) (k' x)) \<Longrightarrow> noting g (with_body body k) (with_body body k')"
  by (cases body) (auto simp: with_body_def noted_def intro: noting_respond)

lemma noting_last_admin: "noting g k k' \<Longrightarrow> noting g (last_admin g k) (last_admin g k')"
  unfolding last_admin_def by (intro noting_attempt noting_if noting_respond) (simp_all add: noted_def)

lemma noting_require: "noting g k k' \<Longrightarrow> noting g (requireOrganisationAdmin g u k) (requireOrganisationAdmin g u k')"
  unfolding requireOrganisationAdmin_def by (intro noting_attempt noting_if noting_respond) (simp_all add: noted_def)

lemmas noting_rules = noting_respond noting_attempt noting_if noting_body noting_last_admin noting_writes

text \<open>A request alone is its checks and then its write.\<close>

lemma as_admin_run:
  "as_admin E cl k F d =
     (case cl of
        None \<Rightarrow> (Unauthorised ''User information not found'', d)
      | Some c \<Rightarrow>
          (case current_user E c F d of
             (Inl e, d1) \<Rightarrow> (InternalError e, d1)
           | (Inr u, d1) \<Rightarrow>
               if GetEffectiveOrganisationID u = [] then (BadRequest ''User must belong to an organisation'', d1)
               else requireOrganisationAdmin (active_org E cl F d) (cl_UserID c) (k c (active_org E cl F d)) F d1))"
  by (simp add: as_admin_def GetActiveOrganisation_def with_claims_def attempt_or_def active_org_def respond_def Let_def
      split: option.split prod.split sum.split)

lemma as_admin_noting:
  assumes "\<And>c. noting (active_org E cl F d) (k c (active_org E cl F d)) (k' c (active_org E cl F d))"
  shows "as_admin E cl k F d =
    (case as_admin E cl k' F d of (h, d1) \<Rightarrow> member_write (noted (active_org E cl F d) h) F d1)"
proof -
  have "requireOrganisationAdmin (active_org E cl F d) u (k c (active_org E cl F d)) F d1 =
      (case requireOrganisationAdmin (active_org E cl F d) u (k' c (active_org E cl F d)) F d1 of
         (h, d2) \<Rightarrow> member_write (noted (active_org E cl F d) h) F d2)" for u c d1
    using noting_require [OF assms] unfolding noting_def by blast
  then show ?thesis
    unfolding as_admin_run by (auto simp: member_write_def noted_def respond_def split: option.split prod.split sum.split)
qed

theorem checks_then_write:
  "OrganisationMemberHandler E cl verb path body F d =
     (case member_checks E cl verb path body F d of (x, d1) \<Rightarrow> member_write x F d1)"
proof -
  have delete: "deleteOrganisationMember E cl path F d =
      (case checked_delete (\<lambda>m g. respond (Success (MemberRemoved m))) E cl path F d of
         (h, d1) \<Rightarrow> member_write (noted (active_org E cl F d) h) F d1)"
    unfolding deleteOrganisationMember_def checked_delete_def Let_def
    by (rule as_admin_noting) (intro noting_rules, simp_all add: noted_def)
  have role: "updateOrganisationMemberRole E cl path body F d =
      (case checked_role_change (\<lambda>m g role. respond (Success (RoleUpdated m role))) E cl path body F d of
         (h, d1) \<Rightarrow> member_write (noted (active_org E cl F d) h) F d1)"
    unfolding updateOrganisationMemberRole_def checked_role_change_def Let_def
    by (rule as_admin_noting) (intro noting_rules, simp_all add: noted_def)
  show ?thesis
    by (simp add: OrganisationMemberHandler_def member_checks_def delete role case_prod_beta member_write_def noted_def respond_def)
qed

lemma current_user_known:
  assumes "user_by_id a d = Some u" "\<And>k. F k = None"
  shows "current_user E \<lparr>cl_UserID = a, cl_Email = em\<rparr> F d = (Inr u, d)"
  using assms by (simp add: current_user_def GetOrCreateUser_def GetUser_def run_ask found_def)

lemma delete_checks_pass:
  assumes "user_by_id a d = Some u" "GetEffectiveOrganisationID u = g" "g \<noteq> []" "m \<noteq> []" "\<And>k. F k = None"
    and "role_in a g d = Some ''admin''" "role_in m g d = Some ''admin''" "1 < length (admins g d)"
  shows "member_checks E (Some \<lparr>cl_UserID = a, cl_Email = em\<rparr>) ''DELETE'' (members_path @ m) body F d = (Inr (Remove m g), d)"
proof -
  note user = current_user_known [OF assms(1,5), of E em]
  have org: "active_org E (Some \<lparr>cl_UserID = a, cl_Email = em\<rparr>) F d = g" by (simp add: active_org_def user assms(2))
  have role: "GetOrganisationMemberRole i x g F d = (Inr ''admin'', d)" if "role_in x g d = Some ''admin''" for i x
    using that assms(5) by (auto simp: GetOrganisationMemberRole_def run_ask found_def role_in_def)
  have count: "CountOrganisationAdmins 11 g F d = (Inr (length (admins g d)), d)"
    using assms(5) by (simp add: CountOrganisationAdmins_def run_ask)
  have path: "trim_prefix (members_path @ m) members_path = m" by (simp add: trim_prefix_def)
  show ?thesis
    using assms(3,4,8) by (simp add: member_checks_def checked_delete_def as_admin_run org user assms(2) requireOrganisationAdmin_def
        attempt_or_def role assms(6,7) last_admin_def count path respond_def noted_def)
qed

lemma remove_member_run:
  assumes "role_in m g d \<noteq> None" "F 12 = None"
  shows "remove_member m g F d = (Success (MemberRemoved m), d\<lparr>tn_members := filter (\<lambda>x. \<not> same_member m g x) (tn_members d)\<rparr>)"
proof -
  have "list_ex (same_member m g) (tn_members d)"
    using assms(1) by (auto simp: role_in_def find_None_iff list_ex_iff)
  then show ?thesis using assms(2)
    by (simp add: remove_member_def attempt_or_def RemoveOrganisationMember_def run_tell respond_def)
qed

text \<open>C40: the count of the administrators and the removal are separate statements.  When the two
  administrators of an organisation remove each other at the same time, both counts see two of them, both
  requests succeed, and the organisation is left without an administrator.\<close>

theorem concurrent_removals_lose_admin:
  assumes "user_by_id a d = Some ua" "user_by_id b d = Some ub" "a \<noteq> b" "a \<noteq> []" "b \<noteq> []"
    and "GetEffectiveOrganisationID ua = g" "GetEffectiveOrganisationID ub = g" "g \<noteq> []"
    and "role_in a g d = Some ''admin''" "role_in b g d = Some ''admin''" "mb_UserID ` set (admins g d) \<subseteq> {a, b}"
    and "\<And>k. F1 k = None" "\<And>k. F2 k = None"
  shows "\<exists>d'. member_race (member_checks E1 (Some \<lparr>cl_UserID = a, cl_Email = em1\<rparr>) ''DELETE'' (members_path @ b) body1)
      (member_checks E2 (Some \<lparr>cl_UserID = b, cl_Email = em2\<rparr>) ''DELETE'' (members_path @ a) body2) F1 F2 d =
        ((Success (MemberRemoved b), Success (MemberRemoved a)), d') \<and>
    admins g d' = []"
proof -
  have mem: "x \<in> mb_UserID ` set (admins g d)" if role: "role_in x g d = Some ''admin''" for x
  proof -
    obtain r where r: "find (same_member x g) (tn_members d) = Some r" "mb_Role r = ''admin''"
      using role by (auto simp: role_in_def)
    then have "r \<in> set (tn_members d)" "same_member x g r" by (auto simp: find_Some_iff)
    then show ?thesis using r(2) by (auto simp: admins_def same_member_def)
  qed
  have "{a, b} \<subseteq> mb_UserID ` set (admins g d)" using mem [OF assms(9)] mem [OF assms(10)] by auto
  then have "card {a, b} \<le> card (mb_UserID ` set (admins g d))" by (intro card_mono) auto
  also have "\<dots> \<le> length (admins g d)" using card_image_le card_length le_trans by (metis List.finite_set)
  finally have two: "1 < length (admins g d)" using assms(3) by simp
  note c1 = delete_checks_pass [OF assms(1,6,8,5,12,9,10) two, of E1 em1 body1]
  note c2 = delete_checks_pass [OF assms(2,7,8,4,13,10,9) two, of E2 em2 body2]
  let ?d3 = "d\<lparr>tn_members := filter (\<lambda>x. \<not> same_member b g x) (tn_members d)\<rparr>"
  have w1: "remove_member b g F1 d = (Success (MemberRemoved b), ?d3)"
    by (rule remove_member_run) (use assms(10,12) in simp_all)
  have "role_in a g ?d3 = role_in a g d"
  proof -
    have "find (same_member a g) (filter (\<lambda>x. \<not> same_member b g x) ms) = find (same_member a g) ms" for ms
      using assms(3) by (induction ms) (auto simp: same_member_def)
    then show ?thesis by (simp add: role_in_def)
  qed
  then have w2: "remove_member a g F2 ?d3 = (Success (MemberRemoved a),
      ?d3\<lparr>tn_members := filter (\<lambda>x. \<not> same_member a g x) (tn_members ?d3)\<rparr>)"
    by (intro remove_member_run) (use assms(9,13) in simp_all)
  have "admins g (?d3\<lparr>tn_members := filter (\<lambda>x. \<not> same_member a g x) (tn_members ?d3)\<rparr>) = []"
    using assms(11) by (auto simp: admins_def same_member_def filter_empty_conv)
  then show ?thesis by (auto simp: member_race_def c1 c2 member_write_def w1 w2 Let_def)
qed

section \<open>After a member is removed\<close>

text \<open>C38: a removed member keeps working in the organisation.  Removing the row of the membership leaves the
  active organisation of the user as it was, and \<open>GetActiveOrganisation\<close> does not ask for a membership: every
  request that only asks for it is served as before, here the usage of the organisation.\<close>

theorem removed_member_keeps_access:
  assumes "user_by_id victim d = Some u" "us_ActiveOrganisationID u = Some orgID" "orgID \<noteq> []"
    and "RemoveOrganisationMember i victim orgID F d = (Inr v, d')"
    and "\<And>k. G k = None"
  shows "\<not> list_ex (same_member victim orgID) (tn_members d') \<and>
    UsageHistoryHandler E (Some \<lparr>cl_UserID = victim, cl_Email = email\<rparr>) ''GET'' [] G d' =
      (Success (History 30 (sort_key (\<lambda>r. - ur_Day r)
         (filter (\<lambda>r. ur_OrganisationID r = orgID \<and> ax_today E - 29 \<le> ur_Day r \<and> ur_Day r \<le> ax_today E) (tn_usage d)))), d')"
proof -
  have d': "d' = d\<lparr>tn_members := filter (\<lambda>m. \<not> same_member victim orgID m) (tn_members d)\<rparr>"
    using assms(4) by (auto simp: RemoveOrganisationMember_def tell_def split: option.splits if_splits)
  have "GetOrCreateUser k now uuid victim em None G d' = (Inr u, d')" for k now uuid em
    using assms(1,5) by (simp add: GetOrCreateUser_def GetUser_def run_ask found_def d' user_by_id_def)
  moreover have "GetEffectiveOrganisationID u = orgID" using assms(2,3) by (simp add: GetEffectiveOrganisationID_def)
  ultimately have "UsageHistoryHandler E (Some \<lparr>cl_UserID = victim, cl_Email = email\<rparr>) ''GET'' [] G d' =
      (Success (History 30 (sort_key (\<lambda>r. - ur_Day r)
         (filter (\<lambda>r. ur_OrganisationID r = orgID \<and> ax_today E - 29 \<le> ur_Day r \<and> ur_Day r \<le> ax_today E) (tn_usage d')))), d')"
    using assms(3,5) by (simp add: UsageHistoryHandler_def GetActiveOrganisation_def with_claims_def attempt_or_def current_user_def
        ListDailyUsage_def run_ask respond_def)
  then show ?thesis by (auto simp: d' list_ex_iff)
qed

section \<open>Examples\<close>

definition demo_api :: api_env where
  "demo_api = \<lparr>ax_now = 100, ax_today = 20, ax_uuid = (\<lambda>k. ''new''), ax_address = Some, ax_delivery = Sent\<rparr>"

definition demo_invite :: invite where
  "demo_invite = \<lparr>iv_ID = ''i1'', iv_OrganisationID = ''o1'', iv_Email = ''b@acme.com'', iv_Role = ''member'', iv_Token = ''t'',
     iv_CreatedBy = ''a'', iv_CreatedAt = 0, iv_ExpiresAt = 1000, iv_AcceptedAt = None, iv_RevokedAt = None\<rparr>"

definition demo_tenants :: tenants where
  "demo_tenants = \<lparr>tn_users = [new_user ''a'' ''a@acme.com'' None None None ''o1'', new_user ''b'' ''b@acme.com'' None None None ''o1''],
     tn_organisations = [\<lparr>og_ID = ''o1'', og_Name = ''Acme'', og_CreatedAt = 0, og_PlanID = ''p''\<rparr>],
     tn_members = [\<lparr>mb_UserID = ''a'', mb_OrganisationID = ''o1'', mb_Role = ''admin'', mb_CreatedAt = 0\<rparr>,
       \<lparr>mb_UserID = ''b'', mb_OrganisationID = ''o1'', mb_Role = ''member'', mb_CreatedAt = 1\<rparr>],
     tn_invites = [demo_invite], tn_plans = [],
     tn_usage = [\<lparr>ur_OrganisationID = ''o1'', ur_Day = 19, ur_PagesProcessed = 7, ur_JobsCreated = 1\<rparr>]\<rparr>"

lemma demo_tenants_ok: "tenants_ok demo_tenants" "admins ''o1'' demo_tenants = [\<lparr>mb_UserID = ''a'', mb_OrganisationID = ''o1'', mb_Role = ''admin'', mb_CreatedAt = 0\<rparr>]"
  by (simp_all add: tenants_ok_def demo_tenants_def new_user_def admins_def)

theorem accept_demotes_last_admin_witness:
  "\<exists>d'. AcceptOrganisationInvite 0 100 ''t'' ''a'' (\<lambda>k. None) demo_tenants = (Inr demo_invite, d') \<and> admins ''o1'' d' = []"
  using accept_demotes_last_admin [of "''t''" demo_tenants demo_invite 100 _ "''a''" 0] demo_tenants_ok(2)
  by (simp add: demo_tenants_def demo_invite_def invite_pending_def)

theorem invite_accepted_once_witness:
  "\<exists>d'. AcceptOrganisationInvite 0 100 ''t'' ''a'' (\<lambda>k. None) demo_tenants = (Inr demo_invite, d') \<and>
     (\<exists>e. AcceptOrganisationInvite 0 200 ''t'' ''b'' (\<lambda>k. None) d' = (Inl e, d'))"
proof -
  have "\<exists>d'. AcceptOrganisationInvite 0 100 ''t'' ''a'' (\<lambda>k. None) demo_tenants = (Inr demo_invite, d')"
    by (simp add: AcceptOrganisationInvite_def atomically_def tx_bind_def GetOrganisationInviteByToken_def run_ask run_tell
        found_def tx_return_def put_member_def demo_tenants_def demo_invite_def)
  then show ?thesis using invite_accepted_once by meson
qed

theorem org_keeps_admin_witness:
  "admins ''o1'' (foldl (\<lambda>d (E, cl, method, path, body, F). snd (OrganisationMemberHandler E cl method path body F d)) demo_tenants
     [(demo_api, Some \<lparr>cl_UserID = ''a'', cl_Email = ''a@acme.com''\<rparr>, ''DELETE'', members_path @ ''a'', None, \<lambda>k. None)]) \<noteq> []"
  by (rule org_keeps_admin) (simp_all add: demo_tenants_ok)

definition two_admins :: tenants where
  "two_admins = demo_tenants\<lparr>tn_members := [\<lparr>mb_UserID = ''a'', mb_OrganisationID = ''o1'', mb_Role = ''admin'', mb_CreatedAt = 0\<rparr>,
     \<lparr>mb_UserID = ''b'', mb_OrganisationID = ''o1'', mb_Role = ''admin'', mb_CreatedAt = 1\<rparr>]\<rparr>"

theorem concurrent_removals_lose_admin_witness:
  "admins ''o1'' two_admins \<noteq> [] \<and>
   admins ''o1'' (snd (member_race
     (member_checks demo_api (Some \<lparr>cl_UserID = ''a'', cl_Email = ''a@acme.com''\<rparr>) ''DELETE'' (members_path @ ''b'') None)
     (member_checks demo_api (Some \<lparr>cl_UserID = ''b'', cl_Email = ''b@acme.com''\<rparr>) ''DELETE'' (members_path @ ''a'') None)
     (\<lambda>k. None) (\<lambda>k. None) two_admins)) = []"
proof -
  have "\<exists>d'. member_race
      (member_checks demo_api (Some \<lparr>cl_UserID = ''a'', cl_Email = ''a@acme.com''\<rparr>) ''DELETE'' (members_path @ ''b'') None)
      (member_checks demo_api (Some \<lparr>cl_UserID = ''b'', cl_Email = ''b@acme.com''\<rparr>) ''DELETE'' (members_path @ ''a'') None)
      (\<lambda>k. None) (\<lambda>k. None) two_admins = ((Success (MemberRemoved ''b''), Success (MemberRemoved ''a'')), d') \<and> admins ''o1'' d' = []"
    by (rule concurrent_removals_lose_admin [of "''a''" _ "new_user ''a'' ''a@acme.com'' None None None ''o1''" "''b''"
          "new_user ''b'' ''b@acme.com'' None None None ''o1''"])
       (simp_all add: two_admins_def demo_tenants_def user_by_id_def new_user_def GetEffectiveOrganisationID_def role_in_def
         same_member_def admins_def)
  then show ?thesis by (auto simp: two_admins_def admins_def)
qed

theorem removed_member_keeps_access_witness:
  "\<exists>d'. RemoveOrganisationMember 0 ''b'' ''o1'' (\<lambda>k. None) demo_tenants = (Inr (), d') \<and>
     fst (UsageHistoryHandler demo_api (Some \<lparr>cl_UserID = ''b'', cl_Email = ''b@acme.com''\<rparr>) ''GET'' [] (\<lambda>k. None) d') =
       Success (History 30 (tn_usage demo_tenants))"
proof -
  obtain d' where r: "RemoveOrganisationMember 0 ''b'' ''o1'' (\<lambda>k. None) demo_tenants = (Inr (), d')"
    by (simp add: RemoveOrganisationMember_def run_tell demo_tenants_def same_member_def)
  have u: "user_by_id ''b'' demo_tenants = Some (new_user ''b'' ''b@acme.com'' None None None ''o1'')"
    by (simp add: user_by_id_def demo_tenants_def new_user_def)
  show ?thesis using r removed_member_keeps_access [OF u _ _ r, of "\<lambda>k. None" demo_api "''b@acme.com''"]
    by (simp add: new_user_def demo_tenants_def demo_api_def)
qed

theorem same_name_joins_witness:
  "\<exists>d'. GetOrCreateUser 0 100 ''n'' ''c'' ''c@acme.io'' None (\<lambda>k. None) demo_tenants =
      (Inr (new_user ''c'' ''c@acme.io'' None None None ''o1''), d') \<and> list_ex (same_member ''c'' ''o1'') (tn_members d')"
proof -
  let ?org = "\<lparr>og_ID = ''o1'', og_Name = ''Acme'', og_CreatedAt = 0, og_PlanID = ''p''\<rparr>"
  have b: "isBusinessEmail ''c@acme.io''" by code_simp
  have n: "user_by_id ''c'' demo_tenants = None" by (simp add: demo_tenants_def user_by_id_def new_user_def)
  have "to_lower (deriveOrganisationName ''c@acme.io'' None) = ''acme''" "to_lower ''Acme'' = ''acme''" by code_simp+
  then have "find (\<lambda>g. to_lower (og_Name g) = to_lower (deriveOrganisationName ''c@acme.io'' None)) (tn_organisations demo_tenants) = Some ?org"
    by (simp add: demo_tenants_def)
  from same_name_joins [OF b n this, of 0 100 "''n''"] show ?thesis by auto
qed

definition demo_promote :: "http \<times> tenants" where
  "demo_promote = OrganisationMemberHandler demo_api (Some \<lparr>cl_UserID = ''a'', cl_Email = ''a@acme.com''\<rparr>) ''PATCH''
     (members_path @ ''b'') (Some ''admin'') (\<lambda>k. None) demo_tenants"

lemma demo_promoted: "map mb_Role (tn_members (snd demo_promote)) = [''admin'', ''admin'']"
  by code_simp

theorem member_changes_guarded_witness:
  "\<exists>u. current_user demo_api \<lparr>cl_UserID = ''a'', cl_Email = ''a@acme.com''\<rparr> (\<lambda>k. None) demo_tenants = (Inr u, demo_tenants) \<and>
     others (GetEffectiveOrganisationID u) (snd demo_promote) = others (GetEffectiveOrganisationID u) demo_tenants"
proof -
  let ?c = "\<lparr>cl_UserID = ''a'', cl_Email = ''a@acme.com''\<rparr>"
  have s: "current_state demo_api ?c (\<lambda>k. None) demo_tenants = demo_tenants"
    by (simp add: current_state_def current_user_def GetOrCreateUser_def GetUser_def run_ask found_def user_by_id_def demo_tenants_def new_user_def)
  have "tn_members (snd demo_promote) \<noteq> tn_members demo_tenants" using demo_promoted by (auto simp: demo_tenants_def)
  then show ?thesis
    using member_changes_guarded [of demo_api ?c "''PATCH''" "members_path @ ''b''" "Some ''admin''" "\<lambda>k. None" demo_tenants
        "fst demo_promote" "snd demo_promote"] s
    by (auto simp: demo_promote_def)
qed

end
