(* ===== verification/Spec2Isabelle.thy ===== *)
theory Spec2Isabelle
  imports Broker_Counters Broker_Pacer Broker_Dispatcher Broker_Consumer Broker_Outbox Broker_Redis Jobs_StreamWorker
    Db_Batch Db_Pages Jobs_Create Jobs_HtmlPersister Analysis_Consumer Crawler_Sitemap Crawler_Waf Api_Organisations
begin

text \<open>
  Hover is a web crawler with a job queue.  A job crawls the pages of one domain.  Its tasks, one for
  each page, live in PostgreSQL; a mirror of them travels through Redis to the workers and back:

  \<^item> \<open>jobs/manager.go\<close> creates a job, reads the sitemaps of its domain, turns URLs into pages
    (\<open>db/pages.go\<close>) and pages into tasks (\<open>db/queue.go\<close>).  Every new task is written with a row
    of the table \<open>task_outbox\<close> in one statement; triggers keep the counters of the job.
  \<^item> \<open>broker/outbox.go\<close> moves outbox rows into the sorted set of the job in Redis,
    \<open>broker/dispatcher.go\<close> moves due members from there into the stream of the job, as far as the
    concurrency of the job (\<open>broker/counters.go\<close>) and the pace of the domain
    (\<open>broker/pacer.go\<close>) allow.
  \<^item> \<open>jobs/stream_worker.go\<close> reads the stream (\<open>broker/consumer.go\<close>), crawls the page
    (\<open>jobs/executor.go\<close>), settles the message, hands the result to the batch manager
    (\<open>db/batch.go\<close>), the page to the persister (\<open>jobs/html_persister.go\<close>) and the links to
    \<open>jobs/link_discovery.go\<close>; refusals of a firewall, which \<open>crawler/waf.go\<close> recognises, count in
    \<open>jobs/waf_circuit_breaker.go\<close>.
  \<^item> \<open>lighthouse/scheduler.go\<close> samples pages for an audit as the job goes on (\<open>lighthouse/sampler.go\<close>)
    and writes a run (\<open>db/lighthouse.go\<close>) with an outbox row for each; \<open>cmd/analysis\<close> reads the
    streams of audits, runs them and records their results.
  \<^item> \<open>api/organisations.go\<close> serves the requests on organisations, members and invitations, which
    \<open>db/users.go\<close> and \<open>db/organisations.go\<close> keep.

  Theories and sources (below \<open>src/internal\<close> unless said otherwise):

  \<^item> \<open>Go_Prelude\<close>, \<open>Go_Url\<close>: the parts of the Go library in use (strings, numbers, URLs).
  \<^item> \<open>Redis_Model\<close>: the interface of the Redis server as locales.  \<open>redis_server\<close> says what a
    single command, a pipeline and a transaction may do, each of which can fail before or after it was
    applied; \<open>redis_reliable\<close> adds that a reply is true.  Both are interpreted on an executable store.
  \<^item> \<open>Broker_Scheduler\<close>, \<open>Broker_Pacer\<close>, \<open>Broker_Counters\<close>, \<open>Broker_Dispatcher\<close>, \<open>Broker_Consumer\<close>,
    \<open>Broker_Outbox\<close>, \<open>Broker_Redis\<close>: the files of \<open>broker\<close>.  The hooks of the dispatcher are the locale
    \<open>dispatch_hooks\<close>, the promise of a capacity check \<open>capacity_hooks\<close>; both are interpreted by
    the worker pool in \<open>Jobs_StreamWorker\<close>.
  \<^item> \<open>Util_Url\<close> (\<open>util/url.go\<close>), \<open>Crawler_Robots\<close> (\<open>crawler/robots.go\<close>), \<open>Crawler_Waf\<close>
    (\<open>crawler/waf.go\<close>), \<open>Crawler_Sitemap\<close> (\<open>ParseSitemap\<close> of \<open>crawler/sitemap.go\<close>).
  \<^item> \<open>Jobs_Executor\<close>, \<open>Jobs_WafBreaker\<close>, \<open>Jobs_LinkDiscovery\<close>, \<open>Jobs_StreamWorker\<close>,
    \<open>Jobs_HtmlPersister\<close>: the worker side of \<open>jobs\<close>.
  \<^item> \<open>Db_Pressure\<close>, \<open>Db_Execute\<close>: \<open>db/pressure.go\<close> and the transactions of \<open>db/queue.go\<close>.
    A transaction is a function of its faults and the database to a result and a database; an attempt
    carries what the environment does to it: a slot that is not free, a failure of any statement, a
    commit that fails and may have been applied all the same.  The type of the database is a parameter.
    Errors of the database have the type of the driver \<open>pgx\<close>, which \<open>db.go\<close> opens; \<open>isRetryableError\<close>
    of \<open>db/batch.go\<close> asks for the type of another driver, so a theorem on it says which errors it is about.
  \<^item> \<open>Db_Model\<close>: the tables and triggers of \<open>supabase/migrations\<close> the rest relies on.
  \<^item> \<open>Db_Queue\<close>, \<open>Db_Batch\<close>, \<open>Db_Pages\<close>: the other operations of \<open>db/queue.go\<close>, and
    \<open>db/batch.go\<close> and \<open>db/pages.go\<close>.
  \<^item> \<open>Jobs_Manager\<close>, \<open>Jobs_Sitemap\<close>, \<open>Jobs_Create\<close>: \<open>jobs/manager.go\<close>.
  \<^item> \<open>Lighthouse_Sampler\<close>, \<open>Lighthouse_Runs\<close>, \<open>Analysis_Consumer\<close>: the audits.  The runner of an
    audit is a function that may change the stream and the tables in any way.
  \<^item> \<open>Db_Organisations\<close>, \<open>Api_Organisations\<close>: users and organisations, and the requests on them.  A
    handler is a run of numbered statements, each of which may fail, that ends in a reply.  Handlers are
    served one after another, except in \<open>member_race\<close>, where two requests both make their checks before
    either writes.

  State.  A Go struct is a record with the fields the code reads; a Redis client is a parameter that
  threads an abstract world; a goroutine is a step of a run over a list of events, so that theorems
  about runs hold for every interleaving of the steps.  Times and durations are integers of nanoseconds
  and machine integers wrap where the code can reach the bound (\<open>64 word\<close>).  Floating-point
  numbers are rationals.

  Lemmas.  Each theory proves its invariant and that every operation keeps it (\<open>broker_counters_ok\<close>,
  \<open>counters_ok\<close>, \<open>queue_ok\<close>, \<open>pool_ok\<close>, \<open>pressure_ok\<close>, \<open>persister_ok\<close>), what an operation
  does on each branch, and then the properties that are numbered.  The collection \<open>tx_keeps\<close> holds
  what the combinators of transactions keep, so that an invariant of a statement becomes one of every
  attempt, retry and lost reply (\<open>execute_tx_keeps\<close>).  Some numbered properties state how the code
  fails; the texts before them say so.

  Bounds.  A transaction makes \<open>max 1 maxTxRetries\<close> attempts, which is the fuel of
  \<open>execute_attempts\<close>; a shutdown flush makes \<open>MaxShutdownRetries\<close>; the sweeps of Redis keys take the
  number of pages of an iteration, and \<open>remove_job_keys_complete\<close> shows that there always is one that
  suffices; the loops over overflow and batches of URLs end by a measure.  The depth of \<open>ParseSitemap\<close> is
  enough when it exceeds a rank that falls from an index to its children (\<open>sitemap_terminates\<close>).

  Not modelled.  PostgreSQL, Redis, the HTTP client and cold storage are services and appear as
  parameters.  The other HTTP handlers and sessions (\<open>api\<close>, \<open>auth\<close>), read-only reports
  (\<open>db/dashboard.go\<close>), third-party connections (Google, Slack, Webflow, Loops), metrics, tracing and
  logging, the test doubles (\<open>mocks\<close>, \<open>testutil\<close>), command-line tools and process start-up
  (\<open>cmd\<close>) are glue around these services.  Timers and goroutine start-up of modelled components are
  left out; what they call is modelled as steps.
\<close>

end
